(* ===== verification/Go_Prelude.thy ===== *)
theory Go_Prelude
  imports Complex_Main "HOL-Library.Word"
begin

text \<open>
  Shared vocabulary of the development: Go's error values, the result of a Go call that returns
  \<open>(value, error)\<close> and changes state, Go's 64-bit \<open>int\<close>, and tables as lists of rows.
  Every component theory imports this one.

  A Go call is a function from the state of the process to the pair of its result and the state
  after it; the result is \<open>Inl err\<close> for a non-nil error and \<open>Inr v\<close> for a nil one.
\<close>

named_theorems go_run \<open>evaluation of the call combinators\<close>
named_theorems wp \<open>weakest preconditions of the call combinators and of the primitive calls\<close>
named_theorems frame \<open>what a call leaves alone\<close>


section \<open>Error values\<close>

text \<open>
  \<open>New\<close> is a package variable made with \<open>errors.New\<close>, named by its variable and its
  text; \<open>Driver\<close> is an error made by a library; \<open>Errorf\<close> is
  \<open>fmt.Errorf("prefix: %w", e)\<close>, and \<open>ErrorfNil\<close> the same call with a nil error.
\<close>

datatype err =
    New string string
  | Driver string
  | Errorf string err
  | ErrorfNil string

text \<open>\<open>errors.Is\<close> compares the error and everything it wraps with the target.\<close>

fun errors_Is :: "err \<Rightarrow> err \<Rightarrow> bool" where
  "errors_Is (Errorf w e) t = (Errorf w e = t \<or> errors_Is e t)"
| "errors_Is e t = (e = t)"

text \<open>The text of an error, as \<open>err.Error()\<close> returns it.\<close>

fun err_Error :: "err \<Rightarrow> string" where
  "err_Error (New x msg) = msg"
| "err_Error (Driver msg) = msg"
| "err_Error (Errorf w e) = w @ '': '' @ err_Error e"
| "err_Error (ErrorfNil w) = w @ '': %!w(<nil>)''"

lemma errors_Is_refl [simp]: "errors_Is e e"
  by (cases e) auto

lemma errors_Is_New [simp]: "errors_Is (New x m) t \<longleftrightarrow> New x m = t"
  by simp


section \<open>Calls that change state and may return an error\<close>

type_synonym ('s, 'a) go = "'s \<Rightarrow> (err + 'a) \<times> 's"

definition go_return :: "'a \<Rightarrow> ('s, 'a) go" where
  "go_return a s = (Inr a, s)"

definition go_fail :: "err \<Rightarrow> ('s, 'a) go" where
  "go_fail e s = (Inl e, s)"

text \<open>\<open>v, err := m(); if err != nil { h(err) }; k(v)\<close>\<close>

definition go_catch ::
  "('s, 'a) go \<Rightarrow> (err \<Rightarrow> ('s, 'b) go) \<Rightarrow> ('a \<Rightarrow> ('s, 'b) go) \<Rightarrow> ('s, 'b) go" where
  "go_catch m h k s =
     (case m s of (Inl e, s') \<Rightarrow> h e s' | (Inr a, s') \<Rightarrow> k a s')"

text \<open>\<open>if err != nil { return err }\<close>\<close>

definition go_bind :: "('s, 'a) go \<Rightarrow> ('a \<Rightarrow> ('s, 'b) go) \<Rightarrow> ('s, 'b) go" where
  "go_bind m k = go_catch m go_fail k"

text \<open>\<open>if err != nil { return fmt.Errorf("w: %w", err) }\<close>\<close>

definition go_try :: "('s, 'a) go \<Rightarrow> string \<Rightarrow> ('a \<Rightarrow> ('s, 'b) go) \<Rightarrow> ('s, 'b) go" where
  "go_try m w k = go_catch m (\<lambda>e. go_fail (Errorf w e)) k"

text \<open>A call whose result does not depend on the state.\<close>

definition go_lift :: "err + 'a \<Rightarrow> ('s, 'a) go" where
  "go_lift r s = (r, s)"

lemma go_eval [go_run]:
  "go_return a s = (Inr a, s)"
  "go_fail e s = (Inl e, s)"
  "go_lift r s = (r, s)"
  "go_catch m h k s = (case m s of (Inl e, s') \<Rightarrow> h e s' | (Inr a, s') \<Rightarrow> k a s')"
  "go_bind m k s = (case m s of (Inl e, s') \<Rightarrow> (Inl e, s') | (Inr a, s') \<Rightarrow> k a s')"
  "go_try m w k s = (case m s of (Inl e, s') \<Rightarrow> (Inl (Errorf w e), s') | (Inr a, s') \<Rightarrow> k a s')"
  by (simp_all add: go_return_def go_fail_def go_lift_def go_catch_def go_bind_def go_try_def
        split: prod.split sum.split)

subsection \<open>Weakest preconditions\<close>

text \<open>
  \<open>wpc m Q E s\<close>: the call \<open>m\<close>, started in \<open>s\<close>, ends in a state that satisfies
  \<open>Q v\<close> if it returns the value \<open>v\<close>, and \<open>E e\<close> if it returns the error \<open>e\<close>.
\<close>

definition wpc ::
  "('s, 'a) go \<Rightarrow> ('a \<Rightarrow> 's \<Rightarrow> bool) \<Rightarrow> (err \<Rightarrow> 's \<Rightarrow> bool) \<Rightarrow> 's \<Rightarrow> bool" where
  "wpc m Q E s = (case m s of (Inl e, s') \<Rightarrow> E e s' | (Inr a, s') \<Rightarrow> Q a s')"

lemma wpc_return [wp]: "wpc (go_return a) Q E = Q a"
  by (simp add: wpc_def go_return_def fun_eq_iff)

lemma wpc_fail [wp]: "wpc (go_fail e) Q E = E e"
  by (simp add: wpc_def go_fail_def fun_eq_iff)

lemma wpc_lift [wp]: "wpc (go_lift r) Q E = (case r of Inl e \<Rightarrow> E e | Inr a \<Rightarrow> Q a)"
  by (simp add: wpc_def go_lift_def fun_eq_iff split: sum.split)

lemma wpc_catch [wp]:
  "wpc (go_catch m h k) Q E = wpc m (\<lambda>a. wpc (k a) Q E) (\<lambda>e. wpc (h e) Q E)"
  by (simp add: wpc_def go_catch_def fun_eq_iff split: prod.split sum.split)

lemma wpc_bind [wp]: "wpc (go_bind m k) Q E = wpc m (\<lambda>a. wpc (k a) Q E) E"
  by (simp add: go_bind_def wp)

lemma wpc_try [wp]:
  "wpc (go_try m w k) Q E = wpc m (\<lambda>a. wpc (k a) Q E) (\<lambda>e. E (Errorf w e))"
  by (simp add: go_try_def wp)

lemma wpc_if: "wpc (if b then m else m') Q E = (if b then wpc m Q E else wpc m' Q E)"
  by simp

lemma wpc_mono:
  "wpc m Q E s \<Longrightarrow> (\<And>a s'. Q a s' \<Longrightarrow> Q' a s') \<Longrightarrow> (\<And>e s'. E e s' \<Longrightarrow> E' e s')
   \<Longrightarrow> wpc m Q' E' s"
  by (auto simp: wpc_def split: prod.splits sum.splits)

lemma wpc_post: "wpc m (\<lambda>_. P) (\<lambda>_. P) s \<longleftrightarrow> P (snd (m s))"
  by (simp add: wpc_def split: prod.split sum.split)

lemma wpc_result: "m s = (r, s') \<Longrightarrow> wpc m Q E s \<longleftrightarrow> (case r of Inl e \<Rightarrow> E e s' | Inr a \<Rightarrow> Q a s')"
  by (simp add: wpc_def split: sum.split)

lemma wpc_conj:
  "wpc m Q E s \<Longrightarrow> wpc m Q' E' s \<Longrightarrow> wpc m (\<lambda>a s. Q a s \<and> Q' a s) (\<lambda>e s. E e s \<and> E' e s) s"
  by (auto simp: wpc_def split: prod.splits sum.splits)


section \<open>Go's int\<close>

text \<open>
  \<open>int\<close> has 64 bits and wraps; \<open><=s\<close> and \<open><s\<close> are its comparisons.
  \<open>int4_ok\<close> is the range of a PostgreSQL INT column.
\<close>

type_synonym go_int = "64 word"

definition int4_ok :: "int \<Rightarrow> bool" where
  "int4_ok i \<longleftrightarrow> - (2 ^ 31) \<le> i \<and> i < 2 ^ 31"

definition int8_ok :: "int \<Rightarrow> bool" where
  "int8_ok i \<longleftrightarrow> - (2 ^ 63) \<le> i \<and> i < 2 ^ 63"

lemma int8_ok_sint [simp]: "int8_ok (sint (a :: go_int))"
  using sint_greater_eq [of a] sint_lt [of a] by (simp add: int8_ok_def)

lemma int4_ok_imp_int8_ok: "int4_ok i \<Longrightarrow> int8_ok i"
  by (simp add: int4_ok_def int8_ok_def)

lemma sint_of_int8 [simp]: "int8_ok i \<Longrightarrow> sint (word_of_int i :: go_int) = i"
  by (simp add: sint_sbintrunc' signed_take_bit_int_eq_self int8_ok_def)

lemma sint_of_int4 [simp]: "int4_ok i \<Longrightarrow> sint (word_of_int i :: go_int) = i"
  by (simp add: int4_ok_imp_int8_ok)

lemma sint_add_in_range:
  "int8_ok (sint a + sint b) \<Longrightarrow> sint (a + b) = sint a + sint (b :: go_int)"
  by (simp add: sint_word_ariths signed_take_bit_int_eq_self int8_ok_def)

lemma sint_diff_in_range:
  "int8_ok (sint a - sint b) \<Longrightarrow> sint (a - b) = sint a - sint (b :: go_int)"
  by (simp add: sint_word_ariths signed_take_bit_int_eq_self int8_ok_def)

lemma sless_iff: "(a :: go_int) <s b \<longleftrightarrow> sint a < sint b"
  by (simp add: word_sless_alt)

lemma sle_iff: "(a :: go_int) <=s b \<longleftrightarrow> sint a \<le> sint b"
  by (simp add: word_sle_eq)


text \<open>Going through the elements of an explicit list.\<close>

lemma in_set_cases: "x \<in> set (y # ys) \<Longrightarrow> (x = y \<Longrightarrow> P) \<Longrightarrow> (x \<in> set ys \<Longrightarrow> P) \<Longrightarrow> P"
  by auto


section \<open>Tables as lists of rows\<close>

text \<open>\<open>UPDATE t SET ... WHERE P\<close> on a list of rows.\<close>

definition upd_where :: "('r \<Rightarrow> bool) \<Rightarrow> ('r \<Rightarrow> 'r) \<Rightarrow> 'r list \<Rightarrow> 'r list" where
  "upd_where P f rs = map (\<lambda>r. if P r then f r else r) rs"

lemma length_upd_where [simp]: "length (upd_where P f rs) = length rs"
  by (simp add: upd_where_def)

lemma upd_where_Nil [simp]: "upd_where P f [] = []"
  by (simp add: upd_where_def)

lemma upd_where_Cons [simp]:
  "upd_where P f (r # rs) = (if P r then f r else r) # upd_where P f rs"
  by (simp add: upd_where_def)

lemma upd_where_append [simp]: "upd_where P f (rs @ ts) = upd_where P f rs @ upd_where P f ts"
  by (simp add: upd_where_def)

lemma in_set_upd_where:
  "x \<in> set (upd_where P f rs) \<longleftrightarrow> (\<exists>r \<in> set rs. x = (if P r then f r else r))"
  by (auto simp: upd_where_def)

lemma map_upd_where_id [simp]:
  "(\<And>r. P r \<Longrightarrow> g (f r) = g r) \<Longrightarrow> map g (upd_where P f rs) = map g rs"
  by (auto simp: upd_where_def)

lemma upd_where_none: "(\<And>r. r \<in> set rs \<Longrightarrow> \<not> P r) \<Longrightarrow> upd_where P f rs = rs"
  by (induction rs) auto

lemma filter_upd_where_other:
  "(\<And>r. r \<in> set rs \<Longrightarrow> P r \<Longrightarrow> \<not> R r \<and> \<not> R (f r)) \<Longrightarrow> filter R (upd_where P f rs) = filter R rs"
  by (induction rs) auto

lemma find_by_key: "find (\<lambda>r. key r = k) rs = Some r \<Longrightarrow> r \<in> set rs \<and> key r = k"
  by (auto simp: find_Some_iff)

lemma find_distinct_key:
  "distinct (map key rs) \<Longrightarrow> r \<in> set rs \<Longrightarrow> key r = k \<Longrightarrow> find (\<lambda>r. key r = k) rs = Some r"
  by (induction rs) (auto simp: image_iff)

text \<open>A key that is distinct in the table names at most one row.\<close>

lemma distinct_key_eq:
  "distinct (map key rs) \<Longrightarrow> r \<in> set rs \<Longrightarrow> r' \<in> set rs \<Longrightarrow> key r = key r' \<Longrightarrow> r = r'"
  by (auto simp: distinct_map inj_on_def)

text \<open>The rows with a given key, as the one row there is.\<close>

lemma filter_distinct_key:
  "distinct (map key rs) \<Longrightarrow> r \<in> set rs \<Longrightarrow> filter (\<lambda>x. key x = key r) rs = [r]"
proof (induction rs)
  case Nil
  then show ?case by simp
next
  case (Cons a rs)
  show ?case
  proof (cases "a = r")
    case True
    with Cons.prems have "\<forall>x \<in> set rs. key x \<noteq> key r" by (auto simp: image_iff)
    with True show ?thesis by (simp add: filter_False)
  next
    case False
    with Cons.prems have r: "r \<in> set rs" by simp
    with Cons.prems have "key a \<noteq> key r" by (auto simp: image_iff)
    with Cons.IH Cons.prems r show ?thesis by simp
  qed
qed

text \<open>Sums over a table, when one row changes.\<close>

lemma sum_list_upd_where:
  fixes g :: "'r \<Rightarrow> int"
  assumes "distinct (map key rs)" and "r \<in> set rs"
  shows "(\<Sum>x\<leftarrow>upd_where (\<lambda>x. key x = key r) f rs. g x) = (\<Sum>x\<leftarrow>rs. g x) + (g (f r) - g r)"
  using assms
proof (induction rs)
  case Nil
  then show ?case by simp
next
  case (Cons a rs)
  show ?case
  proof (cases "a = r")
    case True
    with Cons.prems have "\<forall>x \<in> set rs. key x \<noteq> key r" by (auto simp: image_iff)
    then have "upd_where (\<lambda>x. key x = key r) f rs = rs"
      by (simp add: upd_where_none)
    with True show ?thesis by simp
  next
    case False
    with Cons.prems have "r \<in> set rs" "key a \<noteq> key r" by (auto simp: image_iff)
    with Cons show ?thesis by simp
  qed
qed

end
