(* ===== verification/Go_Float.thy ===== *)
theory Go_Float
  imports Go_Prelude
begin

text \<open>
  Go's \<open>float64\<close>, as far as the services use it: a finite value is the rational number it
  denotes, and an operation is carried out exactly and rounded to the nearest representable value,
  ties to even (IEEE 754 binary64). Amounts come from JSON numbers, which are never NaN or infinite;
  an operation that overflows gives \<open>None\<close>.
\<close>

type_synonym float64 = rat

definition pow2 :: "int \<Rightarrow> rat" where
  "pow2 k = (if 0 \<le> k then 2 ^ nat k else 1 / 2 ^ nat (- k))"

text \<open>The number of binary digits, and the exponent of the leading one of a positive rational.\<close>

fun bits :: "int \<Rightarrow> nat" where
  "bits n = (if n \<le> 0 then 0 else Suc (bits (n div 2)))"

declare bits.simps [simp del]

definition ilog2 :: "rat \<Rightarrow> int" where
  "ilog2 x =
     (case quotient_of x of (n, d) \<Rightarrow>
        let k = int (bits n) - int (bits d)
        in if pow2 k \<le> x then k else k - 1)"

definition round_half_even :: "rat \<Rightarrow> int" where
  "round_half_even x =
     (let f = \<lfloor>x\<rfloor>; r = x - of_int f
      in if r < 1 / 2 then f else if 1 / 2 < r then f + 1 else if even f then f else f + 1)"

definition round64 :: "rat \<Rightarrow> float64 option" where
  "round64 x =
     (if x = 0 then Some 0
      else let e = max (ilog2 \<bar>x\<bar> - 52) (- 1074);
               y = of_int (round_half_even (x / pow2 e)) * pow2 e
           in if 2 ^ 1024 \<le> \<bar>y\<bar> then None else Some y)"

definition is_f64 :: "rat \<Rightarrow> bool" where
  "is_f64 x \<longleftrightarrow> round64 x = Some x"

text \<open>Conversion to an integer discards the fraction.\<close>

definition float_trunc :: "float64 \<Rightarrow> int" where
  "float_trunc x = (if 0 \<le> x then \<lfloor>x\<rfloor> else - \<lfloor>- x\<rfloor>)"

text \<open>Go's \<open>%\<close> takes the sign of the dividend.\<close>

definition go_rem :: "int \<Rightarrow> int \<Rightarrow> int" where
  "go_rem a b = sgn a * (\<bar>a\<bar> mod \<bar>b\<bar>)"

lemma pow2_pos [simp]: "0 < pow2 k"
  by (simp add: pow2_def)

lemma round_half_even_int [simp]: "round_half_even (of_int i) = i"
  by (simp add: round_half_even_def)

lemma float_trunc_int [simp]: "float_trunc (of_int i) = i"
  by (simp add: float_trunc_def flip: of_int_minus)

lemma bits_le: "0 < n \<Longrightarrow> 2 ^ (bits n - 1) \<le> n"
proof (induction n rule: bits.induct)
  case (1 n)
  show ?case
  proof (cases "n = 1")
    case True
    then show ?thesis by (simp add: bits.simps)
  next
    case False
    with 1 have IH: "2 ^ (bits (n div 2) - 1) \<le> n div 2" by simp
    from False 1 have "0 < bits (n div 2)" by (subst bits.simps) auto
    then have "2 ^ bits (n div 2) = 2 * (2 :: int) ^ (bits (n div 2) - 1)"
      by (simp flip: power_Suc)
    with IH have "2 ^ bits (n div 2) \<le> n" by linarith
    moreover from 1 have "bits n - 1 = bits (n div 2)" by (subst bits.simps) simp
    ultimately show ?thesis by simp
  qed
qed

text \<open>An integer of at most 53 binary digits is a \<open>float64\<close>.\<close>

lemma ilog2_of_int: "0 < i \<Longrightarrow> ilog2 (of_int i) = int (bits i) - 1"
proof -
  assume i: "0 < i"
  have b1: "bits 1 = 1" by (simp add: bits.simps)
  have pos: "1 \<le> bits i" using i by (subst bits.simps) simp
  then have "pow2 (int (bits i) - 1) = of_int (2 ^ (bits i - 1))"
    by (simp add: pow2_def nat_diff_distrib)
  also have "\<dots> \<le> of_int i" using bits_le [OF i] by (simp only: of_int_le_iff)
  finally show ?thesis using b1 by (simp add: ilog2_def quotient_of_int)
qed

lemma pow2_scale_int:
  assumes "e \<le> 0"
  shows "(of_int i :: rat) / pow2 e = of_int (i * 2 ^ nat (- e))"
  using assms by (cases "e = 0") (simp_all add: pow2_def)

lemma round64_int:
  assumes "\<bar>i\<bar> < 2 ^ 53"
  shows "round64 (of_int i) = Some (of_int i)"
proof (cases "i = 0")
  case False
  let ?e = "max (ilog2 \<bar>of_int i\<bar> - 52) (- 1074)"
  let ?b = "bits \<bar>i\<bar>"
  have "2 ^ (?b - 1) \<le> \<bar>i\<bar>" using bits_le [of "\<bar>i\<bar>"] False by simp
  also have "\<dots> < 2 ^ 53" using assms .
  finally have "?b - 1 < 53" by (rule power_less_imp_less_exp [rotated]) simp
  moreover have "ilog2 \<bar>of_int i\<bar> = int ?b - 1"
    using ilog2_of_int [of "\<bar>i\<bar>"] False by simp
  ultimately have e: "?e \<le> 0" by linarith
  have exact: "of_int (round_half_even (of_int i / pow2 ?e)) * pow2 ?e = of_int i"
    unfolding pow2_scale_int [OF e] round_half_even_int
    using pow2_scale_int [OF e, of i] by (metis pow2_pos less_irrefl nonzero_divide_eq_eq)
  have "\<bar>of_int i :: rat\<bar> = of_int \<bar>i\<bar>" by simp
  also have "\<dots> < of_int (2 ^ 1024)"
    using assms by (simp only: of_int_less_iff) (erule less_trans, simp)
  finally have "\<not> 2 ^ 1024 \<le> \<bar>of_int i :: rat\<bar>" by simp
  with False show ?thesis unfolding round64_def Let_def exact by simp
qed (simp add: round64_def)


text \<open>The rounding of a number in the normal range, without computing its exponent.\<close>

lemma pow2_powi: "pow2 k = 2 powi k"
  by (simp add: pow2_def power_int_def power_one_over field_simps)

lemma bits_less: "0 < n \<Longrightarrow> n < 2 ^ bits n"
proof (induction n rule: bits.induct)
  case (1 n)
  show ?case
  proof (cases "n = 1")
    case True
    then show ?thesis by (simp add: bits.simps)
  next
    case False
    with 1 have "n div 2 < 2 ^ bits (n div 2)" by simp
    moreover from 1 have "bits n = Suc (bits (n div 2))" by (subst bits.simps) simp
    ultimately show ?thesis by simp
  qed
qed

lemma bits_range: "0 < n \<Longrightarrow> (pow2 (int (bits n) - 1) \<le> of_int n \<and> of_int n < pow2 (int (bits n)))"
proof -
  assume n: "0 < n"
  then have "1 \<le> bits n" by (subst bits.simps) simp
  then have "pow2 (int (bits n) - 1) = of_int (2 ^ (bits n - 1))"
    by (simp add: pow2_def nat_diff_distrib)
  moreover have "(of_int (2 ^ (bits n - 1)) :: rat) \<le> of_int n"
    using bits_le [OF n] by (simp only: of_int_le_iff)
  moreover have "(of_int n :: rat) < of_int (2 ^ bits n)"
    using bits_less [OF n] by (simp only: of_int_less_iff)
  ultimately show ?thesis by (simp add: pow2_def)
qed

lemma pow2_less_cancel: "pow2 a < pow2 b \<Longrightarrow> a < b"
  by (metis linorder_not_le not_less pow2_powi power_int_increasing one_le_numeral)

lemma pow2_diff: "pow2 (a - b) = pow2 a / pow2 b"
  by (simp add: pow2_powi power_int_diff)

lemma ilog2_bounds:
  assumes "0 < x"
  shows "pow2 (ilog2 x) \<le> x" "x < pow2 (ilog2 x + 1)"
proof -
  obtain n d where q: "quotient_of x = (n, d)" by fastforce
  have d: "0 < d" using q by (rule quotient_of_denom_pos)
  have x: "x = of_int n / of_int d" using q by (rule quotient_of_div)
  with assms d have n: "0 < n" by (simp add: zero_less_divide_iff)
  let ?k = "int (bits n) - int (bits d)"
  note nb = bits_range [OF n] and db = bits_range [OF d]
  have xd: "x * of_int d = of_int n" using x d by simp
  have "x * of_int d < x * pow2 (int (bits d))"
    using db assms by (intro mult_strict_left_mono) simp_all
  then have "pow2 (int (bits n) - 1) < x * pow2 (int (bits d))" using nb xd by linarith
  then have lo: "pow2 (?k - 1) < x" using pow2_diff [of "int (bits n) - 1" "int (bits d)"]
    by (simp add: algebra_simps pos_divide_less_eq)
  have "x * pow2 (int (bits d) - 1) \<le> x * of_int d"
    using db assms by (intro mult_left_mono) simp_all
  then have "x * pow2 (int (bits d) - 1) < pow2 (int (bits n))" using nb xd by linarith
  then have hi: "x < pow2 (?k + 1)" using pow2_diff [of "int (bits n)" "int (bits d) - 1"]
    by (simp add: algebra_simps pos_less_divide_eq)
  show "pow2 (ilog2 x) \<le> x" "x < pow2 (ilog2 x + 1)"
    using lo hi by (auto simp: ilog2_def q Let_def)
qed

lemma ilog2_unique:
  assumes "pow2 k \<le> x" and "x < pow2 (k + 1)"
  shows "ilog2 x = k"
proof -
  have "0 < x" using assms(1) pow2_pos by (rule order.strict_trans2 [rotated])
  note b = ilog2_bounds [OF this]
  have "ilog2 x < k + 1" using b(1) assms(2) by (intro pow2_less_cancel) simp
  moreover have "k < ilog2 x + 1" using b(2) assms(1) by (intro pow2_less_cancel) simp
  ultimately show ?thesis by simp
qed

lemma round_half_even_near:
  assumes "\<bar>x - of_int m\<bar> < 1 / 2"
  shows "round_half_even x = m"
proof (cases "of_int m \<le> x")
  case True
  with assms have "\<lfloor>x\<rfloor> = m" by linarith
  with True assms show ?thesis by (simp add: round_half_even_def)
next
  case False
  with assms have "\<lfloor>x\<rfloor> = m - 1" by linarith
  with False assms show ?thesis by (simp add: round_half_even_def Let_def)
qed

lemma round64_normal:
  assumes x: "pow2 (e + 52) \<le> x" "x < pow2 (e + 53)" and e: "- 1074 \<le> e" "e \<le> 970"
    and m: "\<bar>x / pow2 e - of_int m\<bar> < 1 / 2" "0 \<le> m" "m \<le> 2 ^ 53"
  shows "round64 x = Some (of_int m * pow2 e)"
proof -
  have "0 < x" using x(1) pow2_pos by (rule order.strict_trans2 [rotated])
  moreover have "ilog2 x = e + 52" using x by (intro ilog2_unique) (simp_all add: add.commute)
  moreover have "of_int m * pow2 e < 2 ^ 1024"
  proof -
    have "pow2 e \<le> pow2 970" unfolding pow2_powi using e(2) by (rule power_int_increasing) simp
    moreover have "(of_int m :: rat) \<le> of_int (2 ^ 53)" using m(3) by (simp only: of_int_le_iff)
    ultimately have "of_int m * pow2 e \<le> of_int (2 ^ 53) * pow2 970"
      using m(2) by (intro mult_mono) (simp_all add: less_imp_le)
    also have "\<dots> < 2 ^ 1024" by (simp add: pow2_def)
    finally show ?thesis .
  qed
  ultimately show ?thesis
    using e(1) m(2) by (simp add: round64_def Let_def round_half_even_near [OF m(1)] abs_mult less_imp_le)
qed

end
