(* ===== verification/Go_Json.thy ===== *)
theory Go_Json
  imports Go_Float "HOL-Library.Multiset"
begin

text \<open>
  \<open>encoding/json\<close>, as far as the services use it: a document is the tree of its values (a
  number literal is an integer, or has a fraction or an exponent), and \<open>json.Unmarshal\<close> into a
  struct decodes the members of an object one after the other into the fields whose names they
  match. A struct type is the list of its JSON field names, each with the decoder of its field.
\<close>

datatype json =
    JNull
  | JBool bool
  | JInt int
  | JDec rat
  | JStr string
  | JArr "json list"
  | JObj "(string \<times> json) list"

text \<open>A message body: the document, or \<open>None\<close> for bytes that are not JSON.\<close>

type_synonym wire = "json option"

definition json_syntax_error :: err where
  "json_syntax_error = Driver ''json: syntax error''"

definition json_type_error :: err where
  "json_type_error = Driver ''json: cannot unmarshal value into Go value''"

section \<open>Decoding a value into a field\<close>

text \<open>A JSON null leaves the field as it is.\<close>

fun dec_string :: "json \<Rightarrow> string \<Rightarrow> err + string" where
  "dec_string JNull cur = Inr cur"
| "dec_string (JStr x) cur = Inr x"
| "dec_string _ cur = Inl json_type_error"

text \<open>An integer literal must fit; a literal with a fraction or an exponent is refused.\<close>

fun dec_int :: "json \<Rightarrow> go_int \<Rightarrow> err + go_int" where
  "dec_int JNull cur = Inr cur"
| "dec_int (JInt i) cur = (if int8_ok i then Inr (word_of_int i) else Inl json_type_error)"
| "dec_int _ cur = Inl json_type_error"

definition dec_number :: "rat \<Rightarrow> err + float64" where
  "dec_number r = (case round64 r of None \<Rightarrow> Inl json_type_error | Some x \<Rightarrow> Inr x)"

fun dec_float :: "json \<Rightarrow> float64 \<Rightarrow> err + float64" where
  "dec_float JNull cur = Inr cur"
| "dec_float (JInt i) cur = dec_number (of_int i)"
| "dec_float (JDec r) cur = dec_number r"
| "dec_float _ cur = Inl json_type_error"

fun dec_time :: "(string \<Rightarrow> int option) \<Rightarrow> json \<Rightarrow> int \<Rightarrow> err + int" where
  "dec_time parse JNull cur = Inr cur"
| "dec_time parse (JStr x) cur =
     (case parse x of None \<Rightarrow> Inl (Driver ''parsing time'') | Some t \<Rightarrow> Inr t)"
| "dec_time parse _ cur = Inl (Driver ''Time.UnmarshalJSON: input is not a JSON string'')"

section \<open>Decoding an object into a struct\<close>

type_synonym 'e field = "json \<Rightarrow> 'e \<Rightarrow> err + 'e"

definition field_of ::
  "(json \<Rightarrow> 'v \<Rightarrow> err + 'v) \<Rightarrow> ('e \<Rightarrow> 'v) \<Rightarrow> (('v \<Rightarrow> 'v) \<Rightarrow> 'e \<Rightarrow> 'e) \<Rightarrow> 'e field" where
  "field_of dec get upd v e =
     (case dec v (get e) of Inl x \<Rightarrow> Inl x | Inr y \<Rightarrow> Inr (upd (\<lambda>_. y) e))"

text \<open>Names match without regard to the case of ASCII letters; unknown members are skipped.\<close>

definition ascii_lower :: "string \<Rightarrow> string" where
  "ascii_lower = map (\<lambda>c. if 65 \<le> (of_char c :: nat) \<and> (of_char c :: nat) \<le> 90
                          then char_of ((of_char c :: nat) + 32) else c)"

definition dec_member :: "(string \<times> 'e field) list \<Rightarrow> string \<Rightarrow> 'e field" where
  "dec_member fs k v e =
     (case find (\<lambda>(n, f). n = ascii_lower k) fs of None \<Rightarrow> Inr e | Some (n, f) \<Rightarrow> f v e)"

fun dec_members :: "(string \<times> 'e field) list \<Rightarrow> (string \<times> json) list \<Rightarrow> 'e \<Rightarrow> err + 'e" where
  "dec_members fs [] e = Inr e"
| "dec_members fs ((k, v) # ms) e =
     (case dec_member fs k v e of Inl x \<Rightarrow> Inl x | Inr e' \<Rightarrow> dec_members fs ms e')"

definition json_Unmarshal :: "(string \<times> 'e field) list \<Rightarrow> 'e \<Rightarrow> wire \<Rightarrow> err + 'e" where
  "json_Unmarshal fs zero w =
     (case w of
        None \<Rightarrow> Inl json_syntax_error
      | Some JNull \<Rightarrow> Inr zero
      | Some (JObj ms) \<Rightarrow> dec_members fs ms zero
      | Some _ \<Rightarrow> Inl json_type_error)"

text \<open>
  When every member of an object decodes to an update of its own, and the updates commute, the
  order of the members does not matter.
\<close>

lemma dec_members_fold:
  assumes "\<And>k v e. (k, v) \<in> set ms \<Longrightarrow> dec_member fs k v e = Inr (g (k, v) e)"
  shows "dec_members fs ms e = Inr (fold g ms e)"
  using assms by (induction ms arbitrary: e) (auto split: prod.splits)

lemma dec_members_any_order:
  assumes "\<And>k v e. (k, v) \<in> set ms \<Longrightarrow> dec_member fs k v e = Inr (g (k, v) e)"
    and "\<And>m m'. m \<in> set ms \<Longrightarrow> m' \<in> set ms \<Longrightarrow> g m \<circ> g m' = g m' \<circ> g m"
    and "mset ms' = mset ms"
  shows "dec_members fs ms' e = Inr (fold g ms e)"
proof -
  have "set ms' = set ms" using assms(3) by (rule mset_eq_setD)
  with assms(1) have "dec_members fs ms' e = Inr (fold g ms' e)" by (intro dec_members_fold) auto
  moreover have "fold g ms = fold g ms'"
    by (rule fold_multiset_equiv) (use assms in auto)
  ultimately show ?thesis by simp
qed

text \<open>The update a member makes, where its decoding cannot fail.\<close>

definition member_update :: "(string \<times> 'e field) list \<Rightarrow> string \<times> json \<Rightarrow> 'e \<Rightarrow> 'e" where
  "member_update fs m e = (case dec_member fs (fst m) (snd m) e of Inl _ \<Rightarrow> e | Inr e' \<Rightarrow> e')"

lemma unmarshal_any_order:
  assumes ok: "\<And>k v e. (k, v) \<in> set ms \<Longrightarrow> isl (dec_member fs k v e) = False"
    and comm: "\<And>m m'. m \<in> set ms \<Longrightarrow> m' \<in> set ms \<Longrightarrow>
          member_update fs m \<circ> member_update fs m' = member_update fs m' \<circ> member_update fs m"
    and perm: "mset ms' = mset ms"
  shows "json_Unmarshal fs z (Some (JObj ms')) = Inr (fold (member_update fs) ms z)"
proof -
  have "dec_member fs k v e = Inr (member_update fs (k, v) e)" if "(k, v) \<in> set ms" for k v e
    using ok [OF that, of e] by (simp add: member_update_def split: sum.split) (metis sum.disc(1))
  then show ?thesis
    using dec_members_any_order [where ms = ms and g = "member_update fs" and fs = fs] comm perm
    by (simp add: json_Unmarshal_def)
qed

text \<open>
  Whatever else an object holds: if it decodes, the field that one of its members decodes into has
  the value of that member, when no other member is decoded into the same field.
\<close>

lemma field_of_Inr:
  "field_of dec get upd v e = Inr e' \<longleftrightarrow> (\<exists>y. dec v (get e) = Inr y \<and> e' = upd (\<lambda>_. y) e)"
  by (auto simp: field_of_def split: sum.splits)

lemma dec_members_kept:
  assumes "dec_members fs ms e = Inr e'"
    and "\<And>k v e e1. (k, v) \<in> set ms \<Longrightarrow> dec_member fs k v e = Inr e1 \<Longrightarrow> get e1 = get e"
  shows "get e' = get e"
  using assms
proof (induction ms arbitrary: e)
  case Nil
  then show ?case by simp
next
  case (Cons m ms)
  obtain k v where m: "m = (k, v)" by fastforce
  with Cons.prems(1) obtain e1 where e1: "dec_member fs k v e = Inr e1" "dec_members fs ms e1 = Inr e'"
    by (auto split: sum.splits)
  then have "get e' = get e1" by (rule_tac Cons.IH) (use Cons.prems(2) in auto)
  moreover have "get e1 = get e" by (rule Cons.prems(2) [OF _ e1(1)]) (simp add: m)
  ultimately show ?case by simp
qed

lemma dec_members_value:
  assumes "dec_members fs ms e = Inr e'" and "(k, v) \<in> set ms" and "distinct (map fst ms)"
    and "\<And>e e1. dec_member fs k v e = Inr e1 \<Longrightarrow> get e1 = x"
    and "\<And>k' v' e e1. (k', v') \<in> set ms \<Longrightarrow> k' \<noteq> k \<Longrightarrow> dec_member fs k' v' e = Inr e1 \<Longrightarrow> get e1 = get e"
  shows "get e' = x"
  using assms(1-3,5)
proof (induction ms arbitrary: e)
  case Nil
  then show ?case by simp
next
  case (Cons m ms)
  obtain k1 v1 where m: "m = (k1, v1)" by fastforce
  with Cons.prems(1) obtain e1 where e1: "dec_member fs k1 v1 e = Inr e1" "dec_members fs ms e1 = Inr e'"
    by (auto split: sum.splits)
  show ?case
  proof (cases "k1 = k")
    case True
    then have "v1 = v" using Cons.prems(2,3) m by (auto simp: image_iff)
    with e1(1) True have "get e1 = x" using assms(4) by simp
    moreover have "get e' = get e1"
    proof (rule dec_members_kept [OF e1(2)])
      show "get e3 = get e2" if "(k', v') \<in> set ms" "dec_member fs k' v' e2 = Inr e3" for k' v' e2 e3
      proof (rule Cons.prems(4) [OF _ _ that(2)])
        show "(k', v') \<in> set (m # ms)" using that(1) by simp
        show "k' \<noteq> k" using Cons.prems(3) that(1) m True by (auto simp: image_iff)
      qed
    qed
    ultimately show ?thesis by simp
  next
    case False
    with Cons.prems m have "(k, v) \<in> set ms" "distinct (map fst ms)" by auto
    then show ?thesis by (rule_tac Cons.IH [OF e1(2)]) (use Cons.prems(4) in auto)
  qed
qed

lemma unmarshal_value:
  assumes "json_Unmarshal fs z (Some (JObj ms)) = Inr e'" and "(k, v) \<in> set ms0" and "mset ms = mset ms0"
    and "distinct (map fst ms0)"
    and "\<And>e e1. dec_member fs k v e = Inr e1 \<Longrightarrow> get e1 = x"
    and "\<And>k' v' e e1. (k', v') \<in> set ms0 \<Longrightarrow> k' \<noteq> k \<Longrightarrow> dec_member fs k' v' e = Inr e1 \<Longrightarrow> get e1 = get e"
  shows "get e' = x"
proof -
  have "set ms = set ms0" using assms(3) by (rule mset_eq_setD)
  moreover have "distinct (map fst ms)" using assms(3,4) by (metis mset_map mset_eq_imp_distinct_iff)
  ultimately show ?thesis
    using assms(1,2,5,6) by (intro dec_members_value [of fs ms z e' k v get x]) (simp_all add: json_Unmarshal_def)
qed

end
