(* ===== verification/Pg_Tx.thy ===== *)
theory Pg_Tx
  imports Go_Json
begin

text \<open>
  The environment the three services run in, and transactions of their database.

  Everything the services call that is not in the repository is an argument of the model, a field
  of the record \<open>sys\<close>: the UUID library, the clock, what PostgreSQL accepts as a column value,
  the order in which it returns rows, and when the driver, the server or the broker fails. A field
  that may answer differently each time takes the number of the call (\<open>tick\<close>), so a theorem for
  every \<open>sys\<close> holds for every schedule of failures.

  A transaction works on its own \<open>view\<close> of the database and \<open>durable\<close> changes only in
  \<open>tx_Commit\<close>. After a statement that failed at the server, or a lost connection, the
  transaction is unusable: later statements and the commit fail (\<open>failed\<close>).
\<close>

section \<open>The environment\<close>

datatype commit_reply = Ack | Refused string | Unacked string

record sys =
  uuid_New :: "nat \<Rightarrow> string"
  time_Now :: "nat \<Rightarrow> int"
  server_time :: "nat \<Rightarrow> int"
  uuid_in :: "string \<Rightarrow> string option"
  text_in :: "string \<Rightarrow> bool"
  text_ok :: "nat \<Rightarrow> string \<Rightarrow> bool"
  timestamptz :: "int \<Rightarrow> int"
  numeric_in :: "rat \<Rightarrow> int option"
  numeric_out :: "int \<Rightarrow> rat"
  scan_order :: "nat \<Rightarrow> nat \<Rightarrow> nat list"
  begin_err :: "nat \<Rightarrow> string option"
  stmt_err :: "nat \<Rightarrow> string option"
  rows_cut :: "nat \<Rightarrow> (nat \<times> string) option"
  commit_reply :: "nat \<Rightarrow> commit_reply"
  row_locked :: "nat \<Rightarrow> string \<Rightarrow> bool"
  publish_err :: "nat \<Rightarrow> string option"
  rand_Float64 :: "nat \<Rightarrow> rat"
  int_of_big_float :: "rat \<Rightarrow> go_int"
  time_text :: "int \<Rightarrow> string"
  time_parse :: "string \<Rightarrow> int option"
  float_text :: "rat \<Rightarrow> int + rat"
  jsonb_in :: "json \<Rightarrow> json option"

text \<open>
  What the code relies on, as documented for PostgreSQL and the UUID library: a fresh UUID is the
  canonical text of a UUID, the canonical text reads back as itself, and a SELECT returns each row
  of the table exactly once.
\<close>

definition uuids_ok :: "sys \<Rightarrow> bool" where
  "uuids_ok sys \<longleftrightarrow>
     (\<forall>n. uuid_in sys (uuid_New sys n) = Some (uuid_New sys n)) \<and>
     (\<forall>s u. uuid_in sys s = Some u \<longrightarrow> uuid_in sys u = Some u)"

definition scans_ok :: "sys \<Rightarrow> bool" where
  "scans_ok sys \<longleftrightarrow> (\<forall>t n. mset (scan_order sys t n) = mset [0..<n])"

text \<open>
  What the code relies on in the encodings: RFC 3339 text of a time and the decimal text of a
  \<open>float64\<close> read back as the same value, and JSONB keeps an object's members, in some order.
\<close>

definition json_number :: "int + rat \<Rightarrow> rat" where
  "json_number n = (case n of Inl i \<Rightarrow> of_int i | Inr r \<Rightarrow> r)"

definition codecs_ok :: "sys \<Rightarrow> bool" where
  "codecs_ok sys \<longleftrightarrow>
     (\<forall>t. 0 \<le> t \<and> t < 253402300800000000000 \<longrightarrow> time_parse sys (time_text sys t) = Some t) \<and>
     (\<forall>x. is_f64 x \<longrightarrow> round64 (json_number (float_text sys x)) = Some x)"

definition jsonb_ok :: "sys \<Rightarrow> bool" where
  "jsonb_ok sys \<longleftrightarrow>
     (\<forall>ms j. distinct (map fst ms) \<and> jsonb_in sys (JObj ms) = Some j \<longrightarrow>
        (\<exists>ms'. j = JObj ms' \<and> mset ms' = mset ms))"

text \<open>A VARCHAR column takes every ASCII text up to its length.\<close>

definition ascii_text :: "string \<Rightarrow> bool" where
  "ascii_text x \<longleftrightarrow> list_all (\<lambda>c. of_char c \<in> {1..127 :: nat}) x"

definition varchar_ok :: "sys \<Rightarrow> bool" where
  "varchar_ok sys \<longleftrightarrow> (\<forall>n x. length x \<le> n \<and> ascii_text x \<longrightarrow> text_ok sys n x)"

text \<open>No failure from call number \<open>t\<close> on.\<close>

definition calm :: "sys \<Rightarrow> nat \<Rightarrow> bool" where
  "calm sys t \<longleftrightarrow>
     (\<forall>n \<ge> t. begin_err sys n = None \<and> stmt_err sys n = None \<and> rows_cut sys n = None \<and>
              commit_reply sys n = Ack)"

lemma calm_Suc [simp]: "calm sys t \<Longrightarrow> calm sys (Suc t)"
  by (simp add: calm_def)

lemma calm_now [simp]:
  assumes "calm sys t"
  shows "begin_err sys t = None" "stmt_err sys t = None" "rows_cut sys t = None"
    "commit_reply sys t = Ack"
  using assms by (simp_all add: calm_def)

text \<open>The rows of a result set, in the order the server returns them.\<close>

definition scan :: "sys \<Rightarrow> nat \<Rightarrow> 'r list \<Rightarrow> 'r list" where
  "scan sys t rs = map (\<lambda>i. rs ! i) (scan_order sys t (length rs))"

lemma mset_scan [simp]: "scans_ok sys \<Longrightarrow> mset (scan sys t rs) = mset rs"
proof -
  assume "scans_ok sys"
  then have "mset (scan sys t rs) = image_mset ((!) rs) (mset [0..<length rs])"
    unfolding scan_def by (simp only: mset_map scans_ok_def)
  also have "\<dots> = mset (map ((!) rs) [0..<length rs])" by (simp only: mset_map)
  finally show ?thesis by (simp only: map_nth)
qed

lemma set_scan [simp]: "scans_ok sys \<Longrightarrow> set (scan sys t rs) = set rs"
  by (metis mset_scan mset_eq_setD)

lemma distinct_map_scan: "scans_ok sys \<Longrightarrow> distinct (map key rs) \<Longrightarrow> distinct (map key (scan sys t rs))"
  by (metis mset_scan mset_map mset_eq_imp_distinct_iff)

lemma scan_Nil [simp]: "scans_ok sys \<Longrightarrow> scan sys t [] = []"
  by (metis mset_scan mset_zero_iff mset.simps(1))

lemma scan_single [simp]: "scans_ok sys \<Longrightarrow> scan sys t [r] = [r]"
  by (metis mset_scan mset_single_iff mset.simps add_mset_add_single)


subsection \<open>A concrete environment\<close>

text \<open>
  An environment in which nothing fails, with a concrete choice for every field; the witnesses of
  the development run in it, or in variants of it.
\<close>

definition sample_sys :: sys where
  "sample_sys =
     \<lparr>uuid_New = (\<lambda>n. CHR ''u'' # replicate n (CHR ''x'')),
      time_Now = (\<lambda>n. 1000 * int n), server_time = (\<lambda>n. int n),
      uuid_in = (\<lambda>x. if x = '''' then None else Some x), text_in = (\<lambda>x. True), text_ok = (\<lambda>n x. length x \<le> n),
      timestamptz = (\<lambda>t. t div 1000),
      numeric_in = (\<lambda>x. if \<bar>x\<bar> < 100000000 then Some \<lfloor>100 * x\<rfloor> else None),
      numeric_out = (\<lambda>c. of_int c / 100), scan_order = (\<lambda>t n. [0..<n]),
      begin_err = (\<lambda>n. None), stmt_err = (\<lambda>n. None), rows_cut = (\<lambda>n. None),
      commit_reply = (\<lambda>n. Ack), row_locked = (\<lambda>n x. False), publish_err = (\<lambda>n. None),
      rand_Float64 = (\<lambda>n. 1 / 2), int_of_big_float = (\<lambda>x. 0),
      time_text = (\<lambda>t. replicate (nat t) (CHR ''s'')), time_parse = (\<lambda>x. Some (int (length x))),
      float_text = (\<lambda>x. Inr x), jsonb_in = (\<lambda>j. Some j)\<rparr>"

lemma sample_uuid_in: "uuid_in sample_sys x = (if x = '''' then None else Some x)"
  by (simp add: sample_sys_def)

lemma sample_sys_ok [simp]:
  "uuids_ok sample_sys" "scans_ok sample_sys" "codecs_ok sample_sys" "jsonb_ok sample_sys"
  "calm sample_sys t" "varchar_ok sample_sys"
  by (auto simp: sample_sys_def uuids_ok_def scans_ok_def codecs_ok_def jsonb_ok_def calm_def varchar_ok_def
        json_number_def is_f64_def)


section \<open>A service process and its database connection\<close>

text \<open>
  \<open>published\<close> is what the process has handed to the broker, in order.
\<close>

record 'db pg =
  durable :: 'db
  view :: 'db
  started :: int
  failed :: bool
  tick :: nat
  published :: "(string \<times> json) list"

definition ErrNoRows :: err where
  "ErrNoRows = New ''pgx.ErrNoRows'' ''no rows in result set''"

definition ErrTxCommitRollback :: err where
  "ErrTxCommitRollback =
     New ''pgx.ErrTxCommitRollback'' ''commit unexpectedly resulted in rollback''"

definition ErrTxAborted :: err where
  "ErrTxAborted = Driver ''current transaction is aborted''"

text \<open>
  What a statement does to the database: it is carried out, or its arguments cannot be encoded and
  it is never sent, or the server rejects it.
\<close>

datatype ('a, 'db) reply = Done 'a 'db | ClientReject err | ServerReject err

definition go_tick :: "('db pg, nat) go" where
  "go_tick s = (Inr (tick s), s\<lparr>tick := Suc (tick s)\<rparr>)"

definition go_uuid :: "sys \<Rightarrow> ('db pg, string) go" where
  "go_uuid sys s = (Inr (uuid_New sys (tick s)), s\<lparr>tick := Suc (tick s)\<rparr>)"

definition go_now :: "sys \<Rightarrow> ('db pg, int) go" where
  "go_now sys s = (Inr (time_Now sys (tick s)), s\<lparr>tick := Suc (tick s)\<rparr>)"

definition tx_Begin :: "sys \<Rightarrow> ('db pg, unit) go" where
  "tx_Begin sys s =
     (case begin_err sys (tick s) of
        Some msg \<Rightarrow> (Inl (Driver msg), s\<lparr>tick := Suc (tick s)\<rparr>)
      | None \<Rightarrow> (Inr (), s\<lparr>view := durable s, started := server_time sys (tick s),
                           failed := False, tick := Suc (tick s)\<rparr>))"

definition tx_stmt :: "sys \<Rightarrow> (int \<Rightarrow> 'db \<Rightarrow> ('a, 'db) reply) \<Rightarrow> ('db pg, 'a) go" where
  "tx_stmt sys q s =
     (if failed s then (Inl ErrTxAborted, s\<lparr>tick := Suc (tick s)\<rparr>)
      else case stmt_err sys (tick s) of
        Some msg \<Rightarrow> (Inl (Driver msg), s\<lparr>failed := True, tick := Suc (tick s)\<rparr>)
      | None \<Rightarrow>
          (case q (started s) (view s) of
             Done a v \<Rightarrow> (Inr a, s\<lparr>view := v, tick := Suc (tick s)\<rparr>)
           | ClientReject e \<Rightarrow> (Inl e, s\<lparr>tick := Suc (tick s)\<rparr>)
           | ServerReject e \<Rightarrow> (Inl e, s\<lparr>failed := True, tick := Suc (tick s)\<rparr>)))"

text \<open>
  A result set read row by row: the connection may break after some rows; then \<open>rows.Next\<close>
  returns false and only \<open>rows.Err\<close> tells. The result is the rows read and \<open>rows.Err\<close>.
\<close>

definition tx_rows ::
  "sys \<Rightarrow> (int \<Rightarrow> 'db \<Rightarrow> ('r list, 'db) reply) \<Rightarrow> ('db pg, 'r list \<times> err option) go" where
  "tx_rows sys q s =
     (case tx_stmt sys q s of
        (Inl e, s') \<Rightarrow> (Inl e, s')
      | (Inr rs, s') \<Rightarrow>
          (case rows_cut sys (tick s) of
             None \<Rightarrow> (Inr (rs, None), s')
           | Some (k, msg) \<Rightarrow> (Inr (take k rs, Some (Driver msg)), s'\<lparr>failed := True\<rparr>)))"

definition tx_Commit :: "sys \<Rightarrow> ('db pg, unit) go" where
  "tx_Commit sys s =
     (if failed s then (Inl ErrTxCommitRollback, s\<lparr>tick := Suc (tick s)\<rparr>)
      else case commit_reply sys (tick s) of
        Ack \<Rightarrow> (Inr (), s\<lparr>durable := view s, tick := Suc (tick s)\<rparr>)
      | Refused msg \<Rightarrow> (Inl (Driver msg), s\<lparr>failed := True, tick := Suc (tick s)\<rparr>)
      | Unacked msg \<Rightarrow> (Inl (Driver msg), s\<lparr>durable := view s, failed := True,
                                            tick := Suc (tick s)\<rparr>))"

definition tx_Rollback :: "'db pg \<Rightarrow> 'db pg" where
  "tx_Rollback s = s\<lparr>view := durable s, failed := False\<rparr>"

text \<open>A statement outside a transaction, on the pool.\<close>

definition pool_stmt :: "sys \<Rightarrow> (int \<Rightarrow> 'db \<Rightarrow> ('a, 'db) reply) \<Rightarrow> ('db pg, 'a) go" where
  "pool_stmt sys q s =
     (case stmt_err sys (tick s) of
        Some msg \<Rightarrow> (Inl (Driver msg), s\<lparr>tick := Suc (tick s)\<rparr>)
      | None \<Rightarrow>
          (case q (server_time sys (tick s)) (durable s) of
             Done a v \<Rightarrow> (Inr a, s\<lparr>durable := v, tick := Suc (tick s)\<rparr>)
           | ClientReject e \<Rightarrow> (Inl e, s\<lparr>tick := Suc (tick s)\<rparr>)
           | ServerReject e \<Rightarrow> (Inl e, s\<lparr>tick := Suc (tick s)\<rparr>)))"

definition pool_rows ::
  "sys \<Rightarrow> (int \<Rightarrow> 'db \<Rightarrow> ('r list, 'db) reply) \<Rightarrow> ('db pg, 'r list \<times> err option) go" where
  "pool_rows sys q s =
     (case pool_stmt sys q s of
        (Inl e, s') \<Rightarrow> (Inl e, s')
      | (Inr rs, s') \<Rightarrow>
          (case rows_cut sys (tick s) of
             None \<Rightarrow> (Inr (rs, None), s')
           | Some (k, msg) \<Rightarrow> (Inr (take k rs, Some (Driver msg)), s')))"

text \<open>
  \<open>tx, err := pool.Begin(ctx)\<close>, \<open>return fmt.Errorf("begin transaction: %w", err)\<close>,
  \<open>defer func() { _ = tx.Rollback(ctx) }()\<close>, and the rest of the function: the frame of
  every handler.
\<close>

definition with_tx :: "sys \<Rightarrow> ('db pg, 'a) go \<Rightarrow> ('db pg, 'a) go" where
  "with_tx sys body s =
     (case tx_Begin sys s of
        (Inl e, s1) \<Rightarrow> (Inl (Errorf ''begin transaction'' e), s1)
      | (Inr _, s1) \<Rightarrow> (case body s1 of (r, s2) \<Rightarrow> (r, tx_Rollback s2)))"


section \<open>Weakest preconditions of the primitive calls\<close>

lemma wpc_tick [wp]: "wpc go_tick Q E s = Q (tick s) (s\<lparr>tick := Suc (tick s)\<rparr>)"
  by (simp add: wpc_def go_tick_def)

lemma wpc_uuid [wp]: "wpc (go_uuid sys) Q E s = Q (uuid_New sys (tick s)) (s\<lparr>tick := Suc (tick s)\<rparr>)"
  by (simp add: wpc_def go_uuid_def)

lemma wpc_now [wp]: "wpc (go_now sys) Q E s = Q (time_Now sys (tick s)) (s\<lparr>tick := Suc (tick s)\<rparr>)"
  by (simp add: wpc_def go_now_def)

lemma wpc_stmt [wp]:
  "wpc (tx_stmt sys q) Q E s =
     (if failed s then E ErrTxAborted (s\<lparr>tick := Suc (tick s)\<rparr>)
      else case stmt_err sys (tick s) of
        Some msg \<Rightarrow> E (Driver msg) (s\<lparr>failed := True, tick := Suc (tick s)\<rparr>)
      | None \<Rightarrow>
          (case q (started s) (view s) of
             Done a v \<Rightarrow> Q a (s\<lparr>view := v, tick := Suc (tick s)\<rparr>)
           | ClientReject e \<Rightarrow> E e (s\<lparr>tick := Suc (tick s)\<rparr>)
           | ServerReject e \<Rightarrow> E e (s\<lparr>failed := True, tick := Suc (tick s)\<rparr>)))"
  by (simp add: wpc_def tx_stmt_def split: option.split reply.split)

lemma wpc_rows [wp]:
  "wpc (tx_rows sys q) Q E s =
     wpc (tx_stmt sys q)
       (\<lambda>rs s'. case rows_cut sys (tick s) of
           None \<Rightarrow> Q (rs, None) s'
         | Some (k, msg) \<Rightarrow> Q (take k rs, Some (Driver msg)) (s'\<lparr>failed := True\<rparr>)) E s"
  by (simp add: wpc_def tx_rows_def split: prod.split sum.split option.split)

lemma wpc_commit [wp]:
  "wpc (tx_Commit sys) Q E s =
     (if failed s then E ErrTxCommitRollback (s\<lparr>tick := Suc (tick s)\<rparr>)
      else case commit_reply sys (tick s) of
        Ack \<Rightarrow> Q () (s\<lparr>durable := view s, tick := Suc (tick s)\<rparr>)
      | Refused msg \<Rightarrow> E (Driver msg) (s\<lparr>failed := True, tick := Suc (tick s)\<rparr>)
      | Unacked msg \<Rightarrow> E (Driver msg) (s\<lparr>durable := view s, failed := True, tick := Suc (tick s)\<rparr>))"
  by (simp add: wpc_def tx_Commit_def split: commit_reply.split)

lemma wpc_with_tx [wp]:
  "wpc (with_tx sys body) Q E s =
     (case begin_err sys (tick s) of
        Some msg \<Rightarrow> E (Errorf ''begin transaction'' (Driver msg)) (s\<lparr>tick := Suc (tick s)\<rparr>)
      | None \<Rightarrow> wpc body (\<lambda>a s'. Q a (tx_Rollback s')) (\<lambda>e s'. E e (tx_Rollback s'))
          (s\<lparr>view := durable s, started := server_time sys (tick s), failed := False,
             tick := Suc (tick s)\<rparr>))"
  by (simp add: wpc_def with_tx_def tx_Begin_def split: option.split prod.split sum.split)

lemma wpc_pool [wp]:
  "wpc (pool_stmt sys q) Q E s =
     (case stmt_err sys (tick s) of
        Some msg \<Rightarrow> E (Driver msg) (s\<lparr>tick := Suc (tick s)\<rparr>)
      | None \<Rightarrow>
          (case q (server_time sys (tick s)) (durable s) of
             Done a v \<Rightarrow> Q a (s\<lparr>durable := v, tick := Suc (tick s)\<rparr>)
           | ClientReject e \<Rightarrow> E e (s\<lparr>tick := Suc (tick s)\<rparr>)
           | ServerReject e \<Rightarrow> E e (s\<lparr>tick := Suc (tick s)\<rparr>)))"
  by (simp add: wpc_def pool_stmt_def split: option.split reply.split)

lemma rollback_fields [simp]:
  "durable (tx_Rollback s) = durable s" "tick (tx_Rollback s) = tick s"
  "published (tx_Rollback s) = published s" "view (tx_Rollback s) = durable s"
  by (simp_all add: tx_Rollback_def)

section \<open>Calls that hand nothing to the broker\<close>

text \<open>
  A call built from the combinators and the database primitives publishes nothing: only the relay
  does.
\<close>

definition silent :: "('db pg, 'a) go \<Rightarrow> bool" where
  "silent m \<longleftrightarrow> (\<forall>s. published (snd (m s)) = published s)"

lemma silent_wpc: "silent m \<longleftrightarrow> (\<forall>s. wpc m (\<lambda>_ s'. published s' = published s) (\<lambda>_ s'. published s' = published s) s)"
  by (simp add: silent_def wpc_post)

lemma silentD: "silent m \<Longrightarrow> published (snd (m s)) = published s"
  by (simp add: silent_def)

lemma silent_prims [frame]:
  "silent (go_return a)" "silent (go_fail e)" "silent (go_lift r)"
  "silent go_tick" "silent (go_uuid sys)" "silent (go_now sys)"
  "silent (tx_stmt sys q1)" "silent (tx_rows sys q2)" "silent (pool_stmt sys q3)" "silent (tx_Commit sys)"
  by (simp_all add: silent_wpc wp split: sum.split option.split reply.split commit_reply.split)

lemma silent_pool_rows [frame]: "silent (pool_rows sys q)"
  by (simp add: silent_def pool_rows_def pool_stmt_def split: option.split reply.split prod.split sum.split)

lemma silent_catch [frame]:
  fixes m :: "('db pg, 'a) go"
  assumes "silent m" and "\<And>e. silent (h e)" and "\<And>a. silent (k a)"
  shows "silent (go_catch m h k)"
  unfolding silent_wpc wp
proof
  fix s :: "'db pg"
  let ?P = "\<lambda>s' :: 'db pg. published s' = published s"
  have "wpc m (\<lambda>_. ?P) (\<lambda>_. ?P) s" using assms(1) by (simp add: silent_wpc)
  then show "wpc m (\<lambda>a. wpc (k a) (\<lambda>_. ?P) (\<lambda>_. ?P)) (\<lambda>e. wpc (h e) (\<lambda>_. ?P) (\<lambda>_. ?P)) s"
  proof (rule wpc_mono)
    show "wpc (k a) (\<lambda>_. ?P) (\<lambda>_. ?P) s'" if "?P s'" for a s'
      using assms(3) [of a] that unfolding silent_wpc by metis
    show "wpc (h e) (\<lambda>_. ?P) (\<lambda>_. ?P) s'" if "?P s'" for e s'
      using assms(2) [of e] that unfolding silent_wpc by metis
  qed
qed

lemma silent_seq [frame]:
  "silent m \<Longrightarrow> (\<And>a. silent (k a)) \<Longrightarrow> silent (go_bind m k)"
  "silent m \<Longrightarrow> (\<And>a. silent (k a)) \<Longrightarrow> silent (go_try m w k)"
  unfolding go_bind_def go_try_def by (simp_all add: silent_catch silent_prims)

lemma silent_cases [frame]:
  "silent m \<Longrightarrow> silent m' \<Longrightarrow> silent (if b then m else m')"
  "(\<And>e. silent (f e)) \<Longrightarrow> (\<And>a. silent (g a)) \<Longrightarrow> silent (case r of Inl e \<Rightarrow> f e | Inr a \<Rightarrow> g a)"
  by (simp_all split: sum.split)

lemma silent_with_tx [frame]: "silent body \<Longrightarrow> silent (with_tx sys body)"
proof -
  assume body: "silent body"
  have "published (snd (body (s\<lparr>view := v, started := t, failed := b, tick := n\<rparr>))) = published s" for s v t b n
    using silentD [OF body, of "s\<lparr>view := v, started := t, failed := b, tick := n\<rparr>"] by simp
  then show ?thesis unfolding silent_wpc wpc_with_tx by (simp add: wpc_post split: option.split)
qed

end
