(* ===== verification/Events.thy ===== *)
theory Events
  imports Pg_Tx
begin

text \<open>
  The domain events the services exchange (pkg/events/events.go): the event types, one record per
  event struct (each extends \<open>BaseEvent\<close>, which Go embeds), the constructors, and the JSON
  encoding and decoding of each.
\<close>

section \<open>Event types\<close>

definition EventTypeOrderCreated :: string where
  "EventTypeOrderCreated = ''order.created''"

definition EventTypeOrderCompleted :: string where
  "EventTypeOrderCompleted = ''order.completed''"

definition EventTypeOrderCancelled :: string where
  "EventTypeOrderCancelled = ''order.cancelled''"

definition EventTypeStockReserved :: string where
  "EventTypeStockReserved = ''inventory.stock_reserved''"

definition EventTypeStockReserveFailed :: string where
  "EventTypeStockReserveFailed = ''inventory.stock_reserve_failed''"

definition EventTypeStockReleased :: string where
  "EventTypeStockReleased = ''inventory.stock_released''"

definition EventTypePaymentCompleted :: string where
  "EventTypePaymentCompleted = ''payment.completed''"

definition EventTypePaymentFailed :: string where
  "EventTypePaymentFailed = ''payment.failed''"

lemmas EventType_defs =
  EventTypeOrderCreated_def
  EventTypeOrderCompleted_def
  EventTypeOrderCancelled_def
  EventTypeStockReserved_def
  EventTypeStockReserveFailed_def
  EventTypeStockReleased_def
  EventTypePaymentCompleted_def
  EventTypePaymentFailed_def

text \<open>The event types are pairwise different, as subjects of the broker must be.\<close>

lemma EventType_neq:
  "EventTypeOrderCreated \<noteq> EventTypeOrderCompleted" "EventTypeOrderCreated \<noteq> EventTypeOrderCancelled"
  "EventTypeOrderCreated \<noteq> EventTypeStockReserved" "EventTypeOrderCreated \<noteq> EventTypeStockReserveFailed"
  "EventTypeOrderCreated \<noteq> EventTypeStockReleased" "EventTypeOrderCreated \<noteq> EventTypePaymentCompleted"
  "EventTypeOrderCreated \<noteq> EventTypePaymentFailed"
  "EventTypeOrderCompleted \<noteq> EventTypeOrderCreated" "EventTypeOrderCompleted \<noteq> EventTypeOrderCancelled"
  "EventTypeOrderCompleted \<noteq> EventTypeStockReserved" "EventTypeOrderCompleted \<noteq> EventTypeStockReserveFailed"
  "EventTypeOrderCompleted \<noteq> EventTypeStockReleased" "EventTypeOrderCompleted \<noteq> EventTypePaymentCompleted"
  "EventTypeOrderCompleted \<noteq> EventTypePaymentFailed"
  "EventTypeOrderCancelled \<noteq> EventTypeOrderCreated" "EventTypeOrderCancelled \<noteq> EventTypeOrderCompleted"
  "EventTypeOrderCancelled \<noteq> EventTypeStockReserved" "EventTypeOrderCancelled \<noteq> EventTypeStockReserveFailed"
  "EventTypeOrderCancelled \<noteq> EventTypeStockReleased" "EventTypeOrderCancelled \<noteq> EventTypePaymentCompleted"
  "EventTypeOrderCancelled \<noteq> EventTypePaymentFailed"
  "EventTypeStockReserved \<noteq> EventTypeOrderCreated" "EventTypeStockReserved \<noteq> EventTypeOrderCompleted"
  "EventTypeStockReserved \<noteq> EventTypeOrderCancelled" "EventTypeStockReserved \<noteq> EventTypeStockReserveFailed"
  "EventTypeStockReserved \<noteq> EventTypeStockReleased" "EventTypeStockReserved \<noteq> EventTypePaymentCompleted"
  "EventTypeStockReserved \<noteq> EventTypePaymentFailed"
  "EventTypeStockReserveFailed \<noteq> EventTypeOrderCreated" "EventTypeStockReserveFailed \<noteq> EventTypeOrderCompleted"
  "EventTypeStockReserveFailed \<noteq> EventTypeOrderCancelled" "EventTypeStockReserveFailed \<noteq> EventTypeStockReserved"
  "EventTypeStockReserveFailed \<noteq> EventTypeStockReleased" "EventTypeStockReserveFailed \<noteq> EventTypePaymentCompleted"
  "EventTypeStockReserveFailed \<noteq> EventTypePaymentFailed"
  "EventTypeStockReleased \<noteq> EventTypeOrderCreated" "EventTypeStockReleased \<noteq> EventTypeOrderCompleted"
  "EventTypeStockReleased \<noteq> EventTypeOrderCancelled" "EventTypeStockReleased \<noteq> EventTypeStockReserved"
  "EventTypeStockReleased \<noteq> EventTypeStockReserveFailed" "EventTypeStockReleased \<noteq> EventTypePaymentCompleted"
  "EventTypeStockReleased \<noteq> EventTypePaymentFailed"
  "EventTypePaymentCompleted \<noteq> EventTypeOrderCreated" "EventTypePaymentCompleted \<noteq> EventTypeOrderCompleted"
  "EventTypePaymentCompleted \<noteq> EventTypeOrderCancelled" "EventTypePaymentCompleted \<noteq> EventTypeStockReserved"
  "EventTypePaymentCompleted \<noteq> EventTypeStockReserveFailed" "EventTypePaymentCompleted \<noteq> EventTypeStockReleased"
  "EventTypePaymentCompleted \<noteq> EventTypePaymentFailed"
  "EventTypePaymentFailed \<noteq> EventTypeOrderCreated" "EventTypePaymentFailed \<noteq> EventTypeOrderCompleted"
  "EventTypePaymentFailed \<noteq> EventTypeOrderCancelled" "EventTypePaymentFailed \<noteq> EventTypeStockReserved"
  "EventTypePaymentFailed \<noteq> EventTypeStockReserveFailed" "EventTypePaymentFailed \<noteq> EventTypeStockReleased"
  "EventTypePaymentFailed \<noteq> EventTypePaymentCompleted"
  by (simp_all add: EventType_defs)

lemma event_type_texts:
  assumes "varchar_ok sys"
  shows "text_ok sys 255 EventTypeOrderCreated" "text_ok sys 255 EventTypeOrderCompleted"
    "text_ok sys 255 EventTypeOrderCancelled" "text_ok sys 255 EventTypeStockReserved"
    "text_ok sys 255 EventTypeStockReserveFailed" "text_ok sys 255 EventTypePaymentCompleted"
    "text_ok sys 255 EventTypePaymentFailed"
  using assms by (simp_all add: varchar_ok_def ascii_text_def EventType_defs)

section \<open>Event structs and their constructors\<close>

record BaseEvent =
  EventID :: string
  EventType :: string
  Timestamp :: int

text \<open>A fresh ID and the current time.\<close>

definition NewBaseEvent :: "sys \<Rightarrow> string \<Rightarrow> ('db pg, BaseEvent) go" where
  "NewBaseEvent sys eventType =
     go_bind (go_uuid sys) (\<lambda>id.
     go_bind (go_now sys) (\<lambda>now.
     go_return \<lparr>EventID = id, EventType = eventType, Timestamp = now\<rparr>))"

lemma wpc_NewBaseEvent [wp]:
  "wpc (NewBaseEvent sys ety) Q E s =
     Q \<lparr>EventID = uuid_New sys (tick s), EventType = ety, Timestamp = time_Now sys (Suc (tick s))\<rparr>
       (s\<lparr>tick := Suc (Suc (tick s))\<rparr>)"
  by (simp add: NewBaseEvent_def wp)

record OrderCreatedEvent = BaseEvent +
  oc_OrderID :: string
  oc_CustomerID :: string
  oc_ProductID :: string
  oc_Quantity :: go_int
  oc_TotalAmount :: float64

definition NewOrderCreatedEvent ::
  "sys \<Rightarrow> string \<Rightarrow> string \<Rightarrow> string \<Rightarrow> go_int \<Rightarrow> float64 \<Rightarrow> ('db pg, OrderCreatedEvent) go" where
  "NewOrderCreatedEvent sys orderID customerID productID quantity totalAmount =
     go_bind (NewBaseEvent sys EventTypeOrderCreated) (\<lambda>b.
     go_return
       \<lparr>EventID = EventID b, EventType = EventType b, Timestamp = Timestamp b,
        oc_OrderID = orderID, oc_CustomerID = customerID, oc_ProductID = productID, oc_Quantity = quantity, oc_TotalAmount = totalAmount\<rparr>)"

record OrderCompletedEvent = BaseEvent +
  od_OrderID :: string

definition NewOrderCompletedEvent ::
  "sys \<Rightarrow> string \<Rightarrow> ('db pg, OrderCompletedEvent) go" where
  "NewOrderCompletedEvent sys orderID =
     go_bind (NewBaseEvent sys EventTypeOrderCompleted) (\<lambda>b.
     go_return
       \<lparr>EventID = EventID b, EventType = EventType b, Timestamp = Timestamp b,
        od_OrderID = orderID\<rparr>)"

record OrderCancelledEvent = BaseEvent +
  ox_OrderID :: string
  ox_Reason :: string

definition NewOrderCancelledEvent ::
  "sys \<Rightarrow> string \<Rightarrow> string \<Rightarrow> ('db pg, OrderCancelledEvent) go" where
  "NewOrderCancelledEvent sys orderID reason =
     go_bind (NewBaseEvent sys EventTypeOrderCancelled) (\<lambda>b.
     go_return
       \<lparr>EventID = EventID b, EventType = EventType b, Timestamp = Timestamp b,
        ox_OrderID = orderID, ox_Reason = reason\<rparr>)"

record StockReservedEvent = BaseEvent +
  sr_OrderID :: string
  sr_ProductID :: string
  sr_Quantity :: go_int
  sr_ReservationID :: string
  sr_CustomerID :: string
  sr_TotalAmount :: float64

definition NewStockReservedEvent ::
  "sys \<Rightarrow> string \<Rightarrow> string \<Rightarrow> go_int \<Rightarrow> string \<Rightarrow> string \<Rightarrow> float64 \<Rightarrow> ('db pg, StockReservedEvent) go" where
  "NewStockReservedEvent sys orderID productID quantity reservationID customerID totalAmount =
     go_bind (NewBaseEvent sys EventTypeStockReserved) (\<lambda>b.
     go_return
       \<lparr>EventID = EventID b, EventType = EventType b, Timestamp = Timestamp b,
        sr_OrderID = orderID, sr_ProductID = productID, sr_Quantity = quantity, sr_ReservationID = reservationID, sr_CustomerID = customerID, sr_TotalAmount = totalAmount\<rparr>)"

record StockReserveFailedEvent = BaseEvent +
  sf_OrderID :: string
  sf_ProductID :: string
  sf_Quantity :: go_int
  sf_Reason :: string

definition NewStockReserveFailedEvent ::
  "sys \<Rightarrow> string \<Rightarrow> string \<Rightarrow> go_int \<Rightarrow> string \<Rightarrow> ('db pg, StockReserveFailedEvent) go" where
  "NewStockReserveFailedEvent sys orderID productID quantity reason =
     go_bind (NewBaseEvent sys EventTypeStockReserveFailed) (\<lambda>b.
     go_return
       \<lparr>EventID = EventID b, EventType = EventType b, Timestamp = Timestamp b,
        sf_OrderID = orderID, sf_ProductID = productID, sf_Quantity = quantity, sf_Reason = reason\<rparr>)"

record StockReleasedEvent = BaseEvent +
  sl_OrderID :: string
  sl_ProductID :: string
  sl_Quantity :: go_int
  sl_ReservationID :: string

definition NewStockReleasedEvent ::
  "sys \<Rightarrow> string \<Rightarrow> string \<Rightarrow> go_int \<Rightarrow> string \<Rightarrow> ('db pg, StockReleasedEvent) go" where
  "NewStockReleasedEvent sys orderID productID quantity reservationID =
     go_bind (NewBaseEvent sys EventTypeStockReleased) (\<lambda>b.
     go_return
       \<lparr>EventID = EventID b, EventType = EventType b, Timestamp = Timestamp b,
        sl_OrderID = orderID, sl_ProductID = productID, sl_Quantity = quantity, sl_ReservationID = reservationID\<rparr>)"

record PaymentCompletedEvent = BaseEvent +
  pc_OrderID :: string
  pc_PaymentID :: string
  pc_Amount :: float64

definition NewPaymentCompletedEvent ::
  "sys \<Rightarrow> string \<Rightarrow> string \<Rightarrow> float64 \<Rightarrow> ('db pg, PaymentCompletedEvent) go" where
  "NewPaymentCompletedEvent sys orderID paymentID amount =
     go_bind (NewBaseEvent sys EventTypePaymentCompleted) (\<lambda>b.
     go_return
       \<lparr>EventID = EventID b, EventType = EventType b, Timestamp = Timestamp b,
        pc_OrderID = orderID, pc_PaymentID = paymentID, pc_Amount = amount\<rparr>)"

record PaymentFailedEvent = BaseEvent +
  pf_OrderID :: string
  pf_Reason :: string

definition NewPaymentFailedEvent ::
  "sys \<Rightarrow> string \<Rightarrow> string \<Rightarrow> ('db pg, PaymentFailedEvent) go" where
  "NewPaymentFailedEvent sys orderID reason =
     go_bind (NewBaseEvent sys EventTypePaymentFailed) (\<lambda>b.
     go_return
       \<lparr>EventID = EventID b, EventType = EventType b, Timestamp = Timestamp b,
        pf_OrderID = orderID, pf_Reason = reason\<rparr>)"

lemmas NewEvent_defs =
  NewOrderCreatedEvent_def
  NewOrderCompletedEvent_def
  NewOrderCancelledEvent_def
  NewStockReservedEvent_def
  NewStockReserveFailedEvent_def
  NewStockReleasedEvent_def
  NewPaymentCompletedEvent_def
  NewPaymentFailedEvent_def

section \<open>Encoding\<close>

text \<open>Any event, as the argument of \<open>ToJSON\<close> and of the outbox publisher.\<close>

datatype event =
    EvOrderCreated OrderCreatedEvent
  | EvOrderCompleted OrderCompletedEvent
  | EvOrderCancelled OrderCancelledEvent
  | EvStockReserved StockReservedEvent
  | EvStockReserveFailed StockReserveFailedEvent
  | EvStockReleased StockReleasedEvent
  | EvPaymentCompleted PaymentCompletedEvent
  | EvPaymentFailed PaymentFailedEvent

definition marshal_float :: "sys \<Rightarrow> float64 \<Rightarrow> json" where
  "marshal_float sys x = (case float_text sys x of Inl i \<Rightarrow> JInt i | Inr r \<Rightarrow> JDec r)"

definition marshal_base :: "sys \<Rightarrow> 'z BaseEvent_scheme \<Rightarrow> (string \<times> json) list" where
  "marshal_base sys e =
     [(''event_id'', JStr (EventID e)), (''event_type'', JStr (EventType e)),
      (''timestamp'', JStr (time_text sys (Timestamp e)))]"

fun event_members :: "sys \<Rightarrow> event \<Rightarrow> (string \<times> json) list" where
  "event_members sys (EvOrderCreated e) = marshal_base sys e @
     [(''order_id'', JStr (oc_OrderID e)),
      (''customer_id'', JStr (oc_CustomerID e)),
      (''product_id'', JStr (oc_ProductID e)),
      (''quantity'', JInt (sint (oc_Quantity e))),
      (''total_amount'', marshal_float sys (oc_TotalAmount e))]"
| "event_members sys (EvOrderCompleted e) = marshal_base sys e @
     [(''order_id'', JStr (od_OrderID e))]"
| "event_members sys (EvOrderCancelled e) = marshal_base sys e @
     [(''order_id'', JStr (ox_OrderID e)),
      (''reason'', JStr (ox_Reason e))]"
| "event_members sys (EvStockReserved e) = marshal_base sys e @
     [(''order_id'', JStr (sr_OrderID e)),
      (''product_id'', JStr (sr_ProductID e)),
      (''quantity'', JInt (sint (sr_Quantity e))),
      (''reservation_id'', JStr (sr_ReservationID e)),
      (''customer_id'', JStr (sr_CustomerID e)),
      (''total_amount'', marshal_float sys (sr_TotalAmount e))]"
| "event_members sys (EvStockReserveFailed e) = marshal_base sys e @
     [(''order_id'', JStr (sf_OrderID e)),
      (''product_id'', JStr (sf_ProductID e)),
      (''quantity'', JInt (sint (sf_Quantity e))),
      (''reason'', JStr (sf_Reason e))]"
| "event_members sys (EvStockReleased e) = marshal_base sys e @
     [(''order_id'', JStr (sl_OrderID e)),
      (''product_id'', JStr (sl_ProductID e)),
      (''quantity'', JInt (sint (sl_Quantity e))),
      (''reservation_id'', JStr (sl_ReservationID e))]"
| "event_members sys (EvPaymentCompleted e) = marshal_base sys e @
     [(''order_id'', JStr (pc_OrderID e)),
      (''payment_id'', JStr (pc_PaymentID e)),
      (''amount'', marshal_float sys (pc_Amount e))]"
| "event_members sys (EvPaymentFailed e) = marshal_base sys e @
     [(''order_id'', JStr (pf_OrderID e)),
      (''reason'', JStr (pf_Reason e))]"

text \<open>\<open>json.Marshal\<close> has no value it refuses among these structs.\<close>

definition ToJSON :: "sys \<Rightarrow> event \<Rightarrow> err + json" where
  "ToJSON sys ev = Inr (JObj (event_members sys ev))"

fun event_base :: "event \<Rightarrow> BaseEvent" where
  "event_base (EvOrderCreated e) = BaseEvent.truncate e"
| "event_base (EvOrderCompleted e) = BaseEvent.truncate e"
| "event_base (EvOrderCancelled e) = BaseEvent.truncate e"
| "event_base (EvStockReserved e) = BaseEvent.truncate e"
| "event_base (EvStockReserveFailed e) = BaseEvent.truncate e"
| "event_base (EvStockReleased e) = BaseEvent.truncate e"
| "event_base (EvPaymentCompleted e) = BaseEvent.truncate e"
| "event_base (EvPaymentFailed e) = BaseEvent.truncate e"

definition event_id :: "event \<Rightarrow> string" where
  "event_id ev = EventID (event_base ev)"

section \<open>Decoding\<close>

definition base_fields :: "sys \<Rightarrow> (string \<times> 'z BaseEvent_scheme field) list" where
  "base_fields sys =
     [(''event_id'', field_of dec_string EventID EventID_update),
      (''event_type'', field_of dec_string EventType EventType_update),
      (''timestamp'', field_of (dec_time (time_parse sys)) Timestamp Timestamp_update)]"

text \<open>A struct starts from its zero value; the zero \<open>time.Time\<close> is 1 January of year 1.\<close>

definition zero_time :: int where
  "zero_time = - 62135596800000000000"

definition oc_fields :: "sys \<Rightarrow> (string \<times> OrderCreatedEvent field) list" where
  "oc_fields sys = base_fields sys @
     [(''order_id'', field_of dec_string oc_OrderID oc_OrderID_update),
      (''customer_id'', field_of dec_string oc_CustomerID oc_CustomerID_update),
      (''product_id'', field_of dec_string oc_ProductID oc_ProductID_update),
      (''quantity'', field_of dec_int oc_Quantity oc_Quantity_update),
      (''total_amount'', field_of dec_float oc_TotalAmount oc_TotalAmount_update)]"

definition oc_zero :: OrderCreatedEvent where
  "oc_zero =
     \<lparr>EventID = '''', EventType = '''', Timestamp = zero_time,
      oc_OrderID = '''', oc_CustomerID = '''', oc_ProductID = '''', oc_Quantity = 0, oc_TotalAmount = 0\<rparr>"

definition ParseOrderCreatedEvent :: "sys \<Rightarrow> wire \<Rightarrow> err + OrderCreatedEvent" where
  "ParseOrderCreatedEvent sys data = json_Unmarshal (oc_fields sys) oc_zero data"

definition od_fields :: "sys \<Rightarrow> (string \<times> OrderCompletedEvent field) list" where
  "od_fields sys = base_fields sys @
     [(''order_id'', field_of dec_string od_OrderID od_OrderID_update)]"

definition od_zero :: OrderCompletedEvent where
  "od_zero =
     \<lparr>EventID = '''', EventType = '''', Timestamp = zero_time,
      od_OrderID = ''''\<rparr>"

definition ParseOrderCompletedEvent :: "sys \<Rightarrow> wire \<Rightarrow> err + OrderCompletedEvent" where
  "ParseOrderCompletedEvent sys data = json_Unmarshal (od_fields sys) od_zero data"

definition ox_fields :: "sys \<Rightarrow> (string \<times> OrderCancelledEvent field) list" where
  "ox_fields sys = base_fields sys @
     [(''order_id'', field_of dec_string ox_OrderID ox_OrderID_update),
      (''reason'', field_of dec_string ox_Reason ox_Reason_update)]"

definition ox_zero :: OrderCancelledEvent where
  "ox_zero =
     \<lparr>EventID = '''', EventType = '''', Timestamp = zero_time,
      ox_OrderID = '''', ox_Reason = ''''\<rparr>"

definition ParseOrderCancelledEvent :: "sys \<Rightarrow> wire \<Rightarrow> err + OrderCancelledEvent" where
  "ParseOrderCancelledEvent sys data = json_Unmarshal (ox_fields sys) ox_zero data"

definition sr_fields :: "sys \<Rightarrow> (string \<times> StockReservedEvent field) list" where
  "sr_fields sys = base_fields sys @
     [(''order_id'', field_of dec_string sr_OrderID sr_OrderID_update),
      (''product_id'', field_of dec_string sr_ProductID sr_ProductID_update),
      (''quantity'', field_of dec_int sr_Quantity sr_Quantity_update),
      (''reservation_id'', field_of dec_string sr_ReservationID sr_ReservationID_update),
      (''customer_id'', field_of dec_string sr_CustomerID sr_CustomerID_update),
      (''total_amount'', field_of dec_float sr_TotalAmount sr_TotalAmount_update)]"

definition sr_zero :: StockReservedEvent where
  "sr_zero =
     \<lparr>EventID = '''', EventType = '''', Timestamp = zero_time,
      sr_OrderID = '''', sr_ProductID = '''', sr_Quantity = 0, sr_ReservationID = '''', sr_CustomerID = '''', sr_TotalAmount = 0\<rparr>"

definition ParseStockReservedEvent :: "sys \<Rightarrow> wire \<Rightarrow> err + StockReservedEvent" where
  "ParseStockReservedEvent sys data = json_Unmarshal (sr_fields sys) sr_zero data"

definition sf_fields :: "sys \<Rightarrow> (string \<times> StockReserveFailedEvent field) list" where
  "sf_fields sys = base_fields sys @
     [(''order_id'', field_of dec_string sf_OrderID sf_OrderID_update),
      (''product_id'', field_of dec_string sf_ProductID sf_ProductID_update),
      (''quantity'', field_of dec_int sf_Quantity sf_Quantity_update),
      (''reason'', field_of dec_string sf_Reason sf_Reason_update)]"

definition sf_zero :: StockReserveFailedEvent where
  "sf_zero =
     \<lparr>EventID = '''', EventType = '''', Timestamp = zero_time,
      sf_OrderID = '''', sf_ProductID = '''', sf_Quantity = 0, sf_Reason = ''''\<rparr>"

definition ParseStockReserveFailedEvent :: "sys \<Rightarrow> wire \<Rightarrow> err + StockReserveFailedEvent" where
  "ParseStockReserveFailedEvent sys data = json_Unmarshal (sf_fields sys) sf_zero data"

definition pc_fields :: "sys \<Rightarrow> (string \<times> PaymentCompletedEvent field) list" where
  "pc_fields sys = base_fields sys @
     [(''order_id'', field_of dec_string pc_OrderID pc_OrderID_update),
      (''payment_id'', field_of dec_string pc_PaymentID pc_PaymentID_update),
      (''amount'', field_of dec_float pc_Amount pc_Amount_update)]"

definition pc_zero :: PaymentCompletedEvent where
  "pc_zero =
     \<lparr>EventID = '''', EventType = '''', Timestamp = zero_time,
      pc_OrderID = '''', pc_PaymentID = '''', pc_Amount = 0\<rparr>"

definition ParsePaymentCompletedEvent :: "sys \<Rightarrow> wire \<Rightarrow> err + PaymentCompletedEvent" where
  "ParsePaymentCompletedEvent sys data = json_Unmarshal (pc_fields sys) pc_zero data"

definition pf_fields :: "sys \<Rightarrow> (string \<times> PaymentFailedEvent field) list" where
  "pf_fields sys = base_fields sys @
     [(''order_id'', field_of dec_string pf_OrderID pf_OrderID_update),
      (''reason'', field_of dec_string pf_Reason pf_Reason_update)]"

definition pf_zero :: PaymentFailedEvent where
  "pf_zero =
     \<lparr>EventID = '''', EventType = '''', Timestamp = zero_time,
      pf_OrderID = '''', pf_Reason = ''''\<rparr>"

definition ParsePaymentFailedEvent :: "sys \<Rightarrow> wire \<Rightarrow> err + PaymentFailedEvent" where
  "ParsePaymentFailedEvent sys data = json_Unmarshal (pf_fields sys) pf_zero data"

section \<open>Decoding gives back what was encoded\<close>

text \<open>
  A Timestamp in the range RFC 3339 can write, and finite amounts, as every event of the services
  has. JSONB does not keep the order of an object's members, so the lemmas hold for every order.
\<close>

definition writable_time :: "int \<Rightarrow> bool" where
  "writable_time t \<longleftrightarrow> 0 \<le> t \<and> t < 253402300800000000000"

lemma ascii_lower_keys:
  "ascii_lower ''event_id'' = ''event_id''" "ascii_lower ''event_type'' = ''event_type''"
  "ascii_lower ''timestamp'' = ''timestamp''" "ascii_lower ''order_id'' = ''order_id''"
  "ascii_lower ''customer_id'' = ''customer_id''" "ascii_lower ''product_id'' = ''product_id''"
  "ascii_lower ''quantity'' = ''quantity''" "ascii_lower ''total_amount'' = ''total_amount''"
  "ascii_lower ''reservation_id'' = ''reservation_id''" "ascii_lower ''reason'' = ''reason''"
  "ascii_lower ''payment_id'' = ''payment_id''" "ascii_lower ''amount'' = ''amount''"
  by (simp_all add: ascii_lower_def)

lemma decode_marshalled_float:
  "codecs_ok sys \<Longrightarrow> is_f64 x \<Longrightarrow> dec_float (marshal_float sys x) cur = Inr x"
  by (cases "float_text sys x")
     (auto simp: codecs_ok_def marshal_float_def dec_number_def json_number_def split: option.splits)

lemma decode_time:
  "codecs_ok sys \<Longrightarrow> writable_time t \<Longrightarrow> time_parse sys (time_text sys t) = Some t"
  by (simp add: codecs_ok_def writable_time_def)


text \<open>The event types' member decoders, by name.\<close>

lemma oc_member:
  "dec_member (oc_fields sys) ''event_id'' = field_of dec_string EventID EventID_update"
  "dec_member (oc_fields sys) ''event_type'' = field_of dec_string EventType EventType_update"
  "dec_member (oc_fields sys) ''timestamp'' = field_of (dec_time (time_parse sys)) Timestamp Timestamp_update"
  "dec_member (oc_fields sys) ''order_id'' = field_of dec_string oc_OrderID oc_OrderID_update"
  "dec_member (oc_fields sys) ''customer_id'' = field_of dec_string oc_CustomerID oc_CustomerID_update"
  "dec_member (oc_fields sys) ''product_id'' = field_of dec_string oc_ProductID oc_ProductID_update"
  "dec_member (oc_fields sys) ''quantity'' = field_of dec_int oc_Quantity oc_Quantity_update"
  "dec_member (oc_fields sys) ''total_amount'' = field_of dec_float oc_TotalAmount oc_TotalAmount_update"
  by (simp_all add: dec_member_def fun_eq_iff ascii_lower_keys oc_fields_def base_fields_def)

lemma od_member:
  "dec_member (od_fields sys) ''event_id'' = field_of dec_string EventID EventID_update"
  "dec_member (od_fields sys) ''event_type'' = field_of dec_string EventType EventType_update"
  "dec_member (od_fields sys) ''timestamp'' = field_of (dec_time (time_parse sys)) Timestamp Timestamp_update"
  "dec_member (od_fields sys) ''order_id'' = field_of dec_string od_OrderID od_OrderID_update"
  by (simp_all add: dec_member_def fun_eq_iff ascii_lower_keys od_fields_def base_fields_def)

lemma ox_member:
  "dec_member (ox_fields sys) ''event_id'' = field_of dec_string EventID EventID_update"
  "dec_member (ox_fields sys) ''event_type'' = field_of dec_string EventType EventType_update"
  "dec_member (ox_fields sys) ''timestamp'' = field_of (dec_time (time_parse sys)) Timestamp Timestamp_update"
  "dec_member (ox_fields sys) ''order_id'' = field_of dec_string ox_OrderID ox_OrderID_update"
  "dec_member (ox_fields sys) ''reason'' = field_of dec_string ox_Reason ox_Reason_update"
  by (simp_all add: dec_member_def fun_eq_iff ascii_lower_keys ox_fields_def base_fields_def)

lemma sr_member:
  "dec_member (sr_fields sys) ''event_id'' = field_of dec_string EventID EventID_update"
  "dec_member (sr_fields sys) ''event_type'' = field_of dec_string EventType EventType_update"
  "dec_member (sr_fields sys) ''timestamp'' = field_of (dec_time (time_parse sys)) Timestamp Timestamp_update"
  "dec_member (sr_fields sys) ''order_id'' = field_of dec_string sr_OrderID sr_OrderID_update"
  "dec_member (sr_fields sys) ''product_id'' = field_of dec_string sr_ProductID sr_ProductID_update"
  "dec_member (sr_fields sys) ''quantity'' = field_of dec_int sr_Quantity sr_Quantity_update"
  "dec_member (sr_fields sys) ''reservation_id'' = field_of dec_string sr_ReservationID sr_ReservationID_update"
  "dec_member (sr_fields sys) ''customer_id'' = field_of dec_string sr_CustomerID sr_CustomerID_update"
  "dec_member (sr_fields sys) ''total_amount'' = field_of dec_float sr_TotalAmount sr_TotalAmount_update"
  by (simp_all add: dec_member_def fun_eq_iff ascii_lower_keys sr_fields_def base_fields_def)

lemma sf_member:
  "dec_member (sf_fields sys) ''event_id'' = field_of dec_string EventID EventID_update"
  "dec_member (sf_fields sys) ''event_type'' = field_of dec_string EventType EventType_update"
  "dec_member (sf_fields sys) ''timestamp'' = field_of (dec_time (time_parse sys)) Timestamp Timestamp_update"
  "dec_member (sf_fields sys) ''order_id'' = field_of dec_string sf_OrderID sf_OrderID_update"
  "dec_member (sf_fields sys) ''product_id'' = field_of dec_string sf_ProductID sf_ProductID_update"
  "dec_member (sf_fields sys) ''quantity'' = field_of dec_int sf_Quantity sf_Quantity_update"
  "dec_member (sf_fields sys) ''reason'' = field_of dec_string sf_Reason sf_Reason_update"
  by (simp_all add: dec_member_def fun_eq_iff ascii_lower_keys sf_fields_def base_fields_def)

lemma pc_member:
  "dec_member (pc_fields sys) ''event_id'' = field_of dec_string EventID EventID_update"
  "dec_member (pc_fields sys) ''event_type'' = field_of dec_string EventType EventType_update"
  "dec_member (pc_fields sys) ''timestamp'' = field_of (dec_time (time_parse sys)) Timestamp Timestamp_update"
  "dec_member (pc_fields sys) ''order_id'' = field_of dec_string pc_OrderID pc_OrderID_update"
  "dec_member (pc_fields sys) ''payment_id'' = field_of dec_string pc_PaymentID pc_PaymentID_update"
  "dec_member (pc_fields sys) ''amount'' = field_of dec_float pc_Amount pc_Amount_update"
  by (simp_all add: dec_member_def fun_eq_iff ascii_lower_keys pc_fields_def base_fields_def)

lemma pf_member:
  "dec_member (pf_fields sys) ''event_id'' = field_of dec_string EventID EventID_update"
  "dec_member (pf_fields sys) ''event_type'' = field_of dec_string EventType EventType_update"
  "dec_member (pf_fields sys) ''timestamp'' = field_of (dec_time (time_parse sys)) Timestamp Timestamp_update"
  "dec_member (pf_fields sys) ''order_id'' = field_of dec_string pf_OrderID pf_OrderID_update"
  "dec_member (pf_fields sys) ''reason'' = field_of dec_string pf_Reason pf_Reason_update"
  by (simp_all add: dec_member_def fun_eq_iff ascii_lower_keys pf_fields_def base_fields_def)

lemmas decode_members =
  oc_member od_member ox_member sr_member sf_member pc_member pf_member

lemmas decode_simps =
  marshal_base_def decode_members field_of_def decode_marshalled_float decode_time

text \<open>
  The contract of a struct and its encoding: every member decodes, members of different fields do
  not disturb each other, and together they rebuild the event from the zero value.
\<close>

locale event_codec =
  fixes fields :: "(string \<times> 'e field) list"
    and members :: "'e \<Rightarrow> (string \<times> json) list"
    and zero :: 'e
    and valid :: "'e \<Rightarrow> bool"
  assumes members_decode: "valid e \<Longrightarrow> (k, v) \<in> set (members e) \<Longrightarrow> isl (dec_member fields k v x) = False"
    and updates_commute: "valid e \<Longrightarrow> m \<in> set (members e) \<Longrightarrow> m' \<in> set (members e) \<Longrightarrow>
      member_update fields m \<circ> member_update fields m' = member_update fields m' \<circ> member_update fields m"
    and updates_rebuild: "valid e \<Longrightarrow> fold (member_update fields) (members e) zero = e"
begin

lemma unmarshal_encoded:
  assumes "valid e" and "mset ms = mset (members e)"
  shows "json_Unmarshal fields zero (Some (JObj ms)) = Inr e"
proof -
  have "json_Unmarshal fields zero (Some (JObj ms)) =
      Inr (fold (member_update fields) (members e) zero)"
    by (rule unmarshal_any_order [OF members_decode [OF assms(1)] updates_commute [OF assms(1)] assms(2)])
  with assms(1) show ?thesis by (simp only: updates_rebuild)
qed

end

fun event_ok :: "sys \<Rightarrow> event \<Rightarrow> bool" where
  "event_ok sys (EvOrderCreated e) \<longleftrightarrow> writable_time (Timestamp e) \<and> is_f64 (oc_TotalAmount e)"
| "event_ok sys (EvOrderCompleted e) \<longleftrightarrow> writable_time (Timestamp e)"
| "event_ok sys (EvOrderCancelled e) \<longleftrightarrow> writable_time (Timestamp e)"
| "event_ok sys (EvStockReserved e) \<longleftrightarrow> writable_time (Timestamp e) \<and> is_f64 (sr_TotalAmount e)"
| "event_ok sys (EvStockReserveFailed e) \<longleftrightarrow> writable_time (Timestamp e)"
| "event_ok sys (EvStockReleased e) \<longleftrightarrow> writable_time (Timestamp e)"
| "event_ok sys (EvPaymentCompleted e) \<longleftrightarrow> writable_time (Timestamp e) \<and> is_f64 (pc_Amount e)"
| "event_ok sys (EvPaymentFailed e) \<longleftrightarrow> writable_time (Timestamp e)"

interpretation oc_codec: event_codec "oc_fields sys" "\<lambda>e. event_members sys (EvOrderCreated e)" oc_zero
    "\<lambda>e. codecs_ok sys \<and> event_ok sys (EvOrderCreated e)" for sys
  by unfold_locales (auto simp: member_update_def decode_simps fun_eq_iff oc_zero_def)

interpretation od_codec: event_codec "od_fields sys" "\<lambda>e. event_members sys (EvOrderCompleted e)" od_zero
    "\<lambda>e. codecs_ok sys \<and> event_ok sys (EvOrderCompleted e)" for sys
  by unfold_locales (auto simp: member_update_def decode_simps fun_eq_iff od_zero_def)

interpretation ox_codec: event_codec "ox_fields sys" "\<lambda>e. event_members sys (EvOrderCancelled e)" ox_zero
    "\<lambda>e. codecs_ok sys \<and> event_ok sys (EvOrderCancelled e)" for sys
  by unfold_locales (auto simp: member_update_def decode_simps fun_eq_iff ox_zero_def)

interpretation sr_codec: event_codec "sr_fields sys" "\<lambda>e. event_members sys (EvStockReserved e)" sr_zero
    "\<lambda>e. codecs_ok sys \<and> event_ok sys (EvStockReserved e)" for sys
  by unfold_locales (auto simp: member_update_def decode_simps fun_eq_iff sr_zero_def)

interpretation sf_codec: event_codec "sf_fields sys" "\<lambda>e. event_members sys (EvStockReserveFailed e)" sf_zero
    "\<lambda>e. codecs_ok sys \<and> event_ok sys (EvStockReserveFailed e)" for sys
  by unfold_locales (auto simp: member_update_def decode_simps fun_eq_iff sf_zero_def)

interpretation pc_codec: event_codec "pc_fields sys" "\<lambda>e. event_members sys (EvPaymentCompleted e)" pc_zero
    "\<lambda>e. codecs_ok sys \<and> event_ok sys (EvPaymentCompleted e)" for sys
  by unfold_locales (auto simp: member_update_def decode_simps fun_eq_iff pc_zero_def)

interpretation pf_codec: event_codec "pf_fields sys" "\<lambda>e. event_members sys (EvPaymentFailed e)" pf_zero
    "\<lambda>e. codecs_ok sys \<and> event_ok sys (EvPaymentFailed e)" for sys
  by unfold_locales (auto simp: member_update_def decode_simps fun_eq_iff pf_zero_def)

lemmas ParseEvent_defs =
  ParseOrderCreatedEvent_def ParseOrderCompletedEvent_def ParseOrderCancelledEvent_def
  ParseStockReservedEvent_def ParseStockReserveFailedEvent_def ParsePaymentCompletedEvent_def
  ParsePaymentFailedEvent_def

lemma event_members_distinct: "distinct (map fst (event_members sys ev))"
  by (cases ev) (simp_all add: marshal_base_def)

text \<open>
  C18: an event written to the outbox as JSON, stored as JSONB and read back by the parser of its
  type is the event that was written, every field included; only StockReleased has no parser.
\<close>

theorem event_roundtrip:
  assumes "codecs_ok sys" and "jsonb_ok sys" and "event_ok sys ev"
    and "ToJSON sys ev = Inr doc" and "jsonb_in sys doc = Some stored"
  shows "case ev of
      EvOrderCreated e \<Rightarrow> ParseOrderCreatedEvent sys (Some stored) = Inr e
    | EvOrderCompleted e \<Rightarrow> ParseOrderCompletedEvent sys (Some stored) = Inr e
    | EvOrderCancelled e \<Rightarrow> ParseOrderCancelledEvent sys (Some stored) = Inr e
    | EvStockReserved e \<Rightarrow> ParseStockReservedEvent sys (Some stored) = Inr e
    | EvStockReserveFailed e \<Rightarrow> ParseStockReserveFailedEvent sys (Some stored) = Inr e
    | EvStockReleased e \<Rightarrow> doc = JObj (event_members sys (EvStockReleased e))
    | EvPaymentCompleted e \<Rightarrow> ParsePaymentCompletedEvent sys (Some stored) = Inr e
    | EvPaymentFailed e \<Rightarrow> ParsePaymentFailedEvent sys (Some stored) = Inr e"
proof -
  obtain ms where "stored = JObj ms" "mset ms = mset (event_members sys ev)"
    using assms(2,4,5) event_members_distinct [of sys ev] unfolding jsonb_ok_def ToJSON_def by blast
  with assms(1,3,4) show ?thesis
    by (cases ev)
       (simp_all add: ParseEvent_defs ToJSON_def oc_codec.unmarshal_encoded od_codec.unmarshal_encoded
          ox_codec.unmarshal_encoded sr_codec.unmarshal_encoded sf_codec.unmarshal_encoded
          pc_codec.unmarshal_encoded pf_codec.unmarshal_encoded del: event_members.simps)
qed

definition sample_reserved :: StockReservedEvent where
  "sample_reserved =
     \<lparr>EventID = ''e'', EventType = EventTypeStockReserved, Timestamp = 5, sr_OrderID = ''o'',
      sr_ProductID = ''p'', sr_Quantity = 2, sr_ReservationID = ''r'', sr_CustomerID = ''c'',
      sr_TotalAmount = 10\<rparr>"

theorem event_roundtrip_witness:
  "ParseStockReservedEvent sample_sys
     (Some (JObj (event_members sample_sys (EvStockReserved sample_reserved)))) = Inr sample_reserved"
proof -
  have "is_f64 10" using round64_int [of 10] by (simp add: is_f64_def)
  then have "event_ok sample_sys (EvStockReserved sample_reserved)"
    by (simp add: sample_reserved_def writable_time_def)
  moreover have "jsonb_in sample_sys j = Some j" for j by (simp add: sample_sys_def)
  ultimately show ?thesis
    using event_roundtrip [of sample_sys "EvStockReserved sample_reserved"] by (simp add: ToJSON_def)
qed

declare event_members.simps [simp del]

end
