(* ===== verification/Outbox.thy ===== *)
theory Outbox
  imports Events
begin

text \<open>
  pkg/outbox: the tables every service database has (\<open>processed_events\<close>, \<open>outbox\<close>), the
  idempotency check, the outbox publisher and the relay that hands pending messages to the broker.

  The two Go interfaces of interfaces.go are locales: \<open>event_idempotency_checker\<close> with the
  laws a handler relies on, and \<open>event_publisher\<close>. The implementations interpret them.
\<close>

section \<open>Tables\<close>

record Message =
  msg_ID :: string
  msg_AggregateType :: string
  msg_AggregateID :: string
  msg_EventType :: string
  msg_Payload :: json
  msg_Status :: string
  msg_RetryCount :: int
  msg_CreatedAt :: int
  msg_ProcessedAt :: "int option"

definition StatusPending :: string where
  "StatusPending = ''PENDING''"

definition StatusSent :: string where
  "StatusSent = ''SENT''"

definition StatusFailed :: string where
  "StatusFailed = ''FAILED''"

definition MaxRetryCount :: int where
  "MaxRetryCount = 5"

lemmas Status_defs = StatusPending_def StatusSent_def StatusFailed_def

text \<open>\<open>processed_events\<close> maps an event ID to its type and the time it was processed.\<close>

record core_db =
  processed_events :: "string \<rightharpoonup> string \<times> int"
  outbox :: "Message list"

definition invalid_uuid :: err where
  "invalid_uuid = Driver ''invalid input syntax for type uuid''"

definition value_too_long :: err where
  "value_too_long = Driver ''value too long for type character varying''"

definition unique_violation :: err where
  "unique_violation = Driver ''duplicate key value violates unique constraint''"

definition check_violation :: err where
  "check_violation = Driver ''new row violates check constraint''"

definition out_of_range :: err where
  "out_of_range = Driver ''value out of range''"


section \<open>Idempotency\<close>

definition ErrEventAlreadyProcessed :: err where
  "ErrEventAlreadyProcessed =
     New ''outbox.ErrEventAlreadyProcessed'' ''event already processed''"

text \<open>Recording a processed event.\<close>

definition mark_processed :: "string \<Rightarrow> string \<Rightarrow> int \<Rightarrow> 'z core_db_scheme \<Rightarrow> 'z core_db_scheme" where
  "mark_processed u ety now db =
     db\<lparr>processed_events := (processed_events db)(u \<mapsto> (ety, now))\<rparr>"

lemma mark_processed_fields [simp]:
  "processed_events (mark_processed u ety now db) = (processed_events db)(u \<mapsto> (ety, now))"
  "outbox (mark_processed u ety now db) = outbox db"
  "core_db.more (mark_processed u ety now db) = core_db.more db"
  by (simp_all add: mark_processed_def)

text \<open>
  \<open>INSERT INTO processed_events ... ON CONFLICT (event_id) DO NOTHING\<close>, with the number of
  rows it inserts.
\<close>

definition insert_processed_event ::
  "sys \<Rightarrow> string \<Rightarrow> string \<Rightarrow> int \<Rightarrow> 'z core_db_scheme \<Rightarrow> (nat, 'z core_db_scheme) reply" where
  "insert_processed_event sys eventID eventType now db =
     (case uuid_in sys eventID of
        None \<Rightarrow> ServerReject invalid_uuid
      | Some u \<Rightarrow>
          if \<not> text_ok sys 255 eventType then ServerReject value_too_long
          else if u \<in> dom (processed_events db) then Done 0 db
          else Done 1 (mark_processed u eventType now db))"

definition CheckAndMark :: "sys \<Rightarrow> string \<Rightarrow> string \<Rightarrow> ('z core_db_scheme pg, unit) go" where
  "CheckAndMark sys eventID eventType =
     go_try (tx_stmt sys (insert_processed_event sys eventID eventType)) ''insert processed event''
       (\<lambda>rows. if rows = 0 then go_fail ErrEventAlreadyProcessed else go_return ())"

definition IsProcessed :: "sys \<Rightarrow> string \<Rightarrow> ('z core_db_scheme pg, bool) go" where
  "IsProcessed sys eventID =
     go_try (pool_stmt sys (\<lambda>now db.
         case uuid_in sys eventID of
           None \<Rightarrow> ServerReject invalid_uuid
         | Some u \<Rightarrow> Done (u \<in> dom (processed_events db)) db))
       ''check processed event'' go_return"

text \<open>
  The prologue of every event handler: \<open>if err := CheckAndMark(...); err != nil\<close>, an event
  that was processed before is skipped with a nil error and any other error is returned; the rest
  of the handler follows.
\<close>

definition idempotency_gate :: "('s, unit) go \<Rightarrow> ('s, unit) go \<Rightarrow> ('s, unit) go" where
  "idempotency_gate check body =
     go_catch check
       (\<lambda>e. if errors_Is e ErrEventAlreadyProcessed then go_return ()
            else go_fail (Errorf ''check idempotency'' e))
       (\<lambda>_. body)"

text \<open>
  What a handler relies on. \<open>canon\<close> is the form in which an event ID is stored.
\<close>

locale event_idempotency_checker =
  fixes check :: "string \<Rightarrow> string \<Rightarrow> ('db pg, unit) go"
    and canon :: "string \<Rightarrow> string option"
    and processed :: "'db \<Rightarrow> string set"
  assumes check_marks:
    "wpc (check eid ety)
       (\<lambda>_ s'. durable s' = durable s \<and> \<not> failed s' \<and>
          (\<exists>u. canon eid = Some u \<and> u \<notin> processed (view s) \<and>
               processed (view s') = insert u (processed (view s))))
       (\<lambda>e s'. durable s' = durable s) s"
begin

text \<open>
  A handler whose body makes at most its own view durable: what it changes is recorded together
  with the event ID, and an event whose ID is recorded changes nothing.
\<close>

lemma handler_records:
  assumes body: "\<And>s. wpc body
      (\<lambda>_ s'. durable s' = durable s \<or> processed (view s) \<subseteq> processed (durable s'))
      (\<lambda>_ s'. durable s' = durable s \<or> processed (view s) \<subseteq> processed (durable s')) s"
  shows "let s' = snd (with_tx sys (idempotency_gate (check eid ety) body) s)
    in durable s' = durable s \<or>
       (\<exists>u. canon eid = Some u \<and> u \<notin> processed (durable s) \<and> u \<in> processed (durable s'))"
proof -
  let ?P = "\<lambda>s'. durable s' = durable s \<or>
       (\<exists>u. canon eid = Some u \<and> u \<notin> processed (durable s) \<and> u \<in> processed (durable s'))"
  have "wpc (idempotency_gate (check eid ety) body) (\<lambda>_. ?P) (\<lambda>_. ?P) s1"
    if s1: "durable s1 = durable s" "view s1 = durable s" for s1
  proof -
    have "wpc body (\<lambda>_. ?P) (\<lambda>_. ?P) s2"
      if "durable s2 = durable s" "canon eid = Some u" "u \<notin> processed (durable s)"
        "processed (view s2) = insert u (processed (durable s))" for s2 u
      by (rule wpc_mono [OF body [of s2]]) (use that in auto)
    then show ?thesis
      unfolding idempotency_gate_def wp
      by (intro wpc_mono [OF check_marks [of eid ety s1]]) (use s1 in \<open>auto simp: wp\<close>)
  qed
  then have "wpc (with_tx sys (idempotency_gate (check eid ety) body)) (\<lambda>_. ?P) (\<lambda>_. ?P) s"
    by (simp add: wpc_with_tx split: option.split)
  then show ?thesis by (simp add: wpc_post Let_def)
qed

lemma redelivery_changes_nothing:
  assumes "canon eid = Some u" and "u \<in> processed (durable s)"
  shows "durable (snd (with_tx sys (idempotency_gate (check eid ety) body) s)) = durable s"
proof -
  let ?P = "\<lambda>s'. durable s' = durable s"
  have "wpc (idempotency_gate (check eid ety) body) (\<lambda>_. ?P) (\<lambda>_. ?P) s1"
    if s1: "durable s1 = durable s" "view s1 = durable s" for s1
    unfolding idempotency_gate_def wp
    by (rule wpc_mono [OF check_marks [of eid ety s1]]) (use s1 assms in \<open>auto simp: wp\<close>)
  then have "wpc (with_tx sys (idempotency_gate (check eid ety) body)) (\<lambda>_. ?P) (\<lambda>_. ?P) s"
    by (simp add: wpc_with_tx split: option.split)
  then show ?thesis by (simp add: wpc_post)
qed

end

lemma wpc_CheckAndMark [wp]:
  "wpc (CheckAndMark sys eid ety) Q E s =
     wpc (tx_stmt sys (insert_processed_event sys eid ety))
       (\<lambda>rows. if rows = 0 then E ErrEventAlreadyProcessed else Q ())
       (\<lambda>e. E (Errorf ''insert processed event'' e)) s"
  by (simp add: CheckAndMark_def wp if_distrib [of "\<lambda>m. wpc m Q E"] cong: if_cong)

interpretation checker: event_idempotency_checker "CheckAndMark sys" "uuid_in sys"
    "\<lambda>db. dom (processed_events db)" for sys
proof
  fix eid ety and s :: "'z core_db_scheme pg"
  show "wpc (CheckAndMark sys eid ety)
       (\<lambda>_ s'. durable s' = durable s \<and> \<not> failed s' \<and>
          (\<exists>u. uuid_in sys eid = Some u \<and> u \<notin> dom (processed_events (view s)) \<and>
               dom (processed_events (view s')) = insert u (dom (processed_events (view s)))))
       (\<lambda>e s'. durable s' = durable s) s"
    by (auto simp: wp insert_processed_event_def split: option.split)
qed

lemma insert_processed_event_Done:
  "insert_processed_event sys eid ety now db = Done n db' \<longleftrightarrow>
     (\<exists>u. uuid_in sys eid = Some u \<and> text_ok sys 255 ety \<and>
        (if u \<in> dom (processed_events db) then n = 0 \<and> db' = db
         else n = 1 \<and> db' = mark_processed u ety now db))"
  by (auto simp: insert_processed_event_def split: option.splits)

lemma not_Some_pair: "(\<forall>a b. x \<noteq> Some (a, b)) \<longleftrightarrow> x = None"
  by (cases x) auto

text \<open>
  What a handler leaves durable: a property of the database it starts from that its body
  establishes on what it commits, started on that database with the event recorded.
\<close>

lemma handler_durable:
  fixes s :: "'z core_db_scheme pg"
  assumes "P (durable s)"
    and "\<And>u s1. uuid_in sys eid = Some u \<Longrightarrow> processed_events (durable s) u = None \<Longrightarrow>
      durable s1 = durable s \<Longrightarrow> \<not> failed s1 \<Longrightarrow>
      view s1 = mark_processed u ety (started s1) (durable s) \<Longrightarrow>
      wpc body (\<lambda>_ s'. P (durable s')) (\<lambda>_ s'. P (durable s')) s1"
  shows "P (durable (snd (with_tx sys (idempotency_gate (CheckAndMark sys eid ety) body) s)))"
proof -
  have "wpc (with_tx sys (idempotency_gate (CheckAndMark sys eid ety) body))
     (\<lambda>_ s'. P (durable s')) (\<lambda>_ s'. P (durable s')) s"
    using assms
    by (auto simp: idempotency_gate_def wp wpc_if insert_processed_event_Done domIff not_Some_pair
         split: option.split reply.split)
  then show ?thesis by (simp add: wpc_post)
qed

text \<open>
  What a handler returns and leaves durable, for an event that was not processed before. Without a
  failure it is what its body returns.
\<close>

lemma handler_outcome:
  fixes s :: "'z core_db_scheme pg"
  assumes fresh: "uuid_in sys eid = Some u" "processed_events (durable s) u = None"
    and err: "\<And>e. \<not> (calm sys (tick s) \<and> text_ok sys 255 ety) \<Longrightarrow> F e (durable s)"
    and body: "\<And>s1. durable s1 = durable s \<Longrightarrow> \<not> failed s1 \<Longrightarrow> calm sys (tick s) \<longrightarrow> calm sys (tick s1) \<Longrightarrow>
      view s1 = mark_processed u ety (started s1) (durable s) \<Longrightarrow>
      wpc body (\<lambda>_ s'. P (durable s')) (\<lambda>e s'. F e (durable s')) s1"
  shows "case with_tx sys (idempotency_gate (CheckAndMark sys eid ety) body) s of
    (Inr _, s') \<Rightarrow> P (durable s') | (Inl e, s') \<Rightarrow> F e (durable s')"
proof -
  have fails: "F e (durable s)" if "begin_err sys (tick s) \<noteq> None \<or> stmt_err sys (Suc (tick s)) \<noteq> None \<or>
      \<not> text_ok sys 255 ety" for e
  proof (rule err)
    show "\<not> (calm sys (tick s) \<and> text_ok sys 255 ety)"
      using that calm_now(1) [of sys "tick s"] calm_now(2) [OF calm_Suc [of sys "tick s"]] by auto
  qed
  have "wpc (with_tx sys (idempotency_gate (CheckAndMark sys eid ety) body))
     (\<lambda>_ s'. P (durable s')) (\<lambda>e s'. F e (durable s')) s"
  proof (cases "begin_err sys (tick s) \<noteq> None \<or> stmt_err sys (Suc (tick s)) \<noteq> None \<or>
      \<not> text_ok sys 255 ety")
    case True
    with fresh fails [OF True] show ?thesis
      by (auto simp: idempotency_gate_def wp wpc_if insert_processed_event_def domIff
            ErrEventAlreadyProcessed_def value_too_long_def split: option.split)
  next
    case False
    then show ?thesis
      using fresh by (auto simp: idempotency_gate_def wp wpc_if insert_processed_event_def domIff intro: body)
  qed
  then show ?thesis by (simp add: wpc_def split_beta split: sum.splits)
qed


section \<open>The publisher\<close>

definition add_message :: "Message \<Rightarrow> 'z core_db_scheme \<Rightarrow> 'z core_db_scheme" where
  "add_message m db = db\<lparr>outbox := outbox db @ [m]\<rparr>"

definition insert_outbox ::
  "sys \<Rightarrow> string \<Rightarrow> string \<Rightarrow> string \<Rightarrow> string \<Rightarrow> json \<Rightarrow> string \<Rightarrow> int \<Rightarrow> 'z core_db_scheme
   \<Rightarrow> (unit, 'z core_db_scheme) reply" where
  "insert_outbox sys messageID aggregateType aggregateID eventType payload status now db =
     (case uuid_in sys messageID of
        None \<Rightarrow> ServerReject invalid_uuid
      | Some u \<Rightarrow>
          if \<not> (text_ok sys 255 aggregateType \<and> text_ok sys 255 aggregateID \<and> text_ok sys 255 eventType)
          then ServerReject value_too_long
          else case jsonb_in sys payload of
            None \<Rightarrow> ServerReject (Driver ''invalid input syntax for type json'')
          | Some body \<Rightarrow>
              if u \<in> msg_ID ` set (outbox db) then ServerReject unique_violation
              else Done () (add_message
                \<lparr>msg_ID = u, msg_AggregateType = aggregateType, msg_AggregateID = aggregateID,
                 msg_EventType = eventType, msg_Payload = body, msg_Status = status,
                 msg_RetryCount = 0, msg_CreatedAt = now, msg_ProcessedAt = None\<rparr> db))"

definition PublishInTx ::
  "sys \<Rightarrow> string \<Rightarrow> string \<Rightarrow> string \<Rightarrow> event \<Rightarrow> ('z core_db_scheme pg, unit) go" where
  "PublishInTx sys aggregateType aggregateID eventType payload =
     go_try (go_lift (ToJSON sys payload)) ''marshal payload'' (\<lambda>payloadBytes.
     go_bind (go_uuid sys) (\<lambda>id.
     go_try (tx_stmt sys (insert_outbox sys id aggregateType aggregateID eventType payloadBytes
                            StatusPending)) ''insert outbox'' (\<lambda>_.
     go_return ())))"

text \<open>The row a publication adds: pending, never tried, with the event's document as its body.\<close>

definition outbox_entry ::
  "sys \<Rightarrow> string \<Rightarrow> string \<Rightarrow> string \<Rightarrow> event \<Rightarrow> 'z core_db_scheme \<Rightarrow> Message \<Rightarrow> bool" where
  "outbox_entry sys aggregateType aggregateID eventType ev db m \<longleftrightarrow>
     msg_AggregateType m = aggregateType \<and> msg_AggregateID m = aggregateID \<and>
     msg_EventType m = eventType \<and> jsonb_in sys (JObj (event_members sys ev)) = Some (msg_Payload m) \<and>
     msg_Status m = StatusPending \<and> msg_RetryCount m = 0 \<and> msg_ProcessedAt m = None \<and>
     msg_ID m \<notin> msg_ID ` set (outbox db) \<and> (\<exists>t. uuid_in sys (uuid_New sys t) = Some (msg_ID m))"

lemma add_message_fields [simp]:
  "outbox (add_message m db) = outbox db @ [m]"
  "processed_events (add_message m db) = processed_events db"
  "core_db.more (add_message m db) = core_db.more db"
  by (simp_all add: add_message_def)

lemma outbox_entry_mark_processed [simp]:
  "outbox_entry sys agg ai et ev (mark_processed u ety now db) m = outbox_entry sys agg ai et ev db m"
  by (simp add: outbox_entry_def)

text \<open>
  The contract of \<open>PublishInTx\<close>: one entry is added to the caller's transaction and nothing else
  changes. A function that publishes last and commits therefore makes its own changes durable
  together with exactly one entry, or nothing at all.
\<close>

locale event_publisher =
  fixes publish :: "string \<Rightarrow> string \<Rightarrow> string \<Rightarrow> 'ev \<Rightarrow> ('db pg, unit) go"
    and entry :: "string \<Rightarrow> string \<Rightarrow> string \<Rightarrow> 'ev \<Rightarrow> 'db \<Rightarrow> 'msg \<Rightarrow> bool"
    and add :: "'msg \<Rightarrow> 'db \<Rightarrow> 'db"
  assumes publish_adds:
    "wpc (publish aggregateType aggregateID eventType ev)
       (\<lambda>_ s'. durable s' = durable s \<and> \<not> failed s' \<and>
          (\<exists>m. entry aggregateType aggregateID eventType ev (view s) m \<and> view s' = add m (view s)))
       (\<lambda>_ s'. durable s' = durable s) s"
begin

lemma publish_then_commit:
  "wpc (go_try (publish aggregateType aggregateID eventType ev) w (\<lambda>_.
          go_try (tx_Commit sys) w' (\<lambda>_. go_return r)))
     (\<lambda>_ s'. \<exists>m. entry aggregateType aggregateID eventType ev (view s) m \<and> durable s' = add m (view s))
     (\<lambda>_ s'. durable s' = durable s \<or>
        (\<exists>m. entry aggregateType aggregateID eventType ev (view s) m \<and> durable s' = add m (view s))) s"
  unfolding wp
  by (rule wpc_mono [OF publish_adds])
     (auto simp: wp split: commit_reply.split)

end

lemma wpc_PublishInTx [wp]:
  "wpc (PublishInTx sys aggregateType aggregateID eventType ev) Q E s =
     wpc (tx_stmt sys (insert_outbox sys (uuid_New sys (tick s)) aggregateType aggregateID eventType
            (JObj (event_members sys ev)) StatusPending))
       Q (\<lambda>e. E (Errorf ''insert outbox'' e)) (s\<lparr>tick := Suc (tick s)\<rparr>)"
  by (simp add: PublishInTx_def ToJSON_def wp)

lemma insert_outbox_Done:
  assumes "insert_outbox sys (uuid_New sys t) aggregateType aggregateID eventType
             (JObj (event_members sys ev)) StatusPending now db = Done r db'"
  shows "\<exists>m. db' = add_message m db \<and> outbox_entry sys aggregateType aggregateID eventType ev db m"
proof -
  from assms obtain u body where u: "uuid_in sys (uuid_New sys t) = Some u" "u \<notin> msg_ID ` set (outbox db)"
    and "jsonb_in sys (JObj (event_members sys ev)) = Some body"
    and "db' = add_message
      \<lparr>msg_ID = u, msg_AggregateType = aggregateType, msg_AggregateID = aggregateID,
       msg_EventType = eventType, msg_Payload = body, msg_Status = StatusPending,
       msg_RetryCount = 0, msg_CreatedAt = now, msg_ProcessedAt = None\<rparr> db"
    by (auto simp: insert_outbox_def split: option.splits if_splits)
  then show ?thesis by (auto simp: outbox_entry_def intro!: exI)
qed

interpretation publisher: event_publisher "PublishInTx sys" "outbox_entry sys" add_message for sys
proof
  fix aggregateType aggregateID eventType ev and s :: "'z core_db_scheme pg"
  show "wpc (PublishInTx sys aggregateType aggregateID eventType ev)
       (\<lambda>_ s'. durable s' = durable s \<and> \<not> failed s' \<and>
          (\<exists>m. outbox_entry sys aggregateType aggregateID eventType ev (view s) m \<and>
               view s' = add_message m (view s)))
       (\<lambda>_ s'. durable s' = durable s) s"
    by (auto simp: wp split: option.split reply.split dest: insert_outbox_Done)
qed

end
