(* ===== verification/Outbox_Relay.thy ===== *)
theory Outbox_Relay
  imports Outbox
begin

text \<open>
  The relay of pkg/outbox/outbox.go: every tick it takes up to 100 pending messages, oldest first,
  hands each to the broker and marks it SENT, or counts a failed attempt. A publication is not
  undone when the transaction rolls back, so \<open>published\<close> is not part of the transaction.
\<close>

section \<open>One polling round\<close>

definition select_pending :: "sys \<Rightarrow> nat \<Rightarrow> 'z core_db_scheme \<Rightarrow> Message list" where
  "select_pending sys t db =
     take 100
       (filter (\<lambda>m. \<not> row_locked sys t (msg_ID m))
         (sort_key msg_CreatedAt
           (scan sys t
             (filter (\<lambda>m. msg_Status m = StatusPending \<and> msg_RetryCount m < MaxRetryCount)
               (outbox db)))))"

definition update_outbox ::
  "sys \<Rightarrow> (Message \<Rightarrow> Message) \<Rightarrow> string \<Rightarrow> int \<Rightarrow> 'z core_db_scheme \<Rightarrow> (unit, 'z core_db_scheme) reply" where
  "update_outbox sys f messageID now db =
     (case uuid_in sys messageID of
        None \<Rightarrow> ServerReject invalid_uuid
      | Some u \<Rightarrow> Done () (db\<lparr>outbox := upd_where (\<lambda>m. msg_ID m = u) f (outbox db)\<rparr>))"

definition count_retry :: "Message \<Rightarrow> Message" where
  "count_retry m = m\<lparr>msg_RetryCount := msg_RetryCount m + 1\<rparr>"

definition mark_sent :: "int \<Rightarrow> Message \<Rightarrow> Message" where
  "mark_sent now m = m\<lparr>msg_Status := StatusSent, msg_ProcessedAt := Some now\<rparr>"

definition publishMessage ::
  "(string \<Rightarrow> json \<Rightarrow> ('db pg, unit) go) \<Rightarrow> Message \<Rightarrow> ('db pg, unit) go" where
  "publishMessage publisher m = publisher (msg_EventType m) (msg_Payload m)"

text \<open>The body of the loop over the messages; an error leaves the function.\<close>

definition relay_message ::
  "sys \<Rightarrow> (string \<Rightarrow> json \<Rightarrow> ('z core_db_scheme pg, unit) go) \<Rightarrow> Message
   \<Rightarrow> ('z core_db_scheme pg, unit) go" where
  "relay_message sys publisher m =
     go_catch (publishMessage publisher m)
       (\<lambda>_. go_catch (tx_stmt sys (update_outbox sys count_retry (msg_ID m)))
              (\<lambda>_. go_return ()) go_return)
       (\<lambda>_. go_bind (go_now sys) (\<lambda>now.
            go_try (tx_stmt sys (update_outbox sys (mark_sent (timestamptz sys now)) (msg_ID m)))
              ''mark message as sent'' go_return))"

fun relay_messages ::
  "sys \<Rightarrow> (string \<Rightarrow> json \<Rightarrow> ('z core_db_scheme pg, unit) go) \<Rightarrow> Message list
   \<Rightarrow> ('z core_db_scheme pg, unit) go" where
  "relay_messages sys publisher [] = go_return ()"
| "relay_messages sys publisher (m # ms) =
     go_bind (relay_message sys publisher m) (\<lambda>_. relay_messages sys publisher ms)"

definition query_pending :: "sys \<Rightarrow> ('z core_db_scheme pg, Message list \<times> err option) go" where
  "query_pending sys s = tx_rows sys (\<lambda>now db. Done (select_pending sys (tick s) db) db) s"

definition processPendingMessages ::
  "sys \<Rightarrow> (string \<Rightarrow> json \<Rightarrow> ('z core_db_scheme pg, unit) go) \<Rightarrow> ('z core_db_scheme pg, unit) go" where
  "processPendingMessages sys publisher =
     with_tx sys
       (go_try (query_pending sys) ''query pending messages'' (\<lambda>(messages, rows_err).
        case rows_err of
          Some e \<Rightarrow> go_fail (Errorf ''rows error'' e)
        | None \<Rightarrow>
            go_bind (relay_messages sys publisher messages) (\<lambda>_.
            go_try (tx_Commit sys) ''commit transaction'' go_return)))"

text \<open>
  \<open>Start\<close>: the polling loop, for \<open>n\<close> ticks of the timer before the context is cancelled; an
  error of a round is logged and the loop goes on.
\<close>

fun relay_Start ::
  "sys \<Rightarrow> (string \<Rightarrow> json \<Rightarrow> ('z core_db_scheme pg, unit) go) \<Rightarrow> nat
   \<Rightarrow> 'z core_db_scheme pg \<Rightarrow> 'z core_db_scheme pg" where
  "relay_Start sys publisher 0 s = s"
| "relay_Start sys publisher (Suc n) s =
     relay_Start sys publisher n (snd (processPendingMessages sys publisher s))"

text \<open>
  The publisher main passes to the relay, \<open>Client.Publish\<close> of pkg/messaging/nats.go: the NATS
  library takes the message or returns an error.
\<close>

definition nats_Publish :: "sys \<Rightarrow> string \<Rightarrow> json \<Rightarrow> ('db pg, unit) go" where
  "nats_Publish sys subject data s =
     (case publish_err sys (tick s) of
        Some msg \<Rightarrow> (Inl (Errorf (''publish to '' @ subject) (Driver msg)), s\<lparr>tick := Suc (tick s)\<rparr>)
      | None \<Rightarrow> (Inr (), s\<lparr>published := published s @ [(subject, data)], tick := Suc (tick s)\<rparr>))"

lemma wpc_nats_Publish [wp]:
  "wpc (nats_Publish sys subject data) Q E s =
     (case publish_err sys (tick s) of
        Some msg \<Rightarrow> E (Errorf (''publish to '' @ subject) (Driver msg)) (s\<lparr>tick := Suc (tick s)\<rparr>)
      | None \<Rightarrow> Q () (s\<lparr>published := published s @ [(subject, data)], tick := Suc (tick s)\<rparr>))"
  by (simp add: wpc_def nats_Publish_def split: option.split)

lemma wpc_query_pending [wp]:
  "wpc (query_pending sys) Q E s =
     wpc (tx_rows sys (\<lambda>now db. Done (select_pending sys (tick s) db) db)) Q E s"
  by (simp add: wpc_def query_pending_def)


section \<open>What a round does\<close>

text \<open>
  The outcome of a round for each selected message is \<open>Some t\<close> when the broker took it and it
  was marked SENT at \<open>t\<close>, and \<open>None\<close> when the attempt failed and was counted.
\<close>

definition settle :: "(string \<times> int option) list \<Rightarrow> Message list \<Rightarrow> Message list" where
  "settle os rows =
     map (\<lambda>m. case map_of os (msg_ID m) of
                None \<Rightarrow> m | Some None \<Rightarrow> count_retry m | Some (Some t) \<Rightarrow> mark_sent t m) rows"

definition subject_of :: "Message \<Rightarrow> string \<times> json" where
  "subject_of m = (msg_EventType m, msg_Payload m)"

definition handed_over :: "Message list \<Rightarrow> int option list \<Rightarrow> (string \<times> json) list" where
  "handed_over ms os = map (subject_of \<circ> fst) (filter (\<lambda>(m, out). out \<noteq> None) (zip ms os))"

definition outcomes :: "Message list \<Rightarrow> int option list \<Rightarrow> (string \<times> int option) list" where
  "outcomes ms os = zip (map msg_ID ms) os"

definition canonical_ids :: "sys \<Rightarrow> string set \<Rightarrow> bool" where
  "canonical_ids sys I \<longleftrightarrow> (\<forall>u \<in> I. uuid_in sys u = Some u)"

lemma msg_ID_count_retry [simp]: "msg_ID (count_retry m) = msg_ID m"
  by (simp add: count_retry_def)

lemma msg_ID_mark_sent [simp]: "msg_ID (mark_sent t m) = msg_ID m"
  by (simp add: mark_sent_def)

lemma settle_Nil [simp]: "settle [] rows = rows"
  by (simp add: settle_def)

lemma settle_Cons:
  "u \<notin> fst ` set os \<Longrightarrow> settle ((u, out) # os) rows =
     settle os (upd_where (\<lambda>m. msg_ID m = u)
       (case out of None \<Rightarrow> count_retry | Some t \<Rightarrow> mark_sent t) rows)"
  by (auto simp: settle_def upd_where_def map_of_eq_None_iff [symmetric] split: option.split)

lemma handed_over_simps [simp]:
  "handed_over [] os = []" "handed_over ms [] = []"
  "handed_over (m # ms) (out # os) = (if out = None then [] else [subject_of m]) @ handed_over ms os"
  by (simp_all add: handed_over_def)

lemma handed_over_take: "handed_over (take k ms) os = handed_over ms (take k os)"
proof (induction ms arbitrary: k os)
  case (Cons m ms)
  then show ?case by (cases k; cases os) simp_all
qed simp

lemma outcomes_simps [simp]:
  "outcomes [] os = []" "outcomes ms [] = []"
  "outcomes (m # ms) (out # os) = (msg_ID m, out) # outcomes ms os"
  by (simp_all add: outcomes_def)

lemma fst_outcomes: "fst ` set (outcomes ms os) \<subseteq> msg_ID ` set ms"
  by (auto simp: outcomes_def dest: set_zip_leftD)

text \<open>
  What the broker answers to \<open>n\<close> messages handed to it from exchange \<open>t\<close> on: a message it takes is
  followed by the reading of the clock and the UPDATE, one it does not take by the UPDATE.
\<close>

fun attempts :: "sys \<Rightarrow> nat \<Rightarrow> nat \<Rightarrow> int option list" where
  "attempts sys t 0 = []"
| "attempts sys t (Suc n) =
     (case publish_err sys t of
        None \<Rightarrow> Some (timestamptz sys (time_Now sys (Suc t))) # attempts sys (Suc (Suc (Suc t))) n
      | Some _ \<Rightarrow> None # attempts sys (Suc (Suc t)) n)"

lemma length_attempts [simp]: "length (attempts sys t n) = n"
  by (induction n arbitrary: t) (auto split: option.split)

text \<open>
  The loop: the messages taken by the broker are appended to \<open>published\<close> in order, and, unless
  the transaction has become unusable, every message has been handed to the broker and has its
  outcome recorded in the view.
\<close>

definition relayed ::
  "sys \<Rightarrow> 'z core_db_scheme pg \<Rightarrow> Message list \<Rightarrow> 'z core_db_scheme pg \<Rightarrow> bool" where
  "relayed sys s ms s' \<longleftrightarrow>
     (let os = attempts sys (tick s) (length ms) in
      durable s' = durable s \<and>
      (\<exists>k \<le> length ms. published s' = published s @ handed_over (take k ms) os) \<and>
      (failed s' \<or> \<not> failed s \<and> published s' = published s @ handed_over ms os \<and>
         view s' = (view s)\<lparr>outbox := settle (outcomes ms os) (outbox (view s))\<rparr>))"

lemma relayed_Nil [simp]: "relayed sys s [] s' \<longleftrightarrow>
    durable s' = durable s \<and> published s' = published s \<and> (failed s' \<or> \<not> failed s \<and> view s' = view s)"
  by (auto simp: relayed_def)

lemma relayed_step:
  assumes s1: "durable s1 = durable s" "published s1 = published s @ (if out = None then [] else [subject_of m])"
      "failed s1 \<or> \<not> failed s \<and> view s1 = (view s)\<lparr>outbox := upd_where (\<lambda>x. msg_ID x = msg_ID m)
           (case out of None \<Rightarrow> count_retry | Some t \<Rightarrow> mark_sent t) (outbox (view s))\<rparr>"
    and out: "attempts sys (tick s) (Suc (length ms)) = out # attempts sys (tick s1) (length ms)"
    and rest: "relayed sys s1 ms s'" and fresh: "msg_ID m \<notin> msg_ID ` set ms"
  shows "relayed sys s (m # ms) s'"
proof -
  let ?os = "attempts sys (tick s1) (length ms)"
  from rest obtain k where k: "k \<le> length ms" "published s' = published s1 @ handed_over (take k ms) ?os"
      "failed s' \<or> \<not> failed s1 \<and> published s' = published s1 @ handed_over ms ?os \<and>
         view s' = (view s1)\<lparr>outbox := settle (outcomes ms ?os) (outbox (view s1))\<rparr>"
    and d: "durable s' = durable s1"
    by (auto simp: relayed_def Let_def)
  have "msg_ID m \<notin> fst ` set (outcomes ms ?os)" using fresh fst_outcomes by blast
  then show ?thesis
    unfolding relayed_def list.size(4) add_Suc_right add_0_right out Let_def using k s1 d
    by (intro conjI exI [of _ "Suc k"]) (auto simp: settle_Cons)
qed

lemma relayed_error:
  assumes "durable s1 = durable s" "failed s1" "published s1 = published s @ [subject_of m]"
    and "publish_err sys (tick s) = None"
  shows "relayed sys s (m # ms) s1"
  unfolding relayed_def using assms by (auto intro!: exI [of _ 1])

lemma calm_mono: "calm sys t \<Longrightarrow> t \<le> t' \<Longrightarrow> calm sys t'"
  unfolding calm_def by (meson le_trans)

lemma relay_messages_wp:
  fixes s :: "'z core_db_scheme pg"
  assumes "distinct (map msg_ID ms)" and "canonical_ids sys (msg_ID ` set ms)"
  shows "wpc (relay_messages sys (nats_Publish sys) ms)
    (\<lambda>_ s'. relayed sys s ms s' \<and> tick s \<le> tick s' \<and> (calm sys (tick s) \<and> \<not> failed s \<longrightarrow> \<not> failed s'))
    (\<lambda>_ s'. relayed sys s ms s' \<and> \<not> (calm sys (tick s) \<and> \<not> failed s)) s"
  using assms
proof (induction ms arbitrary: s)
  case Nil
  then show ?case by (simp add: wp)
next
  case (Cons m ms)
  define Q where "Q s' \<longleftrightarrow> relayed sys s (m # ms) s' \<and> tick s \<le> tick s' \<and> (calm sys (tick s) \<and> \<not> failed s \<longrightarrow> \<not> failed s')" for s'
  define E where "E s' \<longleftrightarrow> relayed sys s (m # ms) s' \<and> \<not> (calm sys (tick s) \<and> \<not> failed s)" for s'
  have id: "uuid_in sys (msg_ID m) = Some (msg_ID m)" and fresh: "msg_ID m \<notin> msg_ID ` set ms"
    using Cons.prems by (auto simp: canonical_ids_def)
  have go: "wpc (relay_messages sys (nats_Publish sys) ms) (\<lambda>_. Q) (\<lambda>_. E) s1"
    if "durable s1 = durable s" "published s1 = published s @ (if out = None then [] else [subject_of m])"
      "failed s1 \<or> \<not> failed s \<and> view s1 = (view s)\<lparr>outbox := upd_where (\<lambda>x. msg_ID x = msg_ID m)
           (case out of None \<Rightarrow> count_retry | Some t \<Rightarrow> mark_sent t) (outbox (view s))\<rparr>"
      "attempts sys (tick s) (Suc (length ms)) = out # attempts sys (tick s1) (length ms)"
      "tick s \<le> tick s1 \<and> (calm sys (tick s) \<and> \<not> failed s \<longrightarrow> \<not> failed s1)"
    for s1 :: "'z core_db_scheme pg" and out
    by (rule wpc_mono [OF Cons.IH])
      (use that(5) Cons.prems calm_mono [of sys "tick s" "tick s1"] relayed_step [OF that(1-4) _ fresh]
        in \<open>auto simp: Q_def E_def canonical_ids_def\<close>)
  have error: "E s1" if "durable s1 = durable s" "failed s1" "published s1 = published s @ [subject_of m]"
      "publish_err sys (tick s) = None" "\<not> (calm sys (tick s) \<and> \<not> failed s)" for s1
    using relayed_error [OF that(1-4)] that(5) by (simp add: E_def)
  note defs = relay_message_def publishMessage_def update_outbox_def id subject_of_def
  have "wpc (relay_messages sys (nats_Publish sys) (m # ms)) (\<lambda>_. Q) (\<lambda>_. E) s"
  proof (cases "publish_err sys (tick s)")
    case None
    then show ?thesis
      by (auto simp: wp defs split: option.split
            intro!: go [where out = "Some (timestamptz sys (time_Now sys (Suc (tick s))))"] error)
  next
    case (Some msg)
    then show ?thesis
      by (auto simp: wp defs split: option.split intro!: go [where out = None])
  qed
  then show ?case by (rule wpc_mono) (simp_all add: Q_def E_def)
qed


definition outbox_wf :: "sys \<Rightarrow> 'z core_db_scheme \<Rightarrow> bool" where
  "outbox_wf sys db \<longleftrightarrow>
     distinct (map msg_ID (outbox db)) \<and> canonical_ids sys (msg_ID ` set (outbox db))"

definition deliverable :: "Message \<Rightarrow> bool" where
  "deliverable m \<longleftrightarrow> msg_Status m = StatusPending \<and> msg_RetryCount m < MaxRetryCount"

lemma set_select_pending:
  "scans_ok sys \<Longrightarrow> set (select_pending sys t db) \<subseteq> {m \<in> set (outbox db). deliverable m}"
  by (auto simp: select_pending_def deliverable_def dest!: in_set_takeD)

lemma length_select_pending: "length (select_pending sys t db) \<le> 100"
  by (simp add: select_pending_def)

lemma sorted_select_pending: "sorted (map msg_CreatedAt (select_pending sys t db))"
  unfolding select_pending_def take_map [symmetric]
  by (intro sorted_wrt_take sorted_filter) simp

lemma distinct_select_pending:
  assumes "scans_ok sys" and "distinct (map msg_ID (outbox db))"
  shows "distinct (map msg_ID (select_pending sys t db))"
proof -
  have "distinct (map msg_ID (sort_key msg_CreatedAt (scan sys t (filter P (outbox db)))))" for P
    using assms by (metis mset_map mset_sort mset_scan mset_eq_imp_distinct_iff distinct_map_filter)
  then show ?thesis
    unfolding select_pending_def take_map [symmetric] by (intro distinct_take distinct_map_filter) 
qed

text \<open>
  One round, whatever fails: it publishes the messages the broker takes, oldest first and at most
  100, and its transaction records the outcome of every selected message, or of none.
\<close>

definition round_spec ::
  "'z core_db_scheme pg \<Rightarrow> Message list \<Rightarrow> int option list \<Rightarrow> 'z core_db_scheme pg \<Rightarrow> bool" where
  "round_spec s ms os s' \<longleftrightarrow>
     set ms \<subseteq> {m \<in> set (outbox (durable s)). deliverable m} \<and> distinct (map msg_ID ms) \<and>
     length ms \<le> 100 \<and> sorted (map msg_CreatedAt ms) \<and> length os \<le> length ms \<and>
     published s' = published s @ handed_over ms os \<and>
     (durable s' = durable s \<or> length os = length ms \<and>
        durable s' = (durable s)\<lparr>outbox := settle (outcomes ms os) (outbox (durable s))\<rparr>)"

text \<open>
  Exactly: \<open>relay_recorded\<close> is the database in which every message of \<open>ms\<close> has the outcome of \<open>os\<close>. A
  round that returns nil has handed every selected message to the broker and recorded every outcome.
  A round that returns an error has handed over the first messages, and its transaction has left
  nothing, or all of it when the commit was sent and its acknowledgement was lost.
\<close>

definition relay_recorded :: "Message list \<Rightarrow> int option list \<Rightarrow> 'z core_db_scheme \<Rightarrow> 'z core_db_scheme" where
  "relay_recorded ms os db = db\<lparr>outbox := settle (outcomes ms os) (outbox db)\<rparr>"

definition round_returns ::
  "sys \<Rightarrow> 'z core_db_scheme pg \<Rightarrow> Message list \<Rightarrow> int option list \<Rightarrow> 'z core_db_scheme pg \<Rightarrow> bool" where
  "round_returns sys s ms os s' \<longleftrightarrow>
     published s' = published s @ handed_over ms os \<and> durable s' = relay_recorded ms os (durable s)"

definition round_fails ::
  "sys \<Rightarrow> 'z core_db_scheme pg \<Rightarrow> Message list \<Rightarrow> int option list \<Rightarrow> err \<Rightarrow> 'z core_db_scheme pg \<Rightarrow> bool" where
  "round_fails sys s ms os e s' \<longleftrightarrow>
     \<not> calm sys (tick s) \<and>
     ((\<exists>k \<le> length ms. published s' = published s @ handed_over (take k ms) os) \<and> durable s' = durable s \<or>
      round_returns sys s ms os s' \<and>
      (\<exists>t msg. tick s' = Suc t \<and> commit_reply sys t = Unacked msg \<and> e = Errorf ''commit transaction'' (Driver msg)))"

lemma relay_round_exact:
  fixes s :: "'z core_db_scheme pg"
  assumes wf: "outbox_wf sys (durable s)" and scan: "scans_ok sys"
  defines "ms \<equiv> select_pending sys (Suc (tick s)) (durable s)"
  defines "os \<equiv> attempts sys (Suc (Suc (tick s))) (length ms)"
  shows "wpc (processPendingMessages sys (nats_Publish sys))
     (\<lambda>_. round_returns sys s ms os) (round_fails sys s ms os) s"
proof -
  let ?Q = "\<lambda>_. round_returns sys s ms os" and ?E = "round_fails sys s ms os"
  have canon: "canonical_ids sys (msg_ID ` set ms)" and dist: "distinct (map msg_ID ms)"
    using wf set_select_pending [OF scan, of "Suc (tick s)" "durable s"]
    by (auto simp: ms_def outbox_wf_def canonical_ids_def intro!: distinct_select_pending [OF scan])
  have idle: "?E e s'" if "durable s' = durable s" "published s' = published s" "\<not> calm sys (tick s)" for s' e
    unfolding round_fails_def using that by (auto intro!: exI [of _ 0])
  have fail: "?E e (tx_Rollback s2)"
    if "durable s1 = durable s" "published s1 = published s" "tick s1 = Suc (Suc (tick s))"
      "relayed sys s1 ms s2" "\<not> calm sys (tick s)" for e s1 s2
    using that unfolding relayed_def round_fails_def os_def Let_def by auto
  have commit: "wpc (go_try (tx_Commit sys) ''commit transaction'' go_return)
      (\<lambda>_ s'. ?Q () (tx_Rollback s')) (\<lambda>e s'. ?E e (tx_Rollback s')) s2"
    if "durable s1 = durable s" "view s1 = durable s" "published s1 = published s" "\<not> failed s1"
      "tick s1 = Suc (Suc (tick s))" and loop: "relayed sys s1 ms s2" "tick s1 \<le> tick s2"
      "calm sys (tick s1) \<and> \<not> failed s1 \<longrightarrow> \<not> failed s2" for s1 s2
  proof -
    have calm: "commit_reply sys (tick s2) = Ack" "\<not> failed s2" if "calm sys (tick s)"
      using calm_mono [OF that, of "tick s2"] calm_mono [OF that, of "tick s1"] loop \<open>tick s1 = _\<close> \<open>\<not> failed s1\<close> by auto
    have "(\<exists>k \<le> length ms. published s2 = published s @ handed_over (take k ms) os) \<and> durable s2 = durable s \<and>
        (failed s2 \<or> published s2 = published s @ handed_over ms os \<and> view s2 = relay_recorded ms os (durable s))"
      using that by (simp add: relayed_def os_def Let_def relay_recorded_def)
    then show ?thesis
      using calm by (auto simp: wp round_returns_def round_fails_def split: commit_reply.split)
  qed
  have loop: "wpc (relay_messages sys (nats_Publish sys) ms)
      (\<lambda>_. wpc (go_try (tx_Commit sys) ''commit transaction'' go_return)
         (\<lambda>_ s'. ?Q () (tx_Rollback s')) (\<lambda>e s'. ?E e (tx_Rollback s')))
      (\<lambda>e s'. ?E e (tx_Rollback s')) s1"
    if s1: "durable s1 = durable s" "view s1 = durable s" "published s1 = published s" "\<not> failed s1"
      "tick s1 = Suc (Suc (tick s))" for s1
    by (rule wpc_mono [OF relay_messages_wp [OF dist canon]])
      (use s1 calm_mono [of sys "tick s" "tick s1"] in \<open>auto intro: commit fail\<close>)
  show ?thesis
    unfolding processPendingMessages_def wp
    by (auto simp: idle ms_def [symmetric] wpc_bind wpc_fail split: option.split intro!: loop idle)
qed

lemma relay_round_lemma:
  fixes s :: "'z core_db_scheme pg"
  assumes wf: "outbox_wf sys (durable s)" and scan: "scans_ok sys"
  shows "\<exists>ms os. round_spec s ms os (snd (processPendingMessages sys (nats_Publish sys) s))"
proof -
  let ?ms = "select_pending sys (Suc (tick s)) (durable s)"
  let ?os = "attempts sys (Suc (Suc (tick s))) (length ?ms)"
  have ms: "set ?ms \<subseteq> {m \<in> set (outbox (durable s)). deliverable m}" "distinct (map msg_ID ?ms)"
      "length ?ms \<le> 100" "sorted (map msg_CreatedAt ?ms)"
    using wf set_select_pending [OF scan] length_select_pending sorted_select_pending
    by (auto simp: outbox_wf_def intro!: distinct_select_pending [OF scan])
  have whole: "\<exists>ms os. round_spec s ms os s'" if "round_returns sys s ?ms ?os s'" for s'
    using that ms unfolding round_spec_def round_returns_def relay_recorded_def by (intro exI [of _ ?ms] exI [of _ ?os]) simp
  have part: "\<exists>ms os. round_spec s ms os s'"
    if "k \<le> length ?ms" "published s' = published s @ handed_over (take k ?ms) ?os" "durable s' = durable s" for k s'
    using that ms unfolding round_spec_def
    by (intro exI [of _ "?ms"] exI [of _ "take k ?os"]) (simp add: handed_over_take)
  have "wpc (processPendingMessages sys (nats_Publish sys)) (\<lambda>_ s'. \<exists>ms os. round_spec s ms os s')
      (\<lambda>_ s'. \<exists>ms os. round_spec s ms os s') s"
    by (rule wpc_mono [OF relay_round_exact [OF assms]]) (auto simp: round_fails_def intro: whole part)
  then show ?thesis by (simp add: wpc_post)
qed


section \<open>Consequences of a round\<close>

lemma map_settle_ID [simp]: "map msg_ID (settle os rows) = map msg_ID rows"
  by (auto simp: settle_def split: option.split)

lemma in_settleD:
  assumes "m' \<in> set (settle os rows)"
  obtains m where "m \<in> set rows" "map_of os (msg_ID m) = None" "m' = m"
  | m where "m \<in> set rows" "map_of os (msg_ID m) = Some None" "m' = count_retry m"
  | m t where "m \<in> set rows" "map_of os (msg_ID m) = Some (Some t)" "m' = mark_sent t m"
  using assms by (auto simp: settle_def split: option.splits)

lemma map_of_outcomes:
  assumes "map_of (outcomes ms os) u = Some out"
  obtains m where "m \<in> set ms" "msg_ID m = u" "(m, out) \<in> set (zip ms os)"
  using map_of_SomeD [OF assms] unfolding outcomes_def
  by (auto simp: zip_map1 dest: set_zip_leftD)

lemma handed_over_mem: "(m, Some t) \<in> set (zip ms os) \<Longrightarrow> subject_of m \<in> set (handed_over ms os)"
  by (force simp: handed_over_def)

lemma outbox_wf_settle [simp]:
  "outbox_wf sys (db\<lparr>outbox := settle os (outbox db)\<rparr>) = outbox_wf sys db"
  by (simp add: outbox_wf_def flip: set_map)

lemma outbox_wf_round: "round_spec s ms os s' \<Longrightarrow> outbox_wf sys (durable s) \<Longrightarrow> outbox_wf sys (durable s')"
  by (auto simp: round_spec_def)

text \<open>A row after a round is the row before it, possibly tried once more, or sent.\<close>

lemma round_row:
  assumes "round_spec s ms os s'" and "m' \<in> set (outbox (durable s'))"
    and "distinct (map msg_ID (outbox (durable s)))"
  obtains m where "m \<in> set (outbox (durable s))" "m' = m"
  | m where "m \<in> set (outbox (durable s))" "deliverable m" "m' = count_retry m"
  | m t where "m \<in> set (outbox (durable s))" "deliverable m" "m' = mark_sent t m"
      "subject_of m \<in> set (handed_over ms os)"
proof (cases "durable s' = durable s")
  case True
  with assms(2) that(1) show ?thesis by simp
next
  case False
  with assms have ms: "set ms \<subseteq> {m \<in> set (outbox (durable s)). deliverable m}"
    and m': "m' \<in> set (settle (outcomes ms os) (outbox (durable s)))"
    by (auto simp: round_spec_def)
  have same: "x = m" if "x \<in> set ms" "m \<in> set (outbox (durable s))" "msg_ID x = msg_ID m" for x m
    using that ms assms(3) by (auto dest: distinct_key_eq)
  from m' show ?thesis
  proof (cases rule: in_settleD)
    case (1 m)
    with that(1) show ?thesis by simp
  next
    case (2 m)
    with ms that(2) same show ?thesis by (auto elim!: map_of_outcomes)
  next
    case (3 m t)
    from 3(2) obtain x where x: "x \<in> set ms" "msg_ID x = msg_ID m" "(x, Some t) \<in> set (zip ms os)"
      by (rule map_of_outcomes)
    with same 3(1) have "x = m" by blast
    with x ms 3 that(3) show ?thesis by (auto dest: handed_over_mem)
  qed
qed

text \<open>A row that is not deliverable is left alone, in every round.\<close>

lemma round_keeps_row:
  assumes round: "round_spec s ms os s'" and m: "m \<in> set (outbox (durable s))" "\<not> deliverable m"
    and dist: "distinct (map msg_ID (outbox (durable s)))"
  shows "m \<in> set (outbox (durable s'))"
proof -
  have "msg_ID m \<notin> msg_ID ` set ms"
    using round m dist by (auto simp: round_spec_def dest: distinct_key_eq)
  then have "map_of (outcomes ms os) (msg_ID m) = None"
    using fst_outcomes [of ms os] by (auto simp: map_of_eq_None_iff)
  with m have "m \<in> set (settle (outcomes ms os) (outbox (durable s)))"
    by (force simp: settle_def)
  with round m show ?thesis by (auto simp: round_spec_def)
qed

lemma relay_Start_induct [consumes 2, case_names none round]:
  assumes wf: "outbox_wf sys (durable s)" and scan: "scans_ok sys"
    and none: "\<And>s. P 0 s s"
    and round: "\<And>n s s1 s' ms os. outbox_wf sys (durable s) \<Longrightarrow> round_spec s ms os s1 \<Longrightarrow>
      outbox_wf sys (durable s1) \<Longrightarrow> P n s1 s' \<Longrightarrow> P (Suc n) s s'"
  shows "P n s (relay_Start sys (nats_Publish sys) n s)"
  using wf
proof (induction n arbitrary: s)
  case 0
  show ?case by (simp add: none)
next
  case (Suc n)
  obtain ms os where r: "round_spec s ms os (snd (processPendingMessages sys (nats_Publish sys) s))"
    using relay_round_lemma [OF Suc.prems scan] by blast
  from outbox_wf_round [OF r Suc.prems] show ?case
    by (auto intro: round [OF Suc.prems r] Suc.IH)
qed


section \<open>Properties of the relay\<close>

definition sample_message :: "string \<Rightarrow> int \<Rightarrow> Message" where
  "sample_message u retries =
     \<lparr>msg_ID = u, msg_AggregateType = ''Order'', msg_AggregateID = ''o'',
      msg_EventType = EventTypeOrderCreated, msg_Payload = JObj [(''order_id'', JStr ''o'')],
      msg_Status = StatusPending, msg_RetryCount = retries, msg_CreatedAt = 7,
      msg_ProcessedAt = None\<rparr>"

definition sample_relay :: "core_db pg" where
  "sample_relay =
     (let db = \<lparr>processed_events = Map.empty,
                outbox = [sample_message ''a'' 0, sample_message ''b'' 5]\<rparr>
      in \<lparr>durable = db, view = db, started = 0, failed = False, tick = 0, published = []\<rparr>)"

lemma sample_relay_wf [simp]: "outbox_wf sample_sys (durable sample_relay)"
  by (simp add: outbox_wf_def canonical_ids_def sample_relay_def sample_sys_def sample_message_def Let_def)

lemma sample_relay_exhausted [simp]:
  "sample_message ''b'' 5 \<in> set (outbox (durable sample_relay))"
  "msg_RetryCount (sample_message u n) = n"
  by (simp_all add: sample_relay_def sample_message_def Let_def)

text \<open>What the query returns: nothing that is deliverable and not held by another relay is passed over for a newer one.\<close>

lemma select_pending_complete:
  assumes "scans_ok sys" and "m \<in> set (outbox db)" and "deliverable m" and "\<not> row_locked sys t (msg_ID m)"
    and "m \<notin> set (select_pending sys t db)"
  shows "length (select_pending sys t db) = 100 \<and>
    (\<forall>m' \<in> set (select_pending sys t db). msg_CreatedAt m' \<le> msg_CreatedAt m)"
proof -
  define q where "q = filter (\<lambda>m. \<not> row_locked sys t (msg_ID m)) (sort_key msg_CreatedAt (scan sys t
      (filter (\<lambda>m. msg_Status m = StatusPending \<and> msg_RetryCount m < MaxRetryCount) (outbox db))))"
  have sel: "select_pending sys t db = take 100 q" by (simp add: select_pending_def q_def)
  have "m \<in> set q" using assms(1-4) by (simp add: q_def deliverable_def)
  then have late: "m \<in> set (drop 100 q)"
    using assms(5) unfolding sel by (metis UnE append_take_drop_id set_append)
  then have "100 \<le> length q" by (metis drop_all list.set(1) empty_iff nat_le_linear)
  moreover have "sorted (map msg_CreatedAt (take 100 q @ drop 100 q))"
    unfolding append_take_drop_id q_def by (intro sorted_filter) simp
  ultimately show ?thesis using late unfolding sel by (simp add: sorted_append del: append_take_drop_id)
qed

text \<open>
  C16: one polling round of the relay, under every schedule of failures. The query selects pending
  messages with attempts left that no other relay holds, oldest first, at most 100, and passes one over
  only for 100 that are no newer. If the round returns nil, every one of them has been handed to the
  broker in that order and its outcome is durable: SENT when the broker took it, one more attempt when
  it did not; nothing else changes. If it returns an error, some call on the database failed, the first
  messages of the selection have been handed over, and the outbox is as it was, unless the commit was
  sent and only its acknowledgement was lost: then every outcome is durable.
\<close>

theorem relay_round:
  fixes s :: "'z core_db_scheme pg"
  assumes "outbox_wf sys (durable s)" and "scans_ok sys"
  shows "let ms = select_pending sys (Suc (tick s)) (durable s);
             os = attempts sys (Suc (Suc (tick s))) (length ms);
             recorded = (durable s)\<lparr>outbox := settle (outcomes ms os) (outbox (durable s))\<rparr>
     in set ms \<subseteq> {m \<in> set (outbox (durable s)). deliverable m} \<and> distinct (map msg_ID ms) \<and>
        length ms \<le> 100 \<and> sorted (map msg_CreatedAt ms) \<and>
        (\<forall>m \<in> set (outbox (durable s)) - set ms. deliverable m \<longrightarrow> row_locked sys (Suc (tick s)) (msg_ID m) \<or>
           length ms = 100 \<and> (\<forall>m' \<in> set ms. msg_CreatedAt m' \<le> msg_CreatedAt m)) \<and>
        (case processPendingMessages sys (nats_Publish sys) s of
           (Inr _, s') \<Rightarrow> published s' = published s @ handed_over ms os \<and> durable s' = recorded
         | (Inl e, s') \<Rightarrow> \<not> calm sys (tick s) \<and>
             ((\<exists>k \<le> length ms. published s' = published s @ handed_over (take k ms) os) \<and> durable s' = durable s \<or>
              published s' = published s @ handed_over ms os \<and> durable s' = recorded \<and>
              (\<exists>t msg. tick s' = Suc t \<and> commit_reply sys t = Unacked msg \<and>
                 e = Errorf ''commit transaction'' (Driver msg))))"
proof -
  let ?ms = "select_pending sys (Suc (tick s)) (durable s)"
  have "set ?ms \<subseteq> {m \<in> set (outbox (durable s)). deliverable m}" "distinct (map msg_ID ?ms)"
      "length ?ms \<le> 100" "sorted (map msg_CreatedAt ?ms)"
    using assms set_select_pending [OF assms(2)] length_select_pending sorted_select_pending
    by (auto simp: outbox_wf_def intro!: distinct_select_pending)
  moreover have "\<forall>m \<in> set (outbox (durable s)) - set ?ms. deliverable m \<longrightarrow> row_locked sys (Suc (tick s)) (msg_ID m) \<or>
      length ?ms = 100 \<and> (\<forall>m' \<in> set ?ms. msg_CreatedAt m' \<le> msg_CreatedAt m)"
    using select_pending_complete [OF assms(2)] by blast
  moreover obtain r s' where run: "processPendingMessages sys (nats_Publish sys) s = (r, s')" by fastforce
  ultimately show ?thesis
    using relay_round_exact [OF assms] unfolding Let_def run
    by (cases r) (simp_all add: run wpc_def round_returns_def round_fails_def relay_recorded_def)
qed

theorem relay_round_witness:
  "case processPendingMessages sample_sys (nats_Publish sample_sys) sample_relay of
     (Inr _, s') \<Rightarrow> published s' = [subject_of (sample_message ''a'' 0)] \<and>
       map msg_Status (outbox (durable s')) = [StatusSent, StatusPending]
   | (Inl e, s') \<Rightarrow> False"
proof -
  have select: "select_pending sample_sys (Suc 0) (durable sample_relay) = [sample_message ''a'' 0]"
      "tick sample_relay = 0" "published sample_relay = []" "publish_err sample_sys t = None" for t
    by (auto simp: select_pending_def sample_relay_def sample_message_def Let_def sample_sys_def scan_def MaxRetryCount_def)
  obtain r s' where run: "processPendingMessages sample_sys (nats_Publish sample_sys) sample_relay = (r, s')" by fastforce
  show ?thesis
    using relay_round [OF sample_relay_wf sample_sys_ok(2)] unfolding Let_def run select
    by (cases r) (auto simp: select settle_def sample_relay_def sample_message_def Let_def mark_sent_def outcomes_def)
qed

text \<open>
  C17: no event is lost by the relay: however many rounds it runs and whatever fails, a message is
  SENT only if it was SENT before or the broker has taken its event type and body since.
\<close>

theorem relay_sent_was_handed_over:
  fixes s :: "'z core_db_scheme pg"
  assumes "outbox_wf sys (durable s)" and "scans_ok sys"
  shows "\<exists>new. published (relay_Start sys (nats_Publish sys) n s) = published s @ new \<and>
    (\<forall>m' \<in> set (outbox (durable (relay_Start sys (nats_Publish sys) n s))).
       msg_Status m' = StatusSent \<longrightarrow>
       (\<exists>m \<in> set (outbox (durable s)). msg_ID m = msg_ID m' \<and> subject_of m = subject_of m' \<and>
          (msg_Status m = StatusSent \<or> subject_of m' \<in> set new)))"
  using assms
proof (induction rule: relay_Start_induct)
  case (none s)
  show ?case by auto
next
  case (round n s s1 s' ms os)
  then obtain new where new: "published s' = published s1 @ new" and
      sent: "\<And>m'. m' \<in> set (outbox (durable s')) \<Longrightarrow> msg_Status m' = StatusSent \<Longrightarrow>
        \<exists>m \<in> set (outbox (durable s1)). msg_ID m = msg_ID m' \<and> subject_of m = subject_of m' \<and>
          (msg_Status m = StatusSent \<or> subject_of m' \<in> set new)"
    by blast
  show ?case
  proof (intro exI [of _ "handed_over ms os @ new"] conjI ballI impI)
    show "published s' = published s @ handed_over ms os @ new"
      using new round(2) by (simp add: round_spec_def)
    fix m'
    assume m': "m' \<in> set (outbox (durable s'))" "msg_Status m' = StatusSent"
    from sent [OF this] obtain m1 where m1: "m1 \<in> set (outbox (durable s1))"
        "msg_ID m1 = msg_ID m'" "subject_of m1 = subject_of m'"
        "msg_Status m1 = StatusSent \<or> subject_of m' \<in> set new"
      by blast
    have dist: "distinct (map msg_ID (outbox (durable s)))"
      using round(1) by (simp add: outbox_wf_def)
    show "\<exists>m\<in>set (outbox (durable s)). msg_ID m = msg_ID m' \<and> subject_of m = subject_of m' \<and>
        (msg_Status m = StatusSent \<or> subject_of m' \<in> set (handed_over ms os @ new))"
      using round_row [OF round(2) m1(1) dist]
    proof cases
      case (1 m)
      with m1 show ?thesis by auto
    next
      case (2 m)
      with m1 show ?thesis
        by (intro bexI [of _ m]) (auto simp: count_retry_def subject_of_def)
    next
      case (3 m t)
      with m1 show ?thesis
        by (intro bexI [of _ m]) (auto simp: mark_sent_def subject_of_def)
    qed
  qed
qed

theorem relay_sent_was_handed_over_witness:
  "\<exists>new. published (relay_Start sample_sys (nats_Publish sample_sys) 3 sample_relay) =
       published sample_relay @ new \<and>
    (\<forall>m' \<in> set (outbox (durable (relay_Start sample_sys (nats_Publish sample_sys) 3 sample_relay))).
       msg_Status m' = StatusSent \<longrightarrow>
       (\<exists>m \<in> set (outbox (durable sample_relay)). msg_ID m = msg_ID m' \<and>
          subject_of m = subject_of m' \<and>
          (msg_Status m = StatusSent \<or> subject_of m' \<in> set new)))"
  by (rule relay_sent_was_handed_over) simp_all

text \<open>
  A message whose attempts are used up stays as it is: it is never tried again, and no
  number of rounds gives it the status FAILED, which the code declares and never sets.
\<close>

theorem relay_exhausted_stays_pending:
  fixes s :: "'z core_db_scheme pg"
  assumes "outbox_wf sys (durable s)" and "scans_ok sys"
    and "m \<in> set (outbox (durable s))" and "MaxRetryCount \<le> msg_RetryCount m"
  shows "m \<in> set (outbox (durable (relay_Start sys (nats_Publish sys) n s))) \<and>
    (\<forall>m' \<in> set (outbox (durable (relay_Start sys (nats_Publish sys) n s))).
       msg_Status m' = StatusFailed \<longrightarrow>
       (\<exists>m \<in> set (outbox (durable s)). msg_ID m = msg_ID m' \<and> msg_Status m = StatusFailed))"
  using assms
proof (induction rule: relay_Start_induct)
  case (none s)
  then show ?case by auto
next
  case (round n s s1 s' ms os)
  have dist: "distinct (map msg_ID (outbox (durable s)))"
    using round(1) by (simp add: outbox_wf_def)
  have m: "m \<in> set (outbox (durable s1))"
    using round by (intro round_keeps_row [OF round(2) _ _ dist]) (auto simp: deliverable_def)
  have "\<exists>m \<in> set (outbox (durable s)). msg_ID m = msg_ID m1 \<and> msg_Status m = StatusFailed"
    if "m1 \<in> set (outbox (durable s1))" "msg_Status m1 = StatusFailed" for m1
    using round_row [OF round(2) that(1) dist] that(2)
    by cases (auto simp: count_retry_def mark_sent_def Status_defs)
  with round(4) [OF m round(6)] show ?case by (metis (no_types, lifting))
qed

theorem relay_exhausted_stays_pending_witness:
  "sample_message ''b'' 5 \<in>
     set (outbox (durable (relay_Start sample_sys (nats_Publish sample_sys) 7 sample_relay)))"
  by (rule conjunct1 [OF relay_exhausted_stays_pending]) (simp_all add: MaxRetryCount_def)

section \<open>The relay drains the outbox\<close>

text \<open>The broker takes every message, and no other relay holds a row, from call \<open>t\<close> on.\<close>

definition broker_up :: "sys \<Rightarrow> nat \<Rightarrow> bool" where
  "broker_up sys t \<longleftrightarrow> (\<forall>n \<ge> t. publish_err sys n = None \<and> (\<forall>u. \<not> row_locked sys n u))"

lemma broker_up_Suc [simp]: "broker_up sys t \<Longrightarrow> broker_up sys (Suc t)"
  by (simp add: broker_up_def)

lemma broker_up_now [simp]:
  "broker_up sys t \<Longrightarrow> publish_err sys t = None" "broker_up sys t \<Longrightarrow> \<not> row_locked sys t u"
  by (simp_all add: broker_up_def)

lemma broker_up_mono: "broker_up sys t \<Longrightarrow> t \<le> t' \<Longrightarrow> broker_up sys t'"
  unfolding broker_up_def by (meson le_trans)

definition all_sent ::
  "'z core_db_scheme pg \<Rightarrow> Message list \<Rightarrow> 'z core_db_scheme pg \<Rightarrow> bool" where
  "all_sent s ms s' \<longleftrightarrow>
     durable s' = durable s \<and> \<not> failed s' \<and> tick s \<le> tick s' \<and>
     published s' = published s @ map subject_of ms \<and>
     (\<exists>ts. length ts = length ms \<and>
        view s' = (view s)\<lparr>outbox := settle (outcomes ms (map Some ts)) (outbox (view s))\<rparr>)"

lemma relay_messages_all_sent:
  fixes s :: "'z core_db_scheme pg"
  assumes "distinct (map msg_ID ms)" and "canonical_ids sys (msg_ID ` set ms)"
    and "calm sys (tick s)" and "broker_up sys (tick s)" and "\<not> failed s"
  shows "wpc (relay_messages sys (nats_Publish sys) ms) (\<lambda>_. all_sent s ms) (\<lambda>_ _. False) s"
  using assms
proof (induction ms arbitrary: s)
  case Nil
  then show ?case by (simp add: wp all_sent_def)
next
  case (Cons m ms)
  let ?t = "timestamptz sys (time_Now sys (Suc (tick s)))"
  let ?s1 = "s\<lparr>published := published s @ [subject_of m],
      view := (view s)\<lparr>outbox := upd_where (\<lambda>x. msg_ID x = msg_ID m) (mark_sent ?t) (outbox (view s))\<rparr>,
      tick := Suc (Suc (Suc (tick s)))\<rparr>"
  from Cons.prems have id: "uuid_in sys (msg_ID m) = Some (msg_ID m)"
    and fresh: "msg_ID m \<notin> msg_ID ` set ms" by (auto simp: canonical_ids_def)
  have "all_sent s (m # ms) s'" if "all_sent ?s1 ms s'" for s'
  proof -
    from that obtain ts where ts: "length ts = length ms" "view s' = (view ?s1)\<lparr>outbox :=
        settle (outcomes ms (map Some ts)) (outbox (view ?s1))\<rparr>" by (auto simp: all_sent_def)
    have "msg_ID m \<notin> fst ` set (outcomes ms (map Some ts))" using fresh fst_outcomes by blast
    with ts that show ?thesis
      by (auto simp: all_sent_def settle_Cons intro!: exI [of _ "?t # ts"])
  qed
  moreover have "wpc (relay_messages sys (nats_Publish sys) ms) (\<lambda>_. all_sent ?s1 ms) (\<lambda>_ _. False) ?s1"
    by (rule Cons.IH) (use Cons.prems in \<open>auto simp: canonical_ids_def\<close>)
  ultimately have "wpc (relay_messages sys (nats_Publish sys) ms)
      (\<lambda>_. all_sent s (m # ms)) (\<lambda>_ _. False) ?s1"
    by (elim wpc_mono) auto
  then show ?case
    using Cons.prems
    by (simp add: wp relay_message_def publishMessage_def update_outbox_def id subject_of_def)
qed

definition backlog :: "'z core_db_scheme \<Rightarrow> Message list" where
  "backlog db = filter deliverable (outbox db)"

lemma backlog_settle:
  assumes "length ts = length ms"
  shows "backlog (db\<lparr>outbox := settle (outcomes ms (map Some ts)) (outbox db)\<rparr>) =
    filter (\<lambda>m. msg_ID m \<notin> msg_ID ` set ms) (backlog db)"
proof -
  have dom: "dom (map_of (outcomes ms (map Some ts))) = msg_ID ` set ms"
    using assms by (simp add: outcomes_def dom_map_of_zip)
  have ran: "\<exists>t. out = Some t" if "map_of (outcomes ms (map Some ts)) u = Some out" for u out
    using that by (elim map_of_outcomes) (auto dest!: set_zip_rightD)
  have "filter deliverable (settle (outcomes ms (map Some ts)) rows) =
      filter (\<lambda>m. msg_ID m \<notin> msg_ID ` set ms) (filter deliverable rows)" for rows
  proof (induction rows)
    case (Cons m rows)
    show ?case
    proof (cases "map_of (outcomes ms (map Some ts)) (msg_ID m)")
      case None
      with dom have "msg_ID m \<notin> msg_ID ` set ms" by (metis domIff)
      with Cons None show ?thesis by (simp add: settle_def)
    next
      case (Some out)
      with ran obtain t where "out = Some t" by blast
      moreover from Some dom have "msg_ID m \<in> msg_ID ` set ms" by blast
      ultimately show ?thesis using Cons Some
        by (simp add: settle_def deliverable_def mark_sent_def Status_defs)
    qed
  qed (simp add: settle_def)
  then show ?thesis by (simp add: backlog_def)
qed

lemma select_pending_all:
  assumes "scans_ok sys" and "broker_up sys t"
  shows "select_pending sys t db = take 100 (sort_key msg_CreatedAt (scan sys t (backlog db)))"
  using assms by (simp add: select_pending_def backlog_def deliverable_def [abs_def])

lemma backlog_shrinks:
  assumes "scans_ok sys" and "broker_up sys t" and dist: "distinct (map msg_ID (outbox db))"
  shows "length (filter (\<lambda>m. msg_ID m \<notin> msg_ID ` set (select_pending sys t db)) (backlog db)) =
    length (backlog db) - 100"
proof -
  let ?q = "sort_key msg_CreatedAt (scan sys t (backlog db))"
  have perm: "mset ?q = mset (backlog db)" using assms(1) by simp
  have d: "distinct (map msg_ID (backlog db))"
    using dist by (simp add: backlog_def distinct_map_filter)
  then have dq: "distinct (map msg_ID ?q)" using perm by (metis mset_map mset_eq_imp_distinct_iff)
  let ?P = "\<lambda>m. msg_ID m \<notin> msg_ID ` set (take 100 ?q)"
  have "mset (filter ?P (backlog db)) = mset (filter ?P ?q)" using perm by (simp only: mset_filter)
  then have "length (filter ?P (backlog db)) = length (filter ?P ?q)" by (rule mset_eq_length)
  also have "filter ?P ?q = drop 100 ?q"
  proof -
    have "set (map msg_ID (take 100 ?q)) \<inter> set (map msg_ID (drop 100 ?q)) = {}"
      using dq by (metis append_take_drop_id distinct_append map_append)
    then have "filter ?P (drop 100 ?q) = drop 100 ?q" by (intro filter_True) auto
    moreover have "filter ?P (take 100 ?q) = []" by (simp add: filter_empty_conv)
    ultimately have "filter ?P (take 100 ?q @ drop 100 ?q) = drop 100 ?q"
      by (simp only: filter_append append_Nil)
    then show ?thesis by (simp only: append_take_drop_id)
  qed
  also have "length (drop 100 ?q) = length (backlog db) - 100"
    using perm by (metis length_drop mset_eq_length)
  finally show ?thesis using assms by (simp add: select_pending_all)
qed

text \<open>One round without failures sends the whole batch.\<close>

lemma calm_round:
  fixes s :: "'z core_db_scheme pg"
  assumes wf: "outbox_wf sys (durable s)" and scan: "scans_ok sys"
    and calm: "calm sys (tick s)" and up: "broker_up sys (tick s)"
  shows "let s' = snd (processPendingMessages sys (nats_Publish sys) s);
             ms = select_pending sys (Suc (tick s)) (durable s)
         in tick s \<le> tick s' \<and> published s' = published s @ map subject_of ms \<and>
            outbox_wf sys (durable s') \<and>
            backlog (durable s') = filter (\<lambda>m. msg_ID m \<notin> msg_ID ` set ms) (backlog (durable s))"
proof -
  let ?ms = "select_pending sys (Suc (tick s)) (durable s)"
  let ?P = "\<lambda>s'. tick s \<le> tick s' \<and> published s' = published s @ map subject_of ?ms \<and>
      outbox_wf sys (durable s') \<and>
      backlog (durable s') = filter (\<lambda>m. msg_ID m \<notin> msg_ID ` set ?ms) (backlog (durable s))"
  let ?s1 = "s\<lparr>started := server_time sys (tick s), failed := False, view := durable s,
      tick := Suc (Suc (tick s))\<rparr>"
  have dist: "distinct (map msg_ID ?ms)" and canon: "canonical_ids sys (msg_ID ` set ?ms)"
    using wf set_select_pending [OF scan, of "Suc (tick s)" "durable s"]
    by (auto simp: outbox_wf_def canonical_ids_def intro!: distinct_select_pending [OF scan])
  have "wpc (go_try (tx_Commit sys) ''commit transaction'' go_return)
      (\<lambda>_ s'. ?P (tx_Rollback s')) (\<lambda>_ s'. ?P (tx_Rollback s')) s2" if sent: "all_sent ?s1 ?ms s2" for s2
  proof -
    from sent obtain ts where ts: "length ts = length ?ms" "view s2 = (durable s)\<lparr>outbox :=
        settle (outcomes ?ms (map Some ts)) (outbox (durable s))\<rparr>" "\<not> failed s2"
        "Suc (Suc (tick s)) \<le> tick s2" "published s2 = published s @ map subject_of ?ms"
      by (auto simp: all_sent_def)
    moreover from ts(4) calm have "commit_reply sys (tick s2) = Ack"
      by (intro calm_now) (auto elim: calm_mono)
    ultimately show ?thesis using wf by (simp add: wp backlog_settle)
  qed
  then have "wpc (relay_messages sys (nats_Publish sys) ?ms)
      (\<lambda>_. wpc (go_try (tx_Commit sys) ''commit transaction'' go_return)
         (\<lambda>_ s'. ?P (tx_Rollback s')) (\<lambda>_ s'. ?P (tx_Rollback s')))
      (\<lambda>_ s'. ?P (tx_Rollback s')) ?s1"
    by (intro wpc_mono [OF relay_messages_all_sent [OF dist canon]]) (use calm up in auto)
  then have "wpc (processPendingMessages sys (nats_Publish sys)) (\<lambda>_. ?P) (\<lambda>_. ?P) s"
    unfolding processPendingMessages_def using calm
    by (simp add: wpc_with_tx wpc_query_pending wpc_rows wpc_stmt wpc_bind wpc_try)
  then show ?thesis by (simp add: wpc_post Let_def)
qed

lemma sample_relay_backlog [simp]:
  "length (backlog (durable sample_relay)) \<le> 100" "broker_up sample_sys t"
  by (simp_all add: backlog_def sample_relay_def Let_def broker_up_def sample_sys_def)

text \<open>
  C15: without failures the relay drains the outbox: 100 messages a round, so after \<open>n\<close> rounds a
  backlog of at most \<open>100 * n\<close> deliverable messages is empty, and the broker has taken each one.
\<close>

theorem relay_drains:
  fixes s :: "'z core_db_scheme pg"
  assumes "outbox_wf sys (durable s)" and "scans_ok sys" and "calm sys (tick s)"
    and "broker_up sys (tick s)" and "length (backlog (durable s)) \<le> 100 * n"
  shows "backlog (durable (relay_Start sys (nats_Publish sys) n s)) = [] \<and>
    (\<forall>m \<in> set (backlog (durable s)).
       subject_of m \<in> set (published (relay_Start sys (nats_Publish sys) n s)))"
proof -
  have "backlog (durable s') = [] \<and> set (published s) \<subseteq> set (published s') \<and>
      subject_of ` set (backlog (durable s)) \<subseteq> set (published s')"
    if "s' = relay_Start sys (nats_Publish sys) n s" for s'
    using assms that
  proof (induction n arbitrary: s)
    case (Suc n)
    let ?s1 = "snd (processPendingMessages sys (nats_Publish sys) s)"
    let ?ms = "select_pending sys (Suc (tick s)) (durable s)"
    have r: "tick s \<le> tick ?s1" "published ?s1 = published s @ map subject_of ?ms"
        "outbox_wf sys (durable ?s1)"
        "backlog (durable ?s1) = filter (\<lambda>m. msg_ID m \<notin> msg_ID ` set ?ms) (backlog (durable s))"
      using calm_round [OF Suc.prems(1-4)] by (simp_all add: Let_def)
    have dist: "distinct (map msg_ID (outbox (durable s)))"
      using Suc.prems(1) by (simp add: outbox_wf_def)
    have "length (backlog (durable ?s1)) \<le> 100 * n"
      using r(4) Suc.prems backlog_shrinks [OF Suc.prems(2) broker_up_Suc [OF Suc.prems(4)] dist]
      by simp
    then have IH: "backlog (durable s') = []" "set (published ?s1) \<subseteq> set (published s')"
        "subject_of ` set (backlog (durable ?s1)) \<subseteq> set (published s')"
      using Suc.IH [OF r(3) Suc.prems(2) calm_mono [OF Suc.prems(3) r(1)]
          broker_up_mono [OF Suc.prems(4) r(1)]] Suc.prems(6) by simp_all
    have same: "x = m" if "x \<in> set ?ms" "m \<in> set (backlog (durable s))" "msg_ID x = msg_ID m" for x m
      using that dist set_select_pending [OF Suc.prems(2), of "Suc (tick s)" "durable s"]
      by (auto simp: backlog_def dest: distinct_key_eq)
    have "subject_of m \<in> set (published s')" if m: "m \<in> set (backlog (durable s))" for m
    proof (cases "msg_ID m \<in> msg_ID ` set ?ms")
      case True
      with same m have "m \<in> set ?ms" by force
      then have "subject_of m \<in> set (published ?s1)" using r(2) by simp
      with IH(2) show ?thesis by blast
    next
      case False
      with m r(4) have "m \<in> set (backlog (durable ?s1))" by simp
      with IH(3) show ?thesis by blast
    qed
    moreover have "set (published s) \<subseteq> set (published s')" using IH(2) r(2) by auto
    ultimately show ?case using IH(1) by blast
  qed (simp add: backlog_def)
  then show ?thesis by blast
qed

theorem relay_drains_witness:
  "backlog (durable (relay_Start sample_sys (nats_Publish sample_sys) 1 sample_relay)) = []"
  by (rule conjunct1 [OF relay_drains]) simp_all

end
