(* ===== verification/Service.thy ===== *)
theory Service
  imports Outbox_Relay
begin

text \<open>
  What the three services have in common: an entity with a status that its methods move along
  allowed transitions (\<open>status_machine\<close>), and a process whose calls change the database in steps
  of an abstract specification (\<open>refined_service\<close>).
\<close>

section \<open>Entities with a status\<close>

text \<open>A method returns the changed entity, or an error and then leaves the entity as it is.\<close>

fun apply_methods :: "('e \<Rightarrow> err + 'e) list \<Rightarrow> 'e \<Rightarrow> 'e" where
  "apply_methods [] e = e"
| "apply_methods (f # fs) e = apply_methods fs (case f e of Inl _ \<Rightarrow> e | Inr e' \<Rightarrow> e')"

locale status_machine =
  fixes status :: "'e \<Rightarrow> string"
    and methods :: "('e \<Rightarrow> err + 'e) set"
    and allowed :: "string \<Rightarrow> string \<Rightarrow> bool"
    and terminal :: "string \<Rightarrow> bool"
  assumes method_allowed: "f \<in> methods \<Longrightarrow> f e = Inr e' \<Longrightarrow> allowed (status e) (status e')"
    and terminal_stays: "terminal st \<Longrightarrow> allowed st st' \<Longrightarrow> st' = st"
begin

lemma status_path:
  "set fs \<subseteq> methods \<Longrightarrow> allowed\<^sup>*\<^sup>* (status e) (status (apply_methods fs e))"
proof (induction fs arbitrary: e)
  case Nil
  then show ?case by simp
next
  case (Cons f fs)
  then have "allowed\<^sup>*\<^sup>* (status e) (status (case f e of Inl _ \<Rightarrow> e | Inr e' \<Rightarrow> e'))"
    by (auto dest: method_allowed split: sum.split)
  moreover have "allowed\<^sup>*\<^sup>* (status (case f e of Inl _ \<Rightarrow> e | Inr e' \<Rightarrow> e'))
      (status (apply_methods (f # fs) e))"
    using Cons by simp
  ultimately show ?case by (rule rtranclp_trans)
qed

lemma terminal_path: "allowed\<^sup>*\<^sup>* st st' \<Longrightarrow> terminal st \<Longrightarrow> st' = st"
  by (induction rule: rtranclp_induct) (auto dest: terminal_stays)

lemma terminal_forever:
  "set fs \<subseteq> methods \<Longrightarrow> terminal (status e) \<Longrightarrow> status (apply_methods fs e) = status e"
  using status_path terminal_path by blast

end


section \<open>A service and its specification\<close>

text \<open>The calls a process carries out, one after the other.\<close>

fun run_calls :: "('call \<Rightarrow> 'db pg \<Rightarrow> 'db pg) \<Rightarrow> 'call list \<Rightarrow> 'db pg \<Rightarrow> 'db pg" where
  "run_calls exec [] s = s"
| "run_calls exec (c # cs) s = run_calls exec cs (exec c s)"

lemma run_calls_append [simp]: "run_calls exec (cs @ ds) s = run_calls exec ds (run_calls exec cs s)"
  by (induction cs arbitrary: s) auto

text \<open>
  A run that a specification explains: every call has the effect the specification allows for that
  call, as one step, or none.
\<close>

fun explained :: "('call \<Rightarrow> 'db \<Rightarrow> 'db \<Rightarrow> bool) \<Rightarrow> 'call list \<Rightarrow> 'db \<Rightarrow> 'db \<Rightarrow> bool" where
  "explained step [] d d' \<longleftrightarrow> d' = d"
| "explained step (c # cs) d d' \<longleftrightarrow> (\<exists>d1. (d1 = d \<or> step c d d1) \<and> explained step cs d1 d')"

locale refined_service =
  fixes exec :: "'call \<Rightarrow> 'db pg \<Rightarrow> 'db pg"
    and step :: "'call \<Rightarrow> 'db \<Rightarrow> 'db \<Rightarrow> bool"
    and inv :: "'db \<Rightarrow> bool"
  assumes exec_refines: "inv (durable s) \<Longrightarrow>
      durable (exec c s) = durable s \<or> step c (durable s) (durable (exec c s))"
    and step_inv: "step c d d' \<Longrightarrow> inv d \<Longrightarrow> inv d'"
begin

lemma exec_inv: "inv (durable s) \<Longrightarrow> inv (durable (exec c s))"
  using exec_refines step_inv by metis

lemma run_inv: "inv (durable s) \<Longrightarrow> inv (durable (run_calls exec cs s))"
  by (induction cs arbitrary: s) (auto intro: exec_inv)

lemma run_refines: "inv (durable s) \<Longrightarrow> explained step cs (durable s) (durable (run_calls exec cs s))"
proof (induction cs arbitrary: s)
  case Nil
  then show ?case by simp
next
  case (Cons c cs)
  then have "explained step cs (durable (exec c s)) (durable (run_calls exec cs (exec c s)))"
    by (simp add: exec_inv)
  with exec_refines [OF Cons.prems, of c] show ?case by auto
qed

text \<open>A relation between databases that every step respects holds along every run.\<close>

lemma run_relates:
  assumes "inv (durable s)" and "\<And>d. R d d" and "\<And>d d' d''. R d d' \<Longrightarrow> R d' d'' \<Longrightarrow> R d d''"
    and "\<And>c d d'. inv d \<Longrightarrow> step c d d' \<Longrightarrow> R d d'"
  shows "R (durable s) (durable (run_calls exec cs s))"
  using assms(1)
proof (induction cs arbitrary: s)
  case Nil
  show ?case by (simp add: assms(2))
next
  case (Cons c cs)
  have "R (durable s) (durable (exec c s))"
    using exec_refines [OF Cons.prems, of c] assms(2,4) Cons.prems by metis
  moreover have "R (durable (exec c s)) (durable (run_calls exec cs (exec c s)))"
    by (rule Cons.IH) (rule exec_inv [OF Cons.prems])
  ultimately show ?case using assms(3) by fastforce
qed

end

text \<open>What a relay round may do to the outbox: only the delivery state of its rows changes.\<close>

definition same_events :: "Message list \<Rightarrow> Message list \<Rightarrow> bool" where
  "same_events ms ms' \<longleftrightarrow>
     map (\<lambda>m. (msg_ID m, msg_AggregateType m, msg_AggregateID m, msg_EventType m, msg_Payload m)) ms' =
     map (\<lambda>m. (msg_ID m, msg_AggregateType m, msg_AggregateID m, msg_EventType m, msg_Payload m)) ms"

lemma same_events_settle: "same_events ms (settle os ms)"
  by (auto simp: same_events_def settle_def count_retry_def mark_sent_def split: option.split)

lemma relay_same_events:
  fixes s :: "'z core_db_scheme pg"
  assumes "outbox_wf sys (durable s)" and "scans_ok sys"
  shows "let s' = snd (processPendingMessages sys (nats_Publish sys) s)
    in durable s' = durable s \<or>
       (\<exists>ms. same_events (outbox (durable s)) ms \<and> durable s' = (durable s)\<lparr>outbox := ms\<rparr>)"
  using relay_round_lemma [OF assms] same_events_settle by (auto simp: round_spec_def Let_def)


section \<open>What the outbox announces\<close>

text \<open>How many events of a type the outbox holds about an aggregate.\<close>

definition announcements :: "sys \<Rightarrow> 'z core_db_scheme \<Rightarrow> string \<Rightarrow> string \<Rightarrow> nat" where
  "announcements sys db ety u =
     length (filter (\<lambda>m. msg_EventType m = ety \<and> uuid_in sys (msg_AggregateID m) = Some u) (outbox db))"

lemma announcements_add_message [simp]:
  "announcements sys (add_message m db) ety u =
     announcements sys db ety u +
     (if msg_EventType m = ety \<and> uuid_in sys (msg_AggregateID m) = Some u then 1 else 0)"
  by (simp add: announcements_def)

lemma announcements_mark_processed [simp]:
  "announcements sys (mark_processed u ety now db) = announcements sys db"
  by (simp add: announcements_def fun_eq_iff)

lemma announcements_same_events:
  fixes db :: "'z core_db_scheme"
  assumes "same_events (outbox db) ms"
  shows "announcements sys (db\<lparr>outbox := ms\<rparr>) = announcements sys db"
proof -
  let ?k = "\<lambda>m. (msg_ID m, msg_AggregateType m, msg_AggregateID m, msg_EventType m, msg_Payload m)"
  have count: "length (filter (\<lambda>m. msg_EventType m = ety \<and> uuid_in sys (msg_AggregateID m) = Some u) xs) =
      length (filter (\<lambda>(i, at', ai, et, p). et = ety \<and> uuid_in sys ai = Some u) (map ?k xs))" for xs ety u
    by (induction xs) auto
  show ?thesis
    using assms by (simp only: announcements_def count same_events_def fun_eq_iff) simp
qed

lemma outbox_wf_same_events:
  fixes db :: "'z core_db_scheme"
  assumes "same_events (outbox db) ms"
  shows "outbox_wf sys (db\<lparr>outbox := ms\<rparr>) = outbox_wf sys db"
proof -
  have "map msg_ID ms = map fst (map (\<lambda>m. (msg_ID m, msg_AggregateType m, msg_AggregateID m,
      msg_EventType m, msg_Payload m)) ms)"
    by simp
  also have "\<dots> = map msg_ID (outbox db)"
    using assms by (simp only: same_events_def) simp
  finally have ids: "map msg_ID ms = map msg_ID (outbox db)" .
  then have "msg_ID ` set ms = msg_ID ` set (outbox db)" by (metis list.set_map)
  with ids show ?thesis by (simp add: outbox_wf_def)
qed

lemma outbox_wf_add_message:
  assumes "uuids_ok sys" and "outbox_entry sys agg ai et ev db m" and "outbox_wf sys db"
  shows "outbox_wf sys (add_message m db)"
proof -
  have "uuid_in sys (msg_ID m) = Some (msg_ID m)"
    using assms(1,2) unfolding outbox_entry_def uuids_ok_def by metis
  with assms(2,3) show ?thesis by (simp add: outbox_wf_def outbox_entry_def canonical_ids_def)
qed


text \<open>No event leaves the outbox, and no recorded event is forgotten.\<close>

definition events_kept :: "'z core_db_scheme \<Rightarrow> 'z core_db_scheme \<Rightarrow> bool" where
  "events_kept db db' \<longleftrightarrow>
     processed_events db \<subseteq>\<^sub>m processed_events db' \<and>
     same_events (outbox db) (take (length (outbox db)) (outbox db'))"

lemma map_le_fresh: "m u = None \<Longrightarrow> m \<subseteq>\<^sub>m m(u \<mapsto> v)"
  by (auto simp: map_le_def)

lemma same_events_refl [simp]: "same_events ms ms"
  by (simp add: same_events_def)

lemma same_events_trans: "same_events a b \<Longrightarrow> same_events b c \<Longrightarrow> same_events a c"
  by (simp add: same_events_def)

lemma same_events_length: "same_events a b \<Longrightarrow> length b = length a"
  by (drule arg_cong [where f = length, OF same_events_def [THEN iffD1]]) simp

lemma same_events_take: "same_events a b \<Longrightarrow> same_events (take n a) (take n b)"
  by (simp add: same_events_def take_map [symmetric])

lemma events_kept_refl [simp]: "events_kept db db"
  by (simp add: events_kept_def)

lemma events_kept_trans:
  assumes "events_kept a b" and "events_kept b c"
  shows "events_kept a c"
proof -
  let ?n = "length (outbox a)"
  have len: "?n \<le> length (outbox b)"
    using same_events_length [of "outbox a" "take ?n (outbox b)"] assms(1) by (simp add: events_kept_def)
  have "same_events (take ?n (outbox b)) (take ?n (take (length (outbox b)) (outbox c)))"
    using assms(2) by (intro same_events_take) (simp add: events_kept_def)
  with len assms show ?thesis
    by (auto simp: events_kept_def min_absorb1 intro: map_le_trans same_events_trans)
qed

lemma events_kept_mark_processed:
  "processed_events db u = None \<Longrightarrow> events_kept db (mark_processed u ety now db)"
  by (simp add: events_kept_def map_le_fresh)

lemma events_kept_add_message: "events_kept db (add_message m db)"
  by (simp add: events_kept_def)

lemma events_kept_relayed:
  fixes db :: "'z core_db_scheme"
  shows "same_events (outbox db) ms \<Longrightarrow> events_kept db (db\<lparr>outbox := ms\<rparr>)"
  by (simp add: events_kept_def same_events_length)


text \<open>The events of a type that were processed, and how many events of some types there are.\<close>

definition processed_of :: "string \<Rightarrow> 'z core_db_scheme \<Rightarrow> string set" where
  "processed_of ety db = {u. \<exists>t. processed_events db u = Some (ety, t)}"

definition event_count :: "string list \<Rightarrow> 'z core_db_scheme \<Rightarrow> nat" where
  "event_count etys db = length (filter (\<lambda>m. msg_EventType m \<in> set etys) (outbox db))"

lemma event_count_add_message [simp]:
  "event_count etys (add_message m db) = event_count etys db + (if msg_EventType m \<in> set etys then 1 else 0)"
  by (simp add: event_count_def)

lemma event_count_mark_processed [simp]:
  "event_count etys (mark_processed u ety now db) = event_count etys db"
  by (simp add: event_count_def)

lemma event_count_same_events:
  fixes db :: "'z core_db_scheme"
  assumes "same_events (outbox db) ms"
  shows "event_count etys (db\<lparr>outbox := ms\<rparr>) = event_count etys db"
proof -
  have count: "length (filter (\<lambda>m. msg_EventType m \<in> set etys) xs) =
      length (filter (\<lambda>e. e \<in> set etys) (map msg_EventType xs))" for xs
    by (induction xs) auto
  have "map msg_EventType ms = map (\<lambda>(i, t, a, e, p). e) (map (\<lambda>m. (msg_ID m, msg_AggregateType m,
      msg_AggregateID m, msg_EventType m, msg_Payload m)) ms)"
    by simp
  also have "\<dots> = map msg_EventType (outbox db)"
    using assms by (simp only: same_events_def) simp
  finally show ?thesis by (simp add: event_count_def count)
qed

lemma processed_of_add_message [simp]: "processed_of ety (add_message m db) = processed_of ety db"
  by (simp add: processed_of_def)

lemma processed_of_mark:
  "processed_events db u = None \<Longrightarrow>
   processed_of ety (mark_processed u ety' now db) =
     (if ety = ety' then insert u (processed_of ety db) else processed_of ety db)"
  by (auto simp: processed_of_def)

lemma card_processed_of_mark:
  "processed_events db u = None \<Longrightarrow> finite (dom (processed_events db)) \<Longrightarrow>
   card (processed_of ety (mark_processed u ety' now db)) =
     card (processed_of ety db) + (if ety = ety' then 1 else 0)"
proof -
  assume fresh: "processed_events db u = None" and fin: "finite (dom (processed_events db))"
  have "processed_of ety db \<subseteq> dom (processed_events db)" by (auto simp: processed_of_def)
  then have "finite (processed_of ety db)" using fin by (rule finite_subset)
  moreover have "u \<notin> processed_of ety db" using fresh by (simp add: processed_of_def)
  ultimately show ?thesis using fresh by (cases "ety = ety'") (auto simp: processed_of_mark)
qed

end
