(* ===== verification/Order_Domain.thy ===== *)
theory Order_Domain
  imports Service
begin

text \<open>The order entity (services/order/internal/domain/order.go).\<close>

definition OrderStatusPending :: string where
  "OrderStatusPending = ''PENDING''"

definition OrderStatusConfirmed :: string where
  "OrderStatusConfirmed = ''CONFIRMED''"

definition OrderStatusCompleted :: string where
  "OrderStatusCompleted = ''COMPLETED''"

definition OrderStatusCancelled :: string where
  "OrderStatusCancelled = ''CANCELLED''"

lemmas OrderStatus_defs =
  OrderStatusPending_def OrderStatusConfirmed_def OrderStatusCompleted_def OrderStatusCancelled_def

definition order_ErrInvalidQuantity :: err where
  "order_ErrInvalidQuantity =
     New ''order.ErrInvalidQuantity'' ''quantity must be greater than 0''"

definition order_ErrInvalidTotalAmount :: err where
  "order_ErrInvalidTotalAmount =
     New ''order.ErrInvalidTotalAmount'' ''total amount must be greater than 0''"

definition order_ErrInvalidCustomerID :: err where
  "order_ErrInvalidCustomerID = New ''order.ErrInvalidCustomerID'' ''customer ID is required''"

definition order_ErrInvalidProductID :: err where
  "order_ErrInvalidProductID = New ''order.ErrInvalidProductID'' ''product ID is required''"

definition order_ErrOrderNotFound :: err where
  "order_ErrOrderNotFound = New ''order.ErrOrderNotFound'' ''order not found''"

definition order_ErrInvalidTransition :: err where
  "order_ErrInvalidTransition = New ''order.ErrInvalidTransition'' ''invalid status transition''"

lemmas order_Err_defs =
  order_ErrInvalidQuantity_def order_ErrInvalidTotalAmount_def order_ErrInvalidCustomerID_def
  order_ErrInvalidProductID_def order_ErrOrderNotFound_def order_ErrInvalidTransition_def

record Order =
  order_ID :: string
  order_CustomerID :: string
  order_ProductID :: string
  order_Quantity :: go_int
  order_TotalAmount :: float64
  order_Status :: string
  order_CreatedAt :: int
  order_UpdatedAt :: int

text \<open>
  The fresh ID and the time a method takes from the UUID library and the clock are its first
  arguments.
\<close>

definition NewOrder ::
  "string \<Rightarrow> int \<Rightarrow> string \<Rightarrow> string \<Rightarrow> go_int \<Rightarrow> float64 \<Rightarrow> err + Order" where
  "NewOrder uuid now customerID productID quantity totalAmount =
     (if customerID = '''' then Inl order_ErrInvalidCustomerID
      else if productID = '''' then Inl order_ErrInvalidProductID
      else if quantity <=s 0 then Inl order_ErrInvalidQuantity
      else if totalAmount \<le> 0 then Inl order_ErrInvalidTotalAmount
      else Inr \<lparr>order_ID = uuid, order_CustomerID = customerID, order_ProductID = productID,
                order_Quantity = quantity, order_TotalAmount = totalAmount,
                order_Status = OrderStatusPending, order_CreatedAt = now, order_UpdatedAt = now\<rparr>)"

definition order_Confirm :: "int \<Rightarrow> Order \<Rightarrow> err + Order" where
  "order_Confirm now ord =
     (if order_Status ord \<noteq> OrderStatusPending then Inl order_ErrInvalidTransition
      else Inr (ord\<lparr>order_Status := OrderStatusConfirmed, order_UpdatedAt := now\<rparr>))"

definition order_Complete :: "int \<Rightarrow> Order \<Rightarrow> err + Order" where
  "order_Complete now ord =
     (if order_Status ord \<noteq> OrderStatusConfirmed then Inl order_ErrInvalidTransition
      else Inr (ord\<lparr>order_Status := OrderStatusCompleted, order_UpdatedAt := now\<rparr>))"

definition order_Cancel :: "int \<Rightarrow> Order \<Rightarrow> err + Order" where
  "order_Cancel now ord =
     (if order_Status ord = OrderStatusCompleted then Inl order_ErrInvalidTransition
      else Inr (ord\<lparr>order_Status := OrderStatusCancelled, order_UpdatedAt := now\<rparr>))"

definition order_IsPending :: "Order \<Rightarrow> bool" where
  "order_IsPending ord \<longleftrightarrow> order_Status ord = OrderStatusPending"

definition order_IsCompleted :: "Order \<Rightarrow> bool" where
  "order_IsCompleted ord \<longleftrightarrow> order_Status ord = OrderStatusCompleted"

definition order_IsCancelled :: "Order \<Rightarrow> bool" where
  "order_IsCancelled ord \<longleftrightarrow> order_Status ord = OrderStatusCancelled"

lemmas order_method_defs = order_Confirm_def order_Complete_def order_Cancel_def


section \<open>The status machine\<close>

text \<open>
  PENDING is confirmed or cancelled, CONFIRMED is completed or cancelled, and a cancelled order
  may be cancelled again.
\<close>

inductive order_transition :: "string \<Rightarrow> string \<Rightarrow> bool" where
  confirm: "order_transition OrderStatusPending OrderStatusConfirmed"
| complete: "order_transition OrderStatusConfirmed OrderStatusCompleted"
| cancel: "st \<noteq> OrderStatusCompleted \<Longrightarrow> order_transition st OrderStatusCancelled"

inductive_simps order_transition_iff: "order_transition st st'"

definition order_methods :: "(Order \<Rightarrow> err + Order) set" where
  "order_methods = range order_Confirm \<union> range order_Complete \<union> range order_Cancel"

definition order_terminal :: "string \<Rightarrow> bool" where
  "order_terminal st \<longleftrightarrow> st = OrderStatusCompleted \<or> st = OrderStatusCancelled"

interpretation order_machine: status_machine order_Status order_methods order_transition order_terminal
  by unfold_locales
    (auto simp: order_methods_def order_method_defs order_transition_iff order_terminal_def
       OrderStatus_defs split: if_splits)

text \<open>
  Whatever sequence of Confirm, Complete and Cancel is called on an order, and at whatever
  times, its status moves only along PENDING, CONFIRMED, COMPLETED or to CANCELLED, and a completed
  or cancelled order keeps its status for ever.
\<close>

theorem order_status_path:
  assumes "set fs \<subseteq> order_methods"
  shows "order_transition\<^sup>*\<^sup>* (order_Status ord) (order_Status (apply_methods fs ord)) \<and>
    (order_IsCompleted ord \<longrightarrow> order_IsCompleted (apply_methods fs ord)) \<and>
    (order_IsCancelled ord \<longrightarrow> order_IsCancelled (apply_methods fs ord))"
  using order_machine.status_path [OF assms] order_machine.terminal_forever [OF assms, of ord]
  by (auto simp: order_IsCompleted_def order_IsCancelled_def order_terminal_def)

theorem order_status_path_witness:
  "order_IsCompleted (apply_methods [order_Complete 3, order_Cancel 4]
     \<lparr>order_ID = ''o'', order_CustomerID = ''c'', order_ProductID = ''p'', order_Quantity = 1,
      order_TotalAmount = 10, order_Status = OrderStatusCompleted, order_CreatedAt = 1,
      order_UpdatedAt = 2\<rparr>)"
  using order_status_path [of "[order_Complete 3, order_Cancel 4]"
     "\<lparr>order_ID = ''o'', order_CustomerID = ''c'', order_ProductID = ''p'', order_Quantity = 1,
      order_TotalAmount = 10, order_Status = OrderStatusCompleted, order_CreatedAt = 1,
      order_UpdatedAt = 2\<rparr>"]
  by (auto simp: order_methods_def order_IsCompleted_def)

end
