(* ===== verification/Order_Repo.thy ===== *)
theory Order_Repo
  imports Order_Domain
begin

text \<open>
  The order database (scripts/init-order-db.sql) and the repository on it
  (services/order/internal/infrastructure/repository.go). A row holds what the columns hold:
  the quantity is an INT, the amount a DECIMAL(10, 2) in hundredths, the ID the canonical UUID.
\<close>

record order_row =
  o_id :: string
  o_customer_id :: string
  o_product_id :: string
  o_quantity :: int
  o_total_amount :: int
  o_status :: string
  o_created_at :: int
  o_updated_at :: int

record order_db = core_db +
  orders :: "order_row list"

definition order_of_row :: "sys \<Rightarrow> order_row \<Rightarrow> Order" where
  "order_of_row sys r =
     \<lparr>order_ID = o_id r, order_CustomerID = o_customer_id r, order_ProductID = o_product_id r,
      order_Quantity = word_of_int (o_quantity r), order_TotalAmount = numeric_out sys (o_total_amount r),
      order_Status = o_status r, order_CreatedAt = o_created_at r, order_UpdatedAt = o_updated_at r\<rparr>"

definition insert_order :: "sys \<Rightarrow> Order \<Rightarrow> int \<Rightarrow> order_db \<Rightarrow> (unit, order_db) reply" where
  "insert_order sys ord now db =
     (if \<not> int4_ok (sint (order_Quantity ord)) then ClientReject out_of_range
      else case (uuid_in sys (order_ID ord), numeric_in sys (order_TotalAmount ord)) of
        (None, _) \<Rightarrow> ServerReject invalid_uuid
      | (_, None) \<Rightarrow> ServerReject out_of_range
      | (Some u, Some amount) \<Rightarrow>
          if \<not> (text_ok sys 255 (order_CustomerID ord) \<and> text_ok sys 255 (order_ProductID ord) \<and>
                text_ok sys 50 (order_Status ord)) then ServerReject value_too_long
          else if \<not> 0 < sint (order_Quantity ord) then ServerReject check_violation
          else if u \<in> o_id ` set (orders db) then ServerReject unique_violation
          else Done () (db\<lparr>orders := orders db @
            [\<lparr>o_id = u, o_customer_id = order_CustomerID ord, o_product_id = order_ProductID ord,
              o_quantity = sint (order_Quantity ord), o_total_amount = amount,
              o_status = order_Status ord, o_created_at = timestamptz sys (order_CreatedAt ord),
              o_updated_at = timestamptz sys (order_UpdatedAt ord)\<rparr>]\<rparr>))"

definition order_Save :: "sys \<Rightarrow> Order \<Rightarrow> (order_db pg, unit) go" where
  "order_Save sys ord = go_try (tx_stmt sys (insert_order sys ord)) ''insert order'' go_return"

text \<open>The trigger \<open>update_orders_updated_at\<close> sets \<open>updated_at\<close> to the time of the transaction.\<close>

definition set_order_status :: "string \<Rightarrow> string \<Rightarrow> int \<Rightarrow> order_db \<Rightarrow> order_db" where
  "set_order_status u st now db =
     db\<lparr>orders := upd_where (\<lambda>r. o_id r = u) (\<lambda>r. r\<lparr>o_status := st, o_updated_at := now\<rparr>) (orders db)\<rparr>"

definition update_order :: "sys \<Rightarrow> Order \<Rightarrow> int \<Rightarrow> order_db \<Rightarrow> (nat, order_db) reply" where
  "update_order sys ord now db =
     (case uuid_in sys (order_ID ord) of
        None \<Rightarrow> ServerReject invalid_uuid
      | Some u \<Rightarrow>
          if \<not> text_ok sys 50 (order_Status ord) then ServerReject value_too_long
          else Done (length (filter (\<lambda>r. o_id r = u) (orders db)))
                 (set_order_status u (order_Status ord) now db))"

definition order_Update :: "sys \<Rightarrow> Order \<Rightarrow> (order_db pg, unit) go" where
  "order_Update sys ord =
     go_try (tx_stmt sys (update_order sys ord)) ''update order'' (\<lambda>rows.
       if rows = 0 then go_fail order_ErrOrderNotFound else go_return ())"

definition select_order :: "sys \<Rightarrow> string \<Rightarrow> int \<Rightarrow> order_db \<Rightarrow> (order_row, order_db) reply" where
  "select_order sys orderID now db =
     (case uuid_in sys orderID of
        None \<Rightarrow> ServerReject invalid_uuid
      | Some u \<Rightarrow>
          (case find (\<lambda>r. o_id r = u) (orders db) of
             None \<Rightarrow> ClientReject ErrNoRows
           | Some r \<Rightarrow> Done r db))"

definition order_FindByID :: "sys \<Rightarrow> string \<Rightarrow> (order_db pg, Order) go" where
  "order_FindByID sys orderID =
     go_catch (pool_stmt sys (select_order sys orderID))
       (\<lambda>e. if e = ErrNoRows then go_fail order_ErrOrderNotFound
            else go_fail (Errorf ''query order'' e))
       (\<lambda>r. go_return (order_of_row sys r))"

definition order_FindByIDForUpdate :: "sys \<Rightarrow> string \<Rightarrow> (order_db pg, Order) go" where
  "order_FindByIDForUpdate sys orderID =
     go_catch (tx_stmt sys (select_order sys orderID))
       (\<lambda>e. if e = ErrNoRows then go_fail order_ErrOrderNotFound
            else go_fail (Errorf ''query order for update'' e))
       (\<lambda>r. go_return (order_of_row sys r))"


section \<open>Rules for the repository\<close>

lemma order_of_row_fields [simp]:
  "order_ID (order_of_row sys r) = o_id r" "order_Status (order_of_row sys r) = o_status r"
  by (simp_all add: order_of_row_def)

lemma set_order_status_fields [simp]:
  "processed_events (set_order_status u st now db) = processed_events db"
  "outbox (set_order_status u st now db) = outbox db"
  "map o_id (orders (set_order_status u st now db)) = map o_id (orders db)"
  by (simp_all add: set_order_status_def)

lemma select_order_Done:
  "select_order sys orderID now db = Done r db' \<longleftrightarrow>
     db' = db \<and> (\<exists>u. uuid_in sys orderID = Some u \<and> find (\<lambda>r. o_id r = u) (orders db) = Some r)"
  by (auto simp: select_order_def split: option.splits)

lemma wpc_order_Save [wp]:
  "wpc (order_Save sys ord) Q E s =
     wpc (tx_stmt sys (insert_order sys ord)) Q (\<lambda>e. E (Errorf ''insert order'' e)) s"
  by (simp add: order_Save_def wp)

lemma wpc_order_Update [wp]:
  "wpc (order_Update sys ord) Q E s =
     wpc (tx_stmt sys (update_order sys ord))
       (\<lambda>rows. if rows = 0 then E order_ErrOrderNotFound else Q ())
       (\<lambda>e. E (Errorf ''update order'' e)) s"
  by (simp add: order_Update_def wp wpc_if cong: if_cong)

lemma wpc_order_FindByIDForUpdate [wp]:
  "wpc (order_FindByIDForUpdate sys orderID) Q E s =
     wpc (tx_stmt sys (select_order sys orderID)) (\<lambda>r. Q (order_of_row sys r))
       (\<lambda>e. if e = ErrNoRows then E order_ErrOrderNotFound
            else E (Errorf ''query order for update'' e)) s"
  by (simp add: order_FindByIDForUpdate_def wp wpc_if cong: if_cong)

lemma wpc_order_FindByID [wp]:
  "wpc (order_FindByID sys orderID) Q E s =
     wpc (pool_stmt sys (select_order sys orderID)) (\<lambda>r. Q (order_of_row sys r))
       (\<lambda>e. if e = ErrNoRows then E order_ErrOrderNotFound
            else E (Errorf ''query order'' e)) s"
  by (simp add: order_FindByID_def wp wpc_if cong: if_cong)

lemma insert_order_Done:
  "insert_order sys ord now db = Done x db' \<longleftrightarrow>
     int4_ok (sint (order_Quantity ord)) \<and> 0 < sint (order_Quantity ord) \<and>
     text_ok sys 255 (order_CustomerID ord) \<and> text_ok sys 255 (order_ProductID ord) \<and>
     text_ok sys 50 (order_Status ord) \<and>
     (\<exists>u amount. uuid_in sys (order_ID ord) = Some u \<and>
        numeric_in sys (order_TotalAmount ord) = Some amount \<and> u \<notin> o_id ` set (orders db) \<and>
        db' = db\<lparr>orders := orders db @
          [\<lparr>o_id = u, o_customer_id = order_CustomerID ord, o_product_id = order_ProductID ord,
            o_quantity = sint (order_Quantity ord), o_total_amount = amount,
            o_status = order_Status ord, o_created_at = timestamptz sys (order_CreatedAt ord),
            o_updated_at = timestamptz sys (order_UpdatedAt ord)\<rparr>]\<rparr>)"
  by (auto simp: insert_order_def split: option.splits)

lemma outbox_entry_orders [simp]:
  "outbox_entry sys agg ai et ev (set_order_status v st now odb) m = outbox_entry sys agg ai et ev odb m"
  "outbox_entry sys agg ai et ev (odb\<lparr>orders := os\<rparr>) m = outbox_entry sys agg ai et ev odb m"
  by (simp_all add: outbox_entry_def)

lemma orders_core [simp]:
  "orders (mark_processed u ety now odb) = orders odb"
  "orders (add_message m odb) = orders odb"
  by (simp_all add: mark_processed_def add_message_def)

end
