(* ===== verification/Order_UseCase.thy ===== *)
theory Order_UseCase
  imports Order_Repo
begin

text \<open>
  The order service's use cases (services/order/internal/application/usecase.go): creating an
  order and the handlers of the four events the service subscribes to.
\<close>

section \<open>The use cases\<close>

record CreateOrderInput =
  in_CustomerID :: string
  in_ProductID :: string
  in_Quantity :: go_int
  in_TotalAmount :: float64

record CreateOrderOutput =
  out_OrderID :: string
  out_Status :: string

definition CreateOrder :: "sys \<Rightarrow> CreateOrderInput \<Rightarrow> (order_db pg, CreateOrderOutput) go" where
  "CreateOrder sys input =
     go_bind (go_now sys) (\<lambda>now.
     go_bind (go_uuid sys) (\<lambda>uuid.
     go_try (go_lift (NewOrder uuid now (in_CustomerID input) (in_ProductID input)
                        (in_Quantity input) (in_TotalAmount input))) ''create order'' (\<lambda>ord.
     with_tx sys
       (go_try (order_Save sys ord) ''save order'' (\<lambda>_.
        go_bind (NewOrderCreatedEvent sys (order_ID ord) (order_CustomerID ord) (order_ProductID ord)
                   (order_Quantity ord) (order_TotalAmount ord)) (\<lambda>event.
        go_try (PublishInTx sys ''Order'' (order_ID ord) EventTypeOrderCreated (EvOrderCreated event))
          ''publish event'' (\<lambda>_.
        go_try (tx_Commit sys) ''commit transaction'' (\<lambda>_.
        go_return \<lparr>out_OrderID = order_ID ord, out_Status = order_Status ord\<rparr>))))))))"

definition GetOrder :: "sys \<Rightarrow> string \<Rightarrow> (order_db pg, Order) go" where
  "GetOrder sys orderID = go_try (order_FindByID sys orderID) ''find order'' go_return"

text \<open>A transition the entity refuses ends the handler with a nil error and no commit.\<close>

definition order_HandleStockReserved :: "sys \<Rightarrow> string \<Rightarrow> string \<Rightarrow> (order_db pg, unit) go" where
  "order_HandleStockReserved sys eventID orderID =
     with_tx sys
       (idempotency_gate (CheckAndMark sys eventID EventTypeStockReserved)
         (go_try (order_FindByIDForUpdate sys orderID) ''find order'' (\<lambda>ord.
          go_bind (go_now sys) (\<lambda>now.
          case order_Confirm now ord of
            Inl _ \<Rightarrow> go_return ()
          | Inr ord \<Rightarrow>
              go_try (order_Update sys ord) ''update order'' (\<lambda>_.
              go_try (tx_Commit sys) ''commit transaction'' go_return)))))"

definition order_HandlePaymentCompleted :: "sys \<Rightarrow> string \<Rightarrow> string \<Rightarrow> (order_db pg, unit) go" where
  "order_HandlePaymentCompleted sys eventID orderID =
     with_tx sys
       (idempotency_gate (CheckAndMark sys eventID EventTypePaymentCompleted)
         (go_try (order_FindByIDForUpdate sys orderID) ''find order'' (\<lambda>ord.
          go_bind (go_now sys) (\<lambda>now.
          case order_Complete now ord of
            Inl _ \<Rightarrow> go_return ()
          | Inr ord \<Rightarrow>
              go_try (order_Update sys ord) ''update order'' (\<lambda>_.
              go_bind (NewOrderCompletedEvent sys orderID) (\<lambda>event.
              go_try (PublishInTx sys ''Order'' orderID EventTypeOrderCompleted (EvOrderCompleted event))
                ''publish event'' (\<lambda>_.
              go_try (tx_Commit sys) ''commit transaction'' go_return)))))))"

definition order_HandlePaymentFailed ::
  "sys \<Rightarrow> string \<Rightarrow> string \<Rightarrow> string \<Rightarrow> (order_db pg, unit) go" where
  "order_HandlePaymentFailed sys eventID orderID reason =
     with_tx sys
       (idempotency_gate (CheckAndMark sys eventID EventTypePaymentFailed)
         (go_try (order_FindByIDForUpdate sys orderID) ''find order'' (\<lambda>ord.
          go_bind (go_now sys) (\<lambda>now.
          case order_Cancel now ord of
            Inl _ \<Rightarrow> go_return ()
          | Inr ord \<Rightarrow>
              go_try (order_Update sys ord) ''update order'' (\<lambda>_.
              go_bind (NewOrderCancelledEvent sys orderID reason) (\<lambda>event.
              go_try (PublishInTx sys ''Order'' orderID EventTypeOrderCancelled (EvOrderCancelled event))
                ''publish event'' (\<lambda>_.
              go_try (tx_Commit sys) ''commit transaction'' go_return)))))))"

text \<open>The reason of a failed reservation is only logged.\<close>

definition order_HandleStockReserveFailed ::
  "sys \<Rightarrow> string \<Rightarrow> string \<Rightarrow> string \<Rightarrow> (order_db pg, unit) go" where
  "order_HandleStockReserveFailed sys eventID orderID reason =
     with_tx sys
       (idempotency_gate (CheckAndMark sys eventID EventTypeStockReserveFailed)
         (go_try (order_FindByIDForUpdate sys orderID) ''find order'' (\<lambda>ord.
          go_bind (go_now sys) (\<lambda>now.
          case order_Cancel now ord of
            Inl _ \<Rightarrow> go_return ()
          | Inr ord \<Rightarrow>
              go_try (order_Update sys ord) ''update order'' (\<lambda>_.
              go_try (tx_Commit sys) ''commit transaction'' go_return)))))"

end
