(* ===== verification/Order_Spec.thy ===== *)
theory Order_Spec
  imports Order_UseCase
begin

text \<open>
  What the order service promises: the steps its database makes, the invariant they keep, and that
  every use case, whatever fails on the way, makes one of these steps or leaves the database as it
  was.
\<close>

section \<open>The calls of the service\<close>

text \<open>
  What the service process does: it serves requests, handles the events the broker delivers, in
  whatever order and however often it delivers them, and its relay polls the outbox.
\<close>

datatype order_call =
    CallCreateOrder CreateOrderInput
  | CallGetOrder string
  | CallStockReserved string string
  | CallStockReserveFailed string string string
  | CallPaymentCompleted string string
  | CallPaymentFailed string string string
  | CallOrderRelay


section \<open>The steps of the order database\<close>

text \<open>
  The steps, each with the call that causes it. An order is created together with its OrderCreated
  event; an event is recorded together with the transition it causes and, for a completion and for a
  cancellation after a failed payment, with the event that announces it; the relay changes only the
  delivery state of the outbox.
\<close>

inductive order_step :: "sys \<Rightarrow> order_call \<Rightarrow> order_db \<Rightarrow> order_db \<Rightarrow> bool" for sys where
  created: "outbox_entry sys ''Order'' oid EventTypeOrderCreated (EvOrderCreated e) db m \<Longrightarrow>
    uuid_in sys oid = Some (o_id r) \<Longrightarrow> o_id r \<notin> o_id ` set (orders db) \<Longrightarrow>
    o_status r = OrderStatusPending \<Longrightarrow> 0 < o_quantity r \<Longrightarrow> int4_ok (o_quantity r) \<Longrightarrow>
    o_customer_id r \<noteq> '''' \<Longrightarrow> o_product_id r \<noteq> '''' \<Longrightarrow>
    oc_OrderID e = oid \<Longrightarrow> oc_CustomerID e = o_customer_id r \<Longrightarrow>
    oc_ProductID e = o_product_id r \<Longrightarrow> oc_Quantity e = word_of_int (o_quantity r) \<Longrightarrow>
    0 < oc_TotalAmount e \<Longrightarrow> numeric_in sys (oc_TotalAmount e) = Some (o_total_amount r) \<Longrightarrow>
    in_CustomerID input = o_customer_id r \<Longrightarrow> in_ProductID input = o_product_id r \<Longrightarrow>
    in_Quantity input = word_of_int (o_quantity r) \<Longrightarrow> in_TotalAmount input = oc_TotalAmount e \<Longrightarrow>
    order_step sys (CallCreateOrder input) db (add_message m (db\<lparr>orders := orders db @ [r]\<rparr>))"
| confirmed: "uuid_in sys eid = Some u \<Longrightarrow> processed_events db u = None \<Longrightarrow> r \<in> set (orders db) \<Longrightarrow>
    uuid_in sys oid = Some (o_id r) \<Longrightarrow> o_status r = OrderStatusPending \<Longrightarrow>
    order_step sys (CallStockReserved eid oid) db (set_order_status (o_id r) OrderStatusConfirmed now
      (mark_processed u EventTypeStockReserved now db))"
| completed: "outbox_entry sys ''Order'' oid EventTypeOrderCompleted (EvOrderCompleted e) db m \<Longrightarrow>
    uuid_in sys eid = Some u \<Longrightarrow> processed_events db u = None \<Longrightarrow> r \<in> set (orders db) \<Longrightarrow>
    uuid_in sys oid = Some (o_id r) \<Longrightarrow> o_status r = OrderStatusConfirmed \<Longrightarrow> od_OrderID e = oid \<Longrightarrow>
    order_step sys (CallPaymentCompleted eid oid) db (add_message m
      (set_order_status (o_id r) OrderStatusCompleted now (mark_processed u EventTypePaymentCompleted now db)))"
| payment_failed: "outbox_entry sys ''Order'' oid EventTypeOrderCancelled (EvOrderCancelled e) db m \<Longrightarrow>
    uuid_in sys eid = Some u \<Longrightarrow> processed_events db u = None \<Longrightarrow> r \<in> set (orders db) \<Longrightarrow>
    uuid_in sys oid = Some (o_id r) \<Longrightarrow> o_status r \<noteq> OrderStatusCompleted \<Longrightarrow> ox_OrderID e = oid \<Longrightarrow>
    ox_Reason e = reason \<Longrightarrow>
    order_step sys (CallPaymentFailed eid oid reason) db (add_message m
      (set_order_status (o_id r) OrderStatusCancelled now (mark_processed u EventTypePaymentFailed now db)))"
| stock_failed: "uuid_in sys eid = Some u \<Longrightarrow> processed_events db u = None \<Longrightarrow> r \<in> set (orders db) \<Longrightarrow>
    uuid_in sys oid = Some (o_id r) \<Longrightarrow> o_status r \<noteq> OrderStatusCompleted \<Longrightarrow>
    order_step sys (CallStockReserveFailed eid oid reason) db (set_order_status (o_id r) OrderStatusCancelled now
      (mark_processed u EventTypeStockReserveFailed now db))"
| relayed: "same_events (outbox db) ms \<Longrightarrow> order_step sys CallOrderRelay db (db\<lparr>outbox := ms\<rparr>)"


section \<open>The invariant\<close>

definition order_keys_ok :: "sys \<Rightarrow> order_db \<Rightarrow> bool" where
  "order_keys_ok sys db \<longleftrightarrow>
     distinct (map o_id (orders db)) \<and> canonical_ids sys (o_id ` set (orders db)) \<and> outbox_wf sys db"

definition order_row_ok :: "order_row \<Rightarrow> bool" where
  "order_row_ok r \<longleftrightarrow>
     o_status r \<in> {OrderStatusPending, OrderStatusConfirmed, OrderStatusCompleted, OrderStatusCancelled} \<and>
     0 < o_quantity r \<and> int4_ok (o_quantity r) \<and> o_customer_id r \<noteq> '''' \<and> o_product_id r \<noteq> ''''"

text \<open>The outbox tells the history of every order, and of orders only.\<close>

definition order_told :: "sys \<Rightarrow> order_db \<Rightarrow> string \<Rightarrow> string \<Rightarrow> bool" where
  "order_told sys db u st \<longleftrightarrow>
     announcements sys db EventTypeOrderCreated u = 1 \<and>
     announcements sys db EventTypeOrderCompleted u = (if st = OrderStatusCompleted then 1 else 0) \<and>
     (0 < announcements sys db EventTypeOrderCancelled u \<longrightarrow> st = OrderStatusCancelled)"

definition order_announced :: "sys \<Rightarrow> order_db \<Rightarrow> bool" where
  "order_announced sys db \<longleftrightarrow>
     (\<forall>r \<in> set (orders db). order_told sys db (o_id r) (o_status r)) \<and>
     (\<forall>u ety. 0 < announcements sys db ety u \<longrightarrow> u \<in> o_id ` set (orders db))"

definition order_inv :: "sys \<Rightarrow> order_db \<Rightarrow> bool" where
  "order_inv sys db \<longleftrightarrow>
     order_keys_ok sys db \<and> (\<forall>r \<in> set (orders db). order_row_ok r) \<and> order_announced sys db"

lemma order_ids_set_status [simp]:
  "o_id ` set (orders (set_order_status u st now db)) = o_id ` set (orders db)"
  by (metis list.set_map set_order_status_fields(3))

lemma order_keys_ok_set_status [simp]:
  "order_keys_ok sys (set_order_status u st now db) = order_keys_ok sys db"
  by (simp add: order_keys_ok_def outbox_wf_def)

lemma order_keys_ok_mark [simp]:
  "order_keys_ok sys (mark_processed u ety now db) = order_keys_ok sys db"
  by (simp add: order_keys_ok_def outbox_wf_def)

lemma order_keys_ok_add_message:
  "uuids_ok sys \<Longrightarrow> outbox_entry sys agg ai et ev db m \<Longrightarrow> order_keys_ok sys db \<Longrightarrow>
   order_keys_ok sys (add_message m db)"
  by (simp add: order_keys_ok_def outbox_wf_add_message)

lemma order_keys_ok_insert:
  "uuids_ok sys \<Longrightarrow> uuid_in sys x = Some (o_id r) \<Longrightarrow> o_id r \<notin> o_id ` set (orders db) \<Longrightarrow>
   order_keys_ok sys db \<Longrightarrow> order_keys_ok sys (db\<lparr>orders := orders db @ [r]\<rparr>)"
  by (auto simp: order_keys_ok_def outbox_wf_def canonical_ids_def uuids_ok_def)

lemma orders_set_status:
  "x \<in> set (orders (set_order_status u st now db)) \<longleftrightarrow>
     (\<exists>r \<in> set (orders db). x = (if o_id r = u then r\<lparr>o_status := st, o_updated_at := now\<rparr> else r))"
  by (simp add: set_order_status_def in_set_upd_where)

lemma announcements_orders [simp]:
  "announcements sys (set_order_status u st now db) = announcements sys db"
  "announcements sys (db\<lparr>orders := os\<rparr>) = announcements sys db"
  by (simp_all add: announcements_def fun_eq_iff)

text \<open>An order named by a row of the table is that row.\<close>

lemma same_order:
  "order_keys_ok sys db \<Longrightarrow> r \<in> set (orders db) \<Longrightarrow> x \<in> set (orders db) \<Longrightarrow> o_id x = o_id r \<Longrightarrow> x = r"
  by (auto simp: order_keys_ok_def intro: distinct_key_eq [of o_id])

lemma order_step_keys:
  "order_step sys c db db' \<Longrightarrow> uuids_ok sys \<Longrightarrow> order_keys_ok sys db \<Longrightarrow> order_keys_ok sys db'"
proof (induction rule: order_step.induct)
  case (relayed db ms)
  then show ?case by (simp add: order_keys_ok_def outbox_wf_same_events)
qed (auto intro!: order_keys_ok_add_message order_keys_ok_insert simp: outbox_entry_orders)

lemma order_row_ok_set [simp]:
  "order_row_ok r \<Longrightarrow> order_row_ok (r\<lparr>o_status := OrderStatusConfirmed, o_updated_at := t\<rparr>)"
  "order_row_ok r \<Longrightarrow> order_row_ok (r\<lparr>o_status := OrderStatusCompleted, o_updated_at := t\<rparr>)"
  "order_row_ok r \<Longrightarrow> order_row_ok (r\<lparr>o_status := OrderStatusCancelled, o_updated_at := t\<rparr>)"
  by (simp_all add: order_row_ok_def)

lemma order_step_rows:
  "order_step sys c db db' \<Longrightarrow> \<forall>r \<in> set (orders db). order_row_ok r \<Longrightarrow>
   \<forall>r \<in> set (orders db'). order_row_ok r"
proof (induction rule: order_step.induct)
  case (created oid e db m r input)
  then show ?case by (simp add: order_row_ok_def)
qed (auto simp: orders_set_status)

text \<open>One order changes its status and the outbox tells so; the others are untouched.\<close>

lemma order_announced_set:
  assumes keys: "order_keys_ok sys db" and ann: "order_announced sys db" and r: "r \<in> set (orders db)"
    and db': "orders db' = orders (set_order_status (o_id r) st now db)"
    and others: "\<And>ety u. u \<noteq> o_id r \<Longrightarrow> announcements sys db' ety u = announcements sys db ety u"
    and told: "order_told sys db' (o_id r) st"
  shows "order_announced sys db'"
proof -
  have ids: "o_id ` set (orders db') = o_id ` set (orders db)" by (simp only: db' order_ids_set_status)
  have "order_told sys db' (o_id x) (o_status x)" if "x \<in> set (orders db')" for x
  proof -
    from that obtain y where y: "y \<in> set (orders db)"
      "x = (if o_id y = o_id r then y\<lparr>o_status := st, o_updated_at := now\<rparr> else y)"
      by (auto simp: db' orders_set_status)
    show ?thesis
    proof (cases "o_id y = o_id r")
      case True
      with y told show ?thesis by simp
    next
      case False
      with y ann others [OF False] show ?thesis by (simp add: order_announced_def order_told_def)
    qed
  qed
  moreover have "u \<in> o_id ` set (orders db')" if "0 < announcements sys db' ety u" for u ety
    using that others [of u ety] ann r unfolding ids order_announced_def by (cases "u = o_id r") auto
  ultimately show ?thesis by (auto simp: order_announced_def)
qed

lemma order_told_row: "order_announced sys db \<Longrightarrow> r \<in> set (orders db) \<Longrightarrow> order_told sys db (o_id r) (o_status r)"
  by (simp add: order_announced_def)

lemma order_step_announced:
  "order_step sys c db db' \<Longrightarrow> order_keys_ok sys db \<Longrightarrow> order_announced sys db \<Longrightarrow> order_announced sys db'"
proof (induction rule: order_step.induct)
  case (created oid e db m r input)
  then have "announcements sys db ety (o_id r) = 0" for ety by (auto simp: order_announced_def)
  with created show ?case
    by (auto simp: order_announced_def order_told_def outbox_entry_def EventType_defs OrderStatus_defs)
next
  case (confirmed eid u db r oid now)
  show ?case
    by (rule order_announced_set [where r = r and db = db])
       (use confirmed order_told_row [of sys db r] in \<open>auto simp: order_told_def OrderStatus_defs set_order_status_def\<close>)
next
  case (completed oid e db m eid u r now)
  show ?case
    by (rule order_announced_set [where r = r and db = db])
       (use completed order_told_row [of sys db r] in \<open>auto simp: order_told_def OrderStatus_defs
          set_order_status_def outbox_entry_def EventType_defs\<close>)
next
  case (payment_failed oid e db m eid u r reason now)
  show ?case
    by (rule order_announced_set [where r = r and db = db])
       (use payment_failed order_told_row [of sys db r] in \<open>auto simp: order_told_def OrderStatus_defs
          set_order_status_def outbox_entry_def EventType_defs\<close>)
next
  case (stock_failed eid u db r oid reason now)
  show ?case
    by (rule order_announced_set [where r = r and db = db])
       (use stock_failed order_told_row [of sys db r] in \<open>auto simp: order_told_def OrderStatus_defs set_order_status_def\<close>)
next
  case (relayed db ms)
  then show ?case by (simp add: order_announced_def order_told_def announcements_same_events)
qed

lemma order_step_inv:
  "order_step sys c db db' \<Longrightarrow> uuids_ok sys \<Longrightarrow> order_inv sys db \<Longrightarrow> order_inv sys db'"
  by (simp add: order_inv_def order_step_keys order_step_rows order_step_announced)

end
