(* ===== verification/Order_Service.thy ===== *)
theory Order_Service
  imports Order_Spec
begin

text \<open>
  The use cases of the order service implement the steps of \<open>order_step\<close>, whatever fails; the
  properties of the service over any sequence of calls.
\<close>

section \<open>Every use case is a step\<close>

lemma update_order_status_of_row:
  assumes "order_keys_ok sys db" and "r \<in> set (orders db)"
    and "update_order sys (order_of_row sys r\<lparr>order_Status := st, order_UpdatedAt := t\<rparr>) now db1 = Done n db2"
  shows "db2 = set_order_status (o_id r) st now db1"
  using assms
  by (auto simp: update_order_def order_keys_ok_def canonical_ids_def order_of_row_def split: if_splits)

lemmas order_handler_simps = wp select_order_Done order_method_defs NewEvent_defs

lemmas call_splits = option.split reply.split commit_reply.split sum.split if_splits

lemma order_HandleStockReserved_step:
  "order_keys_ok sys (durable s) \<Longrightarrow> let s' = snd (order_HandleStockReserved sys eid oid s)
   in durable s' = durable s \<or> order_step sys (CallStockReserved eid oid) (durable s) (durable s')"
  unfolding order_HandleStockReserved_def Let_def
  by (rule handler_durable, simp)
    (auto simp: order_handler_simps split: call_splits
       dest!: find_by_key update_order_status_of_row intro!: order_step.confirmed)

lemma order_HandleStockReserveFailed_step:
  "order_keys_ok sys (durable s) \<Longrightarrow> let s' = snd (order_HandleStockReserveFailed sys eid oid reason s)
   in durable s' = durable s \<or> order_step sys (CallStockReserveFailed eid oid reason) (durable s) (durable s')"
  unfolding order_HandleStockReserveFailed_def Let_def
  by (rule handler_durable, simp)
    (auto simp: order_handler_simps split: call_splits
       dest!: find_by_key update_order_status_of_row intro!: order_step.stock_failed)

lemma order_HandlePaymentCompleted_step:
  "order_keys_ok sys (durable s) \<Longrightarrow> let s' = snd (order_HandlePaymentCompleted sys eid oid s)
   in durable s' = durable s \<or> order_step sys (CallPaymentCompleted eid oid) (durable s) (durable s')"
  unfolding order_HandlePaymentCompleted_def Let_def
  by (rule handler_durable, simp)
    (auto simp: order_handler_simps split: call_splits
       dest!: find_by_key update_order_status_of_row insert_outbox_Done intro!: order_step.completed)

lemma order_HandlePaymentFailed_step:
  "order_keys_ok sys (durable s) \<Longrightarrow> let s' = snd (order_HandlePaymentFailed sys eid oid reason s)
   in durable s' = durable s \<or> order_step sys (CallPaymentFailed eid oid reason) (durable s) (durable s')"
  unfolding order_HandlePaymentFailed_def Let_def
  by (rule handler_durable, simp)
    (auto simp: order_handler_simps split: call_splits
       dest!: find_by_key update_order_status_of_row insert_outbox_Done
       intro!: order_step.payment_failed)

lemma CreateOrder_outcome:
  "wpc (CreateOrder sys input)
      (\<lambda>out s'. out_Status out = OrderStatusPending \<and> order_step sys (CallCreateOrder input) (durable s) (durable s') \<and>
         (\<exists>r \<in> set (orders (durable s')). uuid_in sys (out_OrderID out) = Some (o_id r) \<and> o_status r = OrderStatusPending))
      (\<lambda>e s'. durable s' = durable s \<or>
         (\<exists>t msg. tick s' = Suc t \<and> commit_reply sys t = Unacked msg \<and> e = Errorf ''commit transaction'' (Driver msg)) \<and>
         order_step sys (CallCreateOrder input) (durable s) (durable s')) s"
  unfolding CreateOrder_def
  by (auto simp: wp NewOrder_def NewEvent_defs insert_order_Done sle_iff split: call_splits
       dest!: insert_outbox_Done intro!: order_step.created)

lemma CreateOrder_step:
  "let s' = snd (CreateOrder sys input s)
   in durable s' = durable s \<or> order_step sys (CallCreateOrder input) (durable s) (durable s')"
proof -
  have "wpc (CreateOrder sys input)
      (\<lambda>_ s'. durable s' = durable s \<or> order_step sys (CallCreateOrder input) (durable s) (durable s'))
      (\<lambda>_ s'. durable s' = durable s \<or> order_step sys (CallCreateOrder input) (durable s) (durable s')) s"
    by (rule wpc_mono [OF CreateOrder_outcome]) auto
  then show ?thesis by (simp add: wpc_post Let_def)
qed

lemma GetOrder_reads: "durable (snd (GetOrder sys oid s)) = durable s"
proof -
  have "wpc (GetOrder sys oid) (\<lambda>_ s'. durable s' = durable s) (\<lambda>_ s'. durable s' = durable s) s"
    by (simp add: GetOrder_def wp select_order_def split: option.split reply.split)
  then show ?thesis by (simp add: wpc_post)
qed


section \<open>The service\<close>

fun order_exec :: "sys \<Rightarrow> order_call \<Rightarrow> order_db pg \<Rightarrow> order_db pg" where
  "order_exec sys (CallCreateOrder input) s = snd (CreateOrder sys input s)"
| "order_exec sys (CallGetOrder oid) s = snd (GetOrder sys oid s)"
| "order_exec sys (CallStockReserved eid oid) s = snd (order_HandleStockReserved sys eid oid s)"
| "order_exec sys (CallStockReserveFailed eid oid reason) s =
     snd (order_HandleStockReserveFailed sys eid oid reason s)"
| "order_exec sys (CallPaymentCompleted eid oid) s = snd (order_HandlePaymentCompleted sys eid oid s)"
| "order_exec sys (CallPaymentFailed eid oid reason) s =
     snd (order_HandlePaymentFailed sys eid oid reason s)"
| "order_exec sys CallOrderRelay s = snd (processPendingMessages sys (nats_Publish sys) s)"

text \<open>The invariant together with what the environment is relied on for.\<close>

definition order_ready :: "sys \<Rightarrow> order_db \<Rightarrow> bool" where
  "order_ready sys db \<longleftrightarrow> uuids_ok sys \<and> scans_ok sys \<and> order_inv sys db"

lemma order_relay_step:
  assumes "order_ready sys (durable s)"
  shows "durable (order_exec sys CallOrderRelay s) = durable s \<or>
    order_step sys CallOrderRelay (durable s) (durable (order_exec sys CallOrderRelay s))"
  using assms relay_same_events [of sys s]
  by (auto simp: order_ready_def order_inv_def order_keys_ok_def Let_def intro: order_step.relayed)

interpretation order_service: refined_service "order_exec sys" "order_step sys" "order_ready sys" for sys
proof
  fix s :: "order_db pg" and c
  assume ready: "order_ready sys (durable s)"
  then have "order_keys_ok sys (durable s)" by (simp add: order_ready_def order_inv_def)
  with ready show "durable (order_exec sys c s) = durable s \<or>
      order_step sys c (durable s) (durable (order_exec sys c s))"
    using order_HandleStockReserved_step order_HandleStockReserveFailed_step
      order_HandlePaymentCompleted_step order_HandlePaymentFailed_step CreateOrder_step
      order_relay_step GetOrder_reads
    by (cases c) (simp_all add: Let_def)
next
  fix c d d'
  assume "order_step sys c d d'" and "order_ready sys d"
  then show "order_ready sys d'" by (simp add: order_ready_def order_step_inv)
qed


section \<open>Properties over every sequence of calls\<close>

definition empty_order_db :: order_db where
  "empty_order_db = \<lparr>processed_events = Map.empty, outbox = [], orders = []\<rparr>"

definition order_boot :: "order_db \<Rightarrow> order_db pg" where
  "order_boot db = \<lparr>durable = db, view = db, started = 0, failed = False, tick = 0, published = []\<rparr>"

lemma order_inv_empty [simp]: "order_inv sys empty_order_db"
  by (simp add: order_inv_def order_keys_ok_def empty_order_db_def order_announced_def
        announcements_def outbox_wf_def canonical_ids_def)

lemma durable_order_boot [simp]: "durable (order_boot db) = db"
  by (simp add: order_boot_def)

text \<open>A database with one order, and its OrderCreated event, for the witnesses.\<close>

definition sample_order :: "string \<Rightarrow> order_row" where
  "sample_order st =
     \<lparr>o_id = ''o'', o_customer_id = ''c'', o_product_id = ''p'', o_quantity = 1,
      o_total_amount = 1000, o_status = st, o_created_at = 1, o_updated_at = 1\<rparr>"

definition sample_order_db :: "string \<Rightarrow> order_db" where
  "sample_order_db st =
     \<lparr>processed_events = Map.empty,
      outbox = [(sample_message ''m'' 1)\<lparr>msg_AggregateID := ''o'', msg_EventType := EventTypeOrderCreated\<rparr>],
      orders = [sample_order st]\<rparr>"

lemma sample_order_keys [simp]: "order_keys_ok sample_sys (sample_order_db st)"
  by (simp add: order_keys_ok_def outbox_wf_def canonical_ids_def sample_uuid_in sample_message_def
        sample_order_db_def sample_order_def)

lemma sample_order_inv [simp]: "order_inv sample_sys (sample_order_db OrderStatusPending)"
proof -
  have "order_announced sample_sys (sample_order_db OrderStatusPending)"
    by (simp add: order_announced_def order_told_def announcements_def sample_uuid_in
          sample_message_def sample_order_db_def sample_order_def EventType_defs OrderStatus_defs)
  moreover have "\<forall>r \<in> set (orders (sample_order_db OrderStatusPending)). order_row_ok r"
    by (simp add: sample_order_db_def sample_order_def order_row_ok_def int4_ok_def)
  ultimately show ?thesis by (simp add: order_inv_def)
qed

lemma sample_order_fields [simp]:
  "sample_order st \<in> set (orders (sample_order_db st))" "o_id (sample_order st) = ''o''"
  "o_status (sample_order st) = st" "processed_events (sample_order_db st) = Map.empty"
  by (simp_all add: sample_order_db_def sample_order_def)

lemma sample_order_set:
  "map o_status (orders (set_order_status ''o'' st now (mark_processed u ety t (sample_order_db st')))) = [st]"
  by (simp add: set_order_status_def sample_order_db_def sample_order_def)

text \<open>
  C5: the order service refines its specification. Whatever calls it serves, in whatever order,
  and whatever statements, commits and publications fail, every call has on the database the effect
  that \<open>order_step\<close> allows for that call, as one atomic step, or none, and the invariant is kept.
\<close>

theorem order_service_refines:
  assumes "uuids_ok sys" and "scans_ok sys" and "order_inv sys (durable s)"
  shows "explained (order_step sys) cs (durable s) (durable (run_calls (order_exec sys) cs s)) \<and>
    order_inv sys (durable (run_calls (order_exec sys) cs s))"
  using order_service.run_refines [of sys s cs] order_service.run_inv [of sys s cs] assms
  by (simp add: order_ready_def)

theorem order_service_refines_witness:
  "order_inv sample_sys (durable (run_calls (order_exec sample_sys)
     [CallCreateOrder \<lparr>in_CustomerID = ''c'', in_ProductID = ''p'', in_Quantity = 2, in_TotalAmount = 10\<rparr>,
      CallPaymentFailed ''e'' ''u'' ''declined'', CallOrderRelay] (order_boot empty_order_db)))"
  by (rule conjunct2 [OF order_service_refines]) simp_all

text \<open>
  C6: the outbox tells the truth. Starting from an empty database, after any calls and any
  failures, every order has exactly one OrderCreated event in the outbox, exactly one
  OrderCompleted event if it is COMPLETED and none otherwise, and OrderCancelled events only if it
  is CANCELLED; and the outbox has no event about anything else.
\<close>

theorem order_outbox_truth:
  assumes "uuids_ok sys" and "scans_ok sys"
    and "db = durable (run_calls (order_exec sys) cs (order_boot empty_order_db))"
  shows "(\<forall>r \<in> set (orders db).
      announcements sys db EventTypeOrderCreated (o_id r) = 1 \<and>
      announcements sys db EventTypeOrderCompleted (o_id r) =
        (if o_status r = OrderStatusCompleted then 1 else 0) \<and>
      (0 < announcements sys db EventTypeOrderCancelled (o_id r) \<longrightarrow> o_status r = OrderStatusCancelled)) \<and>
    (\<forall>u ety. 0 < announcements sys db ety u \<longrightarrow> u \<in> o_id ` set (orders db))"
proof -
  have "order_ready sys (durable (order_boot empty_order_db))"
    using assms(1,2) by (simp add: order_ready_def)
  then have "order_ready sys db" unfolding assms(3) by (rule order_service.run_inv)
  then show ?thesis by (simp add: order_ready_def order_inv_def order_announced_def order_told_def)
qed

theorem order_outbox_truth_witness:
  "let db = durable (run_calls (order_exec sample_sys)
     [CallCreateOrder \<lparr>in_CustomerID = ''c'', in_ProductID = ''p'', in_Quantity = 2, in_TotalAmount = 10\<rparr>,
      CallStockReserved ''e'' ''uxx''] (order_boot empty_order_db))
   in list_all (\<lambda>r. announcements sample_sys db EventTypeOrderCreated (o_id r) = 1) (orders db)"
  using order_outbox_truth [of sample_sys, OF _ _ refl] unfolding Let_def list_all_iff
  by (simp del: run_calls.simps)

text \<open>What may become of an order: it is never deleted, only its status and update time change.\<close>

definition order_evolves :: "order_row \<Rightarrow> order_row \<Rightarrow> bool" where
  "order_evolves r r' \<longleftrightarrow>
     r' = r\<lparr>o_status := o_status r', o_updated_at := o_updated_at r'\<rparr> \<and>
     order_transition\<^sup>*\<^sup>* (o_status r) (o_status r')"

definition order_history :: "order_db \<Rightarrow> order_db \<Rightarrow> bool" where
  "order_history db db' \<longleftrightarrow>
     (\<forall>r \<in> set (orders db). \<exists>r' \<in> set (orders db'). order_evolves r r') \<and> events_kept db db'"

lemma order_evolves_refl [simp]: "order_evolves r r"
  by (simp add: order_evolves_def)

lemma order_evolves_trans: "order_evolves a b \<Longrightarrow> order_evolves b c \<Longrightarrow> order_evolves a c"
  unfolding order_evolves_def
  by (metis (no_types, lifting) order_row.surjective order_row.update_convs(6,8) rtranclp_trans)

lemma order_history_refl: "order_history db db"
  unfolding order_history_def by (metis order_evolves_refl events_kept_refl)

lemma order_history_trans: "order_history a b \<Longrightarrow> order_history b c \<Longrightarrow> order_history a c"
  unfolding order_history_def by (meson order_evolves_trans events_kept_trans)

lemma order_history_set:
  assumes keys: "order_keys_ok sys db" and r: "r \<in> set (orders db)"
    and tr: "order_transition (o_status r) st" and kept: "events_kept db db'"
    and db': "orders db' = orders (set_order_status (o_id r) st now db)"
  shows "order_history db db'"
proof -
  have "\<exists>x' \<in> set (orders db'). order_evolves x x'" if x: "x \<in> set (orders db)" for x
  proof -
    let ?x = "if o_id x = o_id r then x\<lparr>o_status := st, o_updated_at := now\<rparr> else x"
    have "order_evolves x ?x"
      using same_order [OF keys r x] tr by (auto simp: order_evolves_def)
    moreover have "?x \<in> set (orders db')" using x by (auto simp: db' orders_set_status)
    ultimately show ?thesis by blast
  qed
  with kept show ?thesis by (simp add: order_history_def)
qed

lemmas order_history_facts =
  order_transition.intros set_order_status_def events_kept_def map_le_fresh

lemma order_step_history:
  "order_step sys c db db' \<Longrightarrow> order_keys_ok sys db \<Longrightarrow> order_history db db'"
proof (induction rule: order_step.induct)
  case (created oid e db m r input)
  then show ?case by (auto simp: order_history_def events_kept_def intro: order_evolves_refl)
next
  case (relayed db ms)
  from relayed(1) have "events_kept db (db\<lparr>outbox := ms\<rparr>)" by (rule events_kept_relayed)
  then show ?case by (simp add: order_history_def) (metis order_evolves_refl)
next
  case (confirmed eid u db r oid now)
  then show ?case
    by (intro order_history_set [where r = r and st = OrderStatusConfirmed and now = now])
       (auto simp: order_history_facts)
next
  case (completed oid e db m eid u r now)
  then show ?case
    by (intro order_history_set [where r = r and st = OrderStatusCompleted and now = now])
       (auto simp: order_history_facts)
next
  case (payment_failed oid e db m eid u r reason now)
  then show ?case
    by (intro order_history_set [where r = r and st = OrderStatusCancelled and now = now])
       (auto simp: order_history_facts)
next
  case (stock_failed eid u db r oid reason now)
  then show ?case
    by (intro order_history_set [where r = r and st = OrderStatusCancelled and now = now])
       (auto simp: order_history_facts)
qed

text \<open>
  C19: no order is lost or rewritten. Whatever calls are served and whatever fails, every order
  keeps its row; its ID, customer, product, quantity, amount and creation time never change, its
  status moves only along the allowed transitions, a COMPLETED or CANCELLED order stays so, no
  event is removed from the outbox and no processed event is forgotten.
\<close>

theorem order_service_history:
  assumes "uuids_ok sys" and "scans_ok sys" and "order_inv sys (durable s)"
    and "r \<in> set (orders (durable s))"
  shows "let db' = durable (run_calls (order_exec sys) cs s)
    in (\<exists>r' \<in> set (orders db').
         r' = r\<lparr>o_status := o_status r', o_updated_at := o_updated_at r'\<rparr> \<and>
         order_transition\<^sup>*\<^sup>* (o_status r) (o_status r') \<and>
         (order_terminal (o_status r) \<longrightarrow> o_status r' = o_status r)) \<and>
       events_kept (durable s) db'"
proof -
  have "order_history (durable s) (durable (run_calls (order_exec sys) cs s))"
  proof (rule order_service.run_relates [where R = order_history])
    show "order_ready sys (durable s)" using assms(1-3) by (simp add: order_ready_def)
    show "order_history d d'" if "order_ready sys d" "order_step sys c d d'" for c d d'
      using that by (simp add: order_ready_def order_inv_def order_step_history)
  qed (auto intro: order_history_trans simp: order_history_refl)
  with assms(4) obtain r' where r': "r' \<in> set (orders (durable (run_calls (order_exec sys) cs s)))"
      "order_evolves r r'" and "events_kept (durable s) (durable (run_calls (order_exec sys) cs s))"
    unfolding order_history_def by blast
  moreover have "order_terminal (o_status r) \<longrightarrow> o_status r' = o_status r"
    using r'(2) order_machine.terminal_path unfolding order_evolves_def by blast
  ultimately show ?thesis unfolding order_evolves_def Let_def by blast
qed

theorem order_service_history_witness:
  "events_kept (sample_order_db OrderStatusPending)
     (durable (run_calls (order_exec sample_sys) [CallStockReserved ''e'' ''o'', CallOrderRelay]
       (order_boot (sample_order_db OrderStatusPending))))"
  using order_service_history [of sample_sys "order_boot (sample_order_db OrderStatusPending)"
      "sample_order OrderStatusPending" "[CallStockReserved ''e'' ''o'', CallOrderRelay]"]
  unfolding Let_def by (simp del: run_calls.simps)


section \<open>Properties of the single calls\<close>

text \<open>
  Delivering an event again changes nothing: a handler that is given an event whose ID is
  recorded leaves the database as it is, whatever the order it names and whatever fails.
\<close>

theorem order_redelivery:
  assumes "uuid_in sys eid = Some u" and "u \<in> dom (processed_events (durable s))"
  shows "durable (snd (order_HandleStockReserved sys eid oid s)) = durable s \<and>
    durable (snd (order_HandleStockReserveFailed sys eid oid reason s)) = durable s \<and>
    durable (snd (order_HandlePaymentCompleted sys eid oid s)) = durable s \<and>
    durable (snd (order_HandlePaymentFailed sys eid oid reason s)) = durable s"
  unfolding order_HandleStockReserved_def order_HandleStockReserveFailed_def
    order_HandlePaymentCompleted_def order_HandlePaymentFailed_def
  using checker.redelivery_changes_nothing [OF assms] by simp

theorem order_redelivery_witness:
  "let s = order_boot (mark_processed ''e'' EventTypePaymentCompleted 5 empty_order_db)
   in durable (snd (order_HandlePaymentCompleted sample_sys ''e'' ''o'' s)) = durable s"
  using order_redelivery [of sample_sys "''e''" "''e''"
      "order_boot (mark_processed ''e'' EventTypePaymentCompleted 5 empty_order_db)"]
  by (simp add: sample_uuid_in Let_def)

text \<open>
  C20: CreateOrder is atomic. If it returns an order ID, the PENDING order with the given customer,
  product and quantity and its OrderCreated event are both durable; if it returns an error,
  neither is, except when the commit was sent and only its acknowledgement was lost.
\<close>

theorem CreateOrder_atomic:
  "case CreateOrder sys input s of
     (Inr out, s') \<Rightarrow>
       \<exists>r m. durable s' = add_message m ((durable s)\<lparr>orders := orders (durable s) @ [r]\<rparr>) \<and>
         uuid_in sys (out_OrderID out) = Some (o_id r) \<and> out_Status out = o_status r \<and>
         o_status r = OrderStatusPending \<and> o_customer_id r = in_CustomerID input \<and>
         o_product_id r = in_ProductID input \<and> o_quantity r = sint (in_Quantity input) \<and>
         msg_EventType m = EventTypeOrderCreated \<and> msg_AggregateID m = out_OrderID out \<and>
         msg_Status m = StatusPending
   | (Inl e, s') \<Rightarrow>
       durable s' = durable s \<or>
       (\<exists>msg. e = Errorf ''commit transaction'' (Driver msg)) \<and>
       (\<exists>r m. durable s' = add_message m ((durable s)\<lparr>orders := orders (durable s) @ [r]\<rparr>) \<and>
          uuid_in sys (msg_AggregateID m) = Some (o_id r))"
proof -
  have "wpc (CreateOrder sys input)
    (\<lambda>out s'. \<exists>r m. durable s' = add_message m ((durable s)\<lparr>orders := orders (durable s) @ [r]\<rparr>) \<and>
         uuid_in sys (out_OrderID out) = Some (o_id r) \<and> out_Status out = o_status r \<and>
         o_status r = OrderStatusPending \<and> o_customer_id r = in_CustomerID input \<and>
         o_product_id r = in_ProductID input \<and> o_quantity r = sint (in_Quantity input) \<and>
         msg_EventType m = EventTypeOrderCreated \<and> msg_AggregateID m = out_OrderID out \<and>
         msg_Status m = StatusPending)
    (\<lambda>e s'. durable s' = durable s \<or>
       (\<exists>msg. e = Errorf ''commit transaction'' (Driver msg)) \<and>
       (\<exists>r m. durable s' = add_message m ((durable s)\<lparr>orders := orders (durable s) @ [r]\<rparr>) \<and>
          uuid_in sys (msg_AggregateID m) = Some (o_id r))) s"
    unfolding CreateOrder_def
    by (fastforce simp: wp NewOrder_def NewEvent_defs insert_order_Done sle_iff outbox_entry_def
         split: call_splits dest!: insert_outbox_Done)
  then show ?thesis by (simp add: wpc_def)
qed

text \<open>Looking up an order of the table, and the update of the order that was looked up.\<close>

lemma select_known_order:
  "order_keys_ok sys db \<Longrightarrow> r \<in> set (orders db) \<Longrightarrow> uuid_in sys oid = Some (o_id r) \<Longrightarrow>
   orders db1 = orders db \<Longrightarrow> select_order sys oid now db1 = Done r db1"
  by (simp add: select_order_def order_keys_ok_def find_distinct_key)

lemma update_known_order:
  assumes "order_keys_ok sys db" and "r \<in> set (orders db)" and "orders db1 = orders db"
    and "text_ok sys 50 st"
  shows "\<exists>n > 0. update_order sys (order_of_row sys r\<lparr>order_Status := st, order_UpdatedAt := t\<rparr>) now db1 =
    Done n (set_order_status (o_id r) st now db1)"
proof -
  have "filter (\<lambda>x. o_id x = o_id r) (orders db) = [r]"
    using assms by (simp add: order_keys_ok_def filter_distinct_key)
  with assms show ?thesis
    by (auto simp: update_order_def order_keys_ok_def canonical_ids_def order_of_row_def)
qed

text \<open>
  C24: without failures, a StockReserved event that was not processed before confirms a PENDING
  order and is recorded; for an order in any other status the handler returns nil and changes
  nothing.
\<close>

theorem order_stock_reserved:
  assumes "calm sys (tick s)" and "varchar_ok sys" and "order_keys_ok sys (durable s)"
    and "r \<in> set (orders (durable s))" and "uuid_in sys oid = Some (o_id r)"
    and "uuid_in sys eid = Some u" and "processed_events (durable s) u = None"
  shows "case order_HandleStockReserved sys eid oid s of
     (Inr _, s') \<Rightarrow>
       if o_status r = OrderStatusPending
       then \<exists>now. durable s' = set_order_status (o_id r) OrderStatusConfirmed now
                (mark_processed u EventTypeStockReserved now (durable s))
       else durable s' = durable s
   | (Inl e, s') \<Rightarrow> False"
  unfolding order_HandleStockReserved_def
proof (rule handler_outcome [OF assms(6,7)])
  have texts: "text_ok sys 255 EventTypeStockReserved" "text_ok sys 50 OrderStatusConfirmed"
    using assms(2) by (simp_all add: event_type_texts varchar_ok_def ascii_text_def OrderStatus_defs)
  show False if "\<not> (calm sys (tick s) \<and> text_ok sys 255 EventTypeStockReserved)"
    using that assms(1) texts by simp
  fix s1 :: "order_db pg"
  assume s1: "durable s1 = durable s" "\<not> failed s1" "calm sys (tick s) \<longrightarrow> calm sys (tick s1)"
    "view s1 = mark_processed u EventTypeStockReserved (started s1) (durable s)"
  with assms(1) have "calm sys (tick s1)" by simp
  moreover have sel: "select_order sys oid now (view s1) = Done r (view s1)" for now
    using s1(4) by (intro select_known_order [OF assms(3-5)]) simp
  moreover have ords: "orders (view s1) = orders (durable s)" using s1(4) by simp
  moreover obtain n where "0 < n" "update_order sys (order_of_row sys r
        \<lparr>order_Status := OrderStatusConfirmed, order_UpdatedAt := time_Now sys (Suc (tick s1))\<rparr>)
        (started s1) (view s1) = Done n (set_order_status (o_id r) OrderStatusConfirmed (started s1) (view s1))"
    using update_known_order [OF assms(3,4) ords texts(2)] by blast
  ultimately show "wpc (go_try (order_FindByIDForUpdate sys oid) ''find order'' (\<lambda>ord.
      go_bind (go_now sys) (\<lambda>now.
      case order_Confirm now ord of
        Inl _ \<Rightarrow> go_return ()
      | Inr ord \<Rightarrow> go_try (order_Update sys ord) ''update order'' (\<lambda>_.
          go_try (tx_Commit sys) ''commit transaction'' go_return))))
    (\<lambda>_ s'. if o_status r = OrderStatusPending
       then \<exists>now. durable s' = set_order_status (o_id r) OrderStatusConfirmed now
                (mark_processed u EventTypeStockReserved now (durable s))
       else durable s' = durable s) (\<lambda>_ _. False) s1"
    using s1 by (auto simp: wp order_Confirm_def sel)
qed

theorem order_stock_reserved_witness:
  "case order_HandleStockReserved sample_sys ''e'' ''o'' (order_boot (sample_order_db OrderStatusPending)) of
     (Inr _, s') \<Rightarrow> map o_status (orders (durable s')) = [OrderStatusConfirmed]
   | (Inl e, s') \<Rightarrow> False"
  using order_stock_reserved [of sample_sys "order_boot (sample_order_db OrderStatusPending)"
      "sample_order OrderStatusPending" "''o''" "''e''" "''e''"]
  by (auto simp: sample_uuid_in sample_order_set split: prod.splits sum.splits)

text \<open>
  C23: a PaymentCompleted event that was not processed before completes a CONFIRMED order, together
  with its OrderCompleted event. For an order in any other status the handler returns nil, so the
  event counts as handled, but leaves no trace of it: a payment that completes before the order is
  confirmed never completes the order.
\<close>

theorem order_payment_completed:
  assumes "order_keys_ok sys (durable s)" and "r \<in> set (orders (durable s))"
    and "uuid_in sys oid = Some (o_id r)" and "uuid_in sys eid = Some u"
    and "processed_events (durable s) u = None"
  shows "case order_HandlePaymentCompleted sys eid oid s of
     (Inr _, s') \<Rightarrow>
       if o_status r = OrderStatusConfirmed
       then \<exists>m now. durable s' = add_message m (set_order_status (o_id r) OrderStatusCompleted now
                (mark_processed u EventTypePaymentCompleted now (durable s))) \<and>
              msg_EventType m = EventTypeOrderCompleted \<and> msg_AggregateID m = oid
       else durable s' = durable s
   | (Inl e, s') \<Rightarrow> durable s' = durable s \<or>
       (\<exists>msg. e = Errorf ''commit transaction'' (Driver msg)) \<and> o_status r = OrderStatusConfirmed"
  unfolding order_HandlePaymentCompleted_def
proof (rule handler_outcome [OF assms(4,5)])
  fix s1 :: "order_db pg"
  assume s1: "durable s1 = durable s" "\<not> failed s1"
    "view s1 = mark_processed u EventTypePaymentCompleted (started s1) (durable s)"
  then have sel: "select_order sys oid now (mark_processed u EventTypePaymentCompleted t (durable s)) =
      Done r (mark_processed u EventTypePaymentCompleted t (durable s))" for now t
    by (intro select_known_order [OF assms(1-3)]) simp
  show "wpc (go_try (order_FindByIDForUpdate sys oid) ''find order'' (\<lambda>ord.
      go_bind (go_now sys) (\<lambda>now.
      case order_Complete now ord of
        Inl _ \<Rightarrow> go_return ()
      | Inr ord \<Rightarrow>
          go_try (order_Update sys ord) ''update order'' (\<lambda>_.
          go_bind (NewOrderCompletedEvent sys oid) (\<lambda>event.
          go_try (PublishInTx sys ''Order'' oid EventTypeOrderCompleted (EvOrderCompleted event))
            ''publish event'' (\<lambda>_.
          go_try (tx_Commit sys) ''commit transaction'' go_return))))))
    (\<lambda>_ s'. if o_status r = OrderStatusConfirmed
       then \<exists>m now. durable s' = add_message m (set_order_status (o_id r) OrderStatusCompleted now
                (mark_processed u EventTypePaymentCompleted now (durable s))) \<and>
              msg_EventType m = EventTypeOrderCompleted \<and> msg_AggregateID m = oid
       else durable s' = durable s)
    (\<lambda>e s'. durable s' = durable s \<or>
       (\<exists>msg. e = Errorf ''commit transaction'' (Driver msg)) \<and> o_status r = OrderStatusConfirmed) s1"
    using assms s1
    by (auto simp: order_handler_simps sel outbox_entry_def
         split: call_splits dest!: insert_outbox_Done update_order_status_of_row)
qed simp

theorem order_payment_completed_witness:
  "case order_HandlePaymentCompleted sample_sys ''e'' ''o'' (order_boot (sample_order_db OrderStatusPending)) of
     (Inr _, s') \<Rightarrow> durable s' = sample_order_db OrderStatusPending
   | (Inl e, s') \<Rightarrow> durable s' = sample_order_db OrderStatusPending"
  using order_payment_completed [of sample_sys "order_boot (sample_order_db OrderStatusPending)"
      "sample_order OrderStatusPending" "''o''" "''e''" "''e''"]
  by (simp add: sample_uuid_in OrderStatus_defs split: prod.splits sum.splits)

end
