(* ===== verification/Event_Reading.thy ===== *)
theory Event_Reading
  imports Events
begin

text \<open>
  What a consumer reads: a message that carries an event, and what its parser makes of it, even
  where the reader has other codecs for times than the writer.
\<close>

section \<open>What a consumer reads\<close>

text \<open>The event type of the constructor, under which an event is published.\<close>

fun event_kind :: "event \<Rightarrow> string" where
  "event_kind (EvOrderCreated e) = EventTypeOrderCreated"
| "event_kind (EvOrderCompleted e) = EventTypeOrderCompleted"
| "event_kind (EvOrderCancelled e) = EventTypeOrderCancelled"
| "event_kind (EvStockReserved e) = EventTypeStockReserved"
| "event_kind (EvStockReserveFailed e) = EventTypeStockReserveFailed"
| "event_kind (EvStockReleased e) = EventTypeStockReleased"
| "event_kind (EvPaymentCompleted e) = EventTypePaymentCompleted"
| "event_kind (EvPaymentFailed e) = EventTypePaymentFailed"

text \<open>A message, its subject and document, that carries an event.\<close>

definition tells :: "sys \<Rightarrow> string \<times> json \<Rightarrow> event \<Rightarrow> bool" where
  "tells sys m ev \<longleftrightarrow>
     fst m = event_kind ev \<and> jsonb_in sys (JObj (event_members sys ev)) = Some (snd m)"

text \<open>
  A message that its parser accepts is read as it was written, as far as IDs, names and quantities
  go, even by a reader with other codecs for times and numbers.
\<close>

lemma tells_document:
  assumes "tells sys (subject, doc) ev" and "jsonb_ok sys"
  obtains ms where "doc = JObj ms" "mset ms = mset (event_members sys ev)"
  using assms event_members_distinct [of sys ev] unfolding tells_def jsonb_ok_def by auto

lemmas read_simps = marshal_base_def event_members.simps field_of_Inr

lemma reads_order_created:
  assumes "tells sys (subject, doc) (EvOrderCreated e0)" and "jsonb_ok sys"
    and "ParseOrderCreatedEvent sys' (Some doc) = Inr e"
  shows "EventID e = EventID e0"
    and "oc_OrderID e = oc_OrderID e0"
    and "oc_CustomerID e = oc_CustomerID e0"
    and "oc_ProductID e = oc_ProductID e0"
    and "oc_Quantity e = oc_Quantity e0"
proof -
  obtain ms where doc: "doc = JObj ms" and ms: "mset ms = mset (event_members sys (EvOrderCreated e0))"
    by (rule tells_document [OF assms(1,2)])
  note parse = assms(3) [unfolded ParseOrderCreatedEvent_def doc]
  note distinct = event_members_distinct [of sys "EvOrderCreated e0"]
  show "EventID e = EventID e0"
    by (rule unmarshal_value [OF parse _ ms distinct, where k = "''event_id''" and v = "JStr (EventID e0)"])
       (auto simp: read_simps oc_member)
  show "oc_OrderID e = oc_OrderID e0"
    by (rule unmarshal_value [OF parse _ ms distinct, where k = "''order_id''" and v = "JStr (oc_OrderID e0)"])
       (auto simp: read_simps oc_member)
  show "oc_CustomerID e = oc_CustomerID e0"
    by (rule unmarshal_value [OF parse _ ms distinct, where k = "''customer_id''" and v = "JStr (oc_CustomerID e0)"])
       (auto simp: read_simps oc_member)
  show "oc_ProductID e = oc_ProductID e0"
    by (rule unmarshal_value [OF parse _ ms distinct, where k = "''product_id''" and v = "JStr (oc_ProductID e0)"])
       (auto simp: read_simps oc_member)
  show "oc_Quantity e = oc_Quantity e0"
    by (rule unmarshal_value [OF parse _ ms distinct, where k = "''quantity''" and v = "JInt (sint (oc_Quantity e0))"])
       (auto simp: read_simps oc_member)
qed

lemma reads_order_created_amount:
  assumes "tells sys (subject, doc) (EvOrderCreated e0)" and "jsonb_ok sys"
    and "ParseOrderCreatedEvent sys' (Some doc) = Inr e" and "codecs_ok sys" and "is_f64 (oc_TotalAmount e0)"
  shows "oc_TotalAmount e = oc_TotalAmount e0"
proof -
  obtain ms where doc: "doc = JObj ms" and ms: "mset ms = mset (event_members sys (EvOrderCreated e0))"
    by (rule tells_document [OF assms(1,2)])
  show ?thesis
    by (rule unmarshal_value [OF assms(3) [unfolded ParseOrderCreatedEvent_def doc] _ ms event_members_distinct,
          where k = "''total_amount''" and v = "marshal_float sys (oc_TotalAmount e0)"])
       (auto simp: read_simps oc_member decode_marshalled_float [OF assms(4,5)])
qed

lemma reads_order_completed:
  assumes "tells sys (subject, doc) (EvOrderCompleted e0)" and "jsonb_ok sys"
    and "ParseOrderCompletedEvent sys' (Some doc) = Inr e"
  shows "od_OrderID e = od_OrderID e0"
proof -
  obtain ms where doc: "doc = JObj ms" and ms: "mset ms = mset (event_members sys (EvOrderCompleted e0))"
    by (rule tells_document [OF assms(1,2)])
  show ?thesis
    by (rule unmarshal_value [OF assms(3) [unfolded ParseOrderCompletedEvent_def doc] _ ms event_members_distinct,
          where k = "''order_id''" and v = "JStr (od_OrderID e0)"])
       (auto simp: read_simps od_member)
qed

lemma reads_order_cancelled:
  assumes "tells sys (subject, doc) (EvOrderCancelled e0)" and "jsonb_ok sys"
    and "ParseOrderCancelledEvent sys' (Some doc) = Inr e"
  shows "ox_OrderID e = ox_OrderID e0"
proof -
  obtain ms where doc: "doc = JObj ms" and ms: "mset ms = mset (event_members sys (EvOrderCancelled e0))"
    by (rule tells_document [OF assms(1,2)])
  show ?thesis
    by (rule unmarshal_value [OF assms(3) [unfolded ParseOrderCancelledEvent_def doc] _ ms event_members_distinct,
          where k = "''order_id''" and v = "JStr (ox_OrderID e0)"])
       (auto simp: read_simps ox_member)
qed

lemma reads_stock_reserved:
  assumes "tells sys (subject, doc) (EvStockReserved e0)" and "jsonb_ok sys"
    and "ParseStockReservedEvent sys' (Some doc) = Inr e"
  shows "EventID e = EventID e0"
    and "sr_OrderID e = sr_OrderID e0"
    and "sr_CustomerID e = sr_CustomerID e0"
proof -
  obtain ms where doc: "doc = JObj ms" and ms: "mset ms = mset (event_members sys (EvStockReserved e0))"
    by (rule tells_document [OF assms(1,2)])
  note parse = assms(3) [unfolded ParseStockReservedEvent_def doc]
  note distinct = event_members_distinct [of sys "EvStockReserved e0"]
  show "EventID e = EventID e0"
    by (rule unmarshal_value [OF parse _ ms distinct, where k = "''event_id''" and v = "JStr (EventID e0)"])
       (auto simp: read_simps sr_member)
  show "sr_OrderID e = sr_OrderID e0"
    by (rule unmarshal_value [OF parse _ ms distinct, where k = "''order_id''" and v = "JStr (sr_OrderID e0)"])
       (auto simp: read_simps sr_member)
  show "sr_CustomerID e = sr_CustomerID e0"
    by (rule unmarshal_value [OF parse _ ms distinct, where k = "''customer_id''" and v = "JStr (sr_CustomerID e0)"])
       (auto simp: read_simps sr_member)
qed

lemma reads_stock_reserved_amount:
  assumes "tells sys (subject, doc) (EvStockReserved e0)" and "jsonb_ok sys"
    and "ParseStockReservedEvent sys' (Some doc) = Inr e" and "codecs_ok sys" and "is_f64 (sr_TotalAmount e0)"
  shows "sr_TotalAmount e = sr_TotalAmount e0"
proof -
  obtain ms where doc: "doc = JObj ms" and ms: "mset ms = mset (event_members sys (EvStockReserved e0))"
    by (rule tells_document [OF assms(1,2)])
  show ?thesis
    by (rule unmarshal_value [OF assms(3) [unfolded ParseStockReservedEvent_def doc] _ ms event_members_distinct,
          where k = "''total_amount''" and v = "marshal_float sys (sr_TotalAmount e0)"])
       (auto simp: read_simps sr_member decode_marshalled_float [OF assms(4,5)])
qed

lemma reads_stock_reserve_failed:
  assumes "tells sys (subject, doc) (EvStockReserveFailed e0)" and "jsonb_ok sys"
    and "ParseStockReserveFailedEvent sys' (Some doc) = Inr e"
  shows "sf_OrderID e = sf_OrderID e0"
proof -
  obtain ms where doc: "doc = JObj ms" and ms: "mset ms = mset (event_members sys (EvStockReserveFailed e0))"
    by (rule tells_document [OF assms(1,2)])
  show ?thesis
    by (rule unmarshal_value [OF assms(3) [unfolded ParseStockReserveFailedEvent_def doc] _ ms event_members_distinct,
          where k = "''order_id''" and v = "JStr (sf_OrderID e0)"])
       (auto simp: read_simps sf_member)
qed

lemma reads_payment_completed:
  assumes "tells sys (subject, doc) (EvPaymentCompleted e0)" and "jsonb_ok sys"
    and "ParsePaymentCompletedEvent sys' (Some doc) = Inr e"
  shows "pc_OrderID e = pc_OrderID e0"
proof -
  obtain ms where doc: "doc = JObj ms" and ms: "mset ms = mset (event_members sys (EvPaymentCompleted e0))"
    by (rule tells_document [OF assms(1,2)])
  show ?thesis
    by (rule unmarshal_value [OF assms(3) [unfolded ParsePaymentCompletedEvent_def doc] _ ms event_members_distinct,
          where k = "''order_id''" and v = "JStr (pc_OrderID e0)"])
       (auto simp: read_simps pc_member)
qed

lemma reads_payment_failed:
  assumes "tells sys (subject, doc) (EvPaymentFailed e0)" and "jsonb_ok sys"
    and "ParsePaymentFailedEvent sys' (Some doc) = Inr e"
  shows "pf_OrderID e = pf_OrderID e0"
proof -
  obtain ms where doc: "doc = JObj ms" and ms: "mset ms = mset (event_members sys (EvPaymentFailed e0))"
    by (rule tells_document [OF assms(1,2)])
  show ?thesis
    by (rule unmarshal_value [OF assms(3) [unfolded ParsePaymentFailedEvent_def doc] _ ms event_members_distinct,
          where k = "''order_id''" and v = "JStr (pf_OrderID e0)"])
       (auto simp: read_simps pf_member)
qed

end
