(* ===== verification/Honesty.thy ===== *)
theory Honesty
  imports Service Event_Reading
begin

text \<open>
  What the messages of a service say: every event that a service has in its outbox or has ever
  published is true of its database, and stays true.
\<close>

section \<open>Services that tell the truth\<close>

text \<open>
  Messages that carry events that are true of a database, and a process all of whose outbox and
  everything it has ever published does.
\<close>

definition backed :: "sys \<Rightarrow> ('db \<Rightarrow> event \<Rightarrow> bool) \<Rightarrow> 'db \<Rightarrow> (string \<times> json) set \<Rightarrow> bool" where
  "backed sys truth db msgs \<longleftrightarrow> (\<forall>m \<in> msgs. \<exists>ev. tells sys m ev \<and> truth db ev)"

definition honest :: "sys \<Rightarrow> ('z core_db_scheme \<Rightarrow> event \<Rightarrow> bool) \<Rightarrow> 'z core_db_scheme pg \<Rightarrow> bool" where
  "honest sys truth s \<longleftrightarrow>
     backed sys truth (durable s) (subject_of ` set (outbox (durable s)) \<union> set (published s))"

text \<open>
  The contract: only the relay publishes, and only what is in the outbox; a step adds to the outbox
  only events that are true of the database it leads to, as long as the calls are in order; and what
  is true stays true.
\<close>

locale truthful_service = refined_service exec step inv
  for exec :: "'call \<Rightarrow> 'z core_db_scheme pg \<Rightarrow> 'z core_db_scheme pg"
    and step :: "'call \<Rightarrow> 'z core_db_scheme \<Rightarrow> 'z core_db_scheme \<Rightarrow> bool"
    and inv :: "'z core_db_scheme \<Rightarrow> bool" +
  fixes sys :: sys and truth :: "'z core_db_scheme \<Rightarrow> event \<Rightarrow> bool" and ok :: "'call \<Rightarrow> bool"
  assumes publishes_outbox: "inv (durable s) \<Longrightarrow>
      set (published (exec c s)) \<subseteq> set (published s) \<union> subject_of ` set (outbox (durable s))"
    and truth_stays: "inv d \<Longrightarrow> step c d d' \<Longrightarrow> truth d ev \<Longrightarrow> truth d' ev"
    and step_tells: "inv d \<Longrightarrow> ok c \<Longrightarrow> step c d d' \<Longrightarrow> m \<in> set (outbox d') \<Longrightarrow>
      subject_of m \<in> subject_of ` set (outbox d) \<or> (\<exists>ev. tells sys (subject_of m) ev \<and> truth d' ev)"
begin

lemma exec_honest:
  assumes inv: "inv (durable s)" and ok: "ok c" and honest: "honest sys truth s"
  shows "honest sys truth (exec c s)"
proof -
  let ?d = "durable s" and ?d' = "durable (exec c s)"
  have stays: "truth ?d' ev" if "truth ?d ev" for ev
    using exec_refines [OF inv, of c] truth_stays [OF inv _ that] that by metis
  have old: "\<exists>ev. tells sys m ev \<and> truth ?d' ev"
    if "m \<in> subject_of ` set (outbox ?d) \<union> set (published s)" for m
    using honest that stays unfolding honest_def backed_def by blast
  have new: "\<exists>ev. tells sys (subject_of m) ev \<and> truth ?d' ev" if m: "m \<in> set (outbox ?d')" for m
  proof (cases "?d' = ?d")
    case True
    with m show ?thesis by (intro old) simp
  next
    case False
    then have "step c ?d ?d'" using exec_refines [OF inv, of c] by simp
    from step_tells [OF inv ok this m] show ?thesis using old [of "subject_of m"] by blast
  qed
  show ?thesis
    unfolding honest_def backed_def
    using new old publishes_outbox [OF inv, of c] by blast
qed

lemma run_honest: "inv (durable s) \<Longrightarrow> \<forall>c \<in> set cs. ok c \<Longrightarrow> honest sys truth s \<Longrightarrow> honest sys truth (run_calls exec cs s)"
  by (induction cs arbitrary: s) (auto intro: exec_inv exec_honest)

end

text \<open>What the relay publishes, and the messages of an outbox after it.\<close>

lemma relay_publishes:
  fixes s :: "'z core_db_scheme pg"
  assumes "outbox_wf sys (durable s)" and "scans_ok sys"
  shows "set (published (snd (processPendingMessages sys (nats_Publish sys) s)))
    \<subseteq> set (published s) \<union> subject_of ` set (outbox (durable s))"
proof -
  obtain ms os where round: "round_spec s ms os (snd (processPendingMessages sys (nats_Publish sys) s))"
    using relay_round_lemma [OF assms] by blast
  have "set (handed_over ms os) \<subseteq> subject_of ` set ms"
    by (auto simp: handed_over_def dest: set_zip_leftD)
  with round show ?thesis unfolding round_spec_def by auto
qed

lemma same_events_subjects: "same_events ms ms' \<Longrightarrow> subject_of ` set ms' = subject_of ` set ms"
proof -
  assume same: "same_events ms ms'"
  have subjects: "map subject_of xs = map (\<lambda>(i, t, a, e, p). (e, p)) (map (\<lambda>m. (msg_ID m, msg_AggregateType m,
      msg_AggregateID m, msg_EventType m, msg_Payload m)) xs)" for xs
    by (simp add: subject_of_def)
  have "map subject_of ms' = map subject_of ms"
    using same unfolding same_events_def by (simp only: subjects)
  then show ?thesis by (metis list.set_map)
qed

lemma outbox_entry_tells:
  "outbox_entry sys agg ai ety ev db m \<Longrightarrow> ety = event_kind ev \<Longrightarrow> tells sys (subject_of m) ev"
  by (simp add: outbox_entry_def tells_def subject_of_def)


text \<open>A transaction that adds one message to the outbox.\<close>

lemma entry_or_old:
  assumes "m \<in> set (outbox (add_message m' db'))" and "outbox db' = outbox db"
    and "outbox_entry sys agg ai ety ev db m'" and "ety = event_kind ev" and "T ev"
  shows "subject_of m \<in> subject_of ` set (outbox db) \<or> (\<exists>ev. tells sys (subject_of m) ev \<and> T ev)"
proof (cases "m = m'")
  case True
  with outbox_entry_tells [OF assms(3,4)] assms(5) show ?thesis by blast
next
  case False
  with assms(1,2) show ?thesis by simp
qed


section \<open>Recorded events\<close>

text \<open>An event that the outbox holds under an aggregate.\<close>

definition recorded :: "sys \<Rightarrow> 'z core_db_scheme \<Rightarrow> string \<Rightarrow> event \<Rightarrow> bool" where
  "recorded sys db u ev \<longleftrightarrow>
     (\<exists>m \<in> set (outbox db). uuid_in sys (msg_AggregateID m) = Some u \<and> tells sys (subject_of m) ev)"

lemma recorded_core [simp]:
  "recorded sys (mark_processed x ety now db) u ev = recorded sys db u ev"
  by (simp add: recorded_def)

lemma recorded_add:
  "recorded sys db u ev \<Longrightarrow> recorded sys (add_message m db) u ev"
  "uuid_in sys (msg_AggregateID m) = Some u \<Longrightarrow> tells sys (subject_of m) ev \<Longrightarrow> recorded sys (add_message m db) u ev"
  by (auto simp: recorded_def)

lemma recorded_entry:
  "outbox_entry sys agg ai ety ev db m \<Longrightarrow> ety = event_kind ev \<Longrightarrow> uuid_in sys ai = Some u \<Longrightarrow>
   recorded sys (add_message m db') u ev"
  by (rule recorded_add(2)) (simp add: outbox_entry_def, rule outbox_entry_tells)

lemma recorded_kept:
  assumes kept: "events_kept db db'" and rec: "recorded sys db u ev"
  shows "recorded sys db' u ev"
proof -
  obtain m where m: "m \<in> set (outbox db)" "uuid_in sys (msg_AggregateID m) = Some u" "tells sys (subject_of m) ev"
    using rec unfolding recorded_def by blast
  let ?k = "\<lambda>m. (msg_ID m, msg_AggregateType m, msg_AggregateID m, msg_EventType m, msg_Payload m)"
  have "map ?k (take (length (outbox db)) (outbox db')) = map ?k (outbox db)"
    using kept by (simp add: events_kept_def same_events_def)
  then have "?k m \<in> ?k ` set (take (length (outbox db)) (outbox db'))"
    using m(1) by (metis (no_types, lifting) image_eqI list.set_map)
  then obtain m' where m': "m' \<in> set (take (length (outbox db)) (outbox db'))" "?k m' = ?k m" by force
  then have "m' \<in> set (outbox db')" by (meson in_set_takeD)
  moreover have "subject_of m' = subject_of m" "msg_AggregateID m' = msg_AggregateID m"
    using m'(2) by (simp_all add: subject_of_def)
  ultimately show ?thesis using m(2,3) unfolding recorded_def by (metis (no_types))
qed

text \<open>A document is of one event ID only, and so is an aggregate with one event of a type.\<close>

lemma tells_event_id:
  assumes "tells sys m ev" and "tells sys m ev'" and "jsonb_ok sys"
  shows "event_id ev = event_id ev'"
proof -
  obtain subject doc where m: "m = (subject, doc)" by fastforce
  obtain ms where ms: "doc = JObj ms" "mset ms = mset (event_members sys ev)"
    using assms(1,3) m tells_document by blast
  obtain ms' where ms': "doc = JObj ms'" "mset ms' = mset (event_members sys ev')"
    using assms(2,3) m tells_document by blast
  have member: "(''event_id'', JStr (event_id x)) \<in> set (event_members sys x)" for x
    by (cases x) (simp_all add: event_members.simps event_id_def marshal_base_def BaseEvent.truncate_def)
  have "mset (event_members sys ev) = mset (event_members sys ev')"
    using ms ms' by simp
  then have "set (event_members sys ev) = set (event_members sys ev')" by (rule mset_eq_setD)
  with member [of ev'] have "(''event_id'', JStr (event_id ev')) \<in> set (event_members sys ev)" by simp
  from eq_key_imp_eq_value [OF event_members_distinct member this] show ?thesis by simp
qed

lemma short_list_unique: "length xs \<le> 1 \<Longrightarrow> x \<in> set xs \<Longrightarrow> y \<in> set xs \<Longrightarrow> x = y"
  by (cases xs) auto

lemma recorded_unique:
  assumes "announcements sys db (event_kind ev) u \<le> 1" and "recorded sys db u ev" and "recorded sys db u ev'"
    and "event_kind ev' = event_kind ev" and "jsonb_ok sys"
  shows "event_id ev = event_id ev'"
proof -
  let ?P = "\<lambda>m. msg_EventType m = event_kind ev \<and> uuid_in sys (msg_AggregateID m) = Some u"
  obtain m m' where m: "m \<in> set (filter ?P (outbox db))" "tells sys (subject_of m) ev"
    "m' \<in> set (filter ?P (outbox db))" "tells sys (subject_of m') ev'"
    using assms(2,3,4) by (auto simp: recorded_def tells_def subject_of_def)
  have "length (filter ?P (outbox db)) \<le> 1" using assms(1) by (simp add: announcements_def)
  from short_list_unique [OF this m(1,3)] have "m = m'" .
  with m(4) have "tells sys (subject_of m) ev'" by simp
  from tells_event_id [OF m(2) this assms(5)] show ?thesis .
qed

end
