(* ===== verification/Order_Truth.thy ===== *)
theory Order_Truth
  imports Order_Service Honesty
begin

text \<open>
  Everything the order service publishes is true of its database, and stays so.
\<close>

section \<open>What the events of the order service say\<close>

text \<open>An order placed by a customer, for a quantity of a product, at a price.\<close>

definition order_placed ::
  "sys \<Rightarrow> order_db \<Rightarrow> string \<Rightarrow> string \<Rightarrow> string \<Rightarrow> go_int \<Rightarrow> float64 \<Rightarrow> bool" where
  "order_placed sys db u cid p q amount \<longleftrightarrow> is_f64 amount \<and>
     (\<exists>r \<in> set (orders db). o_id r = u \<and> o_customer_id r = cid \<and> o_product_id r = p \<and>
        o_quantity r = sint q \<and> numeric_in sys amount = Some (o_total_amount r))"

definition order_has_status :: "order_db \<Rightarrow> string \<Rightarrow> string \<Rightarrow> bool" where
  "order_has_status db u st \<longleftrightarrow> (\<exists>r \<in> set (orders db). o_id r = u \<and> o_status r = st)"

text \<open>
  \<open>declined\<close> is what the service is told of the payments: the orders whose payment was declined.
\<close>

fun order_true :: "sys \<Rightarrow> (string \<Rightarrow> bool) \<Rightarrow> order_db \<Rightarrow> event \<Rightarrow> bool" where
  "order_true sys declined db (EvOrderCreated e) \<longleftrightarrow>
     (\<exists>u. uuid_in sys (oc_OrderID e) = Some u \<and> recorded sys db u (EvOrderCreated e) \<and>
        order_placed sys db u (oc_CustomerID e) (oc_ProductID e) (oc_Quantity e) (oc_TotalAmount e))"
| "order_true sys declined db (EvOrderCompleted e) \<longleftrightarrow>
     (\<exists>u. uuid_in sys (od_OrderID e) = Some u \<and> order_has_status db u OrderStatusCompleted)"
| "order_true sys declined db (EvOrderCancelled e) \<longleftrightarrow>
     (\<exists>u. uuid_in sys (ox_OrderID e) = Some u \<and> order_has_status db u OrderStatusCancelled \<and> declined u)"
| "order_true sys declined db _ \<longleftrightarrow> False"

text \<open>A call carries a \<open>float64\<close>, and a PaymentFailed event stands for a declined payment.\<close>

fun order_call_ok :: "sys \<Rightarrow> (string \<Rightarrow> bool) \<Rightarrow> order_call \<Rightarrow> bool" where
  "order_call_ok sys declined (CallCreateOrder input) \<longleftrightarrow> is_f64 (in_TotalAmount input)"
| "order_call_ok sys declined (CallPaymentFailed eid oid reason) \<longleftrightarrow>
     (\<forall>u. uuid_in sys oid = Some u \<longrightarrow> declined u)"
| "order_call_ok sys declined _ \<longleftrightarrow> True"

lemma order_history_row:
  "order_history db db' \<Longrightarrow> r \<in> set (orders db) \<Longrightarrow>
   \<exists>r' \<in> set (orders db'). o_id r' = o_id r \<and> o_customer_id r' = o_customer_id r \<and>
     o_product_id r' = o_product_id r \<and> o_quantity r' = o_quantity r \<and> o_total_amount r' = o_total_amount r \<and>
     (order_terminal (o_status r) \<longrightarrow> o_status r' = o_status r)"
proof -
  assume "order_history db db'" and "r \<in> set (orders db)"
  then obtain r' where r': "r' \<in> set (orders db')" "order_evolves r r'"
    unfolding order_history_def by blast
  then have "r' = r\<lparr>o_status := o_status r', o_updated_at := o_updated_at r'\<rparr>"
    "order_transition\<^sup>*\<^sup>* (o_status r) (o_status r')"
    unfolding order_evolves_def by blast+
  then have "o_id r' = o_id r" "o_customer_id r' = o_customer_id r" "o_product_id r' = o_product_id r"
    "o_quantity r' = o_quantity r" "o_total_amount r' = o_total_amount r"
    "order_terminal (o_status r) \<longrightarrow> o_status r' = o_status r"
    using order_machine.terminal_path
    by (metis order_row.select_convs order_row.surjective order_row.update_convs)+
  with r'(1) show ?thesis by blast
qed

lemma order_placed_stays:
  assumes hist: "order_history db db'" and placed: "order_placed sys db u cid p q amount"
  shows "order_placed sys db' u cid p q amount"
proof -
  obtain r where r: "r \<in> set (orders db)" "o_id r = u" "o_customer_id r = cid" "o_product_id r = p"
    "o_quantity r = sint q" "numeric_in sys amount = Some (o_total_amount r)" "is_f64 amount"
    using placed unfolding order_placed_def by blast
  from order_history_row [OF hist r(1)] obtain r' where r': "r' \<in> set (orders db')" "o_id r' = o_id r"
    "o_customer_id r' = o_customer_id r" "o_product_id r' = o_product_id r" "o_quantity r' = o_quantity r"
    "o_total_amount r' = o_total_amount r" by blast
  show ?thesis
    unfolding order_placed_def by (intro conjI bexI [OF _ r'(1)]) (simp_all add: r r'(2-))
qed

lemma order_has_status_stays:
  assumes hist: "order_history db db'" and st: "order_has_status db u st" "order_terminal st"
  shows "order_has_status db' u st"
proof -
  obtain r where r: "r \<in> set (orders db)" "o_id r = u" "o_status r = st"
    using st unfolding order_has_status_def by blast
  from order_history_row [OF hist r(1)] obtain r' where r': "r' \<in> set (orders db')" "o_id r' = o_id r"
    "order_terminal (o_status r) \<longrightarrow> o_status r' = o_status r" by blast
  show ?thesis
    unfolding order_has_status_def by (rule bexI [OF _ r'(1)]) (use r r' st in simp)
qed

lemma order_truth_stays:
  assumes hist: "order_history db db'" and true: "order_true sys declined db ev"
  shows "order_true sys declined db' ev"
proof -
  have "recorded sys db' u ev'" if "recorded sys db u ev'" for u ev'
    using hist that recorded_kept unfolding order_history_def by blast
  with true show ?thesis
    using order_placed_stays [OF hist] order_has_status_stays [OF hist]
    by (cases ev) (auto simp: order_terminal_def)
qed

lemma order_truth_mono:
  "order_true sys declined db ev \<Longrightarrow> (\<And>u. declined u \<Longrightarrow> declined' u) \<Longrightarrow> order_true sys declined' db ev"
  by (cases ev) auto

text \<open>There is one OrderCreated event of an order.\<close>

lemma order_created_once:
  assumes inv: "order_inv sys db" and json: "jsonb_ok sys"
    and e: "order_true sys declined db (EvOrderCreated e)" and e': "order_true sys declined db (EvOrderCreated e')"
    and same: "uuid_in sys (oc_OrderID e') = uuid_in sys (oc_OrderID e)"
  shows "EventID e' = EventID e"
proof -
  from e e' same obtain u where u: "recorded sys db u (EvOrderCreated e)" "recorded sys db u (EvOrderCreated e')"
    "u \<in> o_id ` set (orders db)" by (auto simp: order_placed_def)
  have "announcements sys db EventTypeOrderCreated u = 1"
    using inv u(3) unfolding order_inv_def order_announced_def order_told_def by blast
  then have "event_id (EvOrderCreated e') = event_id (EvOrderCreated e)"
    by (intro recorded_unique [OF _ u(2,1) _ json]) simp_all
  then show ?thesis by (simp add: event_id_def BaseEvent.truncate_def)
qed

lemma order_has_status_set:
  "r \<in> set (orders db) \<Longrightarrow>
   order_has_status (add_message m (set_order_status (o_id r) st now (mark_processed u ety t db))) (o_id r) st"
  unfolding order_has_status_def
  by (rule bexI [of _ "r\<lparr>o_status := st, o_updated_at := now\<rparr>"])
     (auto simp: orders_set_status intro!: bexI [of _ r])

lemma order_step_tells:
  "order_step sys c db db' \<Longrightarrow> order_call_ok sys declined c \<Longrightarrow> m \<in> set (outbox db') \<Longrightarrow>
   subject_of m \<in> subject_of ` set (outbox db) \<or> (\<exists>ev. tells sys (subject_of m) ev \<and> order_true sys declined db' ev)"
proof (induction rule: order_step.induct)
  case (created oid e db m' r input)
  let ?db' = "add_message m' (db\<lparr>orders := orders db @ [r]\<rparr>)"
  have "order_placed sys ?db' (o_id r) (oc_CustomerID e) (oc_ProductID e) (oc_Quantity e) (oc_TotalAmount e)"
    using created by (simp add: order_placed_def int4_ok_imp_int8_ok)
  moreover have "recorded sys ?db' (o_id r) (EvOrderCreated e)"
    using created(1,2) by (intro recorded_entry [where ai = oid]) auto
  ultimately have "order_true sys declined ?db' (EvOrderCreated e)" using created(2,9) by simp
  with created show ?case by (intro entry_or_old [where ev = "EvOrderCreated e"]) auto
next
  case (completed oid e db m' eid u r now)
  let ?db' = "add_message m' (set_order_status (o_id r) OrderStatusCompleted now
      (mark_processed u EventTypePaymentCompleted now db))"
  have "order_true sys declined ?db' (EvOrderCompleted e)"
    using completed by (simp add: order_has_status_set)
  with completed show ?case by (intro entry_or_old [where ev = "EvOrderCompleted e"]) auto
next
  case (payment_failed oid e db m' eid u r reason now)
  let ?db' = "add_message m' (set_order_status (o_id r) OrderStatusCancelled now
      (mark_processed u EventTypePaymentFailed now db))"
  have "order_true sys declined ?db' (EvOrderCancelled e)"
    using payment_failed by (simp add: order_has_status_set)
  with payment_failed show ?case by (intro entry_or_old [where ev = "EvOrderCancelled e"]) auto
next
  case (relayed db ms)
  from imageI [OF relayed(3), of subject_of] relayed(1) show ?case by (simp add: same_events_subjects)
qed simp_all

lemma order_calls_silent:
  "silent (CreateOrder sys input)" "silent (GetOrder sys oid)" "silent (order_HandleStockReserved sys eid oid)"
  "silent (order_HandleStockReserveFailed sys eid oid reason)" "silent (order_HandlePaymentCompleted sys eid oid)"
  "silent (order_HandlePaymentFailed sys eid oid reason)"
  unfolding CreateOrder_def GetOrder_def order_HandleStockReserved_def order_HandleStockReserveFailed_def
    order_HandlePaymentCompleted_def order_HandlePaymentFailed_def order_FindByID_def order_FindByIDForUpdate_def
    order_Save_def order_Update_def idempotency_gate_def CheckAndMark_def PublishInTx_def NewEvent_defs NewBaseEvent_def
  by (intro frame)+

interpretation order_truthful: truthful_service "order_exec sys" "order_step sys" "order_ready sys" sys "order_true sys declined"
    "order_call_ok sys declined" for sys declined
proof
  fix s :: "order_db pg" and c
  assume "order_ready sys (durable s)"
  then have "outbox_wf sys (durable s)" "scans_ok sys"
    by (simp_all add: order_ready_def order_inv_def order_keys_ok_def)
  then show "set (published (order_exec sys c s)) \<subseteq> set (published s) \<union> subject_of ` set (outbox (durable s))"
    using relay_publishes by (cases c) (simp_all add: silentD order_calls_silent le_supI1)
next
  fix d d' c ev
  assume "order_ready sys d" "order_step sys c d d'" "order_true sys declined d ev"
  then show "order_true sys declined d' ev"
    using order_step_history order_truth_stays by (simp add: order_ready_def order_inv_def) blast
next
  fix d d' c m
  assume "order_call_ok sys declined c" "order_step sys c d d'" "m \<in> set (outbox d')"
  then show "subject_of m \<in> subject_of ` set (outbox d) \<or> (\<exists>ev. tells sys (subject_of m) ev \<and> order_true sys declined d' ev)"
    by (metis order_step_tells)
qed

end
