(* ===== verification/Inventory_Domain.thy ===== *)
theory Inventory_Domain
  imports Service
begin

text \<open>
  The inventory and reservation entities (services/inventory/internal/domain/inventory.go).
  Quantities are Go's 64-bit \<open>int\<close>, so the arithmetic wraps; the lemmas say when it does not.
\<close>

section \<open>Constants\<close>

definition ReservationStatusReserved :: string where
  "ReservationStatusReserved = ''RESERVED''"

definition ReservationStatusReleased :: string where
  "ReservationStatusReleased = ''RELEASED''"

definition ReservationStatusCommitted :: string where
  "ReservationStatusCommitted = ''COMMITTED''"

lemmas ReservationStatus_defs =
  ReservationStatusReserved_def ReservationStatusReleased_def ReservationStatusCommitted_def

definition ErrInsufficientStock :: err where
  "ErrInsufficientStock = New ''inventory.ErrInsufficientStock'' ''insufficient stock''"

definition ErrProductNotFound :: err where
  "ErrProductNotFound = New ''inventory.ErrProductNotFound'' ''product not found''"

definition ErrReservationNotFound :: err where
  "ErrReservationNotFound = New ''inventory.ErrReservationNotFound'' ''reservation not found''"

definition inventory_ErrInvalidQuantity :: err where
  "inventory_ErrInvalidQuantity =
     New ''inventory.ErrInvalidQuantity'' ''quantity must be greater than 0''"

lemmas inventory_Err_defs =
  ErrInsufficientStock_def ErrProductNotFound_def ErrReservationNotFound_def
  inventory_ErrInvalidQuantity_def


section \<open>Inventory\<close>

record Inventory =
  inv_ID :: string
  inv_ProductID :: string
  inv_ProductName :: string
  inv_Quantity :: go_int
  inv_ReservedQuantity :: go_int
  inv_CreatedAt :: int
  inv_UpdatedAt :: int

definition AvailableQuantity :: "Inventory \<Rightarrow> go_int" where
  "AvailableQuantity i = inv_Quantity i - inv_ReservedQuantity i"

definition CanReserve :: "go_int \<Rightarrow> Inventory \<Rightarrow> bool" where
  "CanReserve quantity i \<longleftrightarrow> quantity <=s AvailableQuantity i"

definition inventory_Reserve :: "int \<Rightarrow> go_int \<Rightarrow> Inventory \<Rightarrow> err + Inventory" where
  "inventory_Reserve now quantity i =
     (if quantity <=s 0 then Inl inventory_ErrInvalidQuantity
      else if \<not> CanReserve quantity i then Inl ErrInsufficientStock
      else Inr (i\<lparr>inv_ReservedQuantity := inv_ReservedQuantity i + quantity, inv_UpdatedAt := now\<rparr>))"

definition inventory_Release :: "int \<Rightarrow> go_int \<Rightarrow> Inventory \<Rightarrow> err + Inventory" where
  "inventory_Release now quantity i =
     (if quantity <=s 0 then Inl inventory_ErrInvalidQuantity
      else Inr (i\<lparr>inv_ReservedQuantity :=
                    (if inv_ReservedQuantity i <s quantity then 0
                     else inv_ReservedQuantity i - quantity),
                  inv_UpdatedAt := now\<rparr>))"

definition inventory_Commit :: "int \<Rightarrow> go_int \<Rightarrow> Inventory \<Rightarrow> err + Inventory" where
  "inventory_Commit now quantity i =
     (if quantity <=s 0 then Inl inventory_ErrInvalidQuantity
      else if inv_ReservedQuantity i <s quantity then Inl ErrInsufficientStock
      else Inr (i\<lparr>inv_Quantity := inv_Quantity i - quantity,
                  inv_ReservedQuantity := inv_ReservedQuantity i - quantity, inv_UpdatedAt := now\<rparr>))"

text \<open>A stock record is sound when what is reserved is there.\<close>

definition stock_sound :: "Inventory \<Rightarrow> bool" where
  "stock_sound i \<longleftrightarrow> 0 \<le> sint (inv_ReservedQuantity i) \<and>
     sint (inv_ReservedQuantity i) \<le> sint (inv_Quantity i)"

lemma sint_bounds: "- (2 ^ 63) \<le> sint (a :: go_int)" "sint (a :: go_int) < 2 ^ 63"
  using int8_ok_sint [of a] by (simp_all only: int8_ok_def)

lemma sint_available:
  "stock_sound i \<Longrightarrow> sint (AvailableQuantity i) = sint (inv_Quantity i) - sint (inv_ReservedQuantity i)"
  using sint_bounds [of "inv_Quantity i"] sint_bounds [of "inv_ReservedQuantity i"]
  unfolding AvailableQuantity_def
  by (intro sint_diff_in_range) (simp add: stock_sound_def int8_ok_def)

lemma CanReserve_iff:
  "stock_sound i \<Longrightarrow> CanReserve q i \<longleftrightarrow> sint (inv_ReservedQuantity i) + sint q \<le> sint (inv_Quantity i)"
  by (auto simp: CanReserve_def sle_iff sint_available)

lemma sint_reserve:
  assumes "stock_sound i" and "0 < sint q" and "CanReserve q i"
  shows "sint (inv_ReservedQuantity i + q) = sint (inv_ReservedQuantity i) + sint q"
proof (rule sint_add_in_range)
  have "sint (inv_ReservedQuantity i) + sint q \<le> sint (inv_Quantity i)"
    using assms CanReserve_iff by blast
  with assms(1,2) sint_bounds(2) [of "inv_Quantity i"]
  show "int8_ok (sint (inv_ReservedQuantity i) + sint q)"
    unfolding stock_sound_def int8_ok_def by linarith
qed

lemma sint_take_away:
  assumes "0 \<le> sint (b :: go_int)" and "sint b \<le> sint a"
  shows "sint (a - b) = sint a - sint b"
proof (rule sint_diff_in_range)
  show "int8_ok (sint a - sint b)"
    using assms sint_bounds(2) [of a] unfolding int8_ok_def by linarith
qed

lemma inventory_Reserve_sound:
  assumes "stock_sound i"
  shows "case inventory_Reserve now q i of
      Inr j \<Rightarrow> 0 < sint q \<and> sint q \<le> sint (inv_Quantity i) - sint (inv_ReservedQuantity i) \<and>
        stock_sound j \<and> sint (inv_ReservedQuantity j) = sint (inv_ReservedQuantity i) + sint q \<and>
        j = i\<lparr>inv_ReservedQuantity := inv_ReservedQuantity j, inv_UpdatedAt := now\<rparr>
    | Inl e \<Rightarrow> e = (if sint q \<le> 0 then inventory_ErrInvalidQuantity else ErrInsufficientStock) \<and>
        (sint q \<le> 0 \<or> sint (inv_Quantity i) - sint (inv_ReservedQuantity i) < sint q)"
  using assms [unfolded stock_sound_def] sint_reserve [OF assms, of q] CanReserve_iff [OF assms, of q]
  by (auto simp: inventory_Reserve_def sle_iff stock_sound_def)

lemma inventory_Release_sound:
  assumes "stock_sound i"
  shows "case inventory_Release now q i of
      Inr j \<Rightarrow> 0 < sint q \<and> stock_sound j \<and>
        sint (inv_ReservedQuantity j) = max 0 (sint (inv_ReservedQuantity i) - sint q) \<and>
        j = i\<lparr>inv_ReservedQuantity := inv_ReservedQuantity j, inv_UpdatedAt := now\<rparr>
    | Inl e \<Rightarrow> e = inventory_ErrInvalidQuantity \<and> sint q \<le> 0"
  using assms [unfolded stock_sound_def] sint_take_away [of q "inv_ReservedQuantity i"]
  by (auto simp: inventory_Release_def sle_iff sless_iff stock_sound_def)

lemma inventory_Commit_sound:
  assumes "stock_sound i"
  shows "case inventory_Commit now q i of
      Inr j \<Rightarrow> 0 < sint q \<and> sint q \<le> sint (inv_ReservedQuantity i) \<and> stock_sound j \<and>
        sint (inv_Quantity j) = sint (inv_Quantity i) - sint q \<and>
        sint (inv_ReservedQuantity j) = sint (inv_ReservedQuantity i) - sint q \<and>
        j = i\<lparr>inv_Quantity := inv_Quantity j, inv_ReservedQuantity := inv_ReservedQuantity j,
              inv_UpdatedAt := now\<rparr>
    | Inl e \<Rightarrow> e = (if sint q \<le> 0 then inventory_ErrInvalidQuantity else ErrInsufficientStock) \<and>
        (sint q \<le> 0 \<or> sint (inv_ReservedQuantity i) < sint q)"
  using assms [unfolded stock_sound_def] sint_take_away [of q "inv_ReservedQuantity i"]
    sint_take_away [of q "inv_Quantity i"]
  by (auto simp: inventory_Commit_def sle_iff sless_iff stock_sound_def)

text \<open>
  C34: on a sound stock record, with the 64-bit arithmetic of the code, Reserve succeeds exactly for
  a positive quantity that is available and adds it to the reserved one; Release takes it away, as
  far as it goes; Commit takes a reserved quantity from both. None of them wraps around, each leaves
  the record sound and nothing else changed, and each error is the documented one.
\<close>

theorem inventory_methods:
  assumes "stock_sound i"
  shows "(case inventory_Reserve now q i of
      Inr j \<Rightarrow> 0 < sint q \<and> sint q \<le> sint (inv_Quantity i) - sint (inv_ReservedQuantity i) \<and>
        stock_sound j \<and> sint (inv_ReservedQuantity j) = sint (inv_ReservedQuantity i) + sint q \<and>
        j = i\<lparr>inv_ReservedQuantity := inv_ReservedQuantity j, inv_UpdatedAt := now\<rparr>
    | Inl e \<Rightarrow> e = (if sint q \<le> 0 then inventory_ErrInvalidQuantity else ErrInsufficientStock) \<and>
        (sint q \<le> 0 \<or> sint (inv_Quantity i) - sint (inv_ReservedQuantity i) < sint q)) \<and>
   (case inventory_Release now q i of
      Inr j \<Rightarrow> 0 < sint q \<and> stock_sound j \<and>
        sint (inv_ReservedQuantity j) = max 0 (sint (inv_ReservedQuantity i) - sint q) \<and>
        j = i\<lparr>inv_ReservedQuantity := inv_ReservedQuantity j, inv_UpdatedAt := now\<rparr>
    | Inl e \<Rightarrow> e = inventory_ErrInvalidQuantity \<and> sint q \<le> 0) \<and>
   (case inventory_Commit now q i of
      Inr j \<Rightarrow> 0 < sint q \<and> sint q \<le> sint (inv_ReservedQuantity i) \<and> stock_sound j \<and>
        sint (inv_Quantity j) = sint (inv_Quantity i) - sint q \<and>
        sint (inv_ReservedQuantity j) = sint (inv_ReservedQuantity i) - sint q \<and>
        j = i\<lparr>inv_Quantity := inv_Quantity j, inv_ReservedQuantity := inv_ReservedQuantity j,
              inv_UpdatedAt := now\<rparr>
    | Inl e \<Rightarrow> e = (if sint q \<le> 0 then inventory_ErrInvalidQuantity else ErrInsufficientStock) \<and>
        (sint q \<le> 0 \<or> sint (inv_ReservedQuantity i) < sint q))"
  using inventory_Reserve_sound [OF assms] inventory_Release_sound [OF assms]
    inventory_Commit_sound [OF assms]
  by blast

definition sample_stock :: Inventory where
  "sample_stock =
     \<lparr>inv_ID = ''i'', inv_ProductID = ''p'', inv_ProductName = ''n'', inv_Quantity = 100,
      inv_ReservedQuantity = 30, inv_CreatedAt = 1, inv_UpdatedAt = 1\<rparr>"

theorem inventory_methods_witness:
  "case inventory_Reserve 9 71 sample_stock of
     Inr j \<Rightarrow> False | Inl e \<Rightarrow> e = ErrInsufficientStock"
proof -
  have "stock_sound sample_stock" by (simp add: stock_sound_def sample_stock_def)
  from conjunct1 [OF inventory_methods [OF this, where now = 9 and q = 71]] show ?thesis
    by (cases "inventory_Reserve 9 71 sample_stock") (simp_all, simp_all add: sample_stock_def)
qed


section \<open>Reservations\<close>

record Reservation =
  res_ID :: string
  res_OrderID :: string
  res_ProductID :: string
  res_Quantity :: go_int
  res_Status :: string
  res_CreatedAt :: int
  res_UpdatedAt :: int

definition NewReservation ::
  "string \<Rightarrow> int \<Rightarrow> string \<Rightarrow> string \<Rightarrow> go_int \<Rightarrow> err + Reservation" where
  "NewReservation uuid now orderID productID quantity =
     (if quantity <=s 0 then Inl inventory_ErrInvalidQuantity
      else Inr \<lparr>res_ID = uuid, res_OrderID = orderID, res_ProductID = productID,
                res_Quantity = quantity, res_Status = ReservationStatusReserved,
                res_CreatedAt = now, res_UpdatedAt = now\<rparr>)"

definition reservation_Release :: "int \<Rightarrow> Reservation \<Rightarrow> Reservation" where
  "reservation_Release now r = r\<lparr>res_Status := ReservationStatusReleased, res_UpdatedAt := now\<rparr>"

definition reservation_Commit :: "int \<Rightarrow> Reservation \<Rightarrow> Reservation" where
  "reservation_Commit now r = r\<lparr>res_Status := ReservationStatusCommitted, res_UpdatedAt := now\<rparr>"

definition IsReserved :: "Reservation \<Rightarrow> bool" where
  "IsReserved r \<longleftrightarrow> res_Status r = ReservationStatusReserved"

end
