(* ===== verification/Inventory_Repo.thy ===== *)
theory Inventory_Repo
  imports Inventory_Domain
begin

text \<open>
  The inventory database (scripts/init-inventory-db.sql) and the two repositories on it
  (services/inventory/internal/infrastructure/repository.go). Quantities are INT columns; the
  CHECK constraints and the triggers that set \<open>updated_at\<close> are part of the statements.
\<close>

record inv_row =
  i_id :: string
  i_product_id :: string
  i_product_name :: string
  i_quantity :: int
  i_reserved_quantity :: int
  i_created_at :: int
  i_updated_at :: int

record res_row =
  rv_id :: string
  rv_order_id :: string
  rv_product_id :: string
  rv_quantity :: int
  rv_status :: string
  rv_created_at :: int
  rv_updated_at :: int

record inventory_db = core_db +
  inventory :: "inv_row list"
  reservations :: "res_row list"

definition inventory_of_row :: "inv_row \<Rightarrow> Inventory" where
  "inventory_of_row r =
     \<lparr>inv_ID = i_id r, inv_ProductID = i_product_id r, inv_ProductName = i_product_name r,
      inv_Quantity = word_of_int (i_quantity r),
      inv_ReservedQuantity = word_of_int (i_reserved_quantity r),
      inv_CreatedAt = i_created_at r, inv_UpdatedAt = i_updated_at r\<rparr>"

definition reservation_of_row :: "res_row \<Rightarrow> Reservation" where
  "reservation_of_row r =
     \<lparr>res_ID = rv_id r, res_OrderID = rv_order_id r, res_ProductID = rv_product_id r,
      res_Quantity = word_of_int (rv_quantity r), res_Status = rv_status r,
      res_CreatedAt = rv_created_at r, res_UpdatedAt = rv_updated_at r\<rparr>"


section \<open>Inventory repository\<close>

definition select_inventory :: "sys \<Rightarrow> string \<Rightarrow> int \<Rightarrow> inventory_db \<Rightarrow> (inv_row, inventory_db) reply" where
  "select_inventory sys productID now db =
     (if \<not> text_in sys productID then ServerReject (Driver ''invalid byte sequence'')
      else case find (\<lambda>r. i_product_id r = productID) (inventory db) of
        None \<Rightarrow> ClientReject ErrNoRows
      | Some r \<Rightarrow> Done r db)"

definition inventory_FindByProductID :: "sys \<Rightarrow> string \<Rightarrow> (inventory_db pg, Inventory) go" where
  "inventory_FindByProductID sys productID =
     go_catch (pool_stmt sys (select_inventory sys productID))
       (\<lambda>e. if e = ErrNoRows then go_fail ErrProductNotFound
            else go_fail (Errorf ''query inventory'' e))
       (\<lambda>r. go_return (inventory_of_row r))"

definition inventory_FindByProductIDForUpdate :: "sys \<Rightarrow> string \<Rightarrow> (inventory_db pg, Inventory) go" where
  "inventory_FindByProductIDForUpdate sys productID =
     go_catch (tx_stmt sys (select_inventory sys productID))
       (\<lambda>e. if e = ErrNoRows then go_fail ErrProductNotFound
            else go_fail (Errorf ''query inventory for update'' e))
       (\<lambda>r. go_return (inventory_of_row r))"

definition set_stock :: "string \<Rightarrow> int \<Rightarrow> int \<Rightarrow> int \<Rightarrow> inventory_db \<Rightarrow> inventory_db" where
  "set_stock u quantity reserved now db =
     db\<lparr>inventory := upd_where (\<lambda>r. i_id r = u)
          (\<lambda>r. r\<lparr>i_quantity := quantity, i_reserved_quantity := reserved, i_updated_at := now\<rparr>)
          (inventory db)\<rparr>"

definition update_inventory :: "sys \<Rightarrow> Inventory \<Rightarrow> int \<Rightarrow> inventory_db \<Rightarrow> (nat, inventory_db) reply" where
  "update_inventory sys stock now db =
     (let quantity = sint (inv_Quantity stock); reserved = sint (inv_ReservedQuantity stock)
      in if \<not> (int4_ok quantity \<and> int4_ok reserved) then ClientReject out_of_range
         else case uuid_in sys (inv_ID stock) of
           None \<Rightarrow> ServerReject invalid_uuid
         | Some u \<Rightarrow>
             let n = length (filter (\<lambda>r. i_id r = u) (inventory db))
             in if 0 < n \<and> \<not> (0 \<le> quantity \<and> 0 \<le> reserved) then ServerReject check_violation
                else Done n (set_stock u quantity reserved now db))"

definition inventory_Update :: "sys \<Rightarrow> Inventory \<Rightarrow> (inventory_db pg, unit) go" where
  "inventory_Update sys stock =
     go_try (tx_stmt sys (update_inventory sys stock)) ''update inventory'' (\<lambda>rows.
       if rows = 0 then go_fail ErrProductNotFound else go_return ())"


section \<open>Reservation repository\<close>

definition insert_reservation :: "sys \<Rightarrow> Reservation \<Rightarrow> int \<Rightarrow> inventory_db \<Rightarrow> (unit, inventory_db) reply" where
  "insert_reservation sys res now db =
     (if \<not> int4_ok (sint (res_Quantity res)) then ClientReject out_of_range
      else case (uuid_in sys (res_ID res), uuid_in sys (res_OrderID res)) of
        (Some u, Some ord) \<Rightarrow>
          if \<not> (text_ok sys 255 (res_ProductID res) \<and> text_ok sys 50 (res_Status res))
          then ServerReject value_too_long
          else if \<not> 0 < sint (res_Quantity res) then ServerReject check_violation
          else if u \<in> rv_id ` set (reservations db) then ServerReject unique_violation
          else Done () (db\<lparr>reservations := reservations db @
            [\<lparr>rv_id = u, rv_order_id = ord, rv_product_id = res_ProductID res,
              rv_quantity = sint (res_Quantity res), rv_status = res_Status res,
              rv_created_at = timestamptz sys (res_CreatedAt res),
              rv_updated_at = timestamptz sys (res_UpdatedAt res)\<rparr>]\<rparr>)
      | _ \<Rightarrow> ServerReject invalid_uuid)"

definition reservation_Save :: "sys \<Rightarrow> Reservation \<Rightarrow> (inventory_db pg, unit) go" where
  "reservation_Save sys res =
     go_try (tx_stmt sys (insert_reservation sys res)) ''insert reservation'' go_return"

definition set_reservation :: "string \<Rightarrow> string \<Rightarrow> int \<Rightarrow> inventory_db \<Rightarrow> inventory_db" where
  "set_reservation u st now db =
     db\<lparr>reservations := upd_where (\<lambda>r. rv_id r = u) (\<lambda>r. r\<lparr>rv_status := st, rv_updated_at := now\<rparr>)
          (reservations db)\<rparr>"

definition update_reservation :: "sys \<Rightarrow> Reservation \<Rightarrow> int \<Rightarrow> inventory_db \<Rightarrow> (nat, inventory_db) reply" where
  "update_reservation sys res now db =
     (case uuid_in sys (res_ID res) of
        None \<Rightarrow> ServerReject invalid_uuid
      | Some u \<Rightarrow>
          if \<not> text_ok sys 50 (res_Status res) then ServerReject value_too_long
          else Done (length (filter (\<lambda>r. rv_id r = u) (reservations db)))
                 (set_reservation u (res_Status res) now db))"

definition reservation_Update :: "sys \<Rightarrow> Reservation \<Rightarrow> (inventory_db pg, unit) go" where
  "reservation_Update sys res =
     go_try (tx_stmt sys (update_reservation sys res)) ''update reservation'' (\<lambda>rows.
       if rows = 0 then go_fail ErrReservationNotFound else go_return ())"

definition select_reservations ::
  "sys \<Rightarrow> nat \<Rightarrow> string \<Rightarrow> int \<Rightarrow> inventory_db \<Rightarrow> (res_row list, inventory_db) reply" where
  "select_reservations sys t orderID now db =
     (case uuid_in sys orderID of
        None \<Rightarrow> ServerReject invalid_uuid
      | Some u \<Rightarrow> Done (scan sys t (filter (\<lambda>r. rv_order_id r = u) (reservations db))) db)"

text \<open>
  Both queries read the rows until \<open>rows.Next\<close> returns false and return what they read: they do
  not ask \<open>rows.Err\<close>, so a result set that breaks off is returned as if it were complete.
\<close>

definition reservation_FindByOrderID :: "sys \<Rightarrow> string \<Rightarrow> (inventory_db pg, Reservation list) go" where
  "reservation_FindByOrderID sys orderID s =
     go_try (pool_rows sys (select_reservations sys (tick s) orderID)) ''query reservations''
       (\<lambda>(rs, rows_err). go_return (map reservation_of_row rs)) s"

definition reservation_FindByOrderIDForUpdate ::
  "sys \<Rightarrow> string \<Rightarrow> (inventory_db pg, Reservation list) go" where
  "reservation_FindByOrderIDForUpdate sys orderID s =
     go_try (tx_rows sys (select_reservations sys (tick s) orderID)) ''query reservations for update''
       (\<lambda>(rs, rows_err). go_return (map reservation_of_row rs)) s"


section \<open>Rules for the repositories\<close>

lemma inventory_of_row_fields [simp]:
  "inv_ID (inventory_of_row r) = i_id r" "inv_ProductID (inventory_of_row r) = i_product_id r"
  by (simp_all add: inventory_of_row_def)

lemma reservation_of_row_fields [simp]:
  "res_ID (reservation_of_row r) = rv_id r" "res_OrderID (reservation_of_row r) = rv_order_id r"
  "res_ProductID (reservation_of_row r) = rv_product_id r"
  "res_Status (reservation_of_row r) = rv_status r"
  "res_Quantity (reservation_of_row r) = word_of_int (rv_quantity r)"
  by (simp_all add: reservation_of_row_def)

lemma set_stock_fields [simp]:
  "processed_events (set_stock u q r now db) = processed_events db"
  "outbox (set_stock u q r now db) = outbox db"
  "reservations (set_stock u q r now db) = reservations db"
  "map i_id (inventory (set_stock u q r now db)) = map i_id (inventory db)"
  "map i_product_id (inventory (set_stock u q r now db)) = map i_product_id (inventory db)"
  by (simp_all add: set_stock_def)

lemma set_reservation_fields [simp]:
  "processed_events (set_reservation u st now db) = processed_events db"
  "outbox (set_reservation u st now db) = outbox db"
  "inventory (set_reservation u st now db) = inventory db"
  "map rv_id (reservations (set_reservation u st now db)) = map rv_id (reservations db)"
  by (simp_all add: set_reservation_def)

lemma inventory_core [simp]:
  fixes idb :: inventory_db
  shows "inventory (mark_processed u ety now idb) = inventory idb"
    "reservations (mark_processed u ety now idb) = reservations idb"
    "inventory (add_message m idb) = inventory idb"
    "reservations (add_message m idb) = reservations idb"
  by (simp_all add: mark_processed_def add_message_def)

lemma outbox_entry_stock [simp]:
  fixes idb :: inventory_db
  shows "outbox_entry sys agg ai et ev (set_stock u q r now idb) m = outbox_entry sys agg ai et ev idb m"
    "outbox_entry sys agg ai et ev (idb\<lparr>reservations := rs\<rparr>) m = outbox_entry sys agg ai et ev idb m"
  by (simp_all add: outbox_entry_def)

lemma select_inventory_Done:
  "select_inventory sys p now db = Done r db' \<longleftrightarrow>
     db' = db \<and> text_in sys p \<and> find (\<lambda>r. i_product_id r = p) (inventory db) = Some r"
  by (auto simp: select_inventory_def split: option.splits)

lemma wpc_inventory_FindForUpdate [wp]:
  "wpc (inventory_FindByProductIDForUpdate sys p) Q E s =
     wpc (tx_stmt sys (select_inventory sys p)) (\<lambda>r. Q (inventory_of_row r))
       (\<lambda>e. if e = ErrNoRows then E ErrProductNotFound
            else E (Errorf ''query inventory for update'' e)) s"
  by (simp add: inventory_FindByProductIDForUpdate_def wp wpc_if cong: if_cong)

lemma wpc_inventory_Find [wp]:
  "wpc (inventory_FindByProductID sys p) Q E s =
     wpc (pool_stmt sys (select_inventory sys p)) (\<lambda>r. Q (inventory_of_row r))
       (\<lambda>e. if e = ErrNoRows then E ErrProductNotFound
            else E (Errorf ''query inventory'' e)) s"
  by (simp add: inventory_FindByProductID_def wp wpc_if cong: if_cong)

lemma wpc_inventory_Update [wp]:
  "wpc (inventory_Update sys stock) Q E s =
     wpc (tx_stmt sys (update_inventory sys stock))
       (\<lambda>rows. if rows = 0 then E ErrProductNotFound else Q ())
       (\<lambda>e. E (Errorf ''update inventory'' e)) s"
  by (simp add: inventory_Update_def wp wpc_if cong: if_cong)

lemma wpc_reservation_Save [wp]:
  "wpc (reservation_Save sys res) Q E s =
     wpc (tx_stmt sys (insert_reservation sys res)) Q (\<lambda>e. E (Errorf ''insert reservation'' e)) s"
  by (simp add: reservation_Save_def wp)

lemma wpc_reservation_Update [wp]:
  "wpc (reservation_Update sys res) Q E s =
     wpc (tx_stmt sys (update_reservation sys res))
       (\<lambda>rows. if rows = 0 then E ErrReservationNotFound else Q ())
       (\<lambda>e. E (Errorf ''update reservation'' e)) s"
  by (simp add: reservation_Update_def wp wpc_if cong: if_cong)

lemma wpc_reservation_FindForUpdate [wp]:
  "wpc (reservation_FindByOrderIDForUpdate sys oid) Q E s =
     wpc (tx_rows sys (select_reservations sys (tick s) oid))
       (\<lambda>r. Q (map reservation_of_row (fst r))) (\<lambda>e. E (Errorf ''query reservations for update'' e)) s"
  by (simp add: reservation_FindByOrderIDForUpdate_def wpc_def go_eval go_return_def
        split: prod.split sum.split)

lemma wpc_reservation_Find [wp]:
  "wpc (reservation_FindByOrderID sys oid) Q E s =
     wpc (pool_rows sys (select_reservations sys (tick s) oid))
       (\<lambda>r. Q (map reservation_of_row (fst r))) (\<lambda>e. E (Errorf ''query reservations'' e)) s"
  by (simp add: reservation_FindByOrderID_def wpc_def go_eval go_return_def
        split: prod.split sum.split)

end
