(* ===== verification/Inventory_UseCase.thy ===== *)
theory Inventory_UseCase
  imports Inventory_Repo
begin

text \<open>
  The inventory service's use cases (services/inventory/internal/application/usecase.go): reserving
  stock for a created order, and releasing or committing it when the order is cancelled or
  completed.
\<close>

definition GetInventory :: "sys \<Rightarrow> string \<Rightarrow> (inventory_db pg, Inventory) go" where
  "GetInventory sys productID = inventory_FindByProductID sys productID"

text \<open>Publishing the failure event and committing, which two branches of the handler do.\<close>

definition publish_reserve_failed ::
  "sys \<Rightarrow> string \<Rightarrow> string \<Rightarrow> go_int \<Rightarrow> string \<Rightarrow> (inventory_db pg, unit) go" where
  "publish_reserve_failed sys orderID productID quantity reason =
     go_bind (NewStockReserveFailedEvent sys orderID productID quantity reason) (\<lambda>failEvent.
     go_try (PublishInTx sys ''Inventory'' orderID EventTypeStockReserveFailed
               (EvStockReserveFailed failEvent)) ''publish failure event'' (\<lambda>_.
     go_try (tx_Commit sys) ''commit transaction'' go_return))"

text \<open>The rest of the handler once the entity has reserved the quantity.\<close>

definition reserve_stock ::
  "sys \<Rightarrow> string \<Rightarrow> string \<Rightarrow> string \<Rightarrow> go_int \<Rightarrow> float64 \<Rightarrow> Inventory \<Rightarrow> (inventory_db pg, unit) go" where
  "reserve_stock sys orderID productID customerID quantity totalAmount stock =
     go_try (inventory_Update sys stock) ''update inventory'' (\<lambda>_.
     go_bind (go_now sys) (\<lambda>now.
     go_bind (go_uuid sys) (\<lambda>uuid.
     go_try (go_lift (NewReservation uuid now orderID productID quantity))
       ''create reservation'' (\<lambda>reservation.
     go_try (reservation_Save sys reservation) ''save reservation'' (\<lambda>_.
     go_bind (NewStockReservedEvent sys orderID productID quantity (res_ID reservation)
                customerID totalAmount) (\<lambda>successEvent.
     go_try (PublishInTx sys ''Inventory'' orderID EventTypeStockReserved
               (EvStockReserved successEvent)) ''publish success event'' (\<lambda>_.
     go_try (tx_Commit sys) ''commit transaction'' go_return)))))))"

definition handle_created ::
  "sys \<Rightarrow> string \<Rightarrow> string \<Rightarrow> string \<Rightarrow> go_int \<Rightarrow> float64 \<Rightarrow> (inventory_db pg, unit) go" where
  "handle_created sys orderID productID customerID quantity totalAmount =
     go_catch (inventory_FindByProductIDForUpdate sys productID)
       (\<lambda>e. if errors_Is e ErrProductNotFound
            then publish_reserve_failed sys orderID productID quantity ''product not found''
            else go_fail (Errorf ''find inventory'' e))
       (\<lambda>inventory.
        go_bind (go_now sys) (\<lambda>now.
        case inventory_Reserve now quantity inventory of
          Inl e \<Rightarrow> publish_reserve_failed sys orderID productID quantity (err_Error e)
        | Inr inventory \<Rightarrow>
            reserve_stock sys orderID productID customerID quantity totalAmount inventory))"

definition inventory_HandleOrderCreated ::
  "sys \<Rightarrow> string \<Rightarrow> string \<Rightarrow> string \<Rightarrow> string \<Rightarrow> go_int \<Rightarrow> float64 \<Rightarrow> (inventory_db pg, unit) go" where
  "inventory_HandleOrderCreated sys eventID orderID productID customerID quantity totalAmount =
     with_tx sys
       (idempotency_gate (CheckAndMark sys eventID EventTypeOrderCreated)
         (handle_created sys orderID productID customerID quantity totalAmount))"

text \<open>
  The loop bodies: every error is logged and the loop goes on with the next reservation.
\<close>

definition release_reservation :: "sys \<Rightarrow> Reservation \<Rightarrow> (inventory_db pg, unit) go" where
  "release_reservation sys reservation =
     (if \<not> IsReserved reservation then go_return ()
      else go_catch (inventory_FindByProductIDForUpdate sys (res_ProductID reservation))
        (\<lambda>_. go_return ()) (\<lambda>inventory.
        go_bind (go_now sys) (\<lambda>now.
        case inventory_Release now (res_Quantity reservation) inventory of
          Inl _ \<Rightarrow> go_return ()
        | Inr inventory \<Rightarrow>
            go_catch (inventory_Update sys inventory) (\<lambda>_. go_return ()) (\<lambda>_.
            go_bind (go_now sys) (\<lambda>now.
            go_catch (reservation_Update sys (reservation_Release now reservation))
              (\<lambda>_. go_return ()) go_return)))))"

definition commit_reservation :: "sys \<Rightarrow> Reservation \<Rightarrow> (inventory_db pg, unit) go" where
  "commit_reservation sys reservation =
     (if \<not> IsReserved reservation then go_return ()
      else go_catch (inventory_FindByProductIDForUpdate sys (res_ProductID reservation))
        (\<lambda>_. go_return ()) (\<lambda>inventory.
        go_bind (go_now sys) (\<lambda>now.
        case inventory_Commit now (res_Quantity reservation) inventory of
          Inl _ \<Rightarrow> go_return ()
        | Inr inventory \<Rightarrow>
            go_catch (inventory_Update sys inventory) (\<lambda>_. go_return ()) (\<lambda>_.
            go_bind (go_now sys) (\<lambda>now.
            go_catch (reservation_Update sys (reservation_Commit now reservation))
              (\<lambda>_. go_return ()) go_return)))))"

text \<open>\<open>for _, reservation := range reservations\<close>\<close>

fun for_each :: "('r \<Rightarrow> ('s, unit) go) \<Rightarrow> 'r list \<Rightarrow> ('s, unit) go" where
  "for_each f [] = go_return ()"
| "for_each f (r # rs) = go_bind (f r) (\<lambda>_. for_each f rs)"

definition inventory_HandleOrderCancelled :: "sys \<Rightarrow> string \<Rightarrow> string \<Rightarrow> (inventory_db pg, unit) go" where
  "inventory_HandleOrderCancelled sys eventID orderID =
     with_tx sys
       (idempotency_gate (CheckAndMark sys eventID EventTypeOrderCancelled)
         (go_try (reservation_FindByOrderIDForUpdate sys orderID) ''find reservations'' (\<lambda>reservations.
          go_bind (for_each (release_reservation sys) reservations) (\<lambda>_.
          go_try (tx_Commit sys) ''commit transaction'' go_return))))"

definition inventory_HandleOrderCompleted :: "sys \<Rightarrow> string \<Rightarrow> string \<Rightarrow> (inventory_db pg, unit) go" where
  "inventory_HandleOrderCompleted sys eventID orderID =
     with_tx sys
       (idempotency_gate (CheckAndMark sys eventID EventTypeOrderCompleted)
         (go_try (reservation_FindByOrderIDForUpdate sys orderID) ''find reservations'' (\<lambda>reservations.
          go_bind (for_each (commit_reservation sys) reservations) (\<lambda>_.
          go_try (tx_Commit sys) ''commit transaction'' go_return))))"

end
