(* ===== verification/Inventory_Spec.thy ===== *)
theory Inventory_Spec
  imports Inventory_UseCase
begin

text \<open>
  What the inventory service promises: what is reserved is exactly what open reservations hold,
  never more than there is; stock leaves only through committed reservations; and the steps that
  keep this so.
\<close>

section \<open>Open reservations\<close>

definition open_res :: "(res_row \<Rightarrow> bool) \<Rightarrow> string \<Rightarrow> res_row \<Rightarrow> bool" where
  "open_res P p r \<longleftrightarrow> rv_status r = ReservationStatusReserved \<and> rv_product_id r = p \<and> P r"

text \<open>What the open reservations that satisfy \<open>P\<close> hold of a product.\<close>

definition held :: "(res_row \<Rightarrow> bool) \<Rightarrow> string \<Rightarrow> res_row list \<Rightarrow> int" where
  "held P p rs = (\<Sum>r\<leftarrow>filter (open_res P p) rs. rv_quantity r)"

text \<open>
  Settling the open reservations that satisfy \<open>P\<close>: they get the status \<open>st\<close>, and their
  quantity is taken from the reserved quantity and \<open>dq\<close> times (0 or 1) from the stock.
\<close>

definition settle_stock :: "int \<Rightarrow> (res_row \<Rightarrow> bool) \<Rightarrow> int \<Rightarrow> res_row list \<Rightarrow> inv_row \<Rightarrow> inv_row" where
  "settle_stock dq P now rs i =
     (let h = held P (i_product_id i) rs
      in if h = 0 then i
         else i\<lparr>i_quantity := i_quantity i - dq * h,
                i_reserved_quantity := i_reserved_quantity i - h, i_updated_at := now\<rparr>)"

definition settle_res :: "string \<Rightarrow> (res_row \<Rightarrow> bool) \<Rightarrow> int \<Rightarrow> res_row \<Rightarrow> res_row" where
  "settle_res st P now r =
     (if rv_status r = ReservationStatusReserved \<and> P r
      then r\<lparr>rv_status := st, rv_updated_at := now\<rparr> else r)"

definition settled :: "string \<Rightarrow> int \<Rightarrow> (res_row \<Rightarrow> bool) \<Rightarrow> int \<Rightarrow> inventory_db \<Rightarrow> inventory_db" where
  "settled st dq P now db =
     db\<lparr>reservations := map (settle_res st P now) (reservations db),
        inventory := map (settle_stock dq P now (reservations db)) (inventory db)\<rparr>"

lemma held_simps [simp]:
  "held P p [] = 0"
  "held P p (r # rs) = (if open_res P p r then rv_quantity r else 0) + held P p rs"
  "held P p (rs @ ts) = held P p rs + held P p ts"
  by (simp_all add: held_def)

lemma held_cong: "(\<And>r. r \<in> set rs \<Longrightarrow> P r \<longleftrightarrow> Q r) \<Longrightarrow> held P p rs = held Q p rs"
  by (induction rs) (auto simp: open_res_def)

lemma held_none: "(\<And>r. r \<in> set rs \<Longrightarrow> \<not> open_res P p r) \<Longrightarrow> held P p rs = 0"
  by (induction rs) auto

lemma held_nonneg: "(\<And>r. r \<in> set rs \<Longrightarrow> 0 \<le> rv_quantity r) \<Longrightarrow> 0 \<le> held P p rs"
  by (induction rs) auto

lemma held_or:
  "(\<And>r. r \<in> set rs \<Longrightarrow> \<not> (P r \<and> Q r)) \<Longrightarrow> held (\<lambda>r. P r \<or> Q r) p rs = held P p rs + held Q p rs"
  by (induction rs) (auto simp: open_res_def)

lemma held_split: "held (\<lambda>_. True) p rs = held P p rs + held (\<lambda>r. \<not> P r) p rs"
  by (induction rs) (auto simp: open_res_def)

lemma held_single:
  assumes "distinct (map rv_id rs)" and "r \<in> set rs"
  shows "held (\<lambda>x. rv_id x = rv_id r) p rs =
    (if rv_status r = ReservationStatusReserved \<and> rv_product_id r = p then rv_quantity r else 0)"
proof -
  have "filter (open_res (\<lambda>x. rv_id x = rv_id r) p) rs =
      filter (\<lambda>x. rv_status x = ReservationStatusReserved \<and> rv_product_id x = p)
        (filter (\<lambda>x. rv_id x = rv_id r) rs)"
    by (auto simp: open_res_def intro!: filter_cong)
  then show ?thesis by (simp add: held_def filter_distinct_key [OF assms])
qed

lemma held_settle_res:
  "st \<noteq> ReservationStatusReserved \<Longrightarrow> (\<And>r st t. Q (r\<lparr>rv_status := st, rv_updated_at := t\<rparr>) = Q r) \<Longrightarrow>
   held Q p (map (settle_res st P now) rs) = held (\<lambda>r. Q r \<and> \<not> P r) p rs"
  by (induction rs) (auto simp: open_res_def settle_res_def)

text \<open>Predicates that look at the ID or the order of a reservation, which no step changes.\<close>

definition keyed :: "(res_row \<Rightarrow> bool) \<Rightarrow> bool" where
  "keyed P \<longleftrightarrow> (\<forall>r st t. P (r\<lparr>rv_status := st, rv_updated_at := t\<rparr>) = P r)"

lemma keyed_simps [simp]:
  "keyed (\<lambda>r. A (rv_id r))" "keyed (\<lambda>r. rv_id r \<in> I)" "keyed (\<lambda>r. A (rv_order_id r))" "keyed (\<lambda>r. True)"
  by (simp_all add: keyed_def)

lemma settled_fields [simp]:
  "processed_events (settled st dq P now db) = processed_events db"
  "outbox (settled st dq P now db) = outbox db"
  "reservations (settled st dq P now db) = map (settle_res st P now) (reservations db)"
  "inventory (settled st dq P now db) = map (settle_stock dq P now (reservations db)) (inventory db)"
  by (simp_all add: settled_def)

lemma settle_stock_fields [simp]:
  "i_id (settle_stock dq P now rs i) = i_id i"
  "i_product_id (settle_stock dq P now rs i) = i_product_id i"
  "i_quantity (settle_stock dq P now rs i) = i_quantity i - dq * held P (i_product_id i) rs"
  "i_reserved_quantity (settle_stock dq P now rs i) = i_reserved_quantity i - held P (i_product_id i) rs"
  by (simp_all add: settle_stock_def Let_def)

lemma settle_res_fields [simp]:
  "rv_id (settle_res st P now r) = rv_id r" "rv_order_id (settle_res st P now r) = rv_order_id r"
  "rv_product_id (settle_res st P now r) = rv_product_id r"
  "rv_quantity (settle_res st P now r) = rv_quantity r"
  by (simp_all add: settle_res_def)

lemma settled_cong:
  assumes "\<And>r. r \<in> set (reservations db) \<Longrightarrow> P r \<longleftrightarrow> Q r"
  shows "settled st dq P now db = settled st dq Q now db"
proof -
  have "held P p (reservations db) = held Q p (reservations db)" for p
    using assms by (rule held_cong)
  with assms show ?thesis
    by (simp add: settled_def settle_stock_def settle_res_def cong: map_cong)
qed

text \<open>Settling two groups one after the other settles both.\<close>

lemma settled_settled:
  assumes st: "st \<noteq> ReservationStatusReserved" and Q: "keyed Q"
    and pos: "\<And>r. r \<in> set (reservations db) \<Longrightarrow> 0 \<le> rv_quantity r"
    and disj: "\<And>r. r \<in> set (reservations db) \<Longrightarrow> \<not> (P r \<and> Q r)"
  shows "settled st dq Q now (settled st dq P now db) = settled st dq (\<lambda>r. P r \<or> Q r) now db"
proof -
  let ?rs = "reservations db"
  have heldQ: "held Q p (map (settle_res st P now) ?rs) = held Q p ?rs" for p
  proof -
    have "held Q p (map (settle_res st P now) ?rs) = held (\<lambda>r. Q r \<and> \<not> P r) p ?rs"
      using Q by (intro held_settle_res [OF st]) (simp add: keyed_def)
    also have "\<dots> = held Q p ?rs" using disj by (intro held_cong) auto
    finally show ?thesis .
  qed
  have "settle_res st Q now (settle_res st P now r) = settle_res st (\<lambda>r. P r \<or> Q r) now r" for r
    using st Q by (auto simp: settle_res_def keyed_def)
  moreover have "settle_stock dq Q now (map (settle_res st P now) ?rs) (settle_stock dq P now ?rs i) =
      settle_stock dq (\<lambda>r. P r \<or> Q r) now ?rs i" for i
  proof -
    have "0 \<le> held P (i_product_id i) ?rs" "0 \<le> held Q (i_product_id i) ?rs"
      using pos by (auto intro: held_nonneg)
    then show ?thesis
      using held_or [of ?rs P Q "i_product_id i"] disj
      by (auto simp: settle_stock_def Let_def heldQ algebra_simps)
  qed
  ultimately show ?thesis by (simp add: settled_def)
qed


section \<open>The invariant\<close>

text \<open>Stock is sound: keys are unique, and what is reserved is what open reservations hold.\<close>

definition stock_keys_ok :: "sys \<Rightarrow> inventory_db \<Rightarrow> bool" where
  "stock_keys_ok sys db \<longleftrightarrow>
     distinct (map i_id (inventory db)) \<and> canonical_ids sys (set (map i_id (inventory db))) \<and>
     distinct (map i_product_id (inventory db)) \<and>
     distinct (map rv_id (reservations db)) \<and> canonical_ids sys (set (map rv_id (reservations db)))"

definition stock_row_ok :: "res_row list \<Rightarrow> inv_row \<Rightarrow> bool" where
  "stock_row_ok rs i \<longleftrightarrow>
     i_reserved_quantity i = held (\<lambda>_. True) (i_product_id i) rs \<and>
     i_reserved_quantity i \<le> i_quantity i \<and> i_quantity i < 2 ^ 31"

definition res_row_ok :: "sys \<Rightarrow> string list \<Rightarrow> res_row \<Rightarrow> bool" where
  "res_row_ok sys products r \<longleftrightarrow>
     text_in sys (rv_product_id r) \<and> 0 < rv_quantity r \<and> int4_ok (rv_quantity r) \<and> rv_product_id r \<in> set products \<and>
     rv_status r \<in> {ReservationStatusReserved, ReservationStatusReleased, ReservationStatusCommitted}"

definition stock_ok :: "sys \<Rightarrow> inventory_db \<Rightarrow> bool" where
  "stock_ok sys db \<longleftrightarrow>
     stock_keys_ok sys db \<and> (\<forall>i \<in> set (inventory db). stock_row_ok (reservations db) i) \<and>
     (\<forall>r \<in> set (reservations db). res_row_ok sys (map i_product_id (inventory db)) r)"

text \<open>
  Every OrderCreated event that was processed was answered by exactly one event, and every
  reservation is announced by exactly one StockReserved event.
\<close>

definition inventory_announced :: "sys \<Rightarrow> inventory_db \<Rightarrow> bool" where
  "inventory_announced sys db \<longleftrightarrow>
     finite (dom (processed_events db)) \<and>
     event_count [EventTypeStockReserved, EventTypeStockReserveFailed] db =
       card (processed_of EventTypeOrderCreated db) \<and>
     (\<forall>u. announcements sys db EventTypeStockReserved u =
            length (filter (\<lambda>r. rv_order_id r = u) (reservations db)))"

definition inventory_inv :: "sys \<Rightarrow> inventory_db \<Rightarrow> bool" where
  "inventory_inv sys db \<longleftrightarrow> stock_ok sys db \<and> outbox_wf sys db \<and> inventory_announced sys db"

lemma stock_ok_core [simp]:
  "stock_ok sys (mark_processed u ety now db) = stock_ok sys db"
  "stock_ok sys (add_message m db) = stock_ok sys db"
  by (simp_all add: stock_ok_def stock_keys_ok_def)

lemma stock_ok_positive: "stock_ok sys db \<Longrightarrow> r \<in> set (reservations db) \<Longrightarrow> 0 < rv_quantity r"
  by (simp add: stock_ok_def res_row_ok_def)

lemma held_nonneg_ok: "stock_ok sys db \<Longrightarrow> 0 \<le> held P p (reservations db)"
  by (simp add: held_nonneg stock_ok_positive less_imp_le)

lemma stock_row_ok_settled:
  assumes "stock_row_ok rs i" and "dq = 0 \<or> dq = 1" and "0 \<le> held P (i_product_id i) rs"
    and "st \<noteq> ReservationStatusReserved"
  shows "stock_row_ok (map (settle_res st P now) rs) (settle_stock dq P now rs i)"
proof -
  have "held (\<lambda>_. True) p (map (settle_res st P now) rs) = held (\<lambda>_. True) p rs - held P p rs" for p
    using held_settle_res [OF assms(4), of "\<lambda>_. True" p P now rs] held_split [of p rs P] by simp
  with assms show ?thesis by (auto simp: stock_row_ok_def)
qed

lemma stock_ok_settled:
  assumes ok: "stock_ok sys db" and dq: "dq = 0 \<or> dq = 1"
    and st: "st = ReservationStatusReleased \<or> st = ReservationStatusCommitted"
  shows "stock_ok sys (settled st dq P now db)"
proof -
  have st': "st \<noteq> ReservationStatusReserved" using st by (auto simp: ReservationStatus_defs)
  have ids: "map i_id (inventory (settled st dq P now db)) = map i_id (inventory db)"
    "map i_product_id (inventory (settled st dq P now db)) = map i_product_id (inventory db)"
    "map rv_id (reservations (settled st dq P now db)) = map rv_id (reservations db)"
    by (simp_all add: comp_def)
  have "stock_keys_ok sys (settled st dq P now db)"
    using ok unfolding stock_ok_def stock_keys_ok_def ids by simp
  moreover have "stock_row_ok (reservations (settled st dq P now db)) i"
    if "i \<in> set (inventory (settled st dq P now db))" for i
    using that ok dq st' held_nonneg_ok [OF ok] by (auto simp: stock_ok_def intro!: stock_row_ok_settled)
  moreover have "res_row_ok sys (map i_product_id (inventory (settled st dq P now db))) r"
    if "r \<in> set (reservations (settled st dq P now db))" for r
    using that ok st unfolding ids by (auto simp: stock_ok_def res_row_ok_def settle_res_def)
  ultimately show ?thesis unfolding stock_ok_def by blast
qed

section \<open>The steps of the inventory database\<close>

text \<open>The calls of the service process: the events it handles, the query, and the relay.\<close>

datatype inventory_call =
    CallOrderCreated string string string string go_int float64
  | CallOrderCancelled string string
  | CallOrderCompleted string string
  | CallGetInventory string
  | CallInventoryRelay


text \<open>Why an order gets no stock.\<close>

definition refusal :: "inventory_db \<Rightarrow> StockReserveFailedEvent \<Rightarrow> bool" where
  "refusal db e \<longleftrightarrow>
     (sf_ProductID e \<notin> i_product_id ` set (inventory db) \<and> sf_Reason e = ''product not found'') \<or>
     (sf_ProductID e \<in> i_product_id ` set (inventory db) \<and> sint (sf_Quantity e) \<le> 0 \<and>
        sf_Reason e = ''quantity must be greater than 0'') \<or>
     (\<exists>i \<in> set (inventory db). i_product_id i = sf_ProductID e \<and> 0 < sint (sf_Quantity e) \<and>
        i_quantity i - i_reserved_quantity i < sint (sf_Quantity e) \<and>
        sf_Reason e = ''insufficient stock'')"

definition take_stock :: "inv_row \<Rightarrow> int \<Rightarrow> res_row \<Rightarrow> inventory_db \<Rightarrow> inventory_db" where
  "take_stock i now r db =
     (let db1 = set_stock (i_id i) (i_quantity i) (i_reserved_quantity i + rv_quantity r) now db
      in db1\<lparr>reservations := reservations db1 @ [r]\<rparr>)"

text \<open>
  The answer to an OrderCreated event: the event is recorded and either the stock is available, and
  is reserved and announced, or it is not, and the refusal is announced with its reason.
\<close>

inductive inventory_answer ::
  "sys \<Rightarrow> string \<Rightarrow> string \<Rightarrow> string \<Rightarrow> go_int \<Rightarrow> string \<Rightarrow> float64 \<Rightarrow> inventory_db \<Rightarrow> inventory_db \<Rightarrow> bool"
  for sys u oid p q cid amount where
  reserve: "outbox_entry sys ''Inventory'' oid EventTypeStockReserved (EvStockReserved e) db m \<Longrightarrow>
    i \<in> set (inventory db) \<Longrightarrow> i_product_id i = p \<Longrightarrow> text_in sys p \<Longrightarrow>
    uuid_in sys oid = Some (rv_order_id r) \<Longrightarrow> rv_product_id r = p \<Longrightarrow> rv_quantity r = sint q \<Longrightarrow>
    rv_status r = ReservationStatusReserved \<Longrightarrow> rv_id r \<notin> rv_id ` set (reservations db) \<Longrightarrow>
    uuid_in sys (sr_ReservationID e) = Some (rv_id r) \<Longrightarrow>
    0 < sint q \<Longrightarrow> sint q \<le> i_quantity i - i_reserved_quantity i \<Longrightarrow>
    sr_OrderID e = oid \<Longrightarrow> sr_ProductID e = p \<Longrightarrow> sr_Quantity e = q \<Longrightarrow>
    sr_CustomerID e = cid \<Longrightarrow> sr_TotalAmount e = amount \<Longrightarrow>
    inventory_answer sys u oid p q cid amount db
      (add_message m (take_stock i now r (mark_processed u EventTypeOrderCreated now db)))"
| refuse: "outbox_entry sys ''Inventory'' oid EventTypeStockReserveFailed (EvStockReserveFailed e) db m \<Longrightarrow>
    refusal db e \<Longrightarrow> sf_OrderID e = oid \<Longrightarrow> sf_ProductID e = p \<Longrightarrow> sf_Quantity e = q \<Longrightarrow>
    inventory_answer sys u oid p q cid amount db (add_message m (mark_processed u EventTypeOrderCreated now db))"

text \<open>The steps, each with the call that causes it.\<close>

inductive inventory_step :: "sys \<Rightarrow> inventory_call \<Rightarrow> inventory_db \<Rightarrow> inventory_db \<Rightarrow> bool" for sys where
  answered: "uuid_in sys eid = Some u \<Longrightarrow> processed_events db u = None \<Longrightarrow>
    inventory_answer sys u oid p q cid amount db db' \<Longrightarrow>
    inventory_step sys (CallOrderCreated eid oid p cid q amount) db db'"
| released: "uuid_in sys eid = Some u \<Longrightarrow> processed_events db u = None \<Longrightarrow> uuid_in sys oid = Some ord \<Longrightarrow>
    inventory_step sys (CallOrderCancelled eid oid) db
      (settled ReservationStatusReleased 0 (\<lambda>r. rv_order_id r = ord) now
        (mark_processed u EventTypeOrderCancelled now db))"
| committed: "uuid_in sys eid = Some u \<Longrightarrow> processed_events db u = None \<Longrightarrow> uuid_in sys oid = Some ord \<Longrightarrow>
    inventory_step sys (CallOrderCompleted eid oid) db
      (settled ReservationStatusCommitted 1 (\<lambda>r. rv_order_id r = ord) now
        (mark_processed u EventTypeOrderCompleted now db))"
| relayed: "same_events (outbox db) ms \<Longrightarrow> inventory_step sys CallInventoryRelay db (db\<lparr>outbox := ms\<rparr>)"

lemma take_stock_fields [simp]:
  "processed_events (take_stock i now r db) = processed_events db"
  "outbox (take_stock i now r db) = outbox db"
  "reservations (take_stock i now r db) = reservations db @ [r]"
  "inventory (take_stock i now r db) = upd_where (\<lambda>x. i_id x = i_id i)
     (\<lambda>x. x\<lparr>i_quantity := i_quantity i, i_reserved_quantity := i_reserved_quantity i + rv_quantity r,
            i_updated_at := now\<rparr>) (inventory db)"
  by (simp_all add: take_stock_def Let_def set_stock_def)

lemma stock_ok_take:
  assumes ok: "stock_ok sys db" and "uuids_ok sys" and i: "i \<in> set (inventory db)"
    and r: "rv_product_id r = i_product_id i" "rv_status r = ReservationStatusReserved"
      "text_in sys (i_product_id i)"
      "rv_id r \<notin> rv_id ` set (reservations db)" "uuid_in sys x = Some (rv_id r)"
    and q: "0 < rv_quantity r" "i_reserved_quantity i + rv_quantity r \<le> i_quantity i"
  shows "stock_ok sys (take_stock i now r db)"
proof -
  let ?db = "take_stock i now r db"
  have ids: "map i_id (inventory ?db) = map i_id (inventory db)"
    "map i_product_id (inventory ?db) = map i_product_id (inventory db)"
    "reservations ?db = reservations db @ [r]" by simp_all
  have keys: "distinct (map i_id (inventory db))" "distinct (map i_product_id (inventory db))"
    using ok by (simp_all add: stock_ok_def stock_keys_ok_def)
  have rows: "stock_row_ok (reservations db) j" if "j \<in> set (inventory db)" for j
    using ok that by (simp add: stock_ok_def)
  have "uuid_in sys (rv_id r) = Some (rv_id r)"
    using r(5) assms(2) by (auto simp: uuids_ok_def)
  then have "stock_keys_ok sys ?db"
    using ok r(4) unfolding stock_ok_def stock_keys_ok_def ids by (simp add: canonical_ids_def)
  moreover have "stock_row_ok (reservations ?db) j" if j: "j \<in> set (inventory ?db)" for j
  proof -
    from j obtain y where y: "y \<in> set (inventory db)" "j = (if i_id y = i_id i
        then y\<lparr>i_quantity := i_quantity i, i_reserved_quantity := i_reserved_quantity i + rv_quantity r,
               i_updated_at := now\<rparr> else y)"
      by (auto simp: in_set_upd_where)
    show ?thesis
    proof (cases "y = i")
      case True
      with y rows [OF i] r q show ?thesis by (simp add: stock_row_ok_def open_res_def)
    next
      case False
      then have "i_id y \<noteq> i_id i" "i_product_id y \<noteq> i_product_id i"
        using distinct_key_eq [OF keys(1) y(1) i] distinct_key_eq [OF keys(2) y(1) i] by blast+
      with y rows [OF y(1)] r show ?thesis by (simp add: stock_row_ok_def open_res_def)
    qed
  qed
  moreover have "res_row_ok sys (map i_product_id (inventory ?db)) y" if "y \<in> set (reservations ?db)" for y
  proof -
    have "0 \<le> i_reserved_quantity i" "i_quantity i < 2 ^ 31"
      using rows [OF i] held_nonneg_ok [OF ok] by (simp_all add: stock_row_ok_def)
    then have "int4_ok (rv_quantity r)" using q by (simp add: int4_ok_def)
    then show ?thesis
      using that ok r q i unfolding ids by (auto simp: stock_ok_def res_row_ok_def)
  qed
  ultimately show ?thesis unfolding stock_ok_def by blast
qed

lemma inventory_counts [simp]:
  fixes idb :: inventory_db
  shows "announcements sys (take_stock i now r idb) = announcements sys idb"
    "announcements sys (settled st dq P now idb) = announcements sys idb"
    "event_count etys (take_stock i now r idb) = event_count etys idb"
    "event_count etys (settled st dq P now idb) = event_count etys idb"
    "processed_of ety (take_stock i now r idb) = processed_of ety idb"
    "processed_of ety (settled st dq P now idb) = processed_of ety idb"
    "outbox_wf sys (take_stock i now r idb) = outbox_wf sys idb"
    "outbox_wf sys (settled st dq P now idb) = outbox_wf sys idb"
    "outbox_wf sys (mark_processed u ety now idb) = outbox_wf sys idb"
  by (simp_all add: announcements_def event_count_def processed_of_def outbox_wf_def fun_eq_iff)

lemma outbox_entry_inventory [simp]:
  fixes idb :: inventory_db
  shows "outbox_entry sys agg ai et ev (take_stock i now r idb) m = outbox_entry sys agg ai et ev idb m"
    "outbox_entry sys agg ai et ev (settled st dq P now idb) m = outbox_entry sys agg ai et ev idb m"
  by (simp_all add: outbox_entry_def)

lemma inventory_step_stock:
  "inventory_step sys c db db' \<Longrightarrow> uuids_ok sys \<Longrightarrow> stock_ok sys db \<Longrightarrow> stock_ok sys db'"
proof (induction rule: inventory_step.induct)
  case (answered eid u db oid p q db' cid amount)
  from answered(3) show ?case
  proof cases
    case (reserve e m i r now)
    with answered show ?thesis by (simp add: stock_ok_take [where x = "sr_ReservationID e"])
  next
    case (refuse e m now)
    with answered show ?thesis by simp
  qed
next
  case (relayed db ms)
  then show ?case by (simp add: stock_ok_def stock_keys_ok_def)
qed (simp_all add: stock_ok_settled)

lemma inventory_step_outbox:
  "inventory_step sys c db db' \<Longrightarrow> uuids_ok sys \<Longrightarrow> outbox_wf sys db \<Longrightarrow> outbox_wf sys db'"
proof (induction rule: inventory_step.induct)
  case (answered eid u db oid p q db' cid amount)
  from answered(3) show ?case
  proof cases
    case (reserve e m i r now)
    with answered show ?thesis
      by (auto intro!: outbox_wf_add_message [where ev = "EvStockReserved e"])
  next
    case (refuse e m now)
    with answered show ?thesis
      by (auto intro!: outbox_wf_add_message [where ev = "EvStockReserveFailed e"])
  qed
next
  case (relayed db ms)
  then show ?case by (simp add: outbox_wf_same_events)
qed simp_all

lemma inventory_step_announced:
  "inventory_step sys c db db' \<Longrightarrow> inventory_announced sys db \<Longrightarrow> inventory_announced sys db'"
proof (induction rule: inventory_step.induct)
  case (answered eid u db oid p q db' cid amount)
  from answered(3) show ?case
  proof cases
    case (reserve e m i r now)
    with answered(2,4) show ?thesis
      by (auto simp: inventory_announced_def card_processed_of_mark outbox_entry_def EventType_defs)
  next
    case (refuse e m now)
    with answered(2,4) show ?thesis
      by (auto simp: inventory_announced_def card_processed_of_mark outbox_entry_def EventType_defs)
  qed
next
  case (released eid u db oid ord now)
  then show ?case
    by (simp add: inventory_announced_def card_processed_of_mark EventType_defs filter_map comp_def)
next
  case (committed eid u db oid ord now)
  then show ?case
    by (simp add: inventory_announced_def card_processed_of_mark EventType_defs filter_map comp_def)
next
  case (relayed db ms)
  then show ?case
    by (simp add: inventory_announced_def announcements_same_events event_count_same_events processed_of_def)
qed

lemma inventory_step_inv:
  "inventory_step sys c db db' \<Longrightarrow> uuids_ok sys \<Longrightarrow> inventory_inv sys db \<Longrightarrow> inventory_inv sys db'"
  by (simp add: inventory_inv_def inventory_step_stock inventory_step_outbox inventory_step_announced)


section \<open>History\<close>

text \<open>What has left the stock of a product: the quantities of its committed reservations.\<close>

definition committed_total :: "string \<Rightarrow> res_row list \<Rightarrow> int" where
  "committed_total p rs =
     (\<Sum>r\<leftarrow>filter (\<lambda>r. rv_status r = ReservationStatusCommitted \<and> rv_product_id r = p) rs. rv_quantity r)"

text \<open>
  What identifies a stock row: its key, product and name, and how much there was before anything
  was committed.
\<close>

definition stock_identity :: "res_row list \<Rightarrow> inv_row \<Rightarrow> string \<times> string \<times> string \<times> int \<times> int" where
  "stock_identity rs i = (i_id i, i_product_id i, i_product_name i, i_created_at i,
     i_quantity i + committed_total (i_product_id i) rs)"

definition res_evolves :: "res_row \<Rightarrow> res_row \<Rightarrow> bool" where
  "res_evolves r r' \<longleftrightarrow>
     r' = r\<lparr>rv_status := rv_status r', rv_updated_at := rv_updated_at r'\<rparr> \<and>
     (rv_status r \<noteq> ReservationStatusReserved \<longrightarrow> r' = r)"

definition inventory_history :: "inventory_db \<Rightarrow> inventory_db \<Rightarrow> bool" where
  "inventory_history db db' \<longleftrightarrow>
     map (stock_identity (reservations db')) (inventory db') =
       map (stock_identity (reservations db)) (inventory db) \<and>
     length (reservations db) \<le> length (reservations db') \<and>
     list_all2 res_evolves (reservations db) (take (length (reservations db)) (reservations db')) \<and>
     events_kept db db'"

lemma committed_total_simps [simp]:
  "committed_total p [] = 0"
  "committed_total p (r # rs) =
     (if rv_status r = ReservationStatusCommitted \<and> rv_product_id r = p then rv_quantity r else 0) +
     committed_total p rs"
  "committed_total p (rs @ ts) = committed_total p rs + committed_total p ts"
  by (simp_all add: committed_total_def)

lemma committed_total_settled:
  assumes "st = ReservationStatusReleased \<and> dq = 0 \<or> st = ReservationStatusCommitted \<and> dq = 1"
  shows "committed_total p (map (settle_res st P now) rs) = committed_total p rs + dq * held P p rs"
  using assms by (induction rs) (auto simp: settle_res_def open_res_def ReservationStatus_defs)

lemma res_evolves_refl [simp]: "res_evolves r r"
  by (simp add: res_evolves_def)

lemma res_evolves_trans: "res_evolves a b \<Longrightarrow> res_evolves b c \<Longrightarrow> res_evolves a c"
  unfolding res_evolves_def
  by (metis (no_types, lifting) res_row.surjective res_row.update_convs(5,7))

lemma list_all2_evolves_refl [simp]: "list_all2 res_evolves rs rs"
  by (simp add: list_all2_refl)

lemma inventory_history_refl: "inventory_history db db"
  by (simp add: inventory_history_def)

lemma inventory_history_trans:
  assumes ab: "inventory_history a b" and bc: "inventory_history b c"
  shows "inventory_history a c"
proof -
  let ?n = "length (reservations a)"
  have "list_all2 res_evolves (take ?n (reservations b))
      (take ?n (take (length (reservations b)) (reservations c)))"
    using bc unfolding inventory_history_def by (blast intro: list_all2_takeI)
  then have "list_all2 res_evolves (take ?n (reservations b)) (take ?n (reservations c))"
    using ab by (simp add: inventory_history_def min_absorb1)
  moreover have "list_all2 res_evolves (reservations a) (take ?n (reservations b))"
    using ab by (simp add: inventory_history_def)
  ultimately have "list_all2 res_evolves (reservations a) (take ?n (reservations c))"
    using list_all2_trans [of res_evolves res_evolves res_evolves] res_evolves_trans by blast
  with ab bc show ?thesis
    unfolding inventory_history_def using events_kept_trans by (metis order_trans)
qed

lemma settle_res_evolves: "res_evolves r (settle_res st P now r)"
  by (simp add: settle_res_def res_evolves_def)

lemma settled_history:
  assumes "st = ReservationStatusReleased \<and> dq = 0 \<or> st = ReservationStatusCommitted \<and> dq = 1"
    and "events_kept db (settled st dq P now db1)"
    and "reservations db1 = reservations db" "inventory db1 = inventory db"
  shows "inventory_history db (settled st dq P now db1)"
proof -
  have "stock_identity (map (settle_res st P now) rs) (settle_stock dq P now rs i) = stock_identity rs i"
    for rs i
    using committed_total_settled [OF assms(1), of "i_product_id i" P now rs]
    by (simp add: stock_identity_def settle_stock_def Let_def)
  then show ?thesis
    using assms(2-4)
    by (simp add: inventory_history_def comp_def list_all2_map2 list_all2_same settle_res_evolves)
qed

lemma inventory_step_history:
  "inventory_step sys c db db' \<Longrightarrow> stock_ok sys db \<Longrightarrow> inventory_history db db'"
proof (induction rule: inventory_step.induct)
  case (answered eid u db oid p q db' cid amount)
  from answered(3) show ?case
  proof cases
    case (reserve e m i r now)
    have "stock_identity (reservations db @ [r]) (if i_id x = i_id i then x\<lparr>i_quantity := i_quantity i,
        i_reserved_quantity := i_reserved_quantity i + sint q, i_updated_at := now\<rparr> else x) =
        stock_identity (reservations db) x" if "x \<in> set (inventory db)" for x
      using reserve answered(4) that distinct_key_eq [of i_id "inventory db" x i]
      by (auto simp: stock_identity_def stock_ok_def stock_keys_ok_def ReservationStatus_defs)
    with reserve answered(2) show ?thesis
      by (simp add: inventory_history_def upd_where_def comp_def events_kept_def map_le_fresh)
  next
    case (refuse e m now)
    with answered(2) show ?thesis by (simp add: inventory_history_def events_kept_def map_le_fresh)
  qed
next
  case (relayed db ms)
  then show ?case by (simp add: inventory_history_def events_kept_relayed)
qed (intro settled_history; simp add: events_kept_def map_le_fresh)+


text \<open>Settling one open reservation: its stock row and its own row change.\<close>

lemma settled_one:
  assumes ok: "stock_ok sys db" and r: "r \<in> set (reservations db)"
    and open_r: "rv_status r = ReservationStatusReserved"
    and i: "i \<in> set (inventory db)" "i_product_id i = rv_product_id r"
  shows "set_reservation (rv_id r) st now
      (set_stock (i_id i) (i_quantity i - dq * rv_quantity r) (i_reserved_quantity i - rv_quantity r) now db) =
    settled st dq (\<lambda>x. rv_id x = rv_id r) now db"
proof -
  have keys: "distinct (map i_id (inventory db))" "distinct (map i_product_id (inventory db))"
    "distinct (map rv_id (reservations db))"
    using ok by (simp_all add: stock_ok_def stock_keys_ok_def)
  have q: "rv_quantity r \<noteq> 0" using stock_ok_positive [OF ok r] by simp
  have "(if rv_id x = rv_id r then x\<lparr>rv_status := st, rv_updated_at := now\<rparr> else x) =
      settle_res st (\<lambda>x. rv_id x = rv_id r) now x" if "x \<in> set (reservations db)" for x
    using distinct_key_eq [OF keys(3) that r] open_r by (auto simp: settle_res_def)
  moreover have "(if i_id x = i_id i then x\<lparr>i_quantity := i_quantity i - dq * rv_quantity r,
      i_reserved_quantity := i_reserved_quantity i - rv_quantity r, i_updated_at := now\<rparr> else x) =
      settle_stock dq (\<lambda>x. rv_id x = rv_id r) now (reservations db) x" if x: "x \<in> set (inventory db)" for x
  proof (cases "x = i")
    case True
    then show ?thesis using q i open_r by (simp add: settle_stock_def Let_def held_single [OF keys(3) r])
  next
    case False
    then have "i_id x \<noteq> i_id i" "i_product_id x \<noteq> i_product_id i"
      using distinct_key_eq [OF keys(1) x i(1)] distinct_key_eq [OF keys(2) x i(1)] by blast+
    with i show ?thesis by (simp add: settle_stock_def held_single [OF keys(3) r])
  qed
  ultimately show ?thesis
    by (simp add: set_reservation_def set_stock_def settled_def upd_where_def cong: map_cong)
qed

lemma settled_closed:
  assumes "\<And>r. r \<in> set (reservations db) \<Longrightarrow> P r \<Longrightarrow> rv_status r \<noteq> ReservationStatusReserved"
  shows "settled st dq P now db = db"
proof -
  have none: "held P p (reservations db) = 0" for p
    using assms by (intro held_none) (auto simp: open_res_def)
  have "map (settle_res st P now) (reservations db) = reservations db"
    using assms by (intro map_idI) (auto simp: settle_res_def)
  moreover have "map (settle_stock dq P now (reservations db)) (inventory db) = inventory db"
    by (intro map_idI) (simp add: settle_stock_def none)
  ultimately show ?thesis by (simp add: settled_def)
qed

end
