(* ===== verification/Inventory_Service.thy ===== *)
theory Inventory_Service
  imports Inventory_Spec
begin

text \<open>
  The use cases of the inventory service implement the steps of \<open>inventory_step\<close>, whatever
  fails; the properties of the service over any sequence of calls.
\<close>

section \<open>Reserving\<close>

lemma inventory_row_sound:
  assumes "stock_ok sys db" and "i \<in> set (inventory db)"
  shows "stock_sound (inventory_of_row i)" "sint (inv_Quantity (inventory_of_row i)) = i_quantity i"
    "sint (inv_ReservedQuantity (inventory_of_row i)) = i_reserved_quantity i"
    "0 \<le> i_reserved_quantity i" "i_reserved_quantity i \<le> i_quantity i" "i_quantity i < 2 ^ 31"
proof -
  have row: "stock_row_ok (reservations db) i" using assms by (simp add: stock_ok_def)
  show range: "0 \<le> i_reserved_quantity i" "i_reserved_quantity i \<le> i_quantity i" "i_quantity i < 2 ^ 31"
    using row held_nonneg_ok [OF assms(1)] by (simp_all add: stock_row_ok_def)
  then have "int4_ok (i_quantity i)" "int4_ok (i_reserved_quantity i)" by (simp_all add: int4_ok_def)
  then show words: "sint (inv_Quantity (inventory_of_row i)) = i_quantity i"
    "sint (inv_ReservedQuantity (inventory_of_row i)) = i_reserved_quantity i"
    by (simp_all add: inventory_of_row_def)
  with range show "stock_sound (inventory_of_row i)" by (simp add: stock_sound_def)
qed

lemma find_product:
  "find (\<lambda>r. i_product_id r = p) rs = None \<longleftrightarrow> p \<notin> i_product_id ` set rs"
  by (auto simp: find_None_iff)

lemma update_inventory_row:
  assumes ok: "stock_ok sys db" and i: "i \<in> set (inventory db)" and "inv_ID stock = i_id i"
    and upd: "update_inventory sys stock now db1 = Done n db2"
  shows "db2 = set_stock (i_id i) (sint (inv_Quantity stock)) (sint (inv_ReservedQuantity stock)) now db1"
proof -
  have "uuid_in sys (i_id i) = Some (i_id i)"
    using ok i by (simp add: stock_ok_def stock_keys_ok_def canonical_ids_def)
  with assms(3) upd show ?thesis by (auto simp: update_inventory_def Let_def split: if_splits)
qed

lemma insert_reservation_Done:
  "insert_reservation sys res now db = Done x db' \<longleftrightarrow>
     int4_ok (sint (res_Quantity res)) \<and> 0 < sint (res_Quantity res) \<and>
     text_ok sys 255 (res_ProductID res) \<and> text_ok sys 50 (res_Status res) \<and>
     (\<exists>u ord. uuid_in sys (res_ID res) = Some u \<and> uuid_in sys (res_OrderID res) = Some ord \<and>
        u \<notin> rv_id ` set (reservations db) \<and>
        db' = db\<lparr>reservations := reservations db @
            [\<lparr>rv_id = u, rv_order_id = ord, rv_product_id = res_ProductID res,
              rv_quantity = sint (res_Quantity res), rv_status = res_Status res,
              rv_created_at = timestamptz sys (res_CreatedAt res),
              rv_updated_at = timestamptz sys (res_UpdatedAt res)\<rparr>]\<rparr>)"
  by (auto simp: insert_reservation_def split: option.splits)

lemmas inventory_call_splits = option.split reply.split commit_reply.split sum.split if_splits

text \<open>
  What the handler returns: nil with the answer durable, or an error with nothing durable, unless
  the acknowledgement of the commit was lost.
\<close>

definition answered_or_not ::
  "sys \<Rightarrow> string \<Rightarrow> string \<Rightarrow> string \<Rightarrow> go_int \<Rightarrow> string \<Rightarrow> float64 \<Rightarrow> inventory_db \<Rightarrow> err \<Rightarrow> inventory_db
   \<Rightarrow> bool" where
  "answered_or_not sys u oid p q cid amount db e db' \<longleftrightarrow>
     db' = db \<or> (\<exists>msg. e = Errorf ''commit transaction'' (Driver msg)) \<and> inventory_answer sys u oid p q cid amount db db'"

lemma publish_reserve_failed_step:
  assumes "durable s1 = db" and "\<not> failed s1"
    and "view s1 = mark_processed u EventTypeOrderCreated now db"
    and "\<And>e. sf_ProductID e = p \<Longrightarrow> sf_Quantity e = q \<Longrightarrow> sf_Reason e = reason \<Longrightarrow> refusal db e"
  shows "wpc (publish_reserve_failed sys oid p q reason)
     (\<lambda>_ s'. inventory_answer sys u oid p q cid amount db (durable s'))
     (\<lambda>e s'. answered_or_not sys u oid p q cid amount db e (durable s')) s1"
  unfolding publish_reserve_failed_def
  using assms
  by (auto simp: wp NewEvent_defs answered_or_not_def split: inventory_call_splits dest!: insert_outbox_Done
       intro!: inventory_answer.refuse)

text \<open>The part of the handler after the stock was found and could be reserved.\<close>

lemma reserved_answer:
  assumes "outbox_entry sys ''Inventory'' oid EventTypeStockReserved (EvStockReserved e) db m"
    and "i \<in> set (inventory db)" and "i_product_id i = p" and "text_in sys p"
    and "uuid_in sys oid = Some (rv_order_id r)" and "rv_product_id r = p"
    and "rv_quantity r = sint q" and "rv_status r = ReservationStatusReserved"
    and "rv_id r \<notin> rv_id ` set (reservations db)"
    and "uuid_in sys (sr_ReservationID e) = Some (rv_id r)" and "0 < sint q"
    and "sint q \<le> i_quantity i - i_reserved_quantity i"
    and "sr_OrderID e = oid" and "sr_ProductID e = p" and "sr_Quantity e = q"
    and "sr_CustomerID e = cid" and "sr_TotalAmount e = amount" and "rs = reservations db"
  shows "inventory_answer sys u oid p q cid amount db (add_message m
    ((set_stock (i_id i) (i_quantity i) (i_reserved_quantity i + sint q) now
       (mark_processed u EventTypeOrderCreated now db))\<lparr>reservations := rs @ [r]\<rparr>))"
proof -
  have "inventory_answer sys u oid p q cid amount db
      (add_message m (take_stock i now r (mark_processed u EventTypeOrderCreated now db)))"
    by (rule inventory_answer.reserve [OF assms(1-17)])
  then show ?thesis using assms(7,18) by (simp add: take_stock_def Let_def)
qed

lemma reserve_row_step:
  assumes ok: "stock_ok sys db" and i: "i \<in> set (inventory db)" "i_product_id i = p"
    and taken: "text_in sys p" and s1: "durable s1 = db" "\<not> failed s1"
      "view s1 = mark_processed u EventTypeOrderCreated (started s1) db"
    and res: "inventory_Reserve t q (inventory_of_row i) = Inr stock"
  shows "wpc (reserve_stock sys oid p cid q amount stock)
     (\<lambda>_ s'. inventory_answer sys u oid p q cid amount db (durable s'))
     (\<lambda>e s'. answered_or_not sys u oid p q cid amount db e (durable s')) s1"
proof -
  note sound = inventory_row_sound [OF ok i(1)]
  have stock: "0 < sint q" "sint q \<le> i_quantity i - i_reserved_quantity i" "inv_ID stock = i_id i"
    "sint (inv_Quantity stock) = i_quantity i" "sint (inv_ReservedQuantity stock) = i_reserved_quantity i + sint q"
    using inventory_Reserve_sound [OF sound(1), where now = t and q = q] sound(2,3) res
    by (auto simp: inventory_Reserve_def split: if_splits)
  have upd: "db2 = set_stock (i_id i) (i_quantity i) (i_reserved_quantity i + sint q) now db1"
    if "update_inventory sys stock now db1 = Done n db2" for now db1 n db2
    using update_inventory_row [OF ok i(1) stock(3) that] stock by simp
  show ?thesis
    using s1 i stock taken
    by (auto simp: reserve_stock_def wp NewReservation_def sle_iff NewEvent_defs insert_reservation_Done answered_or_not_def
         split: inventory_call_splits dest!: upd insert_outbox_Done intro!: reserved_answer)
qed

text \<open>The handler after the idempotency check.\<close>

lemma handle_created_answers:
  assumes ok: "stock_ok sys db" and s1: "durable s1 = db" "\<not> failed s1"
    "view s1 = mark_processed u EventTypeOrderCreated (started s1) db"
  shows "wpc (handle_created sys oid p cid q amount)
     (\<lambda>_ s'. inventory_answer sys u oid p q cid amount db (durable s'))
     (\<lambda>e s'. answered_or_not sys u oid p q cid amount db e (durable s')) s1"
proof -
  define Q where "Q \<equiv> \<lambda>(_ :: unit) s'. inventory_answer sys u oid p q cid amount db (durable (s' :: inventory_db pg))"
  define E where "E \<equiv> \<lambda>e s'. answered_or_not sys u oid p q cid amount db e (durable (s' :: inventory_db pg))"
  have E: "E e s'" if "durable s' = db" for e s'
    using that by (simp add: E_def answered_or_not_def)
  have inv: "inventory (view s1) = inventory db" using s1 by simp
  have ready: "durable (s1\<lparr>tick := t\<rparr>) = db" "\<not> failed (s1\<lparr>tick := t\<rparr>)"
    "view (s1\<lparr>tick := t\<rparr>) = mark_processed u EventTypeOrderCreated (started (s1\<lparr>tick := t\<rparr>)) db"
    for t using s1 by simp_all
  have "wpc (handle_created sys oid p cid q amount) Q E s1"
  proof (cases "stmt_err sys (tick s1) = None \<and> text_in sys p")
    case False
    then show ?thesis
      using s1 E by (auto simp: handle_created_def wp select_inventory_def ErrNoRows_def ErrProductNotFound_def
        split: option.split)
  next
    case True
    show ?thesis
    proof (cases "find (\<lambda>r. i_product_id r = p) (inventory db)")
      case None
      then have "p \<notin> i_product_id ` set (inventory db)" by (simp add: find_product)
      then have "wpc (publish_reserve_failed sys oid p q ''product not found'') Q E (s1\<lparr>tick := t\<rparr>)" for t
        unfolding Q_def E_def by (intro publish_reserve_failed_step) (use s1 in \<open>auto simp: refusal_def\<close>)
      with True None s1(2) show ?thesis
        by (simp add: handle_created_def wp wpc_if select_inventory_def inv)
    next
      case (Some i)
      then have i: "i \<in> set (inventory db)" "i_product_id i = p" using find_by_key by fastforce+
      have refuse: "wpc (publish_reserve_failed sys oid p q (err_Error e)) Q E (s1\<lparr>tick := t\<rparr>)"
        if res: "inventory_Reserve now q (inventory_of_row i) = Inl e" for now e t
        unfolding Q_def E_def
      proof (rule publish_reserve_failed_step [OF ready])
        fix e' :: StockReserveFailedEvent
        assume "sf_ProductID e' = p" "sf_Quantity e' = q" "sf_Reason e' = err_Error e"
        then show "refusal db e'"
          using inventory_Reserve_sound [OF inventory_row_sound(1) [OF ok i(1)], where now = now and q = q]
            inventory_row_sound(2,3) [OF ok i(1)] res i imageI [OF i(1), of i_product_id]
          by (auto simp: refusal_def inventory_Err_defs)
      qed
      have reserve: "wpc (reserve_stock sys oid p cid q amount stock) Q E (s1\<lparr>tick := t\<rparr>)"
        if "inventory_Reserve now q (inventory_of_row i) = Inr stock" for now stock t
        unfolding Q_def E_def using True that by (intro reserve_row_step [OF ok i _ ready]) auto
      from True Some s1(2) show ?thesis
        by (auto simp: handle_created_def wpc_catch wpc_bind [of "go_now sys"] wpc_now wpc_inventory_FindForUpdate
             wpc_stmt select_inventory_def inv split: sum.split intro: refuse reserve)
    qed
  qed
  then show ?thesis by (simp add: Q_def E_def)
qed

lemma inventory_HandleOrderCreated_step:
  "stock_ok sys (durable s) \<Longrightarrow> let s' = snd (inventory_HandleOrderCreated sys eid oid p cid q amount s)
   in durable s' = durable s \<or> inventory_step sys (CallOrderCreated eid oid p cid q amount) (durable s) (durable s')"
  unfolding inventory_HandleOrderCreated_def Let_def
  by (rule handler_durable, simp)
     (auto elim!: wpc_mono [OF handle_created_answers] simp: answered_or_not_def intro: inventory_step.answered)

section \<open>Releasing and committing\<close>

text \<open>A call that keeps going without failures, and no text is refused.\<close>

definition smooth :: "sys \<Rightarrow> 'db pg \<Rightarrow> bool" where
  "smooth sys s \<longleftrightarrow> calm sys (tick s) \<and> varchar_ok sys"

text \<open>The query of an order's reservations, as it answers if only the rows are there that satisfy \<open>f\<close>.\<close>

definition select_reservations_where ::
  "sys \<Rightarrow> (string \<Rightarrow> bool) \<Rightarrow> nat \<Rightarrow> string \<Rightarrow> int \<Rightarrow> inventory_db \<Rightarrow> (res_row list, inventory_db) reply" where
  "select_reservations_where sys f t orderID now db =
     (case uuid_in sys orderID of
        None \<Rightarrow> ServerReject invalid_uuid
      | Some u \<Rightarrow> Done (scan sys t (filter (\<lambda>r. rv_order_id r = u \<and> f (rv_id r)) (reservations db))) db)"

definition reservation_FindWhere ::
  "sys \<Rightarrow> (string \<Rightarrow> bool) \<Rightarrow> string \<Rightarrow> (inventory_db pg, Reservation list) go" where
  "reservation_FindWhere sys f orderID s =
     go_try (tx_rows sys (select_reservations_where sys f (tick s) orderID)) ''query reservations for update''
       (\<lambda>(rs, rows_err). go_return (map reservation_of_row rs)) s"

lemma reservation_FindWhere_all:
  "reservation_FindByOrderIDForUpdate sys oid = reservation_FindWhere sys (\<lambda>_. True) oid"
proof -
  have "select_reservations_where sys (\<lambda>_. True) t oid = select_reservations sys t oid" for t
    by (simp add: fun_eq_iff select_reservations_where_def select_reservations_def cong: option.case_cong)
  then show ?thesis unfolding reservation_FindByOrderIDForUpdate_def [abs_def] reservation_FindWhere_def [abs_def] by simp
qed

lemma wpc_reservation_FindWhere [wp]:
  "wpc (reservation_FindWhere sys f oid) Q E s =
     wpc (tx_rows sys (select_reservations_where sys f (tick s) oid))
       (\<lambda>r. Q (map reservation_of_row (fst r))) (\<lambda>e. E (Errorf ''query reservations for update'' e)) s"
  by (simp add: reservation_FindWhere_def wpc_def go_eval go_return_def split: prod.split sum.split)

text \<open>
  The contract of the two loop bodies: once the transaction has failed they change nothing durable
  and report nothing, and otherwise they settle their reservation completely or the transaction has
  failed.
\<close>

locale reservation_settler =
  fixes body :: "Reservation \<Rightarrow> (inventory_db pg, unit) go"
    and sys :: sys and st :: string and dq :: int
  assumes settles_to: "st = ReservationStatusReleased \<and> dq = 0 \<or> st = ReservationStatusCommitted \<and> dq = 1"
    and after_failure: "failed s \<Longrightarrow>
      wpc (body res) (\<lambda>_ s'. failed s' \<and> durable s' = durable s) (\<lambda>_ _. False) s"
    and skips: "res_Status res \<noteq> ReservationStatusReserved \<Longrightarrow> body res = go_return ()"
    and settles: "\<not> failed s \<Longrightarrow> stock_ok sys (view s) \<Longrightarrow> r \<in> set (reservations (view s)) \<Longrightarrow>
      rv_status r = ReservationStatusReserved \<Longrightarrow>
      wpc (body (reservation_of_row r))
        (\<lambda>_ s'. durable s' = durable s \<and>
          (failed s' \<and> \<not> smooth sys s \<or>
           \<not> failed s' \<and> started s' = started s \<and> (smooth sys s \<longrightarrow> smooth sys s') \<and>
           view s' = settled st dq (\<lambda>x. rv_id x = rv_id r) (started s) (view s)))
        (\<lambda>_ _. False) s"
begin

lemma st_closed: "st \<noteq> ReservationStatusReserved" "dq = 0 \<or> dq = 1"
  "st = ReservationStatusReleased \<or> st = ReservationStatusCommitted"
  using settles_to by (auto simp: ReservationStatus_defs)

lemma each_after_failure:
  "failed s \<Longrightarrow> wpc (for_each body rs) (\<lambda>_ s'. failed s' \<and> durable s' = durable s) (\<lambda>_ _. False) s"
proof (induction rs arbitrary: s)
  case Nil
  then show ?case by (simp add: wp)
next
  case (Cons r rs)
  show ?case
    by (simp add: wp) (rule wpc_mono [OF after_failure [OF Cons.prems]], use Cons.IH in fastforce)+
qed

lemma settles_any:
  assumes "\<not> failed s" and "stock_ok sys (view s)" and "r \<in> set (reservations (view s))"
  shows "wpc (body (reservation_of_row r))
      (\<lambda>_ s'. durable s' = durable s \<and>
        (failed s' \<and> \<not> smooth sys s \<or>
         \<not> failed s' \<and> started s' = started s \<and> (smooth sys s \<longrightarrow> smooth sys s') \<and>
         view s' = settled st dq (\<lambda>x. rv_id x = rv_id r) (started s) (view s)))
      (\<lambda>_ _. False) s"
proof (cases "rv_status r = ReservationStatusReserved")
  case True
  with assms show ?thesis by (rule settles)
next
  case False
  have "x = r" if "x \<in> set (reservations (view s))" "rv_id x = rv_id r" for x
    using assms(2,3) that distinct_key_eq [of rv_id "reservations (view s)" x r]
    by (simp add: stock_ok_def stock_keys_ok_def)
  then have "settled st dq (\<lambda>x. rv_id x = rv_id r) (started s) (view s) = view s"
    using False by (intro settled_closed) blast
  with False assms(1) show ?thesis by (simp add: skips wp)
qed

lemma each_settles:
  assumes "\<not> failed s" and "stock_ok sys (view s)" and "distinct (map rv_id rs)"
    and "set rs \<subseteq> set (reservations (view s))"
  shows "wpc (for_each body (map reservation_of_row rs))
      (\<lambda>_ s'. durable s' = durable s \<and>
        (failed s' \<and> \<not> smooth sys s \<or>
         \<not> failed s' \<and> (smooth sys s \<longrightarrow> smooth sys s') \<and>
         view s' = settled st dq (\<lambda>x. rv_id x \<in> rv_id ` set rs) (started s) (view s)))
      (\<lambda>_ _. False) s"
  using assms
proof (induction rs arbitrary: s)
  case Nil
  then show ?case by (simp add: wp settled_closed)
next
  case (Cons r rs)
  let ?P = "\<lambda>x. rv_id x = rv_id r" and ?Q = "\<lambda>x. rv_id x \<in> rv_id ` set rs"
  have keys: "distinct (map rv_id (reservations (view s)))"
    using Cons.prems(2) by (simp add: stock_ok_def stock_keys_ok_def)
  define R where "R s' \<longleftrightarrow> durable s' = durable s \<and>
      (failed s' \<and> \<not> smooth sys s \<or> \<not> failed s' \<and> (smooth sys s \<longrightarrow> smooth sys s') \<and>
       view s' = settled st dq (\<lambda>x. rv_id x \<in> rv_id ` set (r # rs)) (started s) (view s))" for s'
  have rest: "wpc (for_each body (map reservation_of_row rs)) (\<lambda>_. R) (\<lambda>_ _. False) s1"
    if s1: "durable s1 = durable s" "\<not> failed s1" "started s1 = started s" "smooth sys s \<longrightarrow> smooth sys s1"
      "view s1 = settled st dq ?P (started s) (view s)" for s1
  proof -
    have "x \<in> set (reservations (view s1))" if x: "x \<in> set rs" for x
    proof -
      have "rv_id x \<noteq> rv_id r"
        using Cons.prems(3) x by (metis distinct.simps(2) imageI list.set_map list.simps(9))
      then have "x = settle_res st ?P (started s) x" by (simp add: settle_res_def)
      moreover have "x \<in> set (reservations (view s))" using Cons.prems(4) x by auto
      ultimately show ?thesis unfolding s1(5) by (auto simp: image_iff)
    qed
    moreover have "stock_ok sys (view s1)"
      unfolding s1(5) using Cons.prems(2) st_closed(2,3) by (rule stock_ok_settled)
    moreover have "settled st dq ?Q (started s1) (view s1) =
        settled st dq (\<lambda>x. rv_id x \<in> rv_id ` set (r # rs)) (started s) (view s)"
      unfolding s1(3,5) using Cons.prems(2,3) st_closed(1)
      by (subst settled_settled) (auto simp: less_imp_le stock_ok_positive)
    ultimately show ?thesis
      using Cons.prems(3) s1 by (intro wpc_mono [OF Cons.IH [of s1]]) (auto simp: R_def)
  qed
  have fails: "wpc (for_each body (map reservation_of_row rs)) (\<lambda>_. R) (\<lambda>_ _. False) s1"
    if "durable s1 = durable s" "failed s1" "\<not> smooth sys s" for s1
    by (rule wpc_mono [OF each_after_failure [OF that(2)]]) (use that in \<open>auto simp: R_def\<close>)
  have "wpc (for_each body (map reservation_of_row (r # rs))) (\<lambda>_. R) (\<lambda>_ _. False) s"
    unfolding list.map for_each.simps wp
    by (rule wpc_mono [OF settles_any [OF Cons.prems(1,2), of r]])
       (use Cons.prems(4) in \<open>auto intro: rest fails\<close>)
  then show ?case by (rule wpc_mono) (simp_all only: R_def)
qed

text \<open>The two handlers after the idempotency check: read the order's reservations, settle, commit.\<close>

lemma settle_order_where:
  assumes ok: "stock_ok sys db" and fresh: "processed_events db u = None" and ord: "uuid_in sys oid = Some ord"
    and scans: "scans_ok sys"
    and s1: "durable s1 = db" "\<not> failed s1" "view s1 = mark_processed u ety (started s1) db"
  shows "wpc (go_try (reservation_FindWhere sys f oid) ''find reservations'' (\<lambda>reservations.
      go_bind (for_each body reservations) (\<lambda>_.
      go_try (tx_Commit sys) ''commit transaction'' go_return)))
    (\<lambda>_ s'. durable s' = settled st dq (\<lambda>r. rv_order_id r = ord \<and> f (rv_id r)) (started s1) (mark_processed u ety (started s1) db))
    (\<lambda>e s'. \<not> smooth sys s1 \<and> (durable s' = db \<or> (\<exists>msg. e = Errorf ''commit transaction'' (Driver msg)) \<and>
       durable s' = settled st dq (\<lambda>r. rv_order_id r = ord \<and> f (rv_id r)) (started s1) (mark_processed u ety (started s1) db))) s1"
proof -
  let ?v = "mark_processed u ety (started s1) db" and ?t = "tick s1"
  let ?rs = "scan sys ?t (filter (\<lambda>r. rv_order_id r = ord \<and> f (rv_id r)) (reservations db))"
  let ?s2 = "s1\<lparr>view := ?v, tick := Suc ?t\<rparr>"
  let ?Q = "\<lambda>_ s'. durable s' = settled st dq (\<lambda>r. rv_order_id r = ord \<and> f (rv_id r)) (started s1) ?v"
  let ?E = "\<lambda>e s'. \<not> smooth sys s1 \<and> (durable s' = db \<or> (\<exists>msg. e = Errorf ''commit transaction'' (Driver msg)) \<and>
       durable s' = settled st dq (\<lambda>r. rv_order_id r = ord \<and> f (rv_id r)) (started s1) ?v)"
  have keys: "distinct (map rv_id (reservations db))" using ok by (simp add: stock_ok_def stock_keys_ok_def)
  have rs: "set ?rs = {r \<in> set (reservations db). rv_order_id r = ord \<and> f (rv_id r)}" "distinct (map rv_id ?rs)"
    using scans keys by (auto simp: distinct_map_scan distinct_map_filter)
  have same: "settled st dq (\<lambda>x. rv_id x \<in> rv_id ` set ?rs) (started s1) ?v =
      settled st dq (\<lambda>r. rv_order_id r = ord \<and> f (rv_id r)) (started s1) ?v"
    using rs(1) keys by (intro settled_cong) (auto dest: distinct_key_eq)
  have whole: "wpc (go_bind (for_each body (map reservation_of_row ?rs))
      (\<lambda>_. go_try (tx_Commit sys) ''commit transaction'' go_return)) ?Q ?E ?s2"
  proof -
    have "wpc (for_each body (map reservation_of_row ?rs))
        (\<lambda>_ s'. durable s' = durable ?s2 \<and>
          (failed s' \<and> \<not> smooth sys ?s2 \<or> \<not> failed s' \<and> (smooth sys ?s2 \<longrightarrow> smooth sys s') \<and>
           view s' = settled st dq (\<lambda>x. rv_id x \<in> rv_id ` set ?rs) (started ?s2) (view ?s2)))
        (\<lambda>_ _. False) ?s2"
      using s1 ok rs by (intro each_settles) auto
    then show ?thesis
      using s1 unfolding wp
      by (elim wpc_mono) (auto simp: same smooth_def split: commit_reply.split)
  qed
  have cut: "wpc (go_bind (for_each body (map reservation_of_row (take k ?rs)))
      (\<lambda>_. go_try (tx_Commit sys) ''commit transaction'' go_return)) ?Q ?E (?s2\<lparr>failed := True\<rparr>)"
    if "\<not> smooth sys s1" for k
    unfolding wp
    by (rule wpc_mono [OF each_after_failure]) (use that s1 in \<open>auto\<close>)
  show ?thesis
  proof (cases "stmt_err sys ?t = None \<and> rows_cut sys ?t = None")
    case True
    with s1 ord whole show ?thesis
      by (simp add: wpc_try [of "reservation_FindWhere sys f oid"]
           wpc_reservation_FindWhere wpc_rows wpc_stmt select_reservations_where_def)
  next
    case False
    then have "\<not> smooth sys s1" by (auto simp: smooth_def)
    with False s1 ord cut show ?thesis
      by (auto simp: wpc_try [of "reservation_FindWhere sys f oid"]
           wpc_reservation_FindWhere wpc_rows wpc_stmt select_reservations_where_def split: option.split)
  qed
qed

lemmas settle_order = settle_order_where [where f = "\<lambda>_. True", folded reservation_FindWhere_all, simplified]

end

text \<open>What the two bodies need of the row they look up.\<close>

lemma open_row:
  assumes ok: "stock_ok sys db" and r: "r \<in> set (reservations db)"
    and open_r: "rv_status r = ReservationStatusReserved"
  obtains i where "i \<in> set (inventory db)" "i_product_id i = rv_product_id r"
    "find (\<lambda>x. i_product_id x = rv_product_id r) (inventory db) = Some i" "text_in sys (rv_product_id r)"
    "sint (word_of_int (rv_quantity r) :: go_int) = rv_quantity r" "0 < rv_quantity r"
    "rv_quantity r \<le> i_reserved_quantity i" "uuid_in sys (i_id i) = Some (i_id i)"
    "uuid_in sys (rv_id r) = Some (rv_id r)" "filter (\<lambda>x. i_id x = i_id i) (inventory db) = [i]"
    "filter (\<lambda>x. rv_id x = rv_id r) (reservations db) = [r]"
proof -
  have keys: "distinct (map i_id (inventory db))" "distinct (map i_product_id (inventory db))"
    "distinct (map rv_id (reservations db))" "canonical_ids sys (i_id ` set (inventory db))"
    "canonical_ids sys (rv_id ` set (reservations db))"
    using ok by (simp_all add: stock_ok_def stock_keys_ok_def)
  have row: "res_row_ok sys (map i_product_id (inventory db)) r" using ok r by (simp add: stock_ok_def)
  then obtain i where i: "i \<in> set (inventory db)" "i_product_id i = rv_product_id r"
    by (auto simp: res_row_ok_def)
  have "i_reserved_quantity i = held (\<lambda>_. True) (rv_product_id r) (reservations db)"
    using ok i unfolding stock_ok_def stock_row_ok_def by metis
  also have "\<dots> = rv_quantity r + held (\<lambda>x. rv_id x \<noteq> rv_id r) (rv_product_id r) (reservations db)"
    using held_split [of "rv_product_id r" "reservations db" "\<lambda>x. rv_id x = rv_id r"] open_r
    by (simp add: held_single [OF keys(3) r])
  finally have "rv_quantity r \<le> i_reserved_quantity i" using held_nonneg_ok [OF ok] by simp
  with row i keys show ?thesis
    by (intro that [of i])
       (simp_all add: res_row_ok_def find_distinct_key filter_distinct_key r canonical_ids_def)
qed

lemma res_status_update [simp]:
  "res_ID (reservation_Release now res) = res_ID res"
  "res_Status (reservation_Release now res) = ReservationStatusReleased"
  "res_ID (reservation_Commit now res) = res_ID res"
  "res_Status (reservation_Commit now res) = ReservationStatusCommitted"
  by (simp_all add: reservation_Release_def reservation_Commit_def)

lemma res_status_texts:
  "varchar_ok sys \<Longrightarrow> text_ok sys 50 ReservationStatusReleased"
  "varchar_ok sys \<Longrightarrow> text_ok sys 50 ReservationStatusCommitted"
  by (simp_all add: varchar_ok_def ascii_text_def ReservationStatus_defs)

interpretation releaser: reservation_settler "release_reservation sys" sys ReservationStatusReleased 0
  for sys
proof
  fix s :: "inventory_db pg" and res
  assume "failed s"
  then show "wpc (release_reservation sys res) (\<lambda>_ s'. failed s' \<and> durable s' = durable s) (\<lambda>_ _. False) s"
    by (simp add: release_reservation_def wp wpc_if ErrTxAborted_def ErrNoRows_def)
next
  fix s :: "inventory_db pg" and r
  assume s: "\<not> failed s" and ok: "stock_ok sys (view s)" and r: "r \<in> set (reservations (view s))"
    and open_r: "rv_status r = ReservationStatusReserved"
  obtain i where i: "i \<in> set (inventory (view s))" "i_product_id i = rv_product_id r"
    "find (\<lambda>x. i_product_id x = rv_product_id r) (inventory (view s)) = Some i"
    "text_in sys (rv_product_id r)"
    "sint (word_of_int (rv_quantity r) :: go_int) = rv_quantity r" "0 < rv_quantity r"
    "rv_quantity r \<le> i_reserved_quantity i" "uuid_in sys (i_id i) = Some (i_id i)"
    "uuid_in sys (rv_id r) = Some (rv_id r)" "filter (\<lambda>x. i_id x = i_id i) (inventory (view s)) = [i]"
    "filter (\<lambda>x. rv_id x = rv_id r) (reservations (view s)) = [r]"
    using open_row [OF ok r open_r] by blast
  note sound = inventory_row_sound [OF ok i(1)]
  obtain stock where stock: "inventory_Release (time_Now sys (Suc (tick s))) (word_of_int (rv_quantity r)) (inventory_of_row i) = Inr stock"
    "inv_ID stock = i_id i" "sint (inv_Quantity stock) = i_quantity i"
    "sint (inv_ReservedQuantity stock) = i_reserved_quantity i - rv_quantity r"
    using inventory_Release_sound [OF sound(1), where now = "time_Now sys (Suc (tick s))" and q = "word_of_int (rv_quantity r)"] sound i(5-7)
    by (auto simp: inventory_Release_def sle_iff)
  have upd: "update_inventory sys stock now (view s) =
      Done 1 (set_stock (i_id i) (i_quantity i) (i_reserved_quantity i - rv_quantity r) now (view s))" for now
    using stock sound i by (simp add: update_inventory_def int4_ok_def Let_def)
  show "wpc (release_reservation sys (reservation_of_row r))
        (\<lambda>_ s'. durable s' = durable s \<and>
          (failed s' \<and> \<not> smooth sys s \<or>
           \<not> failed s' \<and> started s' = started s \<and> (smooth sys s \<longrightarrow> smooth sys s') \<and>
           view s' = settled ReservationStatusReleased 0 (\<lambda>x. rv_id x = rv_id r) (started s) (view s)))
        (\<lambda>_ _. False) s"
    using s i(3,4,9,11) stock(1) upd
      settled_one [OF ok r open_r i(1,2), of ReservationStatusReleased "started s" 0]
      calm_now [of sys "tick s"] calm_now [OF calm_Suc [OF calm_Suc [of sys "tick s"]]]
    by (auto simp: release_reservation_def IsReserved_def open_r wp wpc_if select_inventory_def
         update_reservation_def smooth_def res_status_texts split: option.split)
qed (simp_all add: release_reservation_def IsReserved_def)

interpretation committer: reservation_settler "commit_reservation sys" sys ReservationStatusCommitted 1
  for sys
proof
  fix s :: "inventory_db pg" and res
  assume "failed s"
  then show "wpc (commit_reservation sys res) (\<lambda>_ s'. failed s' \<and> durable s' = durable s) (\<lambda>_ _. False) s"
    by (simp add: commit_reservation_def wp wpc_if ErrTxAborted_def ErrNoRows_def)
next
  fix s :: "inventory_db pg" and r
  assume s: "\<not> failed s" and ok: "stock_ok sys (view s)" and r: "r \<in> set (reservations (view s))"
    and open_r: "rv_status r = ReservationStatusReserved"
  obtain i where i: "i \<in> set (inventory (view s))" "i_product_id i = rv_product_id r"
    "find (\<lambda>x. i_product_id x = rv_product_id r) (inventory (view s)) = Some i"
    "text_in sys (rv_product_id r)"
    "sint (word_of_int (rv_quantity r) :: go_int) = rv_quantity r" "0 < rv_quantity r"
    "rv_quantity r \<le> i_reserved_quantity i" "uuid_in sys (i_id i) = Some (i_id i)"
    "uuid_in sys (rv_id r) = Some (rv_id r)" "filter (\<lambda>x. i_id x = i_id i) (inventory (view s)) = [i]"
    "filter (\<lambda>x. rv_id x = rv_id r) (reservations (view s)) = [r]"
    using open_row [OF ok r open_r] by blast
  note sound = inventory_row_sound [OF ok i(1)]
  obtain stock where stock: "inventory_Commit (time_Now sys (Suc (tick s))) (word_of_int (rv_quantity r)) (inventory_of_row i) = Inr stock"
    "inv_ID stock = i_id i" "sint (inv_Quantity stock) = i_quantity i - rv_quantity r"
    "sint (inv_ReservedQuantity stock) = i_reserved_quantity i - rv_quantity r"
    using inventory_Commit_sound [OF sound(1), where now = "time_Now sys (Suc (tick s))" and q = "word_of_int (rv_quantity r)"] sound i(5-7)
    by (auto simp: inventory_Commit_def sle_iff sless_iff)
  have upd: "update_inventory sys stock now (view s) =
      Done 1 (set_stock (i_id i) (i_quantity i - rv_quantity r) (i_reserved_quantity i - rv_quantity r) now (view s))" for now
    using stock sound i by (simp add: update_inventory_def int4_ok_def Let_def)
  show "wpc (commit_reservation sys (reservation_of_row r))
        (\<lambda>_ s'. durable s' = durable s \<and>
          (failed s' \<and> \<not> smooth sys s \<or>
           \<not> failed s' \<and> started s' = started s \<and> (smooth sys s \<longrightarrow> smooth sys s') \<and>
           view s' = settled ReservationStatusCommitted 1 (\<lambda>x. rv_id x = rv_id r) (started s) (view s)))
        (\<lambda>_ _. False) s"
    using s i(3,4,9,11) stock(1) upd
      settled_one [OF ok r open_r i(1,2), of ReservationStatusCommitted "started s" 1]
      calm_now [of sys "tick s"] calm_now [OF calm_Suc [OF calm_Suc [of sys "tick s"]]]
    by (auto simp: commit_reservation_def IsReserved_def open_r wp wpc_if select_inventory_def
         update_reservation_def smooth_def res_status_texts split: option.split)
qed (simp_all add: commit_reservation_def IsReserved_def)


section \<open>Every use case is a step\<close>

lemma settle_handler_step:
  assumes ok: "stock_ok sys (durable s)" and scans: "scans_ok sys"
    and body: "\<And>u ord s1. processed_events (durable s) u = None \<Longrightarrow> uuid_in sys oid = Some ord \<Longrightarrow>
      durable s1 = durable s \<Longrightarrow> \<not> failed s1 \<Longrightarrow> view s1 = mark_processed u ety (started s1) (durable s) \<Longrightarrow>
      wpc body (\<lambda>_ s'. durable s' = settled st dq (P ord) (started s1)
            (mark_processed u ety (started s1) (durable s)))
        (\<lambda>e s'. \<not> smooth sys s1 \<and> (durable s' = durable s \<or>
            (\<exists>msg. e = Errorf ''commit transaction'' (Driver msg)) \<and>
            durable s' = settled st dq (P ord) (started s1)
              (mark_processed u ety (started s1) (durable s)))) s1"
    and bad: "\<And>s1. uuid_in sys oid = None \<Longrightarrow>
      wpc body (\<lambda>_ s'. durable s' = durable s1) (\<lambda>_ s'. durable s' = durable s1) s1"
    and steps: "\<And>u ord now. uuid_in sys eid = Some u \<Longrightarrow> processed_events (durable s) u = None \<Longrightarrow>
      uuid_in sys oid = Some ord \<Longrightarrow> step (durable s) (settled st dq (P ord) now (mark_processed u ety now (durable s)))"
  shows "let s' = snd (with_tx sys (idempotency_gate (CheckAndMark sys eid ety) body) s)
    in durable s' = durable s \<or> step (durable s) (durable s')"
  unfolding Let_def
proof (rule handler_durable, simp)
  fix u and s1 :: "inventory_db pg"
  assume eid: "uuid_in sys eid = Some u"
    and s1: "processed_events (durable s) u = None" "durable s1 = durable s" "\<not> failed s1"
    "view s1 = mark_processed u ety (started s1) (durable s)"
  let ?R = "\<lambda>s'. durable s' = durable s \<or> step (durable s) (durable s')"
  show "wpc body (\<lambda>_. ?R) (\<lambda>_. ?R) s1"
  proof (cases "uuid_in sys oid")
    case None
    show ?thesis by (rule wpc_mono [OF bad [OF None]]) (simp_all add: s1)
  next
    case (Some ord)
    show ?thesis
      by (rule wpc_mono [OF body [OF s1(1) Some s1(2-4)]]) (use steps [OF eid s1(1) Some, of "started s1"] in auto)
  qed
qed

lemma settle_bad_order:
  fixes s1 :: "inventory_db pg"
  assumes "uuid_in sys oid = None"
  shows "wpc (go_try (reservation_FindByOrderIDForUpdate sys oid) w k)
     (\<lambda>_ s'. durable s' = durable s1) (\<lambda>_ s'. durable s' = durable s1) s1"
  using assms
  by (simp add: wp select_reservations_def split: option.split)

lemma inventory_HandleOrderCancelled_step:
  assumes "stock_ok sys (durable s)" and "scans_ok sys"
  shows "let s' = snd (inventory_HandleOrderCancelled sys eid oid s)
   in durable s' = durable s \<or> inventory_step sys (CallOrderCancelled eid oid) (durable s) (durable s')"
  unfolding inventory_HandleOrderCancelled_def
  by (rule settle_handler_step [where st = ReservationStatusReleased and dq = 0 and oid = oid and P = "\<lambda>ord r. rv_order_id r = ord"])
     (simp_all add: assms releaser.settle_order settle_bad_order inventory_step.released)

lemma inventory_HandleOrderCompleted_step:
  assumes "stock_ok sys (durable s)" and "scans_ok sys"
  shows "let s' = snd (inventory_HandleOrderCompleted sys eid oid s)
   in durable s' = durable s \<or> inventory_step sys (CallOrderCompleted eid oid) (durable s) (durable s')"
  unfolding inventory_HandleOrderCompleted_def
  by (rule settle_handler_step [where st = ReservationStatusCommitted and dq = 1 and oid = oid and P = "\<lambda>ord r. rv_order_id r = ord"])
     (simp_all add: assms committer.settle_order settle_bad_order inventory_step.committed)

lemma GetInventory_reads: "durable (snd (GetInventory sys p s)) = durable s"
proof -
  have "wpc (GetInventory sys p) (\<lambda>_ s'. durable s' = durable s) (\<lambda>_ s'. durable s' = durable s) s"
    by (simp add: GetInventory_def wp select_inventory_def split: option.split)
  then show ?thesis by (simp add: wpc_post)
qed


section \<open>The service\<close>

fun inventory_exec :: "sys \<Rightarrow> inventory_call \<Rightarrow> inventory_db pg \<Rightarrow> inventory_db pg" where
  "inventory_exec sys (CallOrderCreated eid oid p cid q amount) s =
     snd (inventory_HandleOrderCreated sys eid oid p cid q amount s)"
| "inventory_exec sys (CallOrderCancelled eid oid) s = snd (inventory_HandleOrderCancelled sys eid oid s)"
| "inventory_exec sys (CallOrderCompleted eid oid) s = snd (inventory_HandleOrderCompleted sys eid oid s)"
| "inventory_exec sys (CallGetInventory p) s = snd (GetInventory sys p s)"
| "inventory_exec sys CallInventoryRelay s = snd (processPendingMessages sys (nats_Publish sys) s)"

definition inventory_ready :: "sys \<Rightarrow> inventory_db \<Rightarrow> bool" where
  "inventory_ready sys db \<longleftrightarrow> uuids_ok sys \<and> scans_ok sys \<and> inventory_inv sys db"

lemma inventory_relay_step:
  assumes "inventory_ready sys (durable s)"
  shows "durable (inventory_exec sys CallInventoryRelay s) = durable s \<or>
    inventory_step sys CallInventoryRelay (durable s) (durable (inventory_exec sys CallInventoryRelay s))"
  using assms relay_same_events [of sys s]
  by (auto simp: inventory_ready_def inventory_inv_def Let_def intro: inventory_step.relayed)

interpretation inventory_service: refined_service "inventory_exec sys" "inventory_step sys"
    "inventory_ready sys" for sys
proof
  fix s :: "inventory_db pg" and c
  assume ready: "inventory_ready sys (durable s)"
  then have "stock_ok sys (durable s)" "scans_ok sys" by (simp_all add: inventory_ready_def inventory_inv_def)
  with ready show "durable (inventory_exec sys c s) = durable s \<or>
      inventory_step sys c (durable s) (durable (inventory_exec sys c s))"
    using inventory_HandleOrderCreated_step inventory_HandleOrderCancelled_step
      inventory_HandleOrderCompleted_step inventory_relay_step GetInventory_reads
    by (cases c) (simp_all add: Let_def)
next
  fix c d d'
  assume "inventory_step sys c d d'" and "inventory_ready sys d"
  then show "inventory_ready sys d'" by (simp add: inventory_ready_def inventory_step_inv)
qed

lemma inventory_run_history:
  assumes "inventory_ready sys (durable s)"
  shows "inventory_history (durable s) (durable (run_calls (inventory_exec sys) cs s))"
proof (rule inventory_service.run_relates [where R = inventory_history])
  show "inventory_history d d'" if "inventory_ready sys d" "inventory_step sys c d d'" for c d d'
    using that by (simp add: inventory_ready_def inventory_inv_def inventory_step_history)
qed (auto intro: assms inventory_history_refl inventory_history_trans)


section \<open>Properties over every sequence of calls\<close>

definition inventory_boot :: "inventory_db \<Rightarrow> inventory_db pg" where
  "inventory_boot db = \<lparr>durable = db, view = db, started = 0, failed = False, tick = 0, published = []\<rparr>"

lemma durable_inventory_boot [simp]: "durable (inventory_boot db) = db" "tick (inventory_boot db) = 0"
  by (simp_all add: inventory_boot_def)

text \<open>The database as scripts/init-inventory-db.sql leaves it.\<close>

definition initial_stock :: "string \<Rightarrow> string \<Rightarrow> string \<Rightarrow> int \<Rightarrow> inv_row" where
  "initial_stock u p n quantity =
     \<lparr>i_id = u, i_product_id = p, i_product_name = n, i_quantity = quantity,
      i_reserved_quantity = 0, i_created_at = 0, i_updated_at = 0\<rparr>"

definition initial_inventory_db :: inventory_db where
  "initial_inventory_db =
     \<lparr>processed_events = Map.empty, outbox = [],
      inventory = [initial_stock ''1'' ''PROD-001'' ''Laptop'' 100,
                   initial_stock ''2'' ''PROD-002'' ''Smartphone'' 200,
                   initial_stock ''3'' ''PROD-003'' ''Headphones'' 500],
      reservations = []\<rparr>"

lemma initial_inventory_inv [simp]: "inventory_inv sample_sys initial_inventory_db"
  by (simp add: inventory_inv_def stock_ok_def stock_keys_ok_def stock_row_ok_def outbox_wf_def
        inventory_announced_def announcements_def event_count_def processed_of_def canonical_ids_def
        initial_inventory_db_def initial_stock_def sample_uuid_in)

text \<open>
  C13: the inventory service refines its specification: whatever events it handles, in whatever
  order and however often, and whatever fails, every call has on the database the effect that
  \<open>inventory_step\<close> allows for that call, as one atomic step, or none, and the invariant is kept.
\<close>

theorem inventory_service_refines:
  assumes "uuids_ok sys" and "scans_ok sys" and "inventory_inv sys (durable s)"
  shows "explained (inventory_step sys) cs (durable s) (durable (run_calls (inventory_exec sys) cs s)) \<and>
    inventory_inv sys (durable (run_calls (inventory_exec sys) cs s))"
  using inventory_service.run_refines [of sys s cs] inventory_service.run_inv [of sys s cs] assms
  by (simp add: inventory_ready_def)

theorem inventory_service_refines_witness:
  "inventory_inv sample_sys (durable (run_calls (inventory_exec sample_sys)
     [CallOrderCreated ''e'' ''o'' ''PROD-001'' ''c'' 2 10, CallOrderCancelled ''f'' ''o''] (inventory_boot initial_inventory_db)))"
  by (rule conjunct2 [OF inventory_service_refines]) simp_all

text \<open>
  C12: stock is never oversold and never leaks. After any events and any failures, what is reserved
  of a product is exactly the sum of its open reservations, it lies between 0 and the quantity in
  stock, and the quantity in stock is the initial one less what was committed.
\<close>

theorem inventory_stock_exact:
  assumes "uuids_ok sys" and "scans_ok sys" and "inventory_inv sys (durable s)"
    and "i \<in> set (inventory (durable s))"
  shows "let db' = durable (run_calls (inventory_exec sys) cs s)
    in \<exists>i' \<in> set (inventory db'). i_product_id i' = i_product_id i \<and>
      i_reserved_quantity i' =
        (\<Sum>r\<leftarrow>filter (\<lambda>r. rv_status r = ReservationStatusReserved \<and> rv_product_id r = i_product_id i)
           (reservations db'). rv_quantity r) \<and>
      0 \<le> i_reserved_quantity i' \<and> i_reserved_quantity i' \<le> i_quantity i' \<and>
      i_quantity i' + committed_total (i_product_id i) (reservations db') =
        i_quantity i + committed_total (i_product_id i) (reservations (durable s))"
proof -
  let ?db' = "durable (run_calls (inventory_exec sys) cs s)"
  have ready: "inventory_ready sys (durable s)" using assms(1-3) by (simp add: inventory_ready_def)
  then have ok: "stock_ok sys ?db'"
    using inventory_service.run_inv [of sys s cs] by (simp add: inventory_ready_def inventory_inv_def)
  have "map (stock_identity (reservations ?db')) (inventory ?db') =
      map (stock_identity (reservations (durable s))) (inventory (durable s))"
    using inventory_run_history [OF ready] by (simp add: inventory_history_def)
  then have "stock_identity (reservations (durable s)) i \<in> stock_identity (reservations ?db') ` set (inventory ?db')"
    using assms(4) by (metis imageI list.set_map)
  then obtain i' where i': "i' \<in> set (inventory ?db')"
    "stock_identity (reservations ?db') i' = stock_identity (reservations (durable s)) i"
    by (metis imageE)
  then have same: "i_product_id i' = i_product_id i"
    "i_quantity i' + committed_total (i_product_id i) (reservations ?db') =
      i_quantity i + committed_total (i_product_id i) (reservations (durable s))"
    by (auto simp: stock_identity_def)
  have "stock_row_ok (reservations ?db') i'" using ok i' by (simp add: stock_ok_def)
  then have "i_reserved_quantity i' = held (\<lambda>_. True) (i_product_id i) (reservations ?db')"
    "i_reserved_quantity i' \<le> i_quantity i'"
    using same by (simp_all add: stock_row_ok_def)
  with same i'(1) show ?thesis
    using held_nonneg_ok [OF ok, of "\<lambda>_. True" "i_product_id i"]
    unfolding Let_def by (intro bexI [OF _ i'(1)]) (simp add: held_def open_res_def [abs_def])
qed

theorem inventory_stock_exact_witness:
  "let db' = durable (run_calls (inventory_exec sample_sys)
       [CallOrderCreated ''e'' ''o'' ''PROD-001'' ''c'' 2 10, CallOrderCompleted ''f'' ''o''] (inventory_boot initial_inventory_db))
   in \<exists>i' \<in> set (inventory db'). i_product_id i' = ''PROD-001'' \<and>
        i_quantity i' + committed_total ''PROD-001'' (reservations db') = 100"
proof -
  have i: "initial_stock ''1'' ''PROD-001'' ''Laptop'' 100 \<in> set (inventory (durable (inventory_boot initial_inventory_db)))"
    by (simp add: initial_inventory_db_def)
  have "reservations (durable (inventory_boot initial_inventory_db)) = []"
    by (simp add: initial_inventory_db_def)
  then show ?thesis
    using inventory_stock_exact [of sample_sys, OF _ _ _ i, of
        "[CallOrderCreated ''e'' ''o'' ''PROD-001'' ''c'' 2 10, CallOrderCompleted ''f'' ''o'']"]
    unfolding Let_def
    by (simp del: run_calls.simps add: initial_stock_def) blast
qed

text \<open>
  C37: a reservation is never lost, duplicated in place or reopened. Whatever is handled and
  whatever fails, every reservation keeps its place, ID, order, product and quantity; only an open
  one changes its status, and no event leaves the outbox.
\<close>

theorem inventory_reservations_kept:
  assumes "uuids_ok sys" and "scans_ok sys" and "inventory_inv sys (durable s)"
    and "n < length (reservations (durable s))"
  shows "let db' = durable (run_calls (inventory_exec sys) cs s);
      r = reservations (durable s) ! n; r' = reservations db' ! n
    in n < length (reservations db') \<and>
       r' = r\<lparr>rv_status := rv_status r', rv_updated_at := rv_updated_at r'\<rparr> \<and>
       (rv_status r = ReservationStatusReserved \<or> r' = r) \<and>
       events_kept (durable s) db'"
proof -
  let ?db' = "durable (run_calls (inventory_exec sys) cs s)"
  have hist: "inventory_history (durable s) ?db'"
    using assms(1-3) by (intro inventory_run_history) (simp add: inventory_ready_def)
  then have len: "n < length (reservations ?db')" using assms(4) by (simp add: inventory_history_def)
  have "list_all2 res_evolves (reservations (durable s))
      (take (length (reservations (durable s))) (reservations ?db'))"
    using hist by (simp add: inventory_history_def)
  then have "res_evolves (reservations (durable s) ! n) (reservations ?db' ! n)"
    using assms(4) by (auto simp: list_all2_conv_all_nth)
  with hist len show ?thesis by (auto simp: res_evolves_def inventory_history_def Let_def)
qed

definition reserved_db :: inventory_db where
  "reserved_db =
     \<lparr>processed_events = Map.empty,
      outbox = [(sample_message ''m'' 0)\<lparr>msg_AggregateID := ''o'', msg_EventType := EventTypeStockReserved\<rparr>],
      inventory = [(initial_stock ''1'' ''PROD-001'' ''Laptop'' 100)\<lparr>i_reserved_quantity := 7\<rparr>],
      reservations = [\<lparr>rv_id = ''r'', rv_order_id = ''o'', rv_product_id = ''PROD-001'', rv_quantity = 7,
        rv_status = ReservationStatusReserved, rv_created_at = 0, rv_updated_at = 0\<rparr>]\<rparr>"

lemma reserved_stock_ok [simp]: "stock_ok sample_sys reserved_db"
  by (simp add: stock_ok_def stock_keys_ok_def stock_row_ok_def res_row_ok_def canonical_ids_def
        reserved_db_def initial_stock_def sample_uuid_in open_res_def int4_ok_def)
     (simp add: sample_sys_def)

definition served_db :: inventory_db where
  "served_db = mark_processed ''e'' EventTypeOrderCreated 0 reserved_db"

lemma served_inventory_inv [simp]: "inventory_inv sample_sys served_db"
proof -
  have "processed_of EventTypeOrderCreated served_db = {''e''}"
    by (auto simp: processed_of_def served_db_def reserved_db_def)
  moreover have "outbox_wf sample_sys served_db"
    by (simp add: outbox_wf_def served_db_def reserved_db_def canonical_ids_def sample_uuid_in sample_message_def)
  moreover have "stock_ok sample_sys served_db" by (simp add: served_db_def)
  moreover have "finite (dom (processed_events served_db))"
    "event_count [EventTypeStockReserved, EventTypeStockReserveFailed] served_db = 1"
    "announcements sample_sys served_db EventTypeStockReserved ord =
       length (filter (\<lambda>r. rv_order_id r = ord) (reservations served_db))" for ord
    by (simp_all add: served_db_def reserved_db_def announcements_def event_count_def sample_uuid_in)
  ultimately show ?thesis by (simp add: inventory_inv_def inventory_announced_def)
qed

theorem inventory_reservations_kept_witness:
  "let db' = durable (run_calls (inventory_exec sample_sys) [CallOrderCancelled ''f'' ''o'', CallOrderCompleted ''g'' ''o'']
       (inventory_boot served_db))
   in 0 < length (reservations db') \<and> events_kept served_db db'"
  using inventory_reservations_kept [of sample_sys "inventory_boot served_db" 0
      "[CallOrderCancelled ''f'' ''o'', CallOrderCompleted ''g'' ''o'']"]
  unfolding Let_def
  by (simp del: run_calls.simps) (simp add: served_db_def reserved_db_def del: run_calls.simps)

text \<open>
  Every OrderCreated event is answered exactly once. Whatever is handled and whatever fails,
  there are exactly as many StockReserved and StockReserveFailed events as OrderCreated events
  processed, and exactly one StockReserved event for every reservation of an order.
\<close>

theorem inventory_answers_once:
  assumes "uuids_ok sys" and "scans_ok sys" and "inventory_inv sys (durable s)"
    and "db' = durable (run_calls (inventory_exec sys) cs s)"
  shows "length (filter (\<lambda>m. msg_EventType m \<in> {EventTypeStockReserved, EventTypeStockReserveFailed}) (outbox db')) =
      card {u. \<exists>t. processed_events db' u = Some (EventTypeOrderCreated, t)} \<and>
    (\<forall>ord. announcements sys db' EventTypeStockReserved ord =
      length (filter (\<lambda>r. rv_order_id r = ord) (reservations db')))"
proof -
  have "inventory_ready sys (durable s)" using assms(1-3) by (simp add: inventory_ready_def)
  then have "inventory_ready sys db'" unfolding assms(4) by (rule inventory_service.run_inv)
  then show ?thesis
    by (simp add: inventory_ready_def inventory_inv_def inventory_announced_def event_count_def processed_of_def)
qed

theorem inventory_answers_once_witness:
  "let db' = durable (run_calls (inventory_exec sample_sys) [CallOrderCreated ''e'' ''o'' ''PROD-001'' ''c'' 2 10]
       (inventory_boot initial_inventory_db))
   in announcements sample_sys db' EventTypeStockReserved ''o'' =
      length (filter (\<lambda>r. rv_order_id r = ''o'') (reservations db'))"
  unfolding Let_def
  by (rule inventory_answers_once [OF _ _ _ refl, THEN conjunct2, THEN spec]) simp_all


section \<open>Properties of the single calls\<close>

text \<open>
  C21: an OrderCreated event that was not processed before is answered according to the stock: if
  the handler returns nil, then either the quantity was positive and available and is reserved, with
  a reservation and a StockReserved event, or it was not and a StockReserveFailed event gives the
  reason; if it returns an error nothing is durable, unless the acknowledgement of the commit was
  lost.
\<close>

theorem inventory_created_answer:
  assumes "stock_ok sys (durable s)" and "uuid_in sys eid = Some u"
    and "processed_events (durable s) u = None"
  shows "case inventory_HandleOrderCreated sys eid oid p cid q amount s of
     (Inr _, s') \<Rightarrow> inventory_answer sys u oid p q cid amount (durable s) (durable s')
   | (Inl e, s') \<Rightarrow> durable s' = durable s \<or>
       (\<exists>msg. e = Errorf ''commit transaction'' (Driver msg)) \<and>
       inventory_answer sys u oid p q cid amount (durable s) (durable s')"
  unfolding inventory_HandleOrderCreated_def
  by (rule handler_outcome [OF assms(2,3)])
     (use handle_created_answers [OF assms(1)] in \<open>simp_all add: answered_or_not_def\<close>)

theorem inventory_created_answer_witness:
  "case inventory_HandleOrderCreated sample_sys ''e'' ''o'' ''PROD-009'' ''c'' 2 10 (inventory_boot initial_inventory_db) of
     (Inr _, s') \<Rightarrow> inventory_answer sample_sys ''e'' ''o'' ''PROD-009'' 2 ''c'' 10 initial_inventory_db (durable s')
   | (Inl e, s') \<Rightarrow> durable s' = initial_inventory_db \<or>
       (\<exists>msg. e = Errorf ''commit transaction'' (Driver msg)) \<and>
       inventory_answer sample_sys ''e'' ''o'' ''PROD-009'' 2 ''c'' 10 initial_inventory_db (durable s')"
proof -
  let ?s = "inventory_boot initial_inventory_db"
  have facts: "stock_ok sample_sys (durable ?s)" "uuid_in sample_sys ''e'' = Some ''e''"
    "processed_events (durable ?s) ''e'' = None"
    using initial_inventory_inv
    by (simp_all add: inventory_inv_def sample_uuid_in) (simp add: initial_inventory_db_def)
  show ?thesis
    by (rule inventory_created_answer [OF facts, unfolded durable_inventory_boot])
qed

text \<open>
  C25: compensation is complete. An OrderCancelled event that was not processed before releases
  every open reservation of the order and gives exactly their quantities back, all together with
  the record of the event, or it changes nothing; without failures it succeeds. So although every
  error in the loop is only logged, and a broken result set is not noticed, no commit is partial.
\<close>

theorem inventory_cancelled_releases:
  assumes "stock_ok sys (durable s)" and "scans_ok sys" and "uuid_in sys oid = Some ord"
    and "uuid_in sys eid = Some u" and "processed_events (durable s) u = None"
  shows "case inventory_HandleOrderCancelled sys eid oid s of
     (Inr _, s') \<Rightarrow> \<exists>now. durable s' = settled ReservationStatusReleased 0 (\<lambda>r. rv_order_id r = ord) now
       (mark_processed u EventTypeOrderCancelled now (durable s))
   | (Inl e, s') \<Rightarrow> \<not> (calm sys (tick s) \<and> varchar_ok sys) \<and> (durable s' = durable s \<or>
       (\<exists>msg. e = Errorf ''commit transaction'' (Driver msg)) \<and>
       (\<exists>now. durable s' = settled ReservationStatusReleased 0 (\<lambda>r. rv_order_id r = ord) now
          (mark_processed u EventTypeOrderCancelled now (durable s))))"
  unfolding inventory_HandleOrderCancelled_def
  by (rule handler_outcome [OF assms(4,5)])
     (auto simp: event_type_texts smooth_def
        intro: wpc_mono [OF releaser.settle_order [OF assms(1,5,3,2)]])

theorem inventory_cancelled_releases_witness:
  "case inventory_HandleOrderCancelled sample_sys ''f'' ''o'' (inventory_boot reserved_db) of
     (Inr _, s') \<Rightarrow> map rv_status (reservations (durable s')) = [ReservationStatusReleased] \<and>
       map i_reserved_quantity (inventory (durable s')) = [0] \<and>
       map i_quantity (inventory (durable s')) = [100]
   | (Inl e, s') \<Rightarrow> False"
proof -
  let ?s = "inventory_boot reserved_db"
  have facts: "stock_ok sample_sys (durable ?s)" "scans_ok sample_sys"
    "uuid_in sample_sys ''o'' = Some ''o''" "uuid_in sample_sys ''f'' = Some ''f''"
    "processed_events (durable ?s) ''f'' = None"
    by (simp_all add: sample_uuid_in) (simp add: reserved_db_def)
  show ?thesis
    using inventory_cancelled_releases [OF facts]
    by (auto simp: reserved_db_def settle_res_def open_res_def initial_stock_def split: prod.splits sum.splits)
qed

text \<open>
  Completion is complete in the same way: every open reservation of the order is committed and
  its quantity leaves the stock and the reserved quantity, or nothing changes.
\<close>

theorem inventory_completed_commits:
  assumes "stock_ok sys (durable s)" and "scans_ok sys" and "uuid_in sys oid = Some ord"
    and "uuid_in sys eid = Some u" and "processed_events (durable s) u = None"
  shows "case inventory_HandleOrderCompleted sys eid oid s of
     (Inr _, s') \<Rightarrow> \<exists>now. durable s' = settled ReservationStatusCommitted 1 (\<lambda>r. rv_order_id r = ord) now
       (mark_processed u EventTypeOrderCompleted now (durable s))
   | (Inl e, s') \<Rightarrow> \<not> (calm sys (tick s) \<and> varchar_ok sys) \<and> (durable s' = durable s \<or>
       (\<exists>msg. e = Errorf ''commit transaction'' (Driver msg)) \<and>
       (\<exists>now. durable s' = settled ReservationStatusCommitted 1 (\<lambda>r. rv_order_id r = ord) now
          (mark_processed u EventTypeOrderCompleted now (durable s))))"
  unfolding inventory_HandleOrderCompleted_def
  by (rule handler_outcome [OF assms(4,5)])
     (auto simp: event_type_texts smooth_def
        intro: wpc_mono [OF committer.settle_order [OF assms(1,5,3,2)]])

theorem inventory_completed_commits_witness:
  "case inventory_HandleOrderCompleted sample_sys ''f'' ''o'' (inventory_boot reserved_db) of
     (Inr _, s') \<Rightarrow> map rv_status (reservations (durable s')) = [ReservationStatusCommitted] \<and>
       map i_reserved_quantity (inventory (durable s')) = [0] \<and>
       map i_quantity (inventory (durable s')) = [93]
   | (Inl e, s') \<Rightarrow> False"
proof -
  let ?s = "inventory_boot reserved_db"
  have facts: "stock_ok sample_sys (durable ?s)" "scans_ok sample_sys"
    "uuid_in sample_sys ''o'' = Some ''o''" "uuid_in sample_sys ''f'' = Some ''f''"
    "processed_events (durable ?s) ''f'' = None"
    by (simp_all add: sample_uuid_in) (simp add: reserved_db_def)
  show ?thesis
    using inventory_completed_commits [OF facts]
    by (auto simp: reserved_db_def settle_res_def open_res_def initial_stock_def split: prod.splits sum.splits)
qed

text \<open>
  Delivering an event to the inventory service again changes nothing, whatever it says and
  whatever fails: no stock is reserved, released or committed twice for one event.
\<close>

theorem inventory_redelivery:
  assumes "uuid_in sys eid = Some u" and "u \<in> dom (processed_events (durable s))"
  shows "durable (snd (inventory_HandleOrderCreated sys eid oid p cid q amount s)) = durable s \<and>
    durable (snd (inventory_HandleOrderCancelled sys eid oid s)) = durable s \<and>
    durable (snd (inventory_HandleOrderCompleted sys eid oid s)) = durable s"
  unfolding inventory_HandleOrderCreated_def inventory_HandleOrderCancelled_def
    inventory_HandleOrderCompleted_def
  using checker.redelivery_changes_nothing [OF assms] by simp

theorem inventory_redelivery_witness:
  "durable (snd (inventory_HandleOrderCreated sample_sys ''e'' ''o'' ''PROD-001'' ''c'' 2 10 (inventory_boot served_db))) =
     served_db"
  using inventory_redelivery [of sample_sys "''e''" "''e''" "inventory_boot served_db"]
  by (simp add: sample_uuid_in served_db_def)

end
