(* ===== verification/Inventory_Truth.thy ===== *)
theory Inventory_Truth
  imports Inventory_Service Honesty
begin

text \<open>
  Everything the inventory service publishes is true of its database, and stays so: a StockReserved
  event stands for a reservation and for an order that was placed as the event says.
\<close>

section \<open>What the events of the inventory service say\<close>

definition stock_reserved :: "inventory_db \<Rightarrow> string \<Rightarrow> string \<Rightarrow> go_int \<Rightarrow> bool" where
  "stock_reserved db u p q \<longleftrightarrow>
     (\<exists>r \<in> set (reservations db). rv_order_id r = u \<and> rv_product_id r = p \<and> rv_quantity r = sint q)"

text \<open>
  \<open>placed\<close> is what the service is told of the orders: order, customer, product, quantity, amount.
\<close>

fun inventory_true ::
  "sys \<Rightarrow> (string \<Rightarrow> string \<Rightarrow> string \<Rightarrow> go_int \<Rightarrow> float64 \<Rightarrow> bool) \<Rightarrow> inventory_db \<Rightarrow> event \<Rightarrow> bool" where
  "inventory_true sys placed db (EvStockReserved e) \<longleftrightarrow>
     (\<exists>u. uuid_in sys (sr_OrderID e) = Some u \<and> recorded sys db u (EvStockReserved e) \<and>
        stock_reserved db u (sr_ProductID e) (sr_Quantity e) \<and>
        placed u (sr_CustomerID e) (sr_ProductID e) (sr_Quantity e) (sr_TotalAmount e))"
| "inventory_true sys placed db (EvStockReserveFailed e) \<longleftrightarrow>
     (\<exists>u. uuid_in sys (sf_OrderID e) = Some u \<and> recorded sys db u (EvStockReserveFailed e))"
| "inventory_true sys placed db _ \<longleftrightarrow> False"

text \<open>The calls that carry what the service is told.\<close>

fun inventory_call_ok ::
  "sys \<Rightarrow> (string \<Rightarrow> string \<Rightarrow> string \<Rightarrow> go_int \<Rightarrow> float64 \<Rightarrow> bool) \<Rightarrow> inventory_call \<Rightarrow> bool" where
  "inventory_call_ok sys placed (CallOrderCreated eid oid p cid q amount) \<longleftrightarrow>
     (\<exists>u. uuid_in sys oid = Some u \<and> placed u cid p q amount)"
| "inventory_call_ok sys placed _ \<longleftrightarrow> True"

lemma inventory_history_row:
  assumes "inventory_history db db'" and "r \<in> set (reservations db)"
  obtains r' where "r' \<in> set (reservations db')" "res_evolves r r'"
proof -
  have "list_all2 res_evolves (reservations db) (take (length (reservations db)) (reservations db'))"
    using assms(1) by (simp add: inventory_history_def)
  with assms(2) obtain r' where "r' \<in> set (take (length (reservations db)) (reservations db'))" "res_evolves r r'"
    unfolding list_all2_conv_all_nth in_set_conv_nth by metis
  then show ?thesis using that by (meson in_set_takeD)
qed

lemma res_evolves_fields:
  "res_evolves r r' \<Longrightarrow> rv_id r' = rv_id r \<and> rv_order_id r' = rv_order_id r \<and>
     rv_product_id r' = rv_product_id r \<and> rv_quantity r' = rv_quantity r"
  unfolding res_evolves_def by (metis res_row.select_convs(1-4) res_row.surjective res_row.update_convs(5,7))

lemma stock_reserved_stays:
  assumes "inventory_history db db'" and "stock_reserved db u p q"
  shows "stock_reserved db' u p q"
proof -
  obtain r where r: "r \<in> set (reservations db)" "rv_order_id r = u" "rv_product_id r = p" "rv_quantity r = sint q"
    using assms(2) unfolding stock_reserved_def by blast
  obtain r' where r': "r' \<in> set (reservations db')" "res_evolves r r'"
    using inventory_history_row [OF assms(1) r(1)] .
  show ?thesis
    unfolding stock_reserved_def by (rule bexI [OF _ r'(1)]) (simp add: r res_evolves_fields [OF r'(2)])
qed

lemma inventory_truth_stays:
  assumes hist: "inventory_history db db'" and true: "inventory_true sys placed db ev"
  shows "inventory_true sys placed db' ev"
proof -
  have "recorded sys db' u ev'" if "recorded sys db u ev'" for u ev'
    using hist that recorded_kept unfolding inventory_history_def by blast
  with true show ?thesis using stock_reserved_stays [OF hist] by (cases ev) auto
qed

lemma inventory_truth_mono:
  "inventory_true sys placed db ev \<Longrightarrow> (\<And>u c p q a. placed u c p q a \<Longrightarrow> placed' u c p q a) \<Longrightarrow>
   inventory_true sys placed' db ev"
  by (cases ev) auto

lemma inventory_step_tells:
  "inventory_step sys c db db' \<Longrightarrow> inventory_call_ok sys placed c \<Longrightarrow> m \<in> set (outbox db') \<Longrightarrow>
   subject_of m \<in> subject_of ` set (outbox db) \<or>
     (\<exists>ev. tells sys (subject_of m) ev \<and> inventory_true sys placed db' ev)"
proof (induction rule: inventory_step.induct)
  case (answered eid u db oid p q cid amount db')
  from answered(3) show ?case
  proof cases
    case (reserve e m' i r now)
    let ?db1 = "take_stock i now r (mark_processed u EventTypeOrderCreated now db)"
    have "stock_reserved (add_message m' ?db1) (rv_order_id r) (sr_ProductID e) (sr_Quantity e)"
      using reserve by (simp add: stock_reserved_def)
    moreover have "recorded sys (add_message m' ?db1) (rv_order_id r) (EvStockReserved e)"
      by (rule recorded_entry [OF reserve(2)]) (use reserve in simp_all)
    ultimately have "inventory_true sys placed (add_message m' ?db1) (EvStockReserved e)"
      using reserve answered(4) by auto
    with reserve answered(5) show ?thesis by (intro entry_or_old [where ev = "EvStockReserved e"]) auto
  next
    case (refuse e m' now)
    obtain v where v: "uuid_in sys oid = Some v" using answered(4) by auto
    have "recorded sys db' v (EvStockReserveFailed e)"
      unfolding refuse(1) by (rule recorded_entry [OF refuse(2) _ v]) simp
    with v refuse have "inventory_true sys placed db' (EvStockReserveFailed e)" by auto
    with refuse answered(5) show ?thesis by (intro entry_or_old [where ev = "EvStockReserveFailed e"]) auto
  qed
next
  case (relayed db ms)
  from imageI [OF relayed(3), of subject_of] relayed(1) show ?case by (simp add: same_events_subjects)
qed simp_all

lemma silent_for_each [frame]:
  assumes "\<And>x. silent (f x)"
  shows "silent (for_each f xs)"
  by (induction xs) (auto intro!: frame assms)

lemmas inventory_repo_defs =
  inventory_FindByProductID_def inventory_FindByProductIDForUpdate_def inventory_Update_def
  reservation_Save_def reservation_Update_def

lemma silent_find_reservations [frame]: "silent (reservation_FindByOrderIDForUpdate sys oid)"
proof -
  have "silent (go_try (tx_rows sys q) w (\<lambda>(rs, rows_err). go_return (map reservation_of_row rs)))" for q w
    by (intro frame) (auto intro: frame)
  then show ?thesis unfolding silent_def reservation_FindByOrderIDForUpdate_def by blast
qed

lemma inventory_calls_silent:
  "silent (GetInventory sys p)" "silent (inventory_HandleOrderCreated sys eid oid p cid q amount)"
  "silent (inventory_HandleOrderCancelled sys eid oid)" "silent (inventory_HandleOrderCompleted sys eid oid)"
  unfolding GetInventory_def inventory_HandleOrderCreated_def inventory_HandleOrderCancelled_def
    inventory_HandleOrderCompleted_def handle_created_def reserve_stock_def publish_reserve_failed_def
    release_reservation_def commit_reservation_def inventory_repo_defs
    idempotency_gate_def CheckAndMark_def PublishInTx_def NewEvent_defs NewBaseEvent_def
  by (intro frame)+

interpretation inventory_truthful: truthful_service "inventory_exec sys" "inventory_step sys"
    "inventory_ready sys" sys "inventory_true sys placed" "inventory_call_ok sys placed" for sys placed
proof
  fix s :: "inventory_db pg" and c
  assume "inventory_ready sys (durable s)"
  then have "outbox_wf sys (durable s)" "scans_ok sys"
    by (simp_all add: inventory_ready_def inventory_inv_def)
  then show "set (published (inventory_exec sys c s)) \<subseteq> set (published s) \<union> subject_of ` set (outbox (durable s))"
    using relay_publishes by (cases c) (simp_all add: silentD inventory_calls_silent le_supI1)
next
  fix d d' c ev
  assume "inventory_ready sys d" "inventory_step sys c d d'" "inventory_true sys placed d ev"
  then show "inventory_true sys placed d' ev"
    using inventory_step_history inventory_truth_stays by (simp add: inventory_ready_def inventory_inv_def) blast
next
  fix d d' c m
  assume "inventory_call_ok sys placed c" "inventory_step sys c d d'" "m \<in> set (outbox d')"
  then show "subject_of m \<in> subject_of ` set (outbox d) \<or>
      (\<exists>ev. tells sys (subject_of m) ev \<and> inventory_true sys placed d' ev)"
    by (metis inventory_step_tells)
qed

end
