(* ===== verification/Payment_Domain.thy ===== *)
theory Payment_Domain
  imports Service
begin

text \<open>The payment entity (services/payment/internal/domain/payment.go).\<close>

definition PaymentStatusPending :: string where
  "PaymentStatusPending = ''PENDING''"

definition PaymentStatusCompleted :: string where
  "PaymentStatusCompleted = ''COMPLETED''"

definition PaymentStatusFailed :: string where
  "PaymentStatusFailed = ''FAILED''"

definition PaymentStatusRefunded :: string where
  "PaymentStatusRefunded = ''REFUNDED''"

lemmas PaymentStatus_defs =
  PaymentStatusPending_def PaymentStatusCompleted_def PaymentStatusFailed_def PaymentStatusRefunded_def

definition ErrInvalidAmount :: err where
  "ErrInvalidAmount = New ''payment.ErrInvalidAmount'' ''amount must be greater than 0''"

definition ErrPaymentNotFound :: err where
  "ErrPaymentNotFound = New ''payment.ErrPaymentNotFound'' ''payment not found''"

definition payment_ErrInvalidTransition :: err where
  "payment_ErrInvalidTransition = New ''payment.ErrInvalidTransition'' ''invalid status transition''"

record Payment =
  pay_ID :: string
  pay_OrderID :: string
  pay_CustomerID :: string
  pay_Amount :: float64
  pay_Status :: string
  pay_FailureReason :: string
  pay_CreatedAt :: int
  pay_UpdatedAt :: int

definition NewPayment :: "string \<Rightarrow> int \<Rightarrow> string \<Rightarrow> string \<Rightarrow> float64 \<Rightarrow> err + Payment" where
  "NewPayment uuid now orderID customerID amount =
     (if amount \<le> 0 then Inl ErrInvalidAmount
      else Inr \<lparr>pay_ID = uuid, pay_OrderID = orderID, pay_CustomerID = customerID,
                pay_Amount = amount, pay_Status = PaymentStatusPending, pay_FailureReason = '''',
                pay_CreatedAt = now, pay_UpdatedAt = now\<rparr>)"

definition payment_Complete :: "int \<Rightarrow> Payment \<Rightarrow> err + Payment" where
  "payment_Complete now p =
     (if pay_Status p \<noteq> PaymentStatusPending then Inl payment_ErrInvalidTransition
      else Inr (p\<lparr>pay_Status := PaymentStatusCompleted, pay_UpdatedAt := now\<rparr>))"

definition payment_Fail :: "string \<Rightarrow> int \<Rightarrow> Payment \<Rightarrow> err + Payment" where
  "payment_Fail reason now p =
     (if pay_Status p \<noteq> PaymentStatusPending then Inl payment_ErrInvalidTransition
      else Inr (p\<lparr>pay_Status := PaymentStatusFailed, pay_FailureReason := reason, pay_UpdatedAt := now\<rparr>))"

definition payment_Refund :: "int \<Rightarrow> Payment \<Rightarrow> err + Payment" where
  "payment_Refund now p =
     (if pay_Status p \<noteq> PaymentStatusCompleted then Inl payment_ErrInvalidTransition
      else Inr (p\<lparr>pay_Status := PaymentStatusRefunded, pay_UpdatedAt := now\<rparr>))"

definition payment_IsCompleted :: "Payment \<Rightarrow> bool" where
  "payment_IsCompleted p \<longleftrightarrow> pay_Status p = PaymentStatusCompleted"

definition payment_IsFailed :: "Payment \<Rightarrow> bool" where
  "payment_IsFailed p \<longleftrightarrow> pay_Status p = PaymentStatusFailed"

lemmas payment_method_defs = payment_Complete_def payment_Fail_def payment_Refund_def


section \<open>The status machine\<close>

inductive payment_transition :: "string \<Rightarrow> string \<Rightarrow> bool" where
  complete: "payment_transition PaymentStatusPending PaymentStatusCompleted"
| fail: "payment_transition PaymentStatusPending PaymentStatusFailed"
| refund: "payment_transition PaymentStatusCompleted PaymentStatusRefunded"

inductive_simps payment_transition_iff: "payment_transition st st'"

definition payment_methods :: "(Payment \<Rightarrow> err + Payment) set" where
  "payment_methods =
     range payment_Complete \<union> range (\<lambda>(reason, now). payment_Fail reason now) \<union> range payment_Refund"

definition payment_terminal :: "string \<Rightarrow> bool" where
  "payment_terminal st \<longleftrightarrow> st = PaymentStatusFailed \<or> st = PaymentStatusRefunded"

interpretation payment_machine: status_machine pay_Status payment_methods payment_transition payment_terminal
  by unfold_locales
    (auto simp: payment_methods_def payment_method_defs payment_transition_iff payment_terminal_def
       PaymentStatus_defs split: if_splits)

text \<open>
  whatever sequence of Complete, Fail and Refund is called on a payment, its status moves only
  from PENDING to COMPLETED or FAILED and from COMPLETED to REFUNDED; a failed or refunded payment
  stays so.
\<close>

theorem payment_status_path:
  assumes "set fs \<subseteq> payment_methods"
  shows "payment_transition\<^sup>*\<^sup>* (pay_Status p) (pay_Status (apply_methods fs p)) \<and>
    (payment_IsFailed p \<longrightarrow> payment_IsFailed (apply_methods fs p)) \<and>
    (pay_Status p = PaymentStatusRefunded \<longrightarrow> pay_Status (apply_methods fs p) = PaymentStatusRefunded)"
  using payment_machine.status_path [OF assms] payment_machine.terminal_forever [OF assms, of p]
  by (auto simp: payment_IsFailed_def payment_terminal_def)

definition sample_payment :: Payment where
  "sample_payment =
     \<lparr>pay_ID = ''p'', pay_OrderID = ''o'', pay_CustomerID = ''c'', pay_Amount = 10,
      pay_Status = PaymentStatusFailed, pay_FailureReason = ''declined'', pay_CreatedAt = 1, pay_UpdatedAt = 2\<rparr>"

theorem payment_status_path_witness:
  "payment_IsFailed (apply_methods [payment_Complete 3, payment_Refund 4] sample_payment)"
  using payment_status_path [of "[payment_Complete 3, payment_Refund 4]" sample_payment]
  by (auto simp: payment_methods_def payment_IsFailed_def sample_payment_def)

end
