(* ===== verification/Payment_Repo.thy ===== *)
theory Payment_Repo
  imports Payment_Domain
begin

text \<open>
  The payment database (scripts/init-payment-db.sql) and the repository on it
  (services/payment/internal/infrastructure/repository.go). \<open>order_id\<close> is not unique: a query by
  order returns the first row the server returns.
\<close>

record pay_row =
  p_id :: string
  p_order_id :: string
  p_customer_id :: string
  p_amount :: int
  p_status :: string
  p_failure_reason :: "string option"
  p_created_at :: int
  p_updated_at :: int

record payment_db = core_db +
  payments :: "pay_row list"

definition payment_of_row :: "sys \<Rightarrow> pay_row \<Rightarrow> Payment" where
  "payment_of_row sys r =
     \<lparr>pay_ID = p_id r, pay_OrderID = p_order_id r, pay_CustomerID = p_customer_id r,
      pay_Amount = numeric_out sys (p_amount r), pay_Status = p_status r,
      pay_FailureReason = (case p_failure_reason r of None \<Rightarrow> '''' | Some x \<Rightarrow> x),
      pay_CreatedAt = p_created_at r, pay_UpdatedAt = p_updated_at r\<rparr>"

definition insert_payment :: "sys \<Rightarrow> Payment \<Rightarrow> int \<Rightarrow> payment_db \<Rightarrow> (unit, payment_db) reply" where
  "insert_payment sys pay now db =
     (case (uuid_in sys (pay_ID pay), uuid_in sys (pay_OrderID pay), numeric_in sys (pay_Amount pay)) of
        (Some u, Some ord, Some amount) \<Rightarrow>
          if \<not> (text_ok sys 255 (pay_CustomerID pay) \<and> text_ok sys 50 (pay_Status pay) \<and>
                text_in sys (pay_FailureReason pay)) then ServerReject value_too_long
          else if u \<in> p_id ` set (payments db) then ServerReject unique_violation
          else Done () (db\<lparr>payments := payments db @
            [\<lparr>p_id = u, p_order_id = ord, p_customer_id = pay_CustomerID pay, p_amount = amount,
              p_status = pay_Status pay, p_failure_reason = Some (pay_FailureReason pay),
              p_created_at = timestamptz sys (pay_CreatedAt pay),
              p_updated_at = timestamptz sys (pay_UpdatedAt pay)\<rparr>]\<rparr>)
      | (Some u, Some ord, None) \<Rightarrow> ServerReject out_of_range
      | _ \<Rightarrow> ServerReject invalid_uuid)"

definition payment_Save :: "sys \<Rightarrow> Payment \<Rightarrow> (payment_db pg, unit) go" where
  "payment_Save sys pay = go_try (tx_stmt sys (insert_payment sys pay)) ''insert payment'' go_return"

definition set_payment :: "string \<Rightarrow> string \<Rightarrow> string \<Rightarrow> int \<Rightarrow> payment_db \<Rightarrow> payment_db" where
  "set_payment u st reason now db =
     db\<lparr>payments := upd_where (\<lambda>r. p_id r = u)
          (\<lambda>r. r\<lparr>p_status := st, p_failure_reason := Some reason, p_updated_at := now\<rparr>) (payments db)\<rparr>"

definition update_payment :: "sys \<Rightarrow> Payment \<Rightarrow> int \<Rightarrow> payment_db \<Rightarrow> (nat, payment_db) reply" where
  "update_payment sys pay now db =
     (case uuid_in sys (pay_ID pay) of
        None \<Rightarrow> ServerReject invalid_uuid
      | Some u \<Rightarrow>
          if \<not> (text_ok sys 50 (pay_Status pay) \<and> text_in sys (pay_FailureReason pay))
          then ServerReject value_too_long
          else Done (length (filter (\<lambda>r. p_id r = u) (payments db)))
                 (set_payment u (pay_Status pay) (pay_FailureReason pay) now db))"

definition payment_Update :: "sys \<Rightarrow> Payment \<Rightarrow> (payment_db pg, unit) go" where
  "payment_Update sys pay =
     go_try (tx_stmt sys (update_payment sys pay)) ''update payment'' (\<lambda>rows.
       if rows = 0 then go_fail ErrPaymentNotFound else go_return ())"

definition select_payment :: "sys \<Rightarrow> string \<Rightarrow> int \<Rightarrow> payment_db \<Rightarrow> (pay_row, payment_db) reply" where
  "select_payment sys paymentID now db =
     (case uuid_in sys paymentID of
        None \<Rightarrow> ServerReject invalid_uuid
      | Some u \<Rightarrow>
          (case find (\<lambda>r. p_id r = u) (payments db) of
             None \<Rightarrow> ClientReject ErrNoRows
           | Some r \<Rightarrow> Done r db))"

definition select_payment_of_order ::
  "sys \<Rightarrow> nat \<Rightarrow> string \<Rightarrow> int \<Rightarrow> payment_db \<Rightarrow> (pay_row, payment_db) reply" where
  "select_payment_of_order sys t orderID now db =
     (case uuid_in sys orderID of
        None \<Rightarrow> ServerReject invalid_uuid
      | Some u \<Rightarrow>
          (case scan sys t (filter (\<lambda>r. p_order_id r = u) (payments db)) of
             [] \<Rightarrow> ClientReject ErrNoRows
           | r # _ \<Rightarrow> Done r db))"

definition payment_not_found :: "string \<Rightarrow> err \<Rightarrow> (payment_db pg, Payment) go" where
  "payment_not_found w e =
     (if e = ErrNoRows then go_fail ErrPaymentNotFound else go_fail (Errorf w e))"

definition payment_FindByID :: "sys \<Rightarrow> string \<Rightarrow> (payment_db pg, Payment) go" where
  "payment_FindByID sys paymentID =
     go_catch (pool_stmt sys (select_payment sys paymentID)) (payment_not_found ''query payment'')
       (\<lambda>r. go_return (payment_of_row sys r))"

definition payment_FindByOrderID :: "sys \<Rightarrow> string \<Rightarrow> (payment_db pg, Payment) go" where
  "payment_FindByOrderID sys orderID s =
     go_catch (pool_stmt sys (select_payment_of_order sys (tick s) orderID))
       (payment_not_found ''query payment'') (\<lambda>r. go_return (payment_of_row sys r)) s"

definition payment_FindByOrderIDForUpdate :: "sys \<Rightarrow> string \<Rightarrow> (payment_db pg, Payment) go" where
  "payment_FindByOrderIDForUpdate sys orderID s =
     go_catch (tx_stmt sys (select_payment_of_order sys (tick s) orderID))
       (payment_not_found ''query payment for update'') (\<lambda>r. go_return (payment_of_row sys r)) s"


section \<open>Rules for the repository\<close>

lemma payment_of_row_fields [simp]:
  "pay_ID (payment_of_row sys r) = p_id r" "pay_OrderID (payment_of_row sys r) = p_order_id r"
  "pay_Status (payment_of_row sys r) = p_status r"
  by (simp_all add: payment_of_row_def)

lemma set_payment_fields [simp]:
  "processed_events (set_payment u st reason now db) = processed_events db"
  "outbox (set_payment u st reason now db) = outbox db"
  "map p_id (payments (set_payment u st reason now db)) = map p_id (payments db)"
  by (simp_all add: set_payment_def)

lemma payments_core [simp]:
  fixes pdb :: payment_db
  shows "payments (mark_processed u ety now pdb) = payments pdb"
    "payments (add_message m pdb) = payments pdb"
  by (simp_all add: mark_processed_def add_message_def)

lemma outbox_entry_payments [simp]:
  fixes pdb :: payment_db
  shows "outbox_entry sys agg ai et ev (pdb\<lparr>payments := ps\<rparr>) m = outbox_entry sys agg ai et ev pdb m"
  by (simp add: outbox_entry_def)

lemma insert_payment_Done:
  "insert_payment sys pay now db = Done x db' \<longleftrightarrow>
     text_ok sys 255 (pay_CustomerID pay) \<and> text_ok sys 50 (pay_Status pay) \<and>
     text_in sys (pay_FailureReason pay) \<and>
     (\<exists>u ord amount. uuid_in sys (pay_ID pay) = Some u \<and> uuid_in sys (pay_OrderID pay) = Some ord \<and>
        numeric_in sys (pay_Amount pay) = Some amount \<and> u \<notin> p_id ` set (payments db) \<and>
        db' = db\<lparr>payments := payments db @
            [\<lparr>p_id = u, p_order_id = ord, p_customer_id = pay_CustomerID pay, p_amount = amount,
              p_status = pay_Status pay, p_failure_reason = Some (pay_FailureReason pay),
              p_created_at = timestamptz sys (pay_CreatedAt pay),
              p_updated_at = timestamptz sys (pay_UpdatedAt pay)\<rparr>]\<rparr>)"
  by (auto simp: insert_payment_def split: option.splits)

lemma select_payment_of_order_Done:
  "select_payment_of_order sys t oid now db = Done r db' \<Longrightarrow> scans_ok sys \<Longrightarrow>
     db' = db \<and> r \<in> set (payments db) \<and> uuid_in sys oid = Some (p_order_id r)"
proof -
  assume sel: "select_payment_of_order sys t oid now db = Done r db'" and scans: "scans_ok sys"
  then obtain u rest where u: "uuid_in sys oid = Some u" "db' = db"
    and "scan sys t (filter (\<lambda>r. p_order_id r = u) (payments db)) = r # rest"
    by (auto simp: select_payment_of_order_def split: option.splits list.splits)
  then have "r \<in> set (filter (\<lambda>r. p_order_id r = u) (payments db))"
    using set_scan [OF scans, of t "filter (\<lambda>r. p_order_id r = u) (payments db)"]
    by (metis list.set_intros(1))
  with u show ?thesis by simp
qed

lemma wpc_payment_not_found:
  "wpc (payment_not_found w e) Q E = E (if e = ErrNoRows then ErrPaymentNotFound else Errorf w e)"
  by (simp add: payment_not_found_def wp)

lemma wpc_payment_Save [wp]:
  "wpc (payment_Save sys pay) Q E s =
     wpc (tx_stmt sys (insert_payment sys pay)) Q (\<lambda>e. E (Errorf ''insert payment'' e)) s"
  by (simp add: payment_Save_def wp)

lemma wpc_payment_Update [wp]:
  "wpc (payment_Update sys pay) Q E s =
     wpc (tx_stmt sys (update_payment sys pay))
       (\<lambda>rows. if rows = 0 then E ErrPaymentNotFound else Q ())
       (\<lambda>e. E (Errorf ''update payment'' e)) s"
  by (simp add: payment_Update_def wp wpc_if cong: if_cong)

lemma wpc_payment_FindByOrderID [wp]:
  "wpc (payment_FindByOrderID sys oid) Q E s =
     wpc (pool_stmt sys (select_payment_of_order sys (tick s) oid)) (\<lambda>r. Q (payment_of_row sys r))
       (\<lambda>e. E (if e = ErrNoRows then ErrPaymentNotFound else Errorf ''query payment'' e)) s"
proof -
  have "wpc (payment_FindByOrderID sys oid) Q E s =
      wpc (go_catch (pool_stmt sys (select_payment_of_order sys (tick s) oid))
        (payment_not_found ''query payment'') (\<lambda>r. go_return (payment_of_row sys r))) Q E s"
    by (simp add: payment_FindByOrderID_def wpc_def)
  then show ?thesis by (simp add: wp wpc_payment_not_found)
qed

lemma wpc_payment_FindForUpdate [wp]:
  "wpc (payment_FindByOrderIDForUpdate sys oid) Q E s =
     wpc (tx_stmt sys (select_payment_of_order sys (tick s) oid)) (\<lambda>r. Q (payment_of_row sys r))
       (\<lambda>e. E (if e = ErrNoRows then ErrPaymentNotFound else Errorf ''query payment for update'' e)) s"
proof -
  have "wpc (payment_FindByOrderIDForUpdate sys oid) Q E s =
      wpc (go_catch (tx_stmt sys (select_payment_of_order sys (tick s) oid))
        (payment_not_found ''query payment for update'') (\<lambda>r. go_return (payment_of_row sys r))) Q E s"
    by (simp add: payment_FindByOrderIDForUpdate_def wpc_def)
  then show ?thesis by (simp add: wp wpc_payment_not_found)
qed

end
