(* ===== verification/Payment_UseCase.thy ===== *)
theory Payment_UseCase
  imports Payment_Repo
begin

text \<open>
  The payment service's use cases (services/payment/internal/application/usecase.go): charging for
  reserved stock and refunding a cancelled order.
\<close>

record PaymentUseCase =
  simulateFailure :: bool

definition SetSimulateFailure :: "bool \<Rightarrow> PaymentUseCase \<Rightarrow> PaymentUseCase" where
  "SetSimulateFailure simulate uc = uc\<lparr>simulateFailure := simulate\<rparr>"

definition GetPayment :: "sys \<Rightarrow> string \<Rightarrow> (payment_db pg, Payment) go" where
  "GetPayment sys orderID = payment_FindByOrderID sys orderID"

text \<open>
  \<open>int(x)\<close> of a \<open>float64\<close>: what Go leaves to the implementation, a value outside the range of
  \<open>int\<close>, is a parameter.
\<close>

definition int_of_float :: "sys \<Rightarrow> float64 \<Rightarrow> go_int" where
  "int_of_float sys x =
     (if int8_ok (float_trunc x) then word_of_int (float_trunc x) else int_of_big_float sys x)"

text \<open>\<open>int(amount*100)%100 == 99\<close>\<close>

definition ends_in_99 :: "sys \<Rightarrow> float64 \<Rightarrow> bool" where
  "ends_in_99 sys amount \<longleftrightarrow>
     go_rem (sint (case round64 (amount * 100) of
                     None \<Rightarrow> int_of_big_float sys (amount * 100)
                   | Some x \<Rightarrow> int_of_float sys x)) 100 = 99"

text \<open>The \<open>float64\<close> nearest to 0.1.\<close>

definition tenth :: float64 where
  "tenth = 3602879701896397 / 36028797018963968"

definition shouldFailPayment :: "sys \<Rightarrow> PaymentUseCase \<Rightarrow> float64 \<Rightarrow> (payment_db pg, bool) go" where
  "shouldFailPayment sys uc amount =
     (if simulateFailure uc then go_return True
      else if ends_in_99 sys amount then go_return True
      else go_bind go_tick (\<lambda>t. go_return (rand_Float64 sys t < tenth)))"

definition charge_failed ::
  "sys \<Rightarrow> string \<Rightarrow> Payment \<Rightarrow> (payment_db pg, unit) go" where
  "charge_failed sys orderID pay =
     go_bind (go_now sys) (\<lambda>now.
     go_try (go_lift (payment_Fail ''Payment declined by provider'' now pay)) ''fail payment'' (\<lambda>pay.
     go_try (payment_Save sys pay) ''save payment'' (\<lambda>_.
     go_bind (NewPaymentFailedEvent sys orderID (pay_FailureReason pay)) (\<lambda>failEvent.
     go_try (PublishInTx sys ''Payment'' orderID EventTypePaymentFailed (EvPaymentFailed failEvent))
       ''publish failure event'' (\<lambda>_.
     go_try (tx_Commit sys) ''commit transaction'' go_return)))))"

definition charge_completed ::
  "sys \<Rightarrow> string \<Rightarrow> float64 \<Rightarrow> Payment \<Rightarrow> (payment_db pg, unit) go" where
  "charge_completed sys orderID amount pay =
     go_bind (go_now sys) (\<lambda>now.
     go_try (go_lift (payment_Complete now pay)) ''complete payment'' (\<lambda>pay.
     go_try (payment_Save sys pay) ''save payment'' (\<lambda>_.
     go_bind (NewPaymentCompletedEvent sys orderID (pay_ID pay) amount) (\<lambda>successEvent.
     go_try (PublishInTx sys ''Payment'' orderID EventTypePaymentCompleted
               (EvPaymentCompleted successEvent)) ''publish success event'' (\<lambda>_.
     go_try (tx_Commit sys) ''commit transaction'' go_return)))))"

definition payment_HandleStockReserved ::
  "sys \<Rightarrow> PaymentUseCase \<Rightarrow> string \<Rightarrow> string \<Rightarrow> string \<Rightarrow> float64 \<Rightarrow> (payment_db pg, unit) go" where
  "payment_HandleStockReserved sys uc eventID orderID customerID amount =
     with_tx sys
       (idempotency_gate (CheckAndMark sys eventID EventTypeStockReserved)
         (go_bind (go_now sys) (\<lambda>now.
          go_bind (go_uuid sys) (\<lambda>uuid.
          go_try (go_lift (NewPayment uuid now orderID customerID amount)) ''create payment'' (\<lambda>pay.
          go_bind (shouldFailPayment sys uc amount) (\<lambda>fails.
          if fails then charge_failed sys orderID pay
          else charge_completed sys orderID amount pay))))))"

definition refund_if_completed :: "sys \<Rightarrow> Payment \<Rightarrow> (payment_db pg, unit) go" where
  "refund_if_completed sys pay =
     (if payment_IsCompleted pay
      then go_bind (go_now sys) (\<lambda>now.
           case payment_Refund now pay of
             Inl _ \<Rightarrow> go_return ()
           | Inr pay \<Rightarrow> go_try (payment_Update sys pay) ''update payment'' go_return)
      else go_return ())"

definition payment_HandleOrderCancelled :: "sys \<Rightarrow> string \<Rightarrow> string \<Rightarrow> (payment_db pg, unit) go" where
  "payment_HandleOrderCancelled sys eventID orderID =
     with_tx sys
       (idempotency_gate (CheckAndMark sys eventID EventTypeOrderCancelled)
         (go_catch (payment_FindByOrderIDForUpdate sys orderID)
           (\<lambda>e. if errors_Is e ErrPaymentNotFound
                then go_try (tx_Commit sys) ''commit transaction'' go_return
                else go_fail (Errorf ''find payment'' e))
           (\<lambda>pay. go_bind (refund_if_completed sys pay) (\<lambda>_.
                  go_try (tx_Commit sys) ''commit transaction'' go_return))))"

end
