(* ===== verification/Payment_Spec.thy ===== *)
theory Payment_Spec
  imports Payment_UseCase
begin

text \<open>
  What the payment service promises: every StockReserved event is answered by exactly one payment,
  settled and announced in one transaction; a payment changes only by a refund.
\<close>

section \<open>Deciding and charging\<close>

text \<open>
  The decision: the test switch and an amount that ends in 99 cents decline, anything else is
  declined when the random number drawn is below a tenth.
\<close>

definition decision :: "sys \<Rightarrow> PaymentUseCase \<Rightarrow> float64 \<Rightarrow> bool \<Rightarrow> bool" where
  "decision sys uc amount declined \<longleftrightarrow>
     (if simulateFailure uc \<or> ends_in_99 sys amount then declined
      else \<exists>t. declined = (rand_Float64 sys t < tenth))"

definition decline_reason :: string where
  "decline_reason = ''Payment declined by provider''"

definition add_payment :: "pay_row \<Rightarrow> payment_db \<Rightarrow> payment_db" where
  "add_payment r db = db\<lparr>payments := payments db @ [r]\<rparr>"

text \<open>The payment a charge adds, and the event that announces it.\<close>

inductive payment_charge ::
  "sys \<Rightarrow> string \<Rightarrow> string \<Rightarrow> string \<Rightarrow> float64 \<Rightarrow> bool \<Rightarrow> payment_db \<Rightarrow> payment_db \<Rightarrow> bool"
  for sys u oid cid amount where
  accepted: "outbox_entry sys ''Payment'' oid EventTypePaymentCompleted (EvPaymentCompleted e) db m \<Longrightarrow>
    uuid_in sys oid = Some (p_order_id r) \<Longrightarrow> uuid_in sys (pc_PaymentID e) = Some (p_id r) \<Longrightarrow>
    p_id r \<notin> p_id ` set (payments db) \<Longrightarrow> p_customer_id r = cid \<Longrightarrow> 0 < amount \<Longrightarrow>
    numeric_in sys amount = Some (p_amount r) \<Longrightarrow> p_status r = PaymentStatusCompleted \<Longrightarrow>
    p_failure_reason r = Some '''' \<Longrightarrow> pc_OrderID e = oid \<Longrightarrow> pc_Amount e = amount \<Longrightarrow>
    payment_charge sys u oid cid amount False db
      (add_message m (add_payment r (mark_processed u EventTypeStockReserved now db)))"
| declined: "outbox_entry sys ''Payment'' oid EventTypePaymentFailed (EvPaymentFailed e) db m \<Longrightarrow>
    uuid_in sys oid = Some (p_order_id r) \<Longrightarrow> uuid_in sys (uuid_New sys t) = Some (p_id r) \<Longrightarrow>
    p_id r \<notin> p_id ` set (payments db) \<Longrightarrow> p_customer_id r = cid \<Longrightarrow> 0 < amount \<Longrightarrow>
    numeric_in sys amount = Some (p_amount r) \<Longrightarrow> p_status r = PaymentStatusFailed \<Longrightarrow>
    p_failure_reason r = Some decline_reason \<Longrightarrow> pf_OrderID e = oid \<Longrightarrow> pf_Reason e = decline_reason \<Longrightarrow>
    payment_charge sys u oid cid amount True db
      (add_message m (add_payment r (mark_processed u EventTypeStockReserved now db)))"

text \<open>
  The answer to an OrderCancelled event: a payment of the order is refunded if it was completed;
  otherwise only the event is recorded.
\<close>

inductive payment_cancel :: "string \<Rightarrow> string \<Rightarrow> payment_db \<Rightarrow> payment_db \<Rightarrow> bool" for u ord where
  refunded: "r \<in> set (payments db) \<Longrightarrow> p_order_id r = ord \<Longrightarrow> p_status r = PaymentStatusCompleted \<Longrightarrow>
    payment_cancel u ord db (set_payment (p_id r) PaymentStatusRefunded
      (case p_failure_reason r of None \<Rightarrow> '''' | Some x \<Rightarrow> x) now (mark_processed u EventTypeOrderCancelled now db))"
| not_completed: "r \<in> set (payments db) \<Longrightarrow> p_order_id r = ord \<Longrightarrow> p_status r \<noteq> PaymentStatusCompleted \<Longrightarrow>
    payment_cancel u ord db (mark_processed u EventTypeOrderCancelled now db)"
| no_payment: "ord \<notin> p_order_id ` set (payments db) \<Longrightarrow>
    payment_cancel u ord db (mark_processed u EventTypeOrderCancelled now db)"

text \<open>
  The calls of the service; the switch of the simulated provider is given with each call, since
  \<open>SetSimulateFailure\<close> may change it at any time.
\<close>

datatype payment_call =
    CallPaymentStockReserved PaymentUseCase string string string float64
  | CallPaymentOrderCancelled string string
  | CallGetPayment string
  | CallPaymentRelay

text \<open>The steps, each with the call that causes it.\<close>

inductive payment_step :: "sys \<Rightarrow> payment_call \<Rightarrow> payment_db \<Rightarrow> payment_db \<Rightarrow> bool" for sys where
  charged: "uuid_in sys eid = Some u \<Longrightarrow> processed_events db u = None \<Longrightarrow> decision sys uc amount declined \<Longrightarrow>
    payment_charge sys u oid cid amount declined db db' \<Longrightarrow>
    payment_step sys (CallPaymentStockReserved uc eid oid cid amount) db db'"
| cancelled: "uuid_in sys eid = Some u \<Longrightarrow> processed_events db u = None \<Longrightarrow> uuid_in sys oid = Some ord \<Longrightarrow>
    payment_cancel u ord db db' \<Longrightarrow> payment_step sys (CallPaymentOrderCancelled eid oid) db db'"
| relayed: "same_events (outbox db) ms \<Longrightarrow> payment_step sys CallPaymentRelay db (db\<lparr>outbox := ms\<rparr>)"


section \<open>The invariant\<close>

definition payment_keys_ok :: "sys \<Rightarrow> payment_db \<Rightarrow> bool" where
  "payment_keys_ok sys db \<longleftrightarrow>
     distinct (map p_id (payments db)) \<and> canonical_ids sys (set (map p_id (payments db)))"

text \<open>A stored payment is settled: PENDING payments never become durable.\<close>

definition pay_row_ok :: "pay_row \<Rightarrow> bool" where
  "pay_row_ok r \<longleftrightarrow>
     (p_status r = PaymentStatusFailed \<and> p_failure_reason r = Some decline_reason) \<or>
     (p_status r \<in> {PaymentStatusCompleted, PaymentStatusRefunded} \<and> p_failure_reason r = Some '''')"

text \<open>How many payments of an order were accepted, or declined.\<close>

definition accepted_payments :: "string \<Rightarrow> payment_db \<Rightarrow> nat" where
  "accepted_payments ord db =
     length (filter (\<lambda>r. p_order_id r = ord \<and> p_status r \<noteq> PaymentStatusFailed) (payments db))"

definition declined_payments :: "string \<Rightarrow> payment_db \<Rightarrow> nat" where
  "declined_payments ord db =
     length (filter (\<lambda>r. p_order_id r = ord \<and> p_status r = PaymentStatusFailed) (payments db))"

definition payment_announced :: "sys \<Rightarrow> payment_db \<Rightarrow> bool" where
  "payment_announced sys db \<longleftrightarrow>
     finite (dom (processed_events db)) \<and>
     length (payments db) = card (processed_of EventTypeStockReserved db) \<and>
     event_count [EventTypePaymentCompleted, EventTypePaymentFailed] db =
       card (processed_of EventTypeStockReserved db) \<and>
     (\<forall>ord. announcements sys db EventTypePaymentCompleted ord = accepted_payments ord db \<and>
            announcements sys db EventTypePaymentFailed ord = declined_payments ord db)"

definition payment_inv :: "sys \<Rightarrow> payment_db \<Rightarrow> bool" where
  "payment_inv sys db \<longleftrightarrow>
     payment_keys_ok sys db \<and> (\<forall>r \<in> set (payments db). pay_row_ok r) \<and> outbox_wf sys db \<and>
     payment_announced sys db"

lemma add_payment_fields [simp]:
  "payments (add_payment r db) = payments db @ [r]"
  "processed_events (add_payment r db) = processed_events db"
  "outbox (add_payment r db) = outbox db"
  by (simp_all add: add_payment_def)

lemma payment_counts [simp]:
  fixes pdb :: payment_db
  shows "announcements sys (add_payment r pdb) = announcements sys pdb"
    "announcements sys (set_payment v st x now pdb) = announcements sys pdb"
    "event_count etys (add_payment r pdb) = event_count etys pdb"
    "event_count etys (set_payment v st x now pdb) = event_count etys pdb"
    "processed_of ety (add_payment r pdb) = processed_of ety pdb"
    "processed_of ety (set_payment v st x now pdb) = processed_of ety pdb"
    "outbox_wf sys (add_payment r pdb) = outbox_wf sys pdb"
    "outbox_wf sys (set_payment v st x now pdb) = outbox_wf sys pdb"
    "outbox_wf sys (mark_processed u ety now pdb) = outbox_wf sys pdb"
    "outbox_entry sys agg ai et ev (add_payment r pdb) m = outbox_entry sys agg ai et ev pdb m"
  by (simp_all add: announcements_def event_count_def processed_of_def outbox_wf_def outbox_entry_def fun_eq_iff)

lemma payments_of_order_add [simp]:
  "accepted_payments ord (add_payment r db) =
     accepted_payments ord db + (if p_order_id r = ord \<and> p_status r \<noteq> PaymentStatusFailed then 1 else 0)"
  "declined_payments ord (add_payment r db) =
     declined_payments ord db + (if p_order_id r = ord \<and> p_status r = PaymentStatusFailed then 1 else 0)"
  by (simp_all add: accepted_payments_def declined_payments_def)

lemma payments_of_order_core [simp]:
  "accepted_payments ord (mark_processed u ety now db) = accepted_payments ord db"
  "declined_payments ord (mark_processed u ety now db) = declined_payments ord db"
  "accepted_payments ord (add_message m db) = accepted_payments ord db"
  "declined_payments ord (add_message m db) = declined_payments ord db"
  "accepted_payments ord (db\<lparr>outbox := ms\<rparr>) = accepted_payments ord db"
  "declined_payments ord (db\<lparr>outbox := ms\<rparr>) = declined_payments ord db"
  by (simp_all add: accepted_payments_def declined_payments_def)

lemma filter_refunded:
  assumes "distinct (map p_id rs)" and "r \<in> set rs" and "p_status r = PaymentStatusCompleted"
  shows "length (filter (\<lambda>x. p_order_id x = ord \<and> Q (p_status x = PaymentStatusFailed))
      (upd_where (\<lambda>x. p_id x = p_id r) (\<lambda>x. x\<lparr>p_status := PaymentStatusRefunded,
         p_failure_reason := z, p_updated_at := now\<rparr>) rs)) =
    length (filter (\<lambda>x. p_order_id x = ord \<and> Q (p_status x = PaymentStatusFailed)) rs)"
proof -
  have "p_status x \<noteq> PaymentStatusFailed" if "x \<in> set rs" "p_id x = p_id r" for x
    using distinct_key_eq [OF assms(1) that(1) assms(2) that(2)] assms(3) by (simp add: PaymentStatus_defs)
  then show ?thesis
    unfolding upd_where_def filter_map length_map
    by (intro arg_cong [where f = length] filter_cong) (auto simp: PaymentStatus_defs)
qed

lemma payments_of_order_refund:
  assumes "payment_keys_ok sys db" and "r \<in> set (payments db)" and "p_status r = PaymentStatusCompleted"
  shows "accepted_payments ord (set_payment (p_id r) PaymentStatusRefunded z now db) = accepted_payments ord db"
    "declined_payments ord (set_payment (p_id r) PaymentStatusRefunded z now db) = declined_payments ord db"
  using filter_refunded [OF _ assms(2,3), of ord Not] filter_refunded [OF _ assms(2,3), of ord "\<lambda>x. x"] assms(1)
  by (simp_all add: accepted_payments_def declined_payments_def set_payment_def payment_keys_ok_def)

lemma payment_keys_ok_core [simp]:
  "payment_keys_ok sys (mark_processed u ety now db) = payment_keys_ok sys db"
  "payment_keys_ok sys (add_message m db) = payment_keys_ok sys db"
  "payment_keys_ok sys (set_payment v st z now db) = payment_keys_ok sys db"
  unfolding payment_keys_ok_def by simp_all

lemma payment_keys_ok_add:
  "uuids_ok sys \<Longrightarrow> uuid_in sys x = Some (p_id r) \<Longrightarrow> p_id r \<notin> p_id ` set (payments db) \<Longrightarrow>
   payment_keys_ok sys db \<Longrightarrow> payment_keys_ok sys (add_payment r db)"
  by (auto simp: payment_keys_ok_def canonical_ids_def uuids_ok_def)

lemma payment_step_keys:
  "payment_step sys c db db' \<Longrightarrow> uuids_ok sys \<Longrightarrow> payment_keys_ok sys db \<Longrightarrow> payment_keys_ok sys db'"
proof (induction rule: payment_step.induct)
  case (charged eid u db uc amount declined oid cid db')
  from charged(4) charged(2,5,6) show ?case by cases (auto intro: payment_keys_ok_add)
next
  case (cancelled eid u db oid ord db')
  from cancelled(4) cancelled(6) show ?case by cases auto
next
  case (relayed db ms)
  then show ?case by (simp add: payment_keys_ok_def)
qed

lemma payment_step_outbox:
  "payment_step sys c db db' \<Longrightarrow> uuids_ok sys \<Longrightarrow> outbox_wf sys db \<Longrightarrow> outbox_wf sys db'"
proof (induction rule: payment_step.induct)
  case (charged eid u db uc amount declined oid cid db')
  from charged(4) charged(5,6) show ?case by cases (auto intro!: outbox_wf_add_message)
next
  case (cancelled eid u db oid ord db')
  from cancelled(4) cancelled(6) show ?case by cases auto
next
  case (relayed db ms)
  then show ?case by (simp add: outbox_wf_same_events)
qed

lemma pay_row_ok_refunded [simp]:
  "pay_row_ok (r\<lparr>p_status := PaymentStatusRefunded, p_failure_reason := Some '''', p_updated_at := now\<rparr>)"
  by (simp add: pay_row_ok_def)

lemma payment_step_rows:
  "payment_step sys c db db' \<Longrightarrow> payment_keys_ok sys db \<Longrightarrow> \<forall>r \<in> set (payments db). pay_row_ok r \<Longrightarrow>
   \<forall>r \<in> set (payments db'). pay_row_ok r"
proof (induction rule: payment_step.induct)
  case (charged eid u db uc amount declined oid cid db')
  from charged(4) charged(6) show ?case by cases (auto simp: pay_row_ok_def)
next
  case (cancelled eid u db oid ord db')
  from cancelled(4) show ?case
  proof cases
    case (refunded r now)
    have "p_failure_reason r = Some ''''"
      using cancelled(6) refunded by (auto simp: pay_row_ok_def PaymentStatus_defs)
    with refunded cancelled(6) show ?thesis
      by (auto simp: set_payment_def in_set_upd_where)
  qed (use cancelled(6) in simp_all)
qed simp

lemma payment_step_announced:
  "payment_step sys c db db' \<Longrightarrow> payment_keys_ok sys db \<Longrightarrow> payment_announced sys db \<Longrightarrow> payment_announced sys db'"
proof (induction rule: payment_step.induct)
  case (charged eid u db uc amount declined oid cid db')
  from charged(4) charged(2,6) show ?case
    by cases (auto simp: payment_announced_def card_processed_of_mark outbox_entry_def EventType_defs PaymentStatus_defs)
next
  case (cancelled eid u db oid ord db')
  have len: "length (payments (set_payment v st z now db)) = length (payments db)" for v st z now and db :: payment_db
    by (metis length_map set_payment_fields(3))
  from cancelled(4) show ?case
  proof cases
    case (refunded r now)
    have "accepted_payments x (set_payment (p_id r) PaymentStatusRefunded z now (mark_processed u ety now db)) = accepted_payments x db"
      "declined_payments x (set_payment (p_id r) PaymentStatusRefunded z now (mark_processed u ety now db)) = declined_payments x db"
      for x z ety
      using payments_of_order_refund [of sys "mark_processed u ety now db" r] cancelled(5) refunded by simp_all
    with refunded cancelled(2,6) len show ?thesis
      by (simp add: payment_announced_def card_processed_of_mark EventType_defs)
  qed (use cancelled(2,6) in \<open>simp_all add: payment_announced_def card_processed_of_mark EventType_defs\<close>)
next
  case (relayed db ms)
  then show ?case
    by (simp add: payment_announced_def announcements_same_events event_count_same_events processed_of_def)
qed

lemma payment_step_inv:
  "payment_step sys c db db' \<Longrightarrow> uuids_ok sys \<Longrightarrow> payment_inv sys db \<Longrightarrow> payment_inv sys db'"
  by (simp add: payment_inv_def payment_step_keys payment_step_outbox payment_step_rows payment_step_announced)


section \<open>History\<close>

text \<open>What may become of a payment: only a refund of a completed one.\<close>

definition pay_evolves :: "pay_row \<Rightarrow> pay_row \<Rightarrow> bool" where
  "pay_evolves r r' \<longleftrightarrow>
     r' = r \<or> p_status r = PaymentStatusCompleted \<and>
       (\<exists>now. r' = r\<lparr>p_status := PaymentStatusRefunded, p_updated_at := now\<rparr>)"

definition payment_history :: "payment_db \<Rightarrow> payment_db \<Rightarrow> bool" where
  "payment_history db db' \<longleftrightarrow>
     length (payments db) \<le> length (payments db') \<and>
     list_all2 pay_evolves (payments db) (take (length (payments db)) (payments db')) \<and>
     events_kept db db'"

lemma pay_evolves_refl [simp]: "pay_evolves r r"
  by (simp add: pay_evolves_def)

lemma pay_evolves_trans: "pay_evolves a b \<Longrightarrow> pay_evolves b c \<Longrightarrow> pay_evolves a c"
  by (auto simp: pay_evolves_def PaymentStatus_defs)

lemma pay_evolves_refund:
  "p_status r = PaymentStatusCompleted \<Longrightarrow> p_failure_reason r = Some '''' \<Longrightarrow>
   pay_evolves r (r\<lparr>p_status := PaymentStatusRefunded, p_failure_reason := Some '''', p_updated_at := now\<rparr>)"
  unfolding pay_evolves_def by (cases r) auto

lemma payment_history_refl: "payment_history db db"
  by (simp add: payment_history_def list_all2_refl)

lemma payment_history_trans:
  assumes ab: "payment_history a b" and bc: "payment_history b c"
  shows "payment_history a c"
proof -
  let ?n = "length (payments a)"
  have "list_all2 pay_evolves (take ?n (payments b)) (take ?n (take (length (payments b)) (payments c)))"
    using bc unfolding payment_history_def by (blast intro: list_all2_takeI)
  then have "list_all2 pay_evolves (take ?n (payments b)) (take ?n (payments c))"
    using ab by (simp add: payment_history_def min_absorb1)
  moreover have "list_all2 pay_evolves (payments a) (take ?n (payments b))"
    using ab by (simp add: payment_history_def)
  ultimately have "list_all2 pay_evolves (payments a) (take ?n (payments c))"
    using list_all2_trans [of pay_evolves pay_evolves pay_evolves] pay_evolves_trans by blast
  with ab bc show ?thesis
    unfolding payment_history_def using events_kept_trans by (metis order_trans)
qed

lemma payment_step_history:
  "payment_step sys c db db' \<Longrightarrow> payment_keys_ok sys db \<Longrightarrow> \<forall>r \<in> set (payments db). pay_row_ok r \<Longrightarrow>
   payment_history db db'"
proof (induction rule: payment_step.induct)
  case (charged eid u db uc amount declined oid cid db')
  from charged(4) charged(2) show ?case
    by cases (simp_all add: payment_history_def list_all2_refl events_kept_def map_le_fresh)
next
  case (cancelled eid u db oid ord db')
  from cancelled(4) show ?case
  proof cases
    case (refunded r now)
    have reason: "p_failure_reason r = Some ''''"
      using cancelled(6) refunded by (auto simp: pay_row_ok_def PaymentStatus_defs)
    have "p_status x = PaymentStatusCompleted \<and> p_failure_reason x = Some ''''"
      if "x \<in> set (payments db)" "p_id x = p_id r" for x
    proof -
      have "x = r"
        using cancelled(5) that refunded by (auto simp: payment_keys_ok_def intro: distinct_key_eq [of p_id])
      then show ?thesis using refunded reason by simp
    qed
    then show ?thesis
      using refunded reason cancelled(2)
      by (auto simp: payment_history_def set_payment_def upd_where_def list_all2_map2 list_all2_same
            pay_evolves_refund events_kept_def map_le_fresh)
  qed (use cancelled(2) in \<open>simp_all add: payment_history_def list_all2_refl events_kept_def map_le_fresh\<close>)
next
  case (relayed db ms)
  then show ?case by (simp add: payment_history_def list_all2_refl events_kept_relayed)
qed

end
