(* ===== verification/Payment_Service.thy ===== *)
theory Payment_Service
  imports Payment_Spec
begin

text \<open>
  The use cases of the payment service implement the steps of \<open>payment_step\<close>, whatever fails;
  the properties of the service over any sequence of calls.
\<close>

section \<open>Charging\<close>

lemmas payment_call_splits = option.split reply.split commit_reply.split sum.split if_splits

text \<open>
  What a handler leaves behind when it returns an error: nothing, or what it would have left when it
  returned nil, if only the acknowledgement of the commit was lost.
\<close>

definition nothing_or :: "(payment_db \<Rightarrow> bool) \<Rightarrow> payment_db \<Rightarrow> err \<Rightarrow> payment_db \<Rightarrow> bool" where
  "nothing_or P db e db' \<longleftrightarrow> db' = db \<or> (\<exists>msg. e = Errorf ''commit transaction'' (Driver msg)) \<and> P db'"

lemma nothing_or_same [simp]: "nothing_or P db e db"
  by (simp add: nothing_or_def)

lemma nothing_or_unacked: "P db' \<Longrightarrow> nothing_or P db (Errorf ''commit transaction'' (Driver msg)) db'"
  by (simp add: nothing_or_def)

lemma charge_declined:
  fixes s1 :: "payment_db pg"
  assumes "durable s1 = db" and "\<not> failed s1" and "view s1 = mark_processed u EventTypeStockReserved now db"
    and pay: "NewPayment (uuid_New sys t) created oid cid amount = Inr pay"
  shows "wpc (charge_failed sys oid pay)
     (\<lambda>_ s'. payment_charge sys u oid cid amount True db (durable s'))
     (\<lambda>e s'. nothing_or (payment_charge sys u oid cid amount True db) db e (durable s')) s1"
proof -
  have declined: "payment_charge sys u oid cid amount True db
      (add_message m ((mark_processed u EventTypeStockReserved now db)\<lparr>payments := payments db @ [r]\<rparr>))"
    if "outbox_entry sys ''Payment'' oid EventTypePaymentFailed (EvPaymentFailed e) db m"
      "uuid_in sys oid = Some (p_order_id r)" "uuid_in sys (uuid_New sys t) = Some (p_id r)"
      "p_id r \<notin> p_id ` set (payments db)" "p_customer_id r = cid" "0 < amount"
      "numeric_in sys amount = Some (p_amount r)" "p_status r = PaymentStatusFailed"
      "p_failure_reason r = Some decline_reason" "pf_OrderID e = oid" "pf_Reason e = decline_reason" for e m r
    using payment_charge.declined [OF that, of u now] by (simp add: add_payment_def)
  show ?thesis
    using assms(2) pay
    by (auto simp: charge_failed_def wp assms(1,3) NewPayment_def payment_Fail_def insert_payment_Done NewEvent_defs
         decline_reason_def split: payment_call_splits dest!: insert_outbox_Done intro!: declined nothing_or_unacked)
qed

lemma charge_accepted:
  fixes s1 :: "payment_db pg"
  assumes "durable s1 = db" and "\<not> failed s1" and "view s1 = mark_processed u EventTypeStockReserved now db"
    and pay: "NewPayment (uuid_New sys t) created oid cid amount = Inr pay"
  shows "wpc (charge_completed sys oid amount pay)
     (\<lambda>_ s'. payment_charge sys u oid cid amount False db (durable s'))
     (\<lambda>e s'. nothing_or (payment_charge sys u oid cid amount False db) db e (durable s')) s1"
proof -
  have accepted: "payment_charge sys u oid cid amount False db
      (add_message m ((mark_processed u EventTypeStockReserved now db)\<lparr>payments := payments db @ [r]\<rparr>))"
    if "outbox_entry sys ''Payment'' oid EventTypePaymentCompleted (EvPaymentCompleted e) db m"
      "uuid_in sys oid = Some (p_order_id r)" "uuid_in sys (pc_PaymentID e) = Some (p_id r)"
      "p_id r \<notin> p_id ` set (payments db)" "p_customer_id r = cid" "0 < amount"
      "numeric_in sys amount = Some (p_amount r)" "p_status r = PaymentStatusCompleted"
      "p_failure_reason r = Some ''''" "pc_OrderID e = oid" "pc_Amount e = amount" for e m r
    using payment_charge.accepted [OF that, of u now] by (simp add: add_payment_def)
  show ?thesis
    using assms(2) pay
    by (auto simp: charge_completed_def wp assms(1,3) NewPayment_def payment_Complete_def insert_payment_Done NewEvent_defs
         split: payment_call_splits dest!: insert_outbox_Done intro!: accepted nothing_or_unacked)
qed

text \<open>The handler after the idempotency check.\<close>

definition charged :: "sys \<Rightarrow> PaymentUseCase \<Rightarrow> string \<Rightarrow> string \<Rightarrow> string \<Rightarrow> float64 \<Rightarrow> payment_db \<Rightarrow> payment_db \<Rightarrow> bool" where
  "charged sys uc u oid cid amount db db' \<longleftrightarrow>
     (\<exists>d. decision sys uc amount d \<and> payment_charge sys u oid cid amount d db db')"

lemma handle_reserved_charges:
  fixes s1 :: "payment_db pg"
  assumes s1: "durable s1 = db" "\<not> failed s1" "view s1 = mark_processed u EventTypeStockReserved now db"
  shows "wpc (go_bind (go_now sys) (\<lambda>now.
          go_bind (go_uuid sys) (\<lambda>uuid.
          go_try (go_lift (NewPayment uuid now oid cid amount)) ''create payment'' (\<lambda>pay.
          go_bind (shouldFailPayment sys uc amount) (\<lambda>fails.
          if fails then charge_failed sys oid pay else charge_completed sys oid amount pay)))))
     (\<lambda>_ s'. charged sys uc u oid cid amount db (durable s'))
     (\<lambda>e s'. nothing_or (charged sys uc u oid cid amount db) db e (durable s')) s1"
proof -
  have declined: "wpc (charge_failed sys oid pay)
      (\<lambda>_ s'. charged sys uc u oid cid amount db (durable s'))
      (\<lambda>e s'. nothing_or (charged sys uc u oid cid amount db) db e (durable s')) (s1\<lparr>tick := n\<rparr>)"
    if "decision sys uc amount True" "NewPayment (uuid_New sys t) created oid cid amount = Inr pay" for pay t created n
    by (rule wpc_mono [OF charge_declined [OF _ _ _ that(2)]])
       (use s1 that(1) in \<open>auto simp: nothing_or_def charged_def\<close>)
  have accepted: "wpc (charge_completed sys oid amount pay)
      (\<lambda>_ s'. charged sys uc u oid cid amount db (durable s'))
      (\<lambda>e s'. nothing_or (charged sys uc u oid cid amount db) db e (durable s')) (s1\<lparr>tick := n\<rparr>)"
    if "decision sys uc amount False" "NewPayment (uuid_New sys t) created oid cid amount = Inr pay" for pay t created n
    by (rule wpc_mono [OF charge_accepted [OF _ _ _ that(2)]])
       (use s1 that(1) in \<open>auto simp: nothing_or_def charged_def\<close>)
  show ?thesis
    by (auto simp: s1(1) wpc_bind [of "go_now sys"] wpc_now wpc_bind [of "go_uuid sys"] wpc_uuid wpc_try [of "go_lift r" for r]
         wpc_lift shouldFailPayment_def wpc_bind wpc_return wpc_tick split: sum.split
         intro!: declined accepted) (auto simp: decision_def)
qed

lemma payment_HandleStockReserved_step:
  "let s' = snd (payment_HandleStockReserved sys uc eid oid cid amount s)
   in durable s' = durable s \<or> payment_step sys (CallPaymentStockReserved uc eid oid cid amount) (durable s) (durable s')"
  unfolding payment_HandleStockReserved_def Let_def
  by (rule handler_durable, simp)
     (auto elim!: wpc_mono [OF handle_reserved_charges] simp: nothing_or_def charged_def intro: payment_step.charged)

section \<open>Refunding\<close>

text \<open>The query of an order's payment, as it answers if only the rows are there that satisfy \<open>f\<close>.\<close>

definition select_payment_where ::
  "sys \<Rightarrow> (string \<Rightarrow> bool) \<Rightarrow> nat \<Rightarrow> string \<Rightarrow> int \<Rightarrow> payment_db \<Rightarrow> (pay_row, payment_db) reply" where
  "select_payment_where sys f t orderID now db =
     (case uuid_in sys orderID of
        None \<Rightarrow> ServerReject invalid_uuid
      | Some u \<Rightarrow>
          (case scan sys t (filter (\<lambda>r. p_order_id r = u \<and> f (p_id r)) (payments db)) of
             [] \<Rightarrow> ClientReject ErrNoRows
           | r # _ \<Rightarrow> Done r db))"

definition payment_FindWhere :: "sys \<Rightarrow> (string \<Rightarrow> bool) \<Rightarrow> string \<Rightarrow> (payment_db pg, Payment) go" where
  "payment_FindWhere sys f orderID s =
     go_catch (tx_stmt sys (select_payment_where sys f (tick s) orderID))
       (payment_not_found ''query payment for update'') (\<lambda>r. go_return (payment_of_row sys r)) s"

definition cancel_found :: "sys \<Rightarrow> (string \<Rightarrow> bool) \<Rightarrow> string \<Rightarrow> string \<Rightarrow> (payment_db pg, unit) go" where
  "cancel_found sys f eventID orderID =
     with_tx sys
       (idempotency_gate (CheckAndMark sys eventID EventTypeOrderCancelled)
         (go_catch (payment_FindWhere sys f orderID)
           (\<lambda>e. if errors_Is e ErrPaymentNotFound
                then go_try (tx_Commit sys) ''commit transaction'' go_return
                else go_fail (Errorf ''find payment'' e))
           (\<lambda>pay. go_bind (refund_if_completed sys pay) (\<lambda>_.
                  go_try (tx_Commit sys) ''commit transaction'' go_return))))"

lemma payment_FindWhere_all: "payment_FindByOrderIDForUpdate sys oid = payment_FindWhere sys (\<lambda>_. True) oid"
proof -
  have "select_payment_where sys (\<lambda>_. True) t oid = select_payment_of_order sys t oid" for t
    by (simp add: fun_eq_iff select_payment_where_def select_payment_of_order_def cong: option.case_cong)
  then show ?thesis unfolding payment_FindByOrderIDForUpdate_def [abs_def] payment_FindWhere_def [abs_def] by simp
qed

lemma cancel_found_all: "payment_HandleOrderCancelled sys eid oid = cancel_found sys (\<lambda>_. True) eid oid"
  by (simp add: payment_HandleOrderCancelled_def cancel_found_def payment_FindWhere_all)

lemma wpc_payment_FindWhere [wp]:
  "wpc (payment_FindWhere sys f oid) Q E s =
     wpc (tx_stmt sys (select_payment_where sys f (tick s) oid)) (\<lambda>r. Q (payment_of_row sys r))
       (\<lambda>e. E (if e = ErrNoRows then ErrPaymentNotFound else Errorf ''query payment for update'' e)) s"
proof -
  have "wpc (payment_FindWhere sys f oid) Q E s =
      wpc (go_catch (tx_stmt sys (select_payment_where sys f (tick s) oid))
        (payment_not_found ''query payment for update'') (\<lambda>r. go_return (payment_of_row sys r))) Q E s"
    by (simp add: payment_FindWhere_def wpc_def)
  then show ?thesis by (simp add: wp wpc_payment_not_found)
qed

lemma select_payment_where_rows:
  assumes "scans_ok sys" and "uuid_in sys oid = Some ord"
  shows "select_payment_where sys f t oid now db = ClientReject e \<Longrightarrow>
      e = ErrNoRows \<and> (\<forall>r \<in> set (payments db). p_order_id r = ord \<longrightarrow> \<not> f (p_id r))"
    and "select_payment_where sys f t oid now db = Done r db' \<Longrightarrow>
      db' = db \<and> r \<in> set (payments db) \<and> p_order_id r = ord \<and> f (p_id r)"
proof -
  let ?rs = "scan sys t (filter (\<lambda>r. p_order_id r = ord \<and> f (p_id r)) (payments db))"
  have rs: "set ?rs = {r \<in> set (payments db). p_order_id r = ord \<and> f (p_id r)}" using assms(1) by simp
  show "select_payment_where sys f t oid now db = ClientReject e \<Longrightarrow>
      e = ErrNoRows \<and> (\<forall>r \<in> set (payments db). p_order_id r = ord \<longrightarrow> \<not> f (p_id r))"
    using rs assms(2) by (auto simp: select_payment_where_def split: list.splits)
  have "x \<in> set ?rs" if "?rs = x # xs" for x xs unfolding that by simp
  then show "select_payment_where sys f t oid now db = Done r db' \<Longrightarrow>
      db' = db \<and> r \<in> set (payments db) \<and> p_order_id r = ord \<and> f (p_id r)"
    using rs assms(2) by (auto simp: select_payment_where_def split: list.splits)
qed

text \<open>The answer to an OrderCancelled event by a handler that sees the payments that satisfy \<open>f\<close>.\<close>

inductive payment_cancel_where :: "(string \<Rightarrow> bool) \<Rightarrow> string \<Rightarrow> string \<Rightarrow> payment_db \<Rightarrow> payment_db \<Rightarrow> bool" for f u ord where
  refunds: "r \<in> set (payments db) \<Longrightarrow> p_order_id r = ord \<Longrightarrow> f (p_id r) \<Longrightarrow> p_status r = PaymentStatusCompleted \<Longrightarrow>
    payment_cancel_where f u ord db (set_payment (p_id r) PaymentStatusRefunded
      (case p_failure_reason r of None \<Rightarrow> '''' | Some x \<Rightarrow> x) now (mark_processed u EventTypeOrderCancelled now db))"
| records: "r \<in> set (payments db) \<Longrightarrow> p_order_id r = ord \<Longrightarrow> f (p_id r) \<Longrightarrow> p_status r \<noteq> PaymentStatusCompleted \<Longrightarrow>
    payment_cancel_where f u ord db (mark_processed u EventTypeOrderCancelled now db)"
| none_seen: "\<forall>r \<in> set (payments db). p_order_id r = ord \<longrightarrow> \<not> f (p_id r) \<Longrightarrow>
    payment_cancel_where f u ord db (mark_processed u EventTypeOrderCancelled now db)"

lemma payment_cancel_all: "payment_cancel_where (\<lambda>_. True) u ord db db' \<Longrightarrow> payment_cancel u ord db db'"
  by (induction rule: payment_cancel_where.induct) (auto intro: payment_cancel.intros)

lemma update_payment_row:
  assumes "payment_keys_ok sys db" and "r \<in> set (payments db)"
    and "update_payment sys (payment_of_row sys r\<lparr>pay_Status := st, pay_UpdatedAt := t\<rparr>) now db1 = Done n db2"
  shows "db2 = set_payment (p_id r) st (case p_failure_reason r of None \<Rightarrow> '''' | Some x \<Rightarrow> x) now db1"
  using assms
  by (auto simp: update_payment_def payment_keys_ok_def canonical_ids_def payment_of_row_def split: if_splits)

lemma handle_cancelled_where:
  fixes s1 :: "payment_db pg"
  assumes ok: "payment_keys_ok sys db" and scans: "scans_ok sys" and ord: "uuid_in sys oid = Some ord"
    and s1: "durable s1 = db" "\<not> failed s1" "view s1 = mark_processed u EventTypeOrderCancelled (started s1) db"
  shows "wpc (go_catch (payment_FindWhere sys f oid)
           (\<lambda>e. if errors_Is e ErrPaymentNotFound
                then go_try (tx_Commit sys) ''commit transaction'' go_return
                else go_fail (Errorf ''find payment'' e))
           (\<lambda>pay. go_bind (refund_if_completed sys pay) (\<lambda>_.
                  go_try (tx_Commit sys) ''commit transaction'' go_return)))
     (\<lambda>_ s'. payment_cancel_where f u ord db (durable s'))
     (\<lambda>e s'. nothing_or (payment_cancel_where f u ord db) db e (durable s')) s1"
proof -
  have none: "payment_cancel_where f u ord db (mark_processed u EventTypeOrderCancelled now db)"
    if "select_payment_where sys f t oid now' (mark_processed u EventTypeOrderCancelled now db) = ClientReject e" for t now now' e
    using select_payment_where_rows(1) [OF scans ord that] by (auto intro: payment_cancel_where.none_seen)
  have found: "db1 = mark_processed u EventTypeOrderCancelled now db \<and> r \<in> set (payments db) \<and> p_order_id r = ord \<and> f (p_id r)"
    if "select_payment_where sys f t oid now' (mark_processed u EventTypeOrderCancelled now db) = Done r db1" for t now now' r db1
    using select_payment_where_rows(2) [OF scans ord that] by simp
  have upd: "db2 = set_payment (p_id r) st (case p_failure_reason r of None \<Rightarrow> '''' | Some x \<Rightarrow> x) now db1"
    if "update_payment sys (payment_of_row sys r\<lparr>pay_Status := st, pay_UpdatedAt := t\<rparr>) now db1 = Done n db2"
      "r \<in> set (payments db)" for r st t now db1 n db2
    using update_payment_row [OF ok that(2,1)] .
  show ?thesis
    using s1(2)
    by (auto simp: wp wpc_if s1(1,3) refund_if_completed_def payment_IsCompleted_def payment_Refund_def
         split: payment_call_splits dest!: found upd
         intro: none payment_cancel_where.refunds payment_cancel_where.records nothing_or_unacked)
qed

lemma handle_cancelled_refunds:
  fixes s1 :: "payment_db pg"
  assumes "payment_keys_ok sys db" and "scans_ok sys" and "uuid_in sys oid = Some ord"
    and "durable s1 = db" "\<not> failed s1" "view s1 = mark_processed u EventTypeOrderCancelled (started s1) db"
  shows "wpc (go_catch (payment_FindByOrderIDForUpdate sys oid)
           (\<lambda>e. if errors_Is e ErrPaymentNotFound
                then go_try (tx_Commit sys) ''commit transaction'' go_return
                else go_fail (Errorf ''find payment'' e))
           (\<lambda>pay. go_bind (refund_if_completed sys pay) (\<lambda>_.
                  go_try (tx_Commit sys) ''commit transaction'' go_return)))
     (\<lambda>_ s'. payment_cancel u ord db (durable s'))
     (\<lambda>e s'. nothing_or (payment_cancel u ord db) db e (durable s')) s1"
  unfolding payment_FindWhere_all
  by (rule wpc_mono [OF handle_cancelled_where [OF assms]]) (auto simp: nothing_or_def intro: payment_cancel_all)

lemma cancel_found_step:
  assumes "payment_keys_ok sys (durable s)" and "scans_ok sys"
  shows "let s' = snd (cancel_found sys f eid oid s)
   in durable s' = durable s \<or>
     (\<exists>u ord. uuid_in sys eid = Some u \<and> processed_events (durable s) u = None \<and> uuid_in sys oid = Some ord \<and>
        payment_cancel_where f u ord (durable s) (durable s'))"
  unfolding cancel_found_def Let_def
proof (rule handler_durable, simp)
  fix u and s1 :: "payment_db pg"
  assume eid: "uuid_in sys eid = Some u"
    and s1: "processed_events (durable s) u = None" "durable s1 = durable s" "\<not> failed s1"
    "view s1 = mark_processed u EventTypeOrderCancelled (started s1) (durable s)"
  let ?P = "\<lambda>s'. durable s' = durable s \<or>
     (\<exists>u ord. uuid_in sys eid = Some u \<and> processed_events (durable s) u = None \<and> uuid_in sys oid = Some ord \<and>
        payment_cancel_where f u ord (durable s) (durable s'))"
  let ?body = "go_catch (payment_FindWhere sys f oid)
           (\<lambda>e. if errors_Is e ErrPaymentNotFound
                then go_try (tx_Commit sys) ''commit transaction'' go_return
                else go_fail (Errorf ''find payment'' e))
           (\<lambda>pay. go_bind (refund_if_completed sys pay) (\<lambda>_.
                  go_try (tx_Commit sys) ''commit transaction'' go_return))"
  show "wpc ?body (\<lambda>_. ?P) (\<lambda>_. ?P) s1"
  proof (cases "uuid_in sys oid")
    case None
    with s1(2) show ?thesis
      by (simp add: wp wpc_if select_payment_where_def invalid_uuid_def ErrPaymentNotFound_def
          ErrNoRows_def ErrTxAborted_def split: option.split)
  next
    case (Some ord)
    show ?thesis
      by (rule wpc_mono [OF handle_cancelled_where [OF assms Some s1(2-4)]])
         (use s1(1) eid Some in \<open>auto simp: nothing_or_def\<close>)
  qed
qed

lemma payment_HandleOrderCancelled_step:
  assumes "payment_keys_ok sys (durable s)" and "scans_ok sys"
  shows "let s' = snd (payment_HandleOrderCancelled sys eid oid s)
   in durable s' = durable s \<or> payment_step sys (CallPaymentOrderCancelled eid oid) (durable s) (durable s')"
  using cancel_found_step [OF assms, of "\<lambda>_. True" eid oid] payment_cancel_all
  unfolding cancel_found_all Let_def by (auto intro: payment_step.cancelled)

lemma GetPayment_reads: "durable (snd (GetPayment sys oid s)) = durable s"
proof -
  have "wpc (GetPayment sys oid) (\<lambda>_ s'. durable s' = durable s) (\<lambda>_ s'. durable s' = durable s) s"
    by (simp add: GetPayment_def wp select_payment_of_order_def split: option.split list.split)
  then show ?thesis by (simp add: wpc_post)
qed


section \<open>The service\<close>

fun payment_exec :: "sys \<Rightarrow> payment_call \<Rightarrow> payment_db pg \<Rightarrow> payment_db pg" where
  "payment_exec sys (CallPaymentStockReserved uc eid oid cid amount) s =
     snd (payment_HandleStockReserved sys uc eid oid cid amount s)"
| "payment_exec sys (CallPaymentOrderCancelled eid oid) s = snd (payment_HandleOrderCancelled sys eid oid s)"
| "payment_exec sys (CallGetPayment oid) s = snd (GetPayment sys oid s)"
| "payment_exec sys CallPaymentRelay s = snd (processPendingMessages sys (nats_Publish sys) s)"

definition payment_ready :: "sys \<Rightarrow> payment_db \<Rightarrow> bool" where
  "payment_ready sys db \<longleftrightarrow> uuids_ok sys \<and> scans_ok sys \<and> payment_inv sys db"

lemma payment_relay_step:
  assumes "payment_ready sys (durable s)"
  shows "durable (payment_exec sys CallPaymentRelay s) = durable s \<or>
    payment_step sys CallPaymentRelay (durable s) (durable (payment_exec sys CallPaymentRelay s))"
  using assms relay_same_events [of sys s]
  by (auto simp: payment_ready_def payment_inv_def Let_def intro: payment_step.relayed)

interpretation payment_service: refined_service "payment_exec sys" "payment_step sys" "payment_ready sys" for sys
proof
  fix s :: "payment_db pg" and c
  assume ready: "payment_ready sys (durable s)"
  then have "payment_keys_ok sys (durable s)" "scans_ok sys" by (simp_all add: payment_ready_def payment_inv_def)
  with ready show "durable (payment_exec sys c s) = durable s \<or>
      payment_step sys c (durable s) (durable (payment_exec sys c s))"
    using payment_HandleStockReserved_step payment_HandleOrderCancelled_step payment_relay_step GetPayment_reads
    by (cases c) (simp_all add: Let_def)
next
  fix c d d'
  assume "payment_step sys c d d'" and "payment_ready sys d"
  then show "payment_ready sys d'" by (simp add: payment_ready_def payment_step_inv)
qed


section \<open>Properties over every sequence of calls\<close>

definition payment_boot :: "payment_db \<Rightarrow> payment_db pg" where
  "payment_boot db = \<lparr>durable = db, view = db, started = 0, failed = False, tick = 0, published = []\<rparr>"

lemma durable_payment_boot [simp]: "durable (payment_boot db) = db" "tick (payment_boot db) = 0"
  by (simp_all add: payment_boot_def)

definition empty_payment_db :: payment_db where
  "empty_payment_db = \<lparr>processed_events = Map.empty, outbox = [], payments = []\<rparr>"

lemma payment_inv_empty [simp]: "payment_inv sys empty_payment_db"
  by (simp add: payment_inv_def payment_keys_ok_def empty_payment_db_def payment_announced_def
        announcements_def event_count_def processed_of_def outbox_wf_def canonical_ids_def
        accepted_payments_def declined_payments_def)

text \<open>
  C14: the payment service refines its specification: whatever events it handles, in whatever
  order and however often, with the provider's switch on or off, and whatever fails, every call has
  on the database the effect that \<open>payment_step\<close> allows for that call, as one atomic step, or
  none, and the invariant is kept.
\<close>

theorem payment_service_refines:
  assumes "uuids_ok sys" and "scans_ok sys" and "payment_inv sys (durable s)"
  shows "explained (payment_step sys) cs (durable s) (durable (run_calls (payment_exec sys) cs s)) \<and>
    payment_inv sys (durable (run_calls (payment_exec sys) cs s))"
  using payment_service.run_refines [of sys s cs] payment_service.run_inv [of sys s cs] assms
  by (simp add: payment_ready_def)

theorem payment_service_refines_witness:
  "payment_inv sample_sys (durable (run_calls (payment_exec sample_sys)
     [CallPaymentStockReserved \<lparr>simulateFailure = False\<rparr> ''e'' ''o'' ''c'' 10,
      CallPaymentOrderCancelled ''f'' ''o''] (payment_boot empty_payment_db)))"
  by (rule conjunct2 [OF payment_service_refines]) simp_all

text \<open>
  C36: one charge per event, and every charge is announced. After any calls and any failures there
  are exactly as many payments as StockReserved events processed; every stored payment is settled
  (COMPLETED, FAILED with the reason, or REFUNDED, never PENDING); and every order has as many
  PaymentCompleted events in the outbox as payments that were accepted, and as many PaymentFailed
  events as payments that were declined.
\<close>

theorem payment_charged_once:
  assumes "uuids_ok sys" and "scans_ok sys" and "payment_inv sys (durable s)"
    and "db' = durable (run_calls (payment_exec sys) cs s)"
  shows "length (payments db') = card {u. \<exists>t. processed_events db' u = Some (EventTypeStockReserved, t)} \<and>
    (\<forall>r. r \<in> set (payments db') \<longrightarrow> p_status r \<in> {PaymentStatusCompleted, PaymentStatusFailed, PaymentStatusRefunded}) \<and>
    (\<forall>ord. announcements sys db' EventTypePaymentCompleted ord =
        length (filter (\<lambda>r. p_order_id r = ord \<and> p_status r \<noteq> PaymentStatusFailed) (payments db')) \<and>
      announcements sys db' EventTypePaymentFailed ord =
        length (filter (\<lambda>r. p_order_id r = ord \<and> p_status r = PaymentStatusFailed) (payments db')))"
proof -
  have "payment_ready sys (durable s)" using assms(1-3) by (simp add: payment_ready_def)
  then have "payment_ready sys db'" unfolding assms(4) by (rule payment_service.run_inv)
  then have inv: "payment_announced sys db'" "\<forall>r \<in> set (payments db'). pay_row_ok r"
    by (simp_all add: payment_ready_def payment_inv_def)
  then have "p_status r \<in> {PaymentStatusCompleted, PaymentStatusFailed, PaymentStatusRefunded}"
    if "r \<in> set (payments db')" for r
    using that by (auto simp: pay_row_ok_def)
  with inv(1) show ?thesis
    by (simp add: payment_announced_def processed_of_def accepted_payments_def declined_payments_def)
qed

theorem payment_charged_once_witness:
  "let db' = durable (run_calls (payment_exec sample_sys)
     [CallPaymentStockReserved \<lparr>simulateFailure = True\<rparr> ''e'' ''o'' ''c'' 10] (payment_boot empty_payment_db))
   in length (payments db') = card {u. \<exists>t. processed_events db' u = Some (EventTypeStockReserved, t)}"
  unfolding Let_def
  by (rule payment_charged_once [OF _ _ _ refl, THEN conjunct1]) simp_all

text \<open>
  Payments are never lost or rewritten: whatever is handled and whatever fails, every payment
  keeps its place, ID, order, customer, amount and creation time; the only change is the refund of a
  COMPLETED payment, a FAILED or REFUNDED one stays as it is, and no event leaves the outbox.
\<close>

theorem payments_kept:
  assumes "uuids_ok sys" and "scans_ok sys" and "payment_inv sys (durable s)"
    and "n < length (payments (durable s))"
  shows "let db' = durable (run_calls (payment_exec sys) cs s); r = payments (durable s) ! n; r' = payments db' ! n
    in n < length (payments db') \<and>
       (r' = r \<or> p_status r = PaymentStatusCompleted \<and>
         (\<exists>now. r' = r\<lparr>p_status := PaymentStatusRefunded, p_updated_at := now\<rparr>)) \<and>
       events_kept (durable s) db'"
proof -
  let ?db' = "durable (run_calls (payment_exec sys) cs s)"
  have hist: "payment_history (durable s) ?db'"
  proof (rule payment_service.run_relates [where R = payment_history])
    show "payment_ready sys (durable s)" using assms(1-3) by (simp add: payment_ready_def)
    show "payment_history d d'" if "payment_ready sys d" "payment_step sys c d d'" for c d d'
      using that by (simp add: payment_ready_def payment_inv_def payment_step_history)
  qed (auto intro: payment_history_refl payment_history_trans)
  then have len: "n < length (payments ?db')" using assms(4) by (simp add: payment_history_def)
  have "list_all2 pay_evolves (payments (durable s)) (take (length (payments (durable s))) (payments ?db'))"
    using hist by (simp add: payment_history_def)
  then have "pay_evolves (payments (durable s) ! n) (payments ?db' ! n)"
    using assms(4) by (auto simp: list_all2_conv_all_nth)
  with hist len show ?thesis by (auto simp: pay_evolves_def payment_history_def Let_def)
qed

text \<open>A database with one payment and its event.\<close>

definition sample_pay_row :: pay_row where
  "sample_pay_row =
     \<lparr>p_id = ''p'', p_order_id = ''o'', p_customer_id = ''c'', p_amount = 1000,
      p_status = PaymentStatusCompleted, p_failure_reason = Some '''', p_created_at = 1, p_updated_at = 1\<rparr>"

definition paid_db :: payment_db where
  "paid_db =
     \<lparr>processed_events = [''e'' \<mapsto> (EventTypeStockReserved, 1)],
      outbox = [(sample_message ''m'' 0)\<lparr>msg_AggregateID := ''o'', msg_EventType := EventTypePaymentCompleted\<rparr>],
      payments = [sample_pay_row]\<rparr>"

lemma paid_payment_inv [simp]: "payment_inv sample_sys paid_db"
proof -
  have "processed_of EventTypeStockReserved paid_db = {''e''}"
    by (auto simp: processed_of_def paid_db_def split: if_splits)
  then show ?thesis
    by (simp add: payment_inv_def payment_announced_def)
       (simp add: paid_db_def sample_pay_row_def payment_keys_ok_def canonical_ids_def sample_uuid_in
          pay_row_ok_def outbox_wf_def event_count_def announcements_def accepted_payments_def
          declined_payments_def sample_message_def EventType_defs PaymentStatus_defs)
qed

theorem payments_kept_witness:
  "let db' = durable (run_calls (payment_exec sample_sys) [CallPaymentOrderCancelled ''f'' ''o''] (payment_boot paid_db))
   in 0 < length (payments db') \<and> events_kept paid_db db'"
  using payments_kept [of sample_sys "payment_boot paid_db" 0 "[CallPaymentOrderCancelled ''f'' ''o'']"]
  unfolding Let_def
  by (simp del: run_calls.simps) (simp add: paid_db_def del: run_calls.simps)

section \<open>Properties of the single calls\<close>

text \<open>
  C22: a StockReserved event that was not processed before is charged exactly once: if the handler
  returns nil there is a new payment of the order with the customer and amount, settled and
  announced; it is declined whenever the test switch is on or the amount ends in 99 cents, and
  otherwise exactly when the number drawn is below a tenth. If it returns an error nothing is
  durable, unless the acknowledgement of the commit was lost; an amount that is not positive is
  always an error.
\<close>

theorem payment_reserved_outcome:
  assumes "uuid_in sys eid = Some u" and "processed_events (durable s) u = None"
  shows "case payment_HandleStockReserved sys uc eid oid cid amount s of
     (Inr _, s') \<Rightarrow> 0 < amount \<and> (\<exists>declined. decision sys uc amount declined \<and>
       payment_charge sys u oid cid amount declined (durable s) (durable s'))
   | (Inl e, s') \<Rightarrow> durable s' = durable s \<or>
       (\<exists>msg. e = Errorf ''commit transaction'' (Driver msg)) \<and> (\<exists>declined. decision sys uc amount declined \<and>
         payment_charge sys u oid cid amount declined (durable s) (durable s'))"
proof -
  have pos: "0 < amount" if "payment_charge sys u oid cid amount d db db'" for d db db'
    using that by cases simp_all
  show ?thesis
    unfolding payment_HandleStockReserved_def
    by (rule handler_outcome [OF assms])
       (auto elim!: wpc_mono [OF handle_reserved_charges] dest: pos simp: nothing_or_def charged_def)
qed

theorem payment_reserved_outcome_witness:
  "case payment_HandleStockReserved sample_sys \<lparr>simulateFailure = True\<rparr> ''e'' ''o'' ''c'' 10 (payment_boot empty_payment_db) of
     (Inr _, s') \<Rightarrow> payment_charge sample_sys ''e'' ''o'' ''c'' 10 True empty_payment_db (durable s')
   | (Inl e, s') \<Rightarrow> durable s' = empty_payment_db \<or>
       (\<exists>msg. e = Errorf ''commit transaction'' (Driver msg)) \<and>
         payment_charge sample_sys ''e'' ''o'' ''c'' 10 True empty_payment_db (durable s')"
  using payment_reserved_outcome [of sample_sys "''e''" "''e''" "payment_boot empty_payment_db"
      "\<lparr>simulateFailure = True\<rparr>" 10 "''o''" "''c''"]
  by (auto simp: sample_uuid_in decision_def empty_payment_db_def split: prod.splits sum.splits)

text \<open>
  C26: an OrderCancelled event that was not processed before refunds a COMPLETED payment of the order
  and is recorded in the same transaction; if the payment found is not COMPLETED, or there is none,
  only the event is recorded. An error leaves everything as it was, unless the acknowledgement of
  the commit was lost.
\<close>

theorem payment_cancelled_outcome:
  assumes "payment_keys_ok sys (durable s)" and "scans_ok sys" and "uuid_in sys oid = Some ord"
    and "uuid_in sys eid = Some u" and "processed_events (durable s) u = None"
  shows "case payment_HandleOrderCancelled sys eid oid s of
     (Inr _, s') \<Rightarrow> payment_cancel u ord (durable s) (durable s')
   | (Inl e, s') \<Rightarrow> durable s' = durable s \<or>
       (\<exists>msg. e = Errorf ''commit transaction'' (Driver msg)) \<and> payment_cancel u ord (durable s) (durable s')"
  unfolding payment_HandleOrderCancelled_def
  by (rule handler_outcome [OF assms(4,5)])
     (auto elim!: wpc_mono [OF handle_cancelled_refunds [OF assms(1-3)]] simp: nothing_or_def)

theorem payment_cancelled_outcome_witness:
  "case payment_HandleOrderCancelled sample_sys ''f'' ''o'' (payment_boot paid_db) of
     (Inr _, s') \<Rightarrow> map p_status (payments (durable s')) = [PaymentStatusRefunded]
   | (Inl e, s') \<Rightarrow> map p_status (payments (durable s')) = [PaymentStatusCompleted] \<or>
       (\<exists>msg. e = Errorf ''commit transaction'' (Driver msg))"
proof -
  have facts: "payment_keys_ok sample_sys (durable (payment_boot paid_db))" "scans_ok sample_sys"
    "uuid_in sample_sys ''o'' = Some ''o''" "uuid_in sample_sys ''f'' = Some ''f''"
    "processed_events (durable (payment_boot paid_db)) ''f'' = None"
    using paid_payment_inv by (simp_all add: payment_inv_def sample_uuid_in) (simp add: paid_db_def)
  have refund: "map p_status (payments db') = [PaymentStatusRefunded]" if "payment_cancel ''f'' ''o'' paid_db db'" for db'
    using that by cases (simp_all add: paid_db_def sample_pay_row_def set_payment_def upd_where_def)
  show ?thesis
    using payment_cancelled_outcome [OF facts] refund
    by (auto split: prod.splits sum.splits) (simp add: paid_db_def sample_pay_row_def)
qed

text \<open>
  delivering an event to the payment service again changes nothing, whatever it says and
  whatever fails: no order is charged or refunded twice for one event.
\<close>

theorem payment_redelivery:
  assumes "uuid_in sys eid = Some u" and "u \<in> dom (processed_events (durable s))"
  shows "durable (snd (payment_HandleStockReserved sys uc eid oid cid amount s)) = durable s \<and>
    durable (snd (payment_HandleOrderCancelled sys eid oid s)) = durable s"
  unfolding payment_HandleStockReserved_def payment_HandleOrderCancelled_def
  using checker.redelivery_changes_nothing [OF assms] by simp

theorem payment_redelivery_witness:
  "durable (snd (payment_HandleStockReserved sample_sys \<lparr>simulateFailure = False\<rparr> ''e'' ''o'' ''c'' 10 (payment_boot paid_db))) =
     paid_db"
  using payment_redelivery [of sample_sys "''e''" "''e''" "payment_boot paid_db"]
  by (simp add: sample_uuid_in paid_db_def)


section \<open>Amounts that end in 99 cents\<close>

lemma round64_1999: "round64 (1999 / 100) = Some (5626684784446013 / 281474976710656)"
  using round64_normal [of "- 48" "1999 / 100" 5626684784446013] by (simp add: pow2_def)

lemma round64_1999_cents: "round64 (5626684784446013 / 281474976710656 * 100) = Some (8791694975696895 / 4398046511104)"
  using round64_normal [of "- 42" "5626684784446013 / 281474976710656 * 100" 8791694975696895] by (simp add: pow2_def)

lemma round64_9999: "round64 (9999 / 100) = Some (7036170730324623 / 70368744177664)"
  using round64_normal [of "- 46" "9999 / 100" 7036170730324623] by (simp add: pow2_def)

lemma round64_9999_cents: "round64 (7036170730324623 / 70368744177664 * 100) = Some 9999"
  using round64_normal [of "- 39" "7036170730324623 / 70368744177664 * 100" 5497008383066112] by (simp add: pow2_def)

lemma int_of_float_small:
  "int8_ok (float_trunc x) \<Longrightarrow> sint (int_of_float sys x) = float_trunc x"
  by (simp add: int_of_float_def)

lemma whole_amounts_accepted:
  assumes "\<bar>i\<bar> < 90071992547409"
  shows "\<not> ends_in_99 sys (of_int i)"
proof -
  have "round64 (of_int (i * 100)) = Some (of_int (i * 100))" using assms by (intro round64_int) simp
  moreover have "int8_ok (i * 100)" using assms by (simp add: int8_ok_def abs_less_iff)
  moreover have "go_rem (i * 100) 100 = 0" by (simp add: go_rem_def abs_mult)
  moreover have "float_trunc (of_int i * 100) = i * 100"
    by (metis float_trunc_int of_int_mult of_int_numeral)
  ultimately show ?thesis
    using int_of_float_small [of "of_int i * 100" sys] by (simp add: ends_in_99_def)
qed

text \<open>
  C35: the rule for amounts that end in 99 cents is computed in binary floating point. No whole
  amount matches it (below 2^53 cents, where the product is exact) and 99.99 does, but 19.99 does
  not: 19.99*100 is 1998.9999999999998, which truncates to 1998.
\<close>

theorem payment_ends_in_99:
  assumes "\<bar>i\<bar> < 90071992547409"
  shows "\<not> ends_in_99 sys (of_int i) \<and>
    (case round64 (9999 / 100) of Some x \<Rightarrow> ends_in_99 sys x | None \<Rightarrow> False) \<and>
    (case round64 (1999 / 100) of Some x \<Rightarrow> \<not> ends_in_99 sys x | None \<Rightarrow> False)"
proof (intro conjI)
  show "\<not> ends_in_99 sys (of_int i)" using assms by (rule whole_amounts_accepted)
  show "case round64 (9999 / 100) of Some x \<Rightarrow> ends_in_99 sys x | None \<Rightarrow> False"
    unfolding round64_9999 by (simp add: ends_in_99_def round64_9999_cents [simplified] int_of_float_small float_trunc_def int8_ok_def go_rem_def)
  have "\<lfloor>8791694975696895 / 4398046511104 :: rat\<rfloor> = 1998" by (simp add: floor_eq_iff)
  then show "case round64 (1999 / 100) of Some x \<Rightarrow> \<not> ends_in_99 sys x | None \<Rightarrow> False"
    unfolding round64_1999 by (simp add: ends_in_99_def round64_1999_cents [simplified] int_of_float_small float_trunc_def int8_ok_def go_rem_def)
qed

theorem payment_ends_in_99_witness:
  "\<not> ends_in_99 sample_sys 1000"
  using payment_ends_in_99 [of 1000 sample_sys] by simp

end
