(* ===== verification/Payment_Truth.thy ===== *)
theory Payment_Truth
  imports Payment_Service Honesty
begin

text \<open>
  Everything the payment service publishes is true of its database, and stays so.
\<close>

section \<open>What the events of the payment service say\<close>

text \<open>A payment of the order that was accepted, whether or not it was refunded since.\<close>

definition payment_accepted :: "payment_db \<Rightarrow> string \<Rightarrow> bool" where
  "payment_accepted db u \<longleftrightarrow>
     (\<exists>r \<in> set (payments db). p_order_id r = u \<and> p_status r \<in> {PaymentStatusCompleted, PaymentStatusRefunded})"

definition payment_declined :: "payment_db \<Rightarrow> string \<Rightarrow> bool" where
  "payment_declined db u \<longleftrightarrow>
     (\<exists>r \<in> set (payments db). p_order_id r = u \<and> p_status r = PaymentStatusFailed)"

fun payment_true :: "sys \<Rightarrow> payment_db \<Rightarrow> event \<Rightarrow> bool" where
  "payment_true sys db (EvPaymentCompleted e) \<longleftrightarrow>
     (\<exists>u. uuid_in sys (pc_OrderID e) = Some u \<and> payment_accepted db u)"
| "payment_true sys db (EvPaymentFailed e) \<longleftrightarrow>
     (\<exists>u. uuid_in sys (pf_OrderID e) = Some u \<and> payment_declined db u)"
| "payment_true sys db _ \<longleftrightarrow> False"

lemma payment_history_row:
  assumes "payment_history db db'" and "r \<in> set (payments db)"
  obtains r' where "r' \<in> set (payments db')" "pay_evolves r r'"
proof -
  have "list_all2 pay_evolves (payments db) (take (length (payments db)) (payments db'))"
    using assms(1) by (simp add: payment_history_def)
  with assms(2) obtain r' where "r' \<in> set (take (length (payments db)) (payments db'))" "pay_evolves r r'"
    unfolding list_all2_conv_all_nth in_set_conv_nth by metis
  then show ?thesis using that by (meson in_set_takeD)
qed

lemma payment_accepted_stays:
  assumes hist: "payment_history db db'" and acc: "payment_accepted db u"
  shows "payment_accepted db' u"
proof -
  obtain r where r: "r \<in> set (payments db)" "p_order_id r = u" "p_status r \<in> {PaymentStatusCompleted, PaymentStatusRefunded}"
    using acc unfolding payment_accepted_def by blast
  obtain r' where r': "r' \<in> set (payments db')" "pay_evolves r r'" using payment_history_row [OF hist r(1)] .
  show ?thesis
    unfolding payment_accepted_def by (rule bexI [OF _ r'(1)]) (use r r'(2) in \<open>auto simp: pay_evolves_def\<close>)
qed

lemma payment_declined_stays:
  assumes hist: "payment_history db db'" and dec: "payment_declined db u"
  shows "payment_declined db' u"
proof -
  obtain r where r: "r \<in> set (payments db)" "p_order_id r = u" "p_status r = PaymentStatusFailed"
    using dec unfolding payment_declined_def by blast
  obtain r' where r': "r' \<in> set (payments db')" "pay_evolves r r'" using payment_history_row [OF hist r(1)] .
  show ?thesis
    unfolding payment_declined_def
    by (rule bexI [OF _ r'(1)]) (use r r'(2) in \<open>auto simp: pay_evolves_def PaymentStatus_defs\<close>)
qed

lemma payment_truth_stays:
  "payment_history db db' \<Longrightarrow> payment_true sys db ev \<Longrightarrow> payment_true sys db' ev"
  by (cases ev) (auto dest: payment_accepted_stays payment_declined_stays)

lemma payment_step_tells:
  "payment_step sys c db db' \<Longrightarrow> m \<in> set (outbox db') \<Longrightarrow>
   subject_of m \<in> subject_of ` set (outbox db) \<or> (\<exists>ev. tells sys (subject_of m) ev \<and> payment_true sys db' ev)"
proof (induction rule: payment_step.induct)
  case (charged eid u db uc amount declined oid cid db')
  from charged(4) show ?case
  proof cases
    case (accepted e m' r now)
    have "payment_true sys db' (EvPaymentCompleted e)"
      using accepted by (simp add: payment_accepted_def)
    with accepted charged(5) show ?thesis by (intro entry_or_old [where ev = "EvPaymentCompleted e"]) auto
  next
    case (declined e m' r t now)
    have "payment_true sys db' (EvPaymentFailed e)"
      using declined by (simp add: payment_declined_def)
    with declined charged(5) show ?thesis by (intro entry_or_old [where ev = "EvPaymentFailed e"]) auto
  qed
next
  case (cancelled eid u db oid ord db')
  from cancelled(4) cancelled(5) show ?case by cases auto
next
  case (relayed db ms)
  from imageI [OF relayed(2), of subject_of] relayed(1) show ?case by (simp add: same_events_subjects)
qed

lemmas payment_repo_defs =
  payment_Update_def payment_Save_def

lemma silent_find_payment [frame]:
  "silent (payment_FindByOrderID sys oid)" "silent (payment_FindByOrderIDForUpdate sys oid)"
proof -
  have "silent (go_catch (pool_stmt sys q) (payment_not_found w) (\<lambda>r. go_return (payment_of_row sys r)))"
    "silent (go_catch (tx_stmt sys q) (payment_not_found w) (\<lambda>r. go_return (payment_of_row sys r)))" for q w
    unfolding payment_not_found_def by (intro frame)+
  then show "silent (payment_FindByOrderID sys oid)" "silent (payment_FindByOrderIDForUpdate sys oid)"
    unfolding silent_def payment_FindByOrderID_def payment_FindByOrderIDForUpdate_def by blast+
qed

lemma payment_calls_silent:
  "silent (GetPayment sys oid)" "silent (payment_HandleStockReserved sys uc eid oid cid amount)"
  "silent (payment_HandleOrderCancelled sys eid oid)"
  unfolding GetPayment_def payment_HandleStockReserved_def payment_HandleOrderCancelled_def
    charge_failed_def charge_completed_def shouldFailPayment_def refund_if_completed_def payment_repo_defs
    idempotency_gate_def CheckAndMark_def PublishInTx_def NewEvent_defs NewBaseEvent_def
  by (intro frame)+

interpretation payment_truthful: truthful_service "payment_exec sys" "payment_step sys" "payment_ready sys" sys
    "payment_true sys" "\<lambda>_. True" for sys
proof
  fix s :: "payment_db pg" and c
  assume "payment_ready sys (durable s)"
  then have "outbox_wf sys (durable s)" "scans_ok sys"
    by (simp_all add: payment_ready_def payment_inv_def)
  then show "set (published (payment_exec sys c s)) \<subseteq> set (published s) \<union> subject_of ` set (outbox (durable s))"
    using relay_publishes by (cases c) (simp_all add: silentD payment_calls_silent le_supI1)
next
  fix d d' c ev
  assume "payment_ready sys d" "payment_step sys c d d'" "payment_true sys d ev"
  then show "payment_true sys d' ev"
    using payment_step_history payment_truth_stays by (simp add: payment_ready_def payment_inv_def) blast
next
  fix d d' c m
  assume "payment_step sys c d d'" "m \<in> set (outbox d')"
  then show "subject_of m \<in> subject_of ` set (outbox d) \<or> (\<exists>ev. tells sys (subject_of m) ev \<and> payment_true sys d' ev)"
    by (rule payment_step_tells)
qed

end
