(* ===== verification/Database.thy ===== *)
theory Database
  imports Go_Prelude
begin

text \<open>
  pkg/database/postgres.go: the database configuration from the environment, the connection string,
  and the connection pool with its retry loop. The environment, the pgx library's parsing of the
  connection string, the creation of a pool and the answer to a ping are arguments.
\<close>

section \<open>Configuration\<close>

record Config =
  Host :: string
  Port :: string
  User :: string
  Password :: string
  DBName :: string

text \<open>\<open>os.Getenv\<close> returns the empty string for a variable that is not set.\<close>

definition getEnv :: "(string \<Rightarrow> string) \<Rightarrow> string \<Rightarrow> string \<Rightarrow> string" where
  "getEnv env key defaultValue = (let value = env key in if value \<noteq> '''' then value else defaultValue)"

definition ConfigFromEnv :: "(string \<Rightarrow> string) \<Rightarrow> Config" where
  "ConfigFromEnv env =
     \<lparr>Host = getEnv env ''DB_HOST'' ''localhost'', Port = getEnv env ''DB_PORT'' ''5432'',
      User = getEnv env ''DB_USER'' ''postgres'', Password = getEnv env ''DB_PASSWORD'' ''postgres'',
      DBName = getEnv env ''DB_NAME'' ''postgres''\<rparr>"

definition ConnectionString :: "Config \<Rightarrow> string" where
  "ConnectionString c =
     ''postgres://'' @ User c @ '':'' @ Password c @ ''@'' @ Host c @ '':'' @ Port c @ ''/'' @
     DBName c @ ''?sslmode=disable''"

text \<open>Splitting at the first separator undoes a concatenation whose first part does not contain it.\<close>

lemma split_at_sep:
  assumes "xs @ x # ys = xs' @ x # ys'" and "x \<notin> set xs" and "x \<notin> set xs'"
  shows "xs = xs' \<and> ys = ys'"
  using assms
proof (induction xs arbitrary: xs')
  case Nil
  then show ?case by (cases xs') auto
next
  case (Cons a xs)
  then show ?case by (cases xs') auto
qed

text \<open>What the format relies on: no part contains the separator that ends it.\<close>

definition plain_config :: "Config \<Rightarrow> bool" where
  "plain_config c \<longleftrightarrow>
     CHR '':'' \<notin> set (User c) \<and> CHR ''@'' \<notin> set (Password c) \<and> CHR '':'' \<notin> set (Host c) \<and>
     CHR ''/'' \<notin> set (Port c)"

text \<open>
  C40: the connection string determines the configuration, for values that do not contain the
  separator that follows them; nothing is escaped, so a password with an at sign can give the same
  connection string as another configuration, with another host.
\<close>

theorem connection_string_injective:
  assumes "plain_config c" and "plain_config c'" and "ConnectionString c = ConnectionString c'"
  shows "c = c' \<and>
    (\<exists>a b. a \<noteq> b \<and> plain_config a \<and> Host a \<noteq> Host b \<and> ConnectionString a = ConnectionString b)"
proof -
  have user: "User c = User c' \<and>
      Password c @ CHR ''@'' # Host c @ CHR '':'' # Port c @ CHR ''/'' # DBName c @ ''?sslmode=disable'' =
      Password c' @ CHR ''@'' # Host c' @ CHR '':'' # Port c' @ CHR ''/'' # DBName c' @ ''?sslmode=disable''"
    using assms by (intro split_at_sep [where x = "CHR '':''"]) (simp_all add: ConnectionString_def plain_config_def)
  then have password: "Password c = Password c' \<and>
      Host c @ CHR '':'' # Port c @ CHR ''/'' # DBName c @ ''?sslmode=disable'' =
      Host c' @ CHR '':'' # Port c' @ CHR ''/'' # DBName c' @ ''?sslmode=disable''"
    using assms by (intro split_at_sep [where x = "CHR ''@''"]) (simp_all add: plain_config_def)
  then have host: "Host c = Host c' \<and>
      Port c @ CHR ''/'' # DBName c @ ''?sslmode=disable'' = Port c' @ CHR ''/'' # DBName c' @ ''?sslmode=disable''"
    using assms by (intro split_at_sep [where x = "CHR '':''"]) (simp_all add: plain_config_def)
  then have port: "Port c = Port c' \<and> DBName c @ ''?sslmode=disable'' = DBName c' @ ''?sslmode=disable''"
    using assms by (intro split_at_sep [where x = "CHR ''/''"]) (simp_all add: plain_config_def)
  have "\<exists>a b. a \<noteq> b \<and> plain_config a \<and> Host a \<noteq> Host b \<and> ConnectionString a = ConnectionString b"
    by (rule exI [of _ "\<lparr>Host = ''h@db'', Port = ''1'', User = ''u'', Password = ''p'', DBName = ''d''\<rparr>"],
        rule exI [of _ "\<lparr>Host = ''db'', Port = ''1'', User = ''u'', Password = ''p@h'', DBName = ''d''\<rparr>"])
      (simp add: plain_config_def ConnectionString_def)
  with user password host port show ?thesis by simp
qed

theorem connection_string_injective_witness:
  "ConfigFromEnv (\<lambda>_. '''') = \<lparr>Host = ''localhost'', Port = ''5432'', User = ''postgres'', Password = ''postgres'', DBName = ''postgres''\<rparr>"
proof -
  have "plain_config (ConfigFromEnv (\<lambda>_. ''''))" by (simp add: plain_config_def ConfigFromEnv_def getEnv_def)
  then show ?thesis
    by (intro conjunct1 [OF connection_string_injective]) (simp_all add: plain_config_def ConfigFromEnv_def getEnv_def)
qed


section \<open>The connection pool\<close>

text \<open>\<open>fmt.Errorf("w: %w", err)\<close> where \<open>err\<close> may be nil.\<close>

fun wrap_err :: "string \<Rightarrow> err option \<Rightarrow> err" where
  "wrap_err w None = ErrorfNil w"
| "wrap_err w (Some e) = Errorf w e"

definition pool_maxRetries :: nat where
  "pool_maxRetries = 10"

text \<open>
  What the loop has done: the pools it closed and the seconds it slept.
\<close>

record 'p attempts =
  closed_pools :: "'p list"
  slept :: "nat list"

text \<open>
  The loop at attempt \<open>i\<close>, with \<open>n\<close> attempts left and the error of the last creation.
  The error of a failed ping has a variable of its own and is gone after the \<open>if\<close>.
\<close>

fun pool_loop ::
  "(nat \<Rightarrow> err + 'p) \<Rightarrow> ('p \<Rightarrow> nat \<Rightarrow> err option) \<Rightarrow> nat \<Rightarrow> nat \<Rightarrow> err option \<Rightarrow> 'p attempts
   \<Rightarrow> (err + 'p) \<times> 'p attempts" where
  "pool_loop create ping i 0 e a = (Inl (wrap_err ''connect to database after 10 retries'' e), a)"
| "pool_loop create ping i (Suc n) e a =
     (let sleep = (\<lambda>a. if i < pool_maxRetries - 1 then a\<lparr>slept := slept a @ [i + 1]\<rparr> else a)
      in case create i of
           Inl e' \<Rightarrow> pool_loop create ping (Suc i) n (Some e') (sleep a)
         | Inr pool \<Rightarrow>
             (case ping pool i of
                None \<Rightarrow> (Inr pool, a)
              | Some _ \<Rightarrow> pool_loop create ping (Suc i) n None (sleep (a\<lparr>closed_pools := closed_pools a @ [pool]\<rparr>))))"

definition NewPool ::
  "(string \<Rightarrow> err + 'c) \<Rightarrow> ('c \<Rightarrow> nat \<Rightarrow> err + 'p) \<Rightarrow> ('p \<Rightarrow> nat \<Rightarrow> err option) \<Rightarrow> Config
   \<Rightarrow> (err + 'p) \<times> 'p attempts" where
  "NewPool parse create ping cfg =
     (case parse (ConnectionString cfg) of
        Inl e \<Rightarrow> (Inl (Errorf ''parse config'' e), \<lparr>closed_pools = [], slept = []\<rparr>)
      | Inr poolConfig \<Rightarrow>
          pool_loop (create poolConfig) ping 0 pool_maxRetries None \<lparr>closed_pools = [], slept = []\<rparr>)"

text \<open>The attempts up to \<open>n\<close> that did not give a usable pool, in terms of the arguments alone.\<close>

definition attempt_up :: "(nat \<Rightarrow> err + 'p) \<Rightarrow> ('p \<Rightarrow> nat \<Rightarrow> err option) \<Rightarrow> nat \<Rightarrow> 'p option" where
  "attempt_up create ping i =
     (case create i of Inl _ \<Rightarrow> None | Inr p \<Rightarrow> (case ping p i of None \<Rightarrow> Some p | Some _ \<Rightarrow> None))"

definition pools_created :: "(nat \<Rightarrow> err + 'p) \<Rightarrow> nat \<Rightarrow> 'p list" where
  "pools_created create i = (case create i of Inl _ \<Rightarrow> [] | Inr p \<Rightarrow> [p])"

definition create_error :: "(nat \<Rightarrow> err + 'p) \<Rightarrow> nat \<Rightarrow> err option" where
  "create_error create i = (case create i of Inl e \<Rightarrow> Some e | Inr _ \<Rightarrow> None)"

lemma pool_loop_attempts:
  assumes "i + n = pool_maxRetries"
  shows "pool_loop create ping i n e a =
    (case find (\<lambda>j. attempt_up create ping j \<noteq> None) [i..<pool_maxRetries] of
       Some k \<Rightarrow> (Inr (the (attempt_up create ping k)),
         a\<lparr>closed_pools := closed_pools a @ concat (map (pools_created create) [i..<k]), slept := slept a @ [i + 1..<k + 1]\<rparr>)
     | None \<Rightarrow> (Inl (wrap_err ''connect to database after 10 retries''
                  (if n = 0 then e else create_error create (pool_maxRetries - 1))),
         a\<lparr>closed_pools := closed_pools a @ concat (map (pools_created create) [i..<pool_maxRetries]),
           slept := slept a @ [i + 1..<pool_maxRetries]\<rparr>))"
  using assms
proof (induction n arbitrary: i e a)
  case 0
  then show ?case by simp
next
  case (Suc n)
  have upt: "[i..<pool_maxRetries] = i # [Suc i..<pool_maxRetries]" using Suc.prems by (simp add: upt_conv_Cons)
  show ?case
  proof (cases "attempt_up create ping i")
    case (Some p)
    then show ?thesis unfolding upt
      by (auto simp: attempt_up_def split: sum.splits option.splits)
  next
    case None
    have last: "pool_maxRetries - 1 = i" if "n = 0" using Suc.prems that by simp
    let ?a = "(if i < pool_maxRetries - 1
        then a\<lparr>closed_pools := closed_pools a @ pools_created create i, slept := slept a @ [i + 1]\<rparr>
        else a\<lparr>closed_pools := closed_pools a @ pools_created create i\<rparr>)"
    have "pool_loop create ping i (Suc n) e a = pool_loop create ping (Suc i) n (create_error create i) ?a"
      using None by (auto simp: attempt_up_def pools_created_def create_error_def Let_def split: sum.splits option.splits)
    also have "\<dots> = (case find (\<lambda>j. attempt_up create ping j \<noteq> None) [Suc i..<pool_maxRetries] of
       Some k \<Rightarrow> (Inr (the (attempt_up create ping k)),
         ?a\<lparr>closed_pools := closed_pools ?a @ concat (map (pools_created create) [Suc i..<k]), slept := slept ?a @ [Suc i + 1..<k + 1]\<rparr>)
     | None \<Rightarrow> (Inl (wrap_err ''connect to database after 10 retries''
                  (if n = 0 then create_error create i else create_error create (pool_maxRetries - 1))),
         ?a\<lparr>closed_pools := closed_pools ?a @ concat (map (pools_created create) [Suc i..<pool_maxRetries]),
           slept := slept ?a @ [Suc i + 1..<pool_maxRetries]\<rparr>))"
      using Suc.prems by (intro Suc.IH) simp
    finally have step: "pool_loop create ping i (Suc n) e a = \<dots>" .
    show ?thesis
    proof (cases "find (\<lambda>j. attempt_up create ping j \<noteq> None) [Suc i..<pool_maxRetries]")
      case (Some k)
      then have "k \<in> set [Suc i..<pool_maxRetries]" unfolding find_Some_iff by (metis nth_mem)
      then have "[i..<k] = i # [Suc i..<k]" "[i + 1..<k + 1] = (i + 1) # [Suc i + 1..<k + 1]"
        "i < pool_maxRetries - 1"
        by (auto simp: upt_conv_Cons simp del: upt_Suc)
      with None Some show ?thesis unfolding step upt by (simp del: upt_Suc)
    next
      case none: None
      show ?thesis
      proof (cases "n = 0")
        case True
        with None none last show ?thesis unfolding step upt using Suc.prems by (simp del: upt_Suc)
      next
        case False
        then have "[i + 1..<pool_maxRetries] = (i + 1) # [Suc i + 1..<pool_maxRetries]" "i < pool_maxRetries - 1"
          using Suc.prems by (simp_all add: upt_conv_Cons del: upt_Suc)
        with None none False show ?thesis unfolding step upt by (simp del: upt_Suc)
      qed
    qed
  qed
qed

text \<open>
  C38: NewPool returns the pool of the first of at most ten attempts whose creation and ping both
  succeed, and has closed every pool it created before; between the attempts it sleeps 1, 2, ...
  seconds, 45 seconds in all before it gives up. When it gives up its error wraps the error of the
  last creation: if that creation succeeded and only its ping failed, it wraps nil, and says nothing
  of the cause.
\<close>

theorem new_pool_first_usable:
  assumes "parse (ConnectionString cfg) = Inr pc"
  shows "NewPool parse create ping cfg =
    (case find (\<lambda>j. attempt_up (create pc) ping j \<noteq> None) [0..<10] of
       Some k \<Rightarrow> (Inr (the (attempt_up (create pc) ping k)),
         \<lparr>closed_pools = concat (map (pools_created (create pc)) [0..<k]), slept = [1..<k + 1]\<rparr>)
     | None \<Rightarrow> (Inl (case create pc 9 of
                  Inl e \<Rightarrow> Errorf ''connect to database after 10 retries'' e
                | Inr _ \<Rightarrow> ErrorfNil ''connect to database after 10 retries''),
         \<lparr>closed_pools = concat (map (pools_created (create pc)) [0..<10]), slept = [1, 2, 3, 4, 5, 6, 7, 8, 9]\<rparr>))"
proof -
  have "[1..<10] = [1, 2, 3, 4, 5, 6, 7, 8, 9 :: nat]" by (simp add: upt_conv_Cons)
  then show ?thesis
    using assms pool_loop_attempts [of 0 10 "create pc" ping None "\<lparr>closed_pools = [], slept = []\<rparr>"]
    by (simp add: NewPool_def pool_maxRetries_def create_error_def del: upt_rec_numeral upt_Suc pool_loop.simps
        split: option.split sum.split)
qed

theorem new_pool_first_usable_witness:
  "fst (NewPool (\<lambda>_. Inr ()) (\<lambda>_ i. Inr i) (\<lambda>_ _. Some (Driver ''no route'')) (ConfigFromEnv (\<lambda>_. '''')) :: (err + nat) \<times> nat attempts) =
     Inl (ErrorfNil ''connect to database after 10 retries'')"
proof -
  have "find (\<lambda>j. attempt_up (\<lambda>i. Inr i) (\<lambda>_ _. Some (Driver ''no route'')) j \<noteq> None) [0..<10] = None"
    by (simp add: attempt_up_def find_None_iff)
  then show ?thesis
    by (subst new_pool_first_usable [OF refl]) simp
qed

end
