(* ===== verification/Messaging.thy ===== *)
theory Messaging
  imports Service Database
begin

text \<open>
  pkg/messaging/nats.go: connecting to the broker with a retry loop, subscribing with a queue group,
  and how a message that the broker delivers reaches the handlers that are subscribed. Publishing is
  \<open>nats_Publish\<close> in the theory of the outbox relay. The NATS library (connecting, taking a
  subscription, ending one) is an argument.
\<close>

section \<open>Connecting\<close>

definition nats_maxRetries :: nat where
  "nats_maxRetries = 10"

text \<open>
  The loop at attempt \<open>i\<close>, with \<open>n\<close> attempts left and the last error: after each failed
  attempt it waits \<open>i + 1\<close> seconds, unless the context is done first. The result is paired with
  the seconds it waited.
\<close>

fun nats_loop ::
  "(nat \<Rightarrow> err + 'c) \<Rightarrow> (nat \<Rightarrow> err option) \<Rightarrow> nat \<Rightarrow> nat \<Rightarrow> err option \<Rightarrow> nat list
   \<Rightarrow> (err + 'c) \<times> nat list" where
  "nats_loop connect ctx_done i 0 e ws = (Inl (wrap_err ''connect to NATS after 10 retries'' e), ws)"
| "nats_loop connect ctx_done i (Suc n) e ws =
     (case connect i of
        Inr conn \<Rightarrow> (Inr conn, ws)
      | Inl e' \<Rightarrow>
          (case ctx_done i of
             Some ctx_err \<Rightarrow> (Inl ctx_err, ws)
           | None \<Rightarrow> nats_loop connect ctx_done (Suc i) n (Some e') (ws @ [i + 1])))"

definition NewClient ::
  "(string \<Rightarrow> string) \<Rightarrow> string \<Rightarrow> (string \<Rightarrow> nat \<Rightarrow> err + 'c) \<Rightarrow> (nat \<Rightarrow> err option)
   \<Rightarrow> (err + 'c) \<times> nat list" where
  "NewClient env nats_DefaultURL connect ctx_done =
     (let natsURL = env ''NATS_URL'';
          natsURL = (if natsURL = '''' then nats_DefaultURL else natsURL)
      in nats_loop (connect natsURL) ctx_done 0 nats_maxRetries None [])"

text \<open>An attempt that ends the loop: a connection, or a context that is done in the wait after it.\<close>

definition nats_stops :: "(nat \<Rightarrow> err + 'c) \<Rightarrow> (nat \<Rightarrow> err option) \<Rightarrow> nat \<Rightarrow> bool" where
  "nats_stops connect ctx_done i \<longleftrightarrow> \<not> isl (connect i) \<or> ctx_done i \<noteq> None"

lemma nats_loop_attempts:
  assumes "i + n = nats_maxRetries" and "n = 0 \<Longrightarrow> e = Some (projl (connect (nats_maxRetries - 1)))"
  shows "nats_loop connect ctx_done i n e ws =
    (case find (nats_stops connect ctx_done) [i..<nats_maxRetries] of
       Some k \<Rightarrow> (case connect k of Inr conn \<Rightarrow> Inr conn | Inl _ \<Rightarrow> Inl (the (ctx_done k)), ws @ [i + 1..<k + 1])
     | None \<Rightarrow> (Inl (Errorf ''connect to NATS after 10 retries'' (projl (connect (nats_maxRetries - 1)))),
         ws @ [i + 1..<nats_maxRetries + 1]))"
  using assms
proof (induction n arbitrary: i e ws)
  case 0
  then show ?case by simp
next
  case (Suc n)
  have upt: "[i..<nats_maxRetries] = i # [Suc i..<nats_maxRetries]" using Suc.prems by (simp add: upt_conv_Cons)
  show ?case
  proof (cases "nats_stops connect ctx_done i")
    case True
    then show ?thesis unfolding upt by (auto simp: nats_stops_def split: sum.splits option.splits)
  next
    case False
    then obtain e' where e': "connect i = Inl e'" "ctx_done i = None" by (auto simp: nats_stops_def isl_def)
    have "nats_loop connect ctx_done i (Suc n) e ws = nats_loop connect ctx_done (Suc i) n (Some e') (ws @ [i + 1])"
      using e' by simp
    also have "\<dots> = (case find (nats_stops connect ctx_done) [Suc i..<nats_maxRetries] of
       Some k \<Rightarrow> (case connect k of Inr conn \<Rightarrow> Inr conn | Inl _ \<Rightarrow> Inl (the (ctx_done k)), (ws @ [i + 1]) @ [Suc i + 1..<k + 1])
     | None \<Rightarrow> (Inl (Errorf ''connect to NATS after 10 retries'' (projl (connect (nats_maxRetries - 1)))),
         (ws @ [i + 1]) @ [Suc i + 1..<nats_maxRetries + 1]))"
    proof (rule Suc.IH)
      show "Suc i + n = nats_maxRetries" using Suc.prems by simp
      show "Some e' = Some (projl (connect (nats_maxRetries - 1)))" if "n = 0"
      proof -
        have "nats_maxRetries - 1 = i" using Suc.prems that by simp
        then show ?thesis using e' by simp
      qed
    qed
    finally have step: "nats_loop connect ctx_done i (Suc n) e ws = \<dots>" .
    have waits: "[i + 1..<k + 1] = (i + 1) # [Suc i + 1..<k + 1]" if "i < k" for k
      using that by (simp add: upt_conv_Cons del: upt_Suc)
    have last: "[i + 1..<nats_maxRetries + 1] = (i + 1) # [Suc i + 1..<nats_maxRetries + 1]"
      using Suc.prems by (intro waits) simp
    show ?thesis
    proof (cases "find (nats_stops connect ctx_done) [Suc i..<nats_maxRetries]")
      case (Some k)
      then have "k \<in> set [Suc i..<nats_maxRetries]" unfolding find_Some_iff by (metis nth_mem)
      then have "i < k" by simp
      with False Some waits [of k] show ?thesis unfolding step upt by (simp del: upt_Suc)
    next
      case None
      with False last show ?thesis unfolding step upt by (simp del: upt_Suc)
    qed
  qed
qed

text \<open>
  C39: NewClient returns the connection of the first of at most ten attempts that succeeds, having
  waited 1, 2, ... seconds between them; if the context is done during a wait it returns the
  context's error at once; and when all ten fail it returns the error of the tenth, after waiting
  also once more, 55 seconds in all.
\<close>

theorem new_client_first_connection:
  shows "NewClient env nats_DefaultURL connect ctx_done =
    (let conn = connect (if env ''NATS_URL'' = '''' then nats_DefaultURL else env ''NATS_URL'')
     in case find (nats_stops conn ctx_done) [0..<10] of
       Some k \<Rightarrow> (case conn k of Inr c \<Rightarrow> Inr c | Inl _ \<Rightarrow> Inl (the (ctx_done k)), [1..<k + 1])
     | None \<Rightarrow> (Inl (Errorf ''connect to NATS after 10 retries'' (projl (conn 9))),
         [1, 2, 3, 4, 5, 6, 7, 8, 9, 10]))"
proof -
  have waits: "[1..<11] = [1, 2, 3, 4, 5, 6, 7, 8, 9, 10 :: nat]" by (simp add: upt_conv_Cons)
  let ?conn = "connect (if env ''NATS_URL'' = '''' then nats_DefaultURL else env ''NATS_URL'')"
  show ?thesis
    using nats_loop_attempts [of 0 10 None ?conn ctx_done "[]"] waits
    by (simp add: NewClient_def nats_maxRetries_def Let_def del: upt_rec_numeral upt_Suc nats_loop.simps
        split: option.split)
qed


section \<open>Subscriptions\<close>

text \<open>
  A subscription of a service process: its subject, its queue group, and what its handler does with
  the data of a message. The state is the subscriptions the broker holds for the process
  (\<open>active\<close>) and the field \<open>subs\<close> of the consumer.
\<close>

record 'db subscription =
  sub_subject :: string
  sub_queue :: string
  sub_handler :: "wire \<Rightarrow> 'db pg \<Rightarrow> 'db pg"

record 'db consumer =
  active :: "'db subscription list"
  subs :: "'db subscription list"

definition client_Subscribe ::
  "(string \<Rightarrow> string option) \<Rightarrow> string \<Rightarrow> string \<Rightarrow> (wire \<Rightarrow> 'db pg \<Rightarrow> 'db pg)
   \<Rightarrow> ('db consumer, 'db subscription) go" where
  "client_Subscribe sub_err subject queue handler c =
     (case sub_err subject of
        Some msg \<Rightarrow> (Inl (Errorf (''subscribe to '' @ subject) (Driver msg)), c)
      | None \<Rightarrow>
          (let sub = \<lparr>sub_subject = subject, sub_queue = queue, sub_handler = handler\<rparr>
           in (Inr sub, c\<lparr>active := active c @ [sub]\<rparr>)))"

text \<open>\<open>sub, err := c.client.Subscribe(...); if err != nil { return err }; c.subs = append(c.subs, sub)\<close>\<close>

definition subscribe ::
  "(string \<Rightarrow> string option) \<Rightarrow> string \<Rightarrow> string \<Rightarrow> (wire \<Rightarrow> 'db pg \<Rightarrow> 'db pg) \<Rightarrow> ('db consumer, unit) go" where
  "subscribe sub_err subject queue handler =
     go_bind (client_Subscribe sub_err subject queue handler) (\<lambda>sub c.
       (Inr (), c\<lparr>subs := subs c @ [sub]\<rparr>))"

text \<open>
  \<open>Stop\<close> ends every subscription of \<open>c.subs\<close> and ignores the errors; a subscription that
  was ended gets no more messages.
\<close>

definition consumer_Stop :: "(string \<Rightarrow> string option) \<Rightarrow> 'db consumer \<Rightarrow> 'db consumer" where
  "consumer_Stop unsub_err c =
     fold (\<lambda>sub c. if unsub_err (sub_subject sub) = None
                   then c\<lparr>active := filter (\<lambda>x. sub_subject x \<noteq> sub_subject sub) (active c)\<rparr> else c)
       (subs c) c"

text \<open>The broker delivers a message of a subject to the process: the handlers subscribed to it run.\<close>

definition deliver :: "'db consumer \<Rightarrow> string \<Rightarrow> wire \<Rightarrow> 'db pg \<Rightarrow> 'db pg" where
  "deliver c subject data s =
     fold (\<lambda>sub s. if sub_subject sub = subject then sub_handler sub data s else s) (active c) s"

definition new_consumer :: "'db consumer" where
  "new_consumer = \<lparr>active = [], subs = []\<rparr>"

text \<open>
  Subscribing one after the other: all of the subscriptions, or the error of the first that fails
  and only those before it.
\<close>

fun subscribe_all ::
  "(string \<Rightarrow> string option) \<Rightarrow> 'db subscription list \<Rightarrow> ('db consumer, unit) go" where
  "subscribe_all sub_err [] = go_return ()"
| "subscribe_all sub_err (x # xs) =
     go_bind (subscribe sub_err (sub_subject x) (sub_queue x) (sub_handler x)) (\<lambda>_. subscribe_all sub_err xs)"

lemma subscribe_eval:
  "subscribe sub_err subject queue handler c =
     (case sub_err subject of
        Some msg \<Rightarrow> (Inl (Errorf (''subscribe to '' @ subject) (Driver msg)), c)
      | None \<Rightarrow>
          (let sub = \<lparr>sub_subject = subject, sub_queue = queue, sub_handler = handler\<rparr>
           in (Inr (), c\<lparr>active := active c @ [sub], subs := subs c @ [sub]\<rparr>)))"
  by (simp add: subscribe_def client_Subscribe_def go_run Let_def split: option.split)

definition accepted_subs :: "(string \<Rightarrow> string option) \<Rightarrow> 'db subscription list \<Rightarrow> 'db subscription list" where
  "accepted_subs sub_err xs = takeWhile (\<lambda>x. sub_err (sub_subject x) = None) xs"

lemma subscribe_all_result:
  "subscribe_all sub_err xs c =
     (case find (\<lambda>x. sub_err (sub_subject x) \<noteq> None) xs of
        None \<Rightarrow> Inr ()
      | Some x \<Rightarrow> Inl (Errorf (''subscribe to '' @ sub_subject x) (Driver (the (sub_err (sub_subject x))))),
      c\<lparr>active := active c @ accepted_subs sub_err xs, subs := subs c @ accepted_subs sub_err xs\<rparr>)"
proof (induction xs arbitrary: c)
  case Nil
  then show ?case by (simp add: go_run accepted_subs_def)
next
  case (Cons x xs)
  have "\<lparr>sub_subject = sub_subject x, sub_queue = sub_queue x, sub_handler = sub_handler x\<rparr> = x" by simp
  with Cons show ?case
    by (auto simp: go_run subscribe_eval accepted_subs_def Let_def split: option.splits)
qed

lemma stop_all:
  assumes "\<And>x. x \<in> set xs \<Longrightarrow> unsub_err (sub_subject x) = None"
  shows "fold (\<lambda>sub c. if unsub_err (sub_subject sub) = None
      then c\<lparr>active := filter (\<lambda>x. sub_subject x \<noteq> sub_subject sub) (active c)\<rparr> else c) xs c =
    c\<lparr>active := filter (\<lambda>x. sub_subject x \<notin> sub_subject ` set xs) (active c)\<rparr>"
  using assms
proof (induction xs arbitrary: c)
  case Nil
  then show ?case by simp
next
  case (Cons x xs)
  then show ?case by (simp add: filter_filter conj_commute)
qed

lemma run_no_handler:
  "subject \<notin> sub_subject ` set xs \<Longrightarrow>
   fold (\<lambda>sub s. if sub_subject sub = subject then sub_handler sub data s else s) xs s = s"
  by (induction xs arbitrary: s) auto

lemma deliver_none: "subject \<notin> sub_subject ` set (active c) \<Longrightarrow> deliver c subject data s = s"
  by (simp add: deliver_def run_no_handler)

lemma deliver_one:
  assumes "distinct (map sub_subject (active c))" and "x \<in> set (active c)" and "sub_subject x = subject"
  shows "deliver c subject data s = sub_handler x data s"
proof -
  obtain ys zs where "active c = ys @ x # zs" using assms(2) by (meson split_list)
  moreover from this have "subject \<notin> sub_subject ` set ys" "subject \<notin> sub_subject ` set zs"
    using assms(1,3) by auto
  ultimately show ?thesis using assms(3) by (simp add: deliver_def run_no_handler)
qed

text \<open>
  What \<open>Start\<close> leaves: on success exactly the given subscriptions, on an error those before the
  first that failed; \<open>Stop\<close> ends them all.
\<close>

definition started_with :: "(string \<Rightarrow> string option) \<Rightarrow> 'db subscription list \<Rightarrow> err + unit \<Rightarrow> 'db consumer \<Rightarrow> bool" where
  "started_with sub_err xs r c \<longleftrightarrow>
     subs c = active c \<and> active (consumer_Stop (\<lambda>_. None) c) = [] \<and>
     (case r of
        Inr _ \<Rightarrow> active c = xs
      | Inl e \<Rightarrow> active c = takeWhile (\<lambda>x. sub_err (sub_subject x) = None) xs \<and>
          (\<exists>x \<in> set xs. \<exists>msg. sub_err (sub_subject x) = Some msg \<and>
             e = Errorf (''subscribe to '' @ sub_subject x) (Driver msg)))"

lemma subscribe_all_started:
  "subscribe_all sub_err xs new_consumer = (r, c) \<Longrightarrow> started_with sub_err xs r c"
proof -
  assume "subscribe_all sub_err xs new_consumer = (r, c)"
  then have rc: "r = (case find (\<lambda>x. sub_err (sub_subject x) \<noteq> None) xs of
        None \<Rightarrow> Inr ()
      | Some x \<Rightarrow> Inl (Errorf (''subscribe to '' @ sub_subject x) (Driver (the (sub_err (sub_subject x))))))"
    "c = \<lparr>active = accepted_subs sub_err xs, subs = accepted_subs sub_err xs\<rparr>"
    by (simp_all add: subscribe_all_result new_consumer_def)
  have stop: "active (consumer_Stop (\<lambda>_. None) c) = []"
    using stop_all [of "subs c" "\<lambda>_. None" c] rc(2) by (simp add: consumer_Stop_def)
  show ?thesis
  proof (cases "find (\<lambda>x. sub_err (sub_subject x) \<noteq> None) xs")
    case None
    then have "accepted_subs sub_err xs = xs"
      by (auto simp: find_None_iff accepted_subs_def)
    with rc stop None show ?thesis by (simp add: started_with_def)
  next
    case (Some x)
    then have "x \<in> set xs" "\<exists>msg. sub_err (sub_subject x) = Some msg"
      by (auto simp: find_Some_iff)
    with rc stop Some show ?thesis by (auto simp: started_with_def accepted_subs_def)
  qed
qed

text \<open>
  The contract of a consumer: \<open>Start\<close> makes the given subscriptions, and the handler of each
  subject carries out the call of the service that the message amounts to, if it amounts to one.
\<close>

locale event_consumer =
  fixes start :: "(string \<Rightarrow> string option) \<Rightarrow> ('db consumer, unit) go"
    and handlers :: "'db subscription list"
    and call_of :: "string \<Rightarrow> wire \<Rightarrow> 'call option"
    and exec :: "'call \<Rightarrow> 'db pg \<Rightarrow> 'db pg"
  assumes start_subscribes: "start sub_err = subscribe_all sub_err handlers"
    and distinct_subjects: "distinct (map sub_subject handlers)"
    and handler_calls: "x \<in> set handlers \<Longrightarrow>
      sub_handler x data s = (case call_of (sub_subject x) data of None \<Rightarrow> s | Some c \<Rightarrow> exec c s)"
    and other_subjects: "subject \<notin> sub_subject ` set handlers \<Longrightarrow> call_of subject data = None"
begin

lemma delivers:
  assumes "active c = handlers"
  shows "deliver c subject data s = (case call_of subject data of None \<Rightarrow> s | Some call \<Rightarrow> exec call s)"
proof (cases "subject \<in> sub_subject ` set handlers")
  case False
  then show ?thesis by (simp add: deliver_none assms other_subjects)
next
  case True
  then obtain x where x: "x \<in> set handlers" "sub_subject x = subject" by blast
  then have "deliver c subject data s = sub_handler x data s"
    by (intro deliver_one) (simp_all add: assms distinct_subjects)
  with handler_calls [OF x(1), of data s] x(2) show ?thesis by simp
qed

lemma start_outcome:
  assumes "start sub_err new_consumer = (r, c)"
  shows "started_with sub_err handlers r c \<and>
    (r = Inr () \<longrightarrow> deliver c subject data s =
       (case call_of subject data of None \<Rightarrow> s | Some call \<Rightarrow> exec call s))"
proof -
  have "started_with sub_err handlers r c"
    using assms unfolding start_subscribes by (rule subscribe_all_started)
  then show ?thesis by (auto simp: started_with_def intro: delivers)
qed

end

end
