(* ===== verification/Http.thy ===== *)
theory Http
  imports Service
begin

text \<open>
  What the HTTP handlers of the three services share (services/*/internal/interfaces/http.go): the
  response, the error document, and the health check. The Echo framework, which binds the request,
  finds the path parameter and writes the response, is outside the model: a handler is a function of
  what \<open>c.Bind\<close> or \<open>c.Param\<close> returned, and its result is the response it hands to
  \<open>c.JSON\<close>. The layout of a time in a response is the argument \<open>fmt\<close>.
\<close>

record http_response =
  http_status :: nat
  http_body :: json

definition StatusOK :: nat where "StatusOK = 200"
definition StatusCreated :: nat where "StatusCreated = 201"
definition StatusBadRequest :: nat where "StatusBadRequest = 400"
definition StatusNotFound :: nat where "StatusNotFound = 404"
definition StatusInternalServerError :: nat where "StatusInternalServerError = 500"

lemmas http_status_defs =
  StatusOK_def StatusCreated_def StatusBadRequest_def StatusNotFound_def StatusInternalServerError_def

definition c_JSON :: "nat \<Rightarrow> json \<Rightarrow> http_response" where
  "c_JSON code body = \<lparr>http_status = code, http_body = body\<rparr>"

lemma c_JSON_fields [simp]: "http_status (c_JSON code body) = code" "http_body (c_JSON code body) = body"
  by (simp_all add: c_JSON_def)

record ErrorResponse =
  er_Error :: string
  er_Message :: string

definition marshal_error :: "ErrorResponse \<Rightarrow> json" where
  "marshal_error r = JObj [(''error'', JStr (er_Error r)), (''message'', JStr (er_Message r))]"

definition error_response :: "nat \<Rightarrow> string \<Rightarrow> string \<Rightarrow> http_response" where
  "error_response code kind message = c_JSON code (marshal_error \<lparr>er_Error = kind, er_Message = message\<rparr>)"

lemma error_response_status [simp]: "http_status (error_response code kind message) = code"
  by (simp add: error_response_def)

definition HealthCheck :: http_response where
  "HealthCheck = c_JSON StatusOK (JObj [(''status'', JStr ''healthy'')])"


text \<open>
  What a request for one thing is answered: 400 for an empty name, 404 if the query fails or finds
  nothing, 200 and the document of a row that was found otherwise.
\<close>

definition read_answer :: "string \<Rightarrow> bool \<Rightarrow> 'r list \<Rightarrow> ('r \<Rightarrow> json) \<Rightarrow> http_response \<Rightarrow> bool" where
  "read_answer key fails found document resp \<longleftrightarrow>
     (if key = '''' then http_status resp = 400
      else if fails \<or> found = [] then http_status resp = 404
      else http_status resp = 200 \<and> http_body resp \<in> document ` set found)"

end
