(* ===== verification/Order_Interfaces.thy ===== *)
theory Order_Interfaces
  imports Order_Service Messaging Http
begin

text \<open>
  How the order service is reached: the event consumer (services/order/internal/interfaces/consumer.go)
  and the HTTP handlers (services/order/internal/interfaces/http.go).
\<close>

section \<open>The event consumer\<close>

text \<open>
  A message that cannot be parsed and an event that cannot be handled are only logged: the broker
  does not deliver the message again.
\<close>

definition order_handleStockReserved :: "sys \<Rightarrow> wire \<Rightarrow> order_db pg \<Rightarrow> order_db pg" where
  "order_handleStockReserved sys data s =
     (case ParseStockReservedEvent sys data of
        Inl _ \<Rightarrow> s
      | Inr event \<Rightarrow> snd (order_HandleStockReserved sys (EventID event) (sr_OrderID event) s))"

definition order_handleStockReserveFailed :: "sys \<Rightarrow> wire \<Rightarrow> order_db pg \<Rightarrow> order_db pg" where
  "order_handleStockReserveFailed sys data s =
     (case ParseStockReserveFailedEvent sys data of
        Inl _ \<Rightarrow> s
      | Inr event \<Rightarrow>
          snd (order_HandleStockReserveFailed sys (EventID event) (sf_OrderID event) (sf_Reason event) s))"

definition order_handlePaymentCompleted :: "sys \<Rightarrow> wire \<Rightarrow> order_db pg \<Rightarrow> order_db pg" where
  "order_handlePaymentCompleted sys data s =
     (case ParsePaymentCompletedEvent sys data of
        Inl _ \<Rightarrow> s
      | Inr event \<Rightarrow> snd (order_HandlePaymentCompleted sys (EventID event) (pc_OrderID event) s))"

definition order_handlePaymentFailed :: "sys \<Rightarrow> wire \<Rightarrow> order_db pg \<Rightarrow> order_db pg" where
  "order_handlePaymentFailed sys data s =
     (case ParsePaymentFailedEvent sys data of
        Inl _ \<Rightarrow> s
      | Inr event \<Rightarrow>
          snd (order_HandlePaymentFailed sys (EventID event) (pf_OrderID event) (pf_Reason event) s))"

definition order_Start :: "sys \<Rightarrow> (string \<Rightarrow> string option) \<Rightarrow> (order_db consumer, unit) go" where
  "order_Start sys sub_err =
     go_bind (subscribe sub_err EventTypeStockReserved ''order-service'' (order_handleStockReserved sys)) (\<lambda>_.
     go_bind (subscribe sub_err EventTypeStockReserveFailed ''order-service''
                (order_handleStockReserveFailed sys)) (\<lambda>_.
     go_bind (subscribe sub_err EventTypePaymentCompleted ''order-service''
                (order_handlePaymentCompleted sys)) (\<lambda>_.
     go_bind (subscribe sub_err EventTypePaymentFailed ''order-service''
                (order_handlePaymentFailed sys)) (\<lambda>_.
     go_return ()))))"

definition order_subscriptions :: "sys \<Rightarrow> order_db subscription list" where
  "order_subscriptions sys =
     [\<lparr>sub_subject = EventTypeStockReserved, sub_queue = ''order-service'',
       sub_handler = order_handleStockReserved sys\<rparr>,
      \<lparr>sub_subject = EventTypeStockReserveFailed, sub_queue = ''order-service'',
       sub_handler = order_handleStockReserveFailed sys\<rparr>,
      \<lparr>sub_subject = EventTypePaymentCompleted, sub_queue = ''order-service'',
       sub_handler = order_handlePaymentCompleted sys\<rparr>,
      \<lparr>sub_subject = EventTypePaymentFailed, sub_queue = ''order-service'',
       sub_handler = order_handlePaymentFailed sys\<rparr>]"

text \<open>The call of the service that a message amounts to.\<close>

definition order_call_of :: "sys \<Rightarrow> string \<Rightarrow> wire \<Rightarrow> order_call option" where
  "order_call_of sys subject data =
     (if subject = EventTypeStockReserved then
        (case ParseStockReservedEvent sys data of Inl _ \<Rightarrow> None
         | Inr e \<Rightarrow> Some (CallStockReserved (EventID e) (sr_OrderID e)))
      else if subject = EventTypeStockReserveFailed then
        (case ParseStockReserveFailedEvent sys data of Inl _ \<Rightarrow> None
         | Inr e \<Rightarrow> Some (CallStockReserveFailed (EventID e) (sf_OrderID e) (sf_Reason e)))
      else if subject = EventTypePaymentCompleted then
        (case ParsePaymentCompletedEvent sys data of Inl _ \<Rightarrow> None
         | Inr e \<Rightarrow> Some (CallPaymentCompleted (EventID e) (pc_OrderID e)))
      else if subject = EventTypePaymentFailed then
        (case ParsePaymentFailedEvent sys data of Inl _ \<Rightarrow> None
         | Inr e \<Rightarrow> Some (CallPaymentFailed (EventID e) (pf_OrderID e) (pf_Reason e)))
      else None)"

interpretation order_consumer: event_consumer "order_Start sys" "order_subscriptions sys" "order_call_of sys"
    "order_exec sys" for sys
proof
  show "order_Start sys sub_err = subscribe_all sub_err (order_subscriptions sys)" for sub_err
    by (simp add: order_Start_def order_subscriptions_def)
  show "distinct (map sub_subject (order_subscriptions sys))"
    by (simp add: order_subscriptions_def EventType_neq)
  show "sub_handler x data s =
      (case order_call_of sys (sub_subject x) data of None \<Rightarrow> s | Some c \<Rightarrow> order_exec sys c s)"
    if "x \<in> set (order_subscriptions sys)" for x data s
    using that unfolding order_subscriptions_def
    by (elim in_set_cases; simp add: order_call_of_def EventType_neq order_handleStockReserved_def
      order_handleStockReserveFailed_def order_handlePaymentCompleted_def order_handlePaymentFailed_def
          split: sum.split)
  show "order_call_of sys subject data = None" if "subject \<notin> sub_subject ` set (order_subscriptions sys)"
    for subject data
    using that by (simp add: order_subscriptions_def order_call_of_def)
qed

text \<open>
  C29: the consumer of the order service. If Start succeeds, the service holds exactly the four
  subscriptions, and a message of their subjects has the effect of the matching call of the service
  with the IDs it carries, while a message that does not parse, or of another subject, has none; if
  a subscription fails, Start returns its error and only the subscriptions before it are active.
  Stop ends them all in both cases.
\<close>

theorem order_consumer_delivers:
  assumes "order_Start sys sub_err new_consumer = (r, c)"
  shows "started_with sub_err (order_subscriptions sys) r c \<and>
    (r = Inr () \<longrightarrow> deliver c subject data s =
       (case order_call_of sys subject data of None \<Rightarrow> s | Some call \<Rightarrow> order_exec sys call s))"
  by (rule order_consumer.start_outcome [OF assms])

theorem order_consumer_delivers_witness:
  "let (r, c) = order_Start sample_sys (\<lambda>x. if x = EventTypePaymentCompleted then Some ''no responders'' else None) new_consumer
   in r = Inl (Errorf ''subscribe to payment.completed'' (Driver ''no responders'')) \<and>
      map sub_subject (active c) = [EventTypeStockReserved, EventTypeStockReserveFailed] \<and>
      active (consumer_Stop (\<lambda>_. None) c) = []"
proof -
  obtain r c where rc: "order_Start sample_sys (\<lambda>x. if x = EventTypePaymentCompleted then Some ''no responders'' else None)
      new_consumer = (r, c)" by fastforce
  from rc have "r = Inl (Errorf ''subscribe to payment.completed'' (Driver ''no responders''))"
    by (auto simp: order_Start_def go_run subscribe_eval EventType_defs Let_def)
  with order_consumer_delivers [OF rc] rc show ?thesis
    by (auto simp: started_with_def order_subscriptions_def EventType_neq)
qed


section \<open>HTTP\<close>

record CreateOrderRequest =
  req_CustomerID :: string
  req_ProductID :: string
  req_Quantity :: go_int
  req_TotalAmount :: float64

record CreateOrderResponse =
  cor_OrderID :: string
  cor_Status :: string

record OrderResponse =
  or_ID :: string
  or_CustomerID :: string
  or_ProductID :: string
  or_Quantity :: go_int
  or_TotalAmount :: float64
  or_Status :: string
  or_CreatedAt :: string
  or_UpdatedAt :: string

definition marshal_created :: "CreateOrderResponse \<Rightarrow> json" where
  "marshal_created r = JObj [(''order_id'', JStr (cor_OrderID r)), (''status'', JStr (cor_Status r))]"

definition marshal_order :: "sys \<Rightarrow> OrderResponse \<Rightarrow> json" where
  "marshal_order sys r =
     JObj [(''id'', JStr (or_ID r)), (''customer_id'', JStr (or_CustomerID r)),
           (''product_id'', JStr (or_ProductID r)), (''quantity'', JInt (sint (or_Quantity r))),
           (''total_amount'', marshal_float sys (or_TotalAmount r)), (''status'', JStr (or_Status r)),
           (''created_at'', JStr (or_CreatedAt r)), (''updated_at'', JStr (or_UpdatedAt r))]"

definition input_of_request :: "CreateOrderRequest \<Rightarrow> CreateOrderInput" where
  "input_of_request req =
     \<lparr>in_CustomerID = req_CustomerID req, in_ProductID = req_ProductID req,
      in_Quantity = req_Quantity req, in_TotalAmount = req_TotalAmount req\<rparr>"

text \<open>\<open>bound\<close> is what \<open>c.Bind(&req)\<close> made of the request body.\<close>

definition http_CreateOrder ::
  "sys \<Rightarrow> err + CreateOrderRequest \<Rightarrow> order_db pg \<Rightarrow> http_response \<times> order_db pg" where
  "http_CreateOrder sys bound s =
     (case bound of
        Inl _ \<Rightarrow> (error_response StatusBadRequest ''invalid_request'' ''Invalid request body'', s)
      | Inr req \<Rightarrow>
          if req_CustomerID req = '''' \<or> req_ProductID req = '''' \<or> req_Quantity req <=s 0 \<or>
             req_TotalAmount req \<le> 0
          then (error_response StatusBadRequest ''validation_error''
                  ''All fields are required and must be valid'', s)
          else
            (case CreateOrder sys (input_of_request req) s of
               (Inl e, s') \<Rightarrow> (error_response StatusInternalServerError ''internal_error'' (err_Error e), s')
             | (Inr output, s') \<Rightarrow>
                 (c_JSON StatusCreated (marshal_created
                    \<lparr>cor_OrderID = out_OrderID output, cor_Status = out_Status output\<rparr>), s')))"

definition order_response :: "(int \<Rightarrow> string) \<Rightarrow> Order \<Rightarrow> OrderResponse" where
  "order_response fmt ord =
     \<lparr>or_ID = order_ID ord, or_CustomerID = order_CustomerID ord,
      or_ProductID = order_ProductID ord, or_Quantity = order_Quantity ord,
      or_TotalAmount = order_TotalAmount ord, or_Status = order_Status ord,
      or_CreatedAt = fmt (order_CreatedAt ord), or_UpdatedAt = fmt (order_UpdatedAt ord)\<rparr>"

definition http_GetOrder ::
  "sys \<Rightarrow> (int \<Rightarrow> string) \<Rightarrow> string \<Rightarrow> order_db pg \<Rightarrow> http_response \<times> order_db pg" where
  "http_GetOrder sys fmt orderID s =
     (if orderID = ''''
      then (error_response StatusBadRequest ''invalid_request'' ''Order ID is required'', s)
      else
        (case GetOrder sys orderID s of
           (Inl e, s') \<Rightarrow> (error_response StatusNotFound ''not_found'' ''Order not found'', s')
         | (Inr ord, s') \<Rightarrow>
             (c_JSON StatusOK (marshal_order sys (order_response fmt ord)), s')))"

text \<open>The requests the handler refuses are those the domain would refuse.\<close>

definition request_refused :: "CreateOrderRequest \<Rightarrow> bool" where
  "request_refused req \<longleftrightarrow> isl (NewOrder '''' 0 (req_CustomerID req) (req_ProductID req)
     (req_Quantity req) (req_TotalAmount req))"

lemma request_refused_iff:
  "request_refused req \<longleftrightarrow> req_CustomerID req = '''' \<or> req_ProductID req = '''' \<or> req_Quantity req <=s 0 \<or>
     req_TotalAmount req \<le> 0"
  by (auto simp: request_refused_def NewOrder_def)

text \<open>
  C31: POST /orders. The handler answers 400 exactly for a body that does not bind and for the
  fields that \<open>NewOrder\<close> would refuse, and then changes nothing, so the two validations agree and a
  refusal by the domain never becomes a 500; it answers 201 only when the order, PENDING, and its
  event are durable; and with a 500, whose body is the text of the error, nothing is durable, unless the
  last exchange with the database was the commit and its acknowledgement was lost, and then the body
  says so.
\<close>

theorem http_create_order:
  assumes "http_CreateOrder sys bound s = (resp, s')"
  shows "http_status resp \<in> {StatusBadRequest, StatusCreated, StatusInternalServerError} \<and>
    (http_status resp = StatusBadRequest \<longleftrightarrow> (case bound of Inl _ \<Rightarrow> True | Inr req \<Rightarrow> request_refused req)) \<and>
    (http_status resp = StatusBadRequest \<longrightarrow> s' = s) \<and>
    (http_status resp = StatusCreated \<longrightarrow>
       (\<exists>req oid. bound = Inr req \<and>
          order_step sys (CallCreateOrder (input_of_request req)) (durable s) (durable s') \<and>
          http_body resp = marshal_created \<lparr>cor_OrderID = oid, cor_Status = OrderStatusPending\<rparr> \<and>
          (\<exists>r \<in> set (orders (durable s')). uuid_in sys oid = Some (o_id r) \<and> o_status r = OrderStatusPending))) \<and>
    (http_status resp = StatusInternalServerError \<longrightarrow>
       (\<exists>req e. bound = Inr req \<and> resp = error_response StatusInternalServerError ''internal_error'' (err_Error e) \<and>
          (durable s' = durable s \<or>
           order_step sys (CallCreateOrder (input_of_request req)) (durable s) (durable s') \<and>
           (\<exists>t msg. tick s' = Suc t \<and> commit_reply sys t = Unacked msg \<and>
              e = Errorf ''commit transaction'' (Driver msg)))))"
proof (cases "case bound of Inl _ \<Rightarrow> True | Inr req \<Rightarrow> request_refused req")
  case True
  with assms show ?thesis
    by (auto simp: http_CreateOrder_def request_refused_iff http_status_defs split: sum.splits)
next
  case False
  then obtain req where req: "bound = Inr req" "\<not> request_refused req" by (auto split: sum.splits)
  with assms CreateOrder_outcome [of sys "input_of_request req" s] show ?thesis
    unfolding http_CreateOrder_def wpc_def request_refused_iff
    by (auto simp: req(1) req(2) [unfolded request_refused_iff] http_status_defs split: prod.splits sum.splits)
qed

theorem http_create_order_witness:
  "let (resp, s') = http_CreateOrder sample_sys
       (Inr \<lparr>req_CustomerID = ''c'', req_ProductID = ''p'', req_Quantity = 0, req_TotalAmount = 10\<rparr>) (order_boot empty_order_db)
   in http_status resp = 400 \<and> s' = order_boot empty_order_db"
proof -
  obtain resp s' where run: "http_CreateOrder sample_sys
       (Inr \<lparr>req_CustomerID = ''c'', req_ProductID = ''p'', req_Quantity = 0, req_TotalAmount = 10\<rparr>)
       (order_boot empty_order_db) = (resp, s')" by fastforce
  have "request_refused \<lparr>req_CustomerID = ''c'', req_ProductID = ''p'', req_Quantity = 0, req_TotalAmount = 10\<rparr>"
    by (simp add: request_refused_iff sle_iff)
  with http_create_order [OF run] run show ?thesis by (simp add: StatusBadRequest_def)
qed

end
