(* ===== verification/Inventory_Interfaces.thy ===== *)
theory Inventory_Interfaces
  imports Inventory_Service Messaging Http
begin

text \<open>
  How the inventory service is reached: the event consumer
  (services/inventory/internal/interfaces/consumer.go) and the HTTP handler
  (services/inventory/internal/interfaces/http.go).
\<close>

section \<open>The event consumer\<close>

definition inventory_handleOrderCreated :: "sys \<Rightarrow> wire \<Rightarrow> inventory_db pg \<Rightarrow> inventory_db pg" where
  "inventory_handleOrderCreated sys data s =
     (case ParseOrderCreatedEvent sys data of
        Inl _ \<Rightarrow> s
      | Inr event \<Rightarrow>
          snd (inventory_HandleOrderCreated sys (EventID event) (oc_OrderID event) (oc_ProductID event)
                 (oc_CustomerID event) (oc_Quantity event) (oc_TotalAmount event) s))"

definition inventory_handleOrderCancelled :: "sys \<Rightarrow> wire \<Rightarrow> inventory_db pg \<Rightarrow> inventory_db pg" where
  "inventory_handleOrderCancelled sys data s =
     (case ParseOrderCancelledEvent sys data of
        Inl _ \<Rightarrow> s
      | Inr event \<Rightarrow> snd (inventory_HandleOrderCancelled sys (EventID event) (ox_OrderID event) s))"

definition inventory_handleOrderCompleted :: "sys \<Rightarrow> wire \<Rightarrow> inventory_db pg \<Rightarrow> inventory_db pg" where
  "inventory_handleOrderCompleted sys data s =
     (case ParseOrderCompletedEvent sys data of
        Inl _ \<Rightarrow> s
      | Inr event \<Rightarrow> snd (inventory_HandleOrderCompleted sys (EventID event) (od_OrderID event) s))"

definition inventory_Start :: "sys \<Rightarrow> (string \<Rightarrow> string option) \<Rightarrow> (inventory_db consumer, unit) go" where
  "inventory_Start sys sub_err =
     go_bind (subscribe sub_err EventTypeOrderCreated ''inventory-service''
                (inventory_handleOrderCreated sys)) (\<lambda>_.
     go_bind (subscribe sub_err EventTypeOrderCancelled ''inventory-service''
                (inventory_handleOrderCancelled sys)) (\<lambda>_.
     go_bind (subscribe sub_err EventTypeOrderCompleted ''inventory-service''
                (inventory_handleOrderCompleted sys)) (\<lambda>_.
     go_return ())))"

definition inventory_subscriptions :: "sys \<Rightarrow> inventory_db subscription list" where
  "inventory_subscriptions sys =
     [\<lparr>sub_subject = EventTypeOrderCreated, sub_queue = ''inventory-service'',
       sub_handler = inventory_handleOrderCreated sys\<rparr>,
      \<lparr>sub_subject = EventTypeOrderCancelled, sub_queue = ''inventory-service'',
       sub_handler = inventory_handleOrderCancelled sys\<rparr>,
      \<lparr>sub_subject = EventTypeOrderCompleted, sub_queue = ''inventory-service'',
       sub_handler = inventory_handleOrderCompleted sys\<rparr>]"

text \<open>The call of the service that a message amounts to.\<close>

definition inventory_call_of :: "sys \<Rightarrow> string \<Rightarrow> wire \<Rightarrow> inventory_call option" where
  "inventory_call_of sys subject data =
     (if subject = EventTypeOrderCreated then
        (case ParseOrderCreatedEvent sys data of Inl _ \<Rightarrow> None
         | Inr e \<Rightarrow> Some (CallOrderCreated (EventID e) (oc_OrderID e) (oc_ProductID e) (oc_CustomerID e)
             (oc_Quantity e) (oc_TotalAmount e)))
      else if subject = EventTypeOrderCancelled then
        (case ParseOrderCancelledEvent sys data of Inl _ \<Rightarrow> None
         | Inr e \<Rightarrow> Some (CallOrderCancelled (EventID e) (ox_OrderID e)))
      else if subject = EventTypeOrderCompleted then
        (case ParseOrderCompletedEvent sys data of Inl _ \<Rightarrow> None
         | Inr e \<Rightarrow> Some (CallOrderCompleted (EventID e) (od_OrderID e)))
      else None)"

interpretation inventory_consumer: event_consumer "inventory_Start sys" "inventory_subscriptions sys" "inventory_call_of sys"
    "inventory_exec sys" for sys
proof
  show "inventory_Start sys sub_err = subscribe_all sub_err (inventory_subscriptions sys)" for sub_err
    by (simp add: inventory_Start_def inventory_subscriptions_def)
  show "distinct (map sub_subject (inventory_subscriptions sys))"
    by (simp add: inventory_subscriptions_def EventType_neq)
  show "sub_handler x data s =
      (case inventory_call_of sys (sub_subject x) data of None \<Rightarrow> s | Some c \<Rightarrow> inventory_exec sys c s)"
    if "x \<in> set (inventory_subscriptions sys)" for x data s
    using that unfolding inventory_subscriptions_def
    by (elim in_set_cases; simp add: inventory_call_of_def EventType_neq inventory_handleOrderCreated_def
      inventory_handleOrderCancelled_def inventory_handleOrderCompleted_def
          split: sum.split)
  show "inventory_call_of sys subject data = None" if "subject \<notin> sub_subject ` set (inventory_subscriptions sys)"
    for subject data
    using that by (simp add: inventory_subscriptions_def inventory_call_of_def)
qed

text \<open>
  C30: the consumer of the inventory service. If Start succeeds, the service holds exactly the three
  subscriptions, and a message of their subjects has the effect of the matching call of the service
  with the values it carries, while a message that does not parse, or of another subject, has none;
  if a subscription fails, Start returns its error and only those before it are active. Stop ends
  them all in both cases.
\<close>

theorem inventory_consumer_delivers:
  assumes "inventory_Start sys sub_err new_consumer = (r, c)"
  shows "started_with sub_err (inventory_subscriptions sys) r c \<and>
    (r = Inr () \<longrightarrow> deliver c subject data s =
       (case inventory_call_of sys subject data of None \<Rightarrow> s | Some call \<Rightarrow> inventory_exec sys call s))"
  by (rule inventory_consumer.start_outcome [OF assms])

theorem inventory_consumer_delivers_witness:
  "let (r, c) = inventory_Start sample_sys (\<lambda>_. None) new_consumer
   in deliver c EventTypeOrderCreated (Some (JArr [])) (inventory_boot initial_inventory_db) =
     inventory_boot initial_inventory_db"
proof -
  obtain r c where rc: "inventory_Start sample_sys (\<lambda>_. None) new_consumer = (r, c)" by fastforce
  from rc have "r = Inr ()"
    by (auto simp: inventory_Start_def go_run subscribe_eval Let_def)
  with inventory_consumer_delivers [OF rc, of EventTypeOrderCreated "Some (JArr [])" "inventory_boot initial_inventory_db"] rc show ?thesis
    by (simp add: inventory_call_of_def ParseOrderCreatedEvent_def json_Unmarshal_def)
qed


section \<open>HTTP\<close>

record InventoryResponse =
  ir_ProductID :: string
  ir_ProductName :: string
  ir_Quantity :: go_int
  ir_ReservedQuantity :: go_int
  ir_AvailableQuantity :: go_int

definition marshal_inventory :: "InventoryResponse \<Rightarrow> json" where
  "marshal_inventory r =
     JObj [(''product_id'', JStr (ir_ProductID r)), (''product_name'', JStr (ir_ProductName r)),
           (''quantity'', JInt (sint (ir_Quantity r))),
           (''reserved_quantity'', JInt (sint (ir_ReservedQuantity r))),
           (''available_quantity'', JInt (sint (ir_AvailableQuantity r)))]"

definition inventory_response :: "Inventory \<Rightarrow> InventoryResponse" where
  "inventory_response stock =
     \<lparr>ir_ProductID = inv_ProductID stock, ir_ProductName = inv_ProductName stock,
      ir_Quantity = inv_Quantity stock, ir_ReservedQuantity = inv_ReservedQuantity stock,
      ir_AvailableQuantity = AvailableQuantity stock\<rparr>"

definition http_GetInventory :: "sys \<Rightarrow> string \<Rightarrow> inventory_db pg \<Rightarrow> http_response \<times> inventory_db pg" where
  "http_GetInventory sys productID s =
     (if productID = ''''
      then (error_response StatusBadRequest ''invalid_request'' ''Product ID is required'', s)
      else
        (case GetInventory sys productID s of
           (Inl e, s') \<Rightarrow> (error_response StatusNotFound ''not_found'' ''Product not found'', s')
         | (Inr stock, s') \<Rightarrow>
             (c_JSON StatusOK (marshal_inventory (inventory_response stock)), s')))"

end
