(* ===== verification/Payment_Interfaces.thy ===== *)
theory Payment_Interfaces
  imports Payment_Service Messaging Http
begin

text \<open>
  How the payment service is reached: the event consumer
  (services/payment/internal/interfaces/consumer.go) and the HTTP handler
  (services/payment/internal/interfaces/http.go).
\<close>

section \<open>The event consumer\<close>

definition payment_handleStockReserved :: "sys \<Rightarrow> PaymentUseCase \<Rightarrow> wire \<Rightarrow> payment_db pg \<Rightarrow> payment_db pg" where
  "payment_handleStockReserved sys uc data s =
     (case ParseStockReservedEvent sys data of
        Inl _ \<Rightarrow> s
      | Inr event \<Rightarrow>
          snd (payment_HandleStockReserved sys uc (EventID event) (sr_OrderID event) (sr_CustomerID event)
                 (sr_TotalAmount event) s))"

definition payment_handleOrderCancelled :: "sys \<Rightarrow> wire \<Rightarrow> payment_db pg \<Rightarrow> payment_db pg" where
  "payment_handleOrderCancelled sys data s =
     (case ParseOrderCancelledEvent sys data of
        Inl _ \<Rightarrow> s
      | Inr event \<Rightarrow> snd (payment_HandleOrderCancelled sys (EventID event) (ox_OrderID event) s))"

definition payment_Start ::
  "sys \<Rightarrow> PaymentUseCase \<Rightarrow> (string \<Rightarrow> string option) \<Rightarrow> (payment_db consumer, unit) go" where
  "payment_Start sys uc sub_err =
     go_bind (subscribe sub_err EventTypeStockReserved ''payment-service''
                (payment_handleStockReserved sys uc)) (\<lambda>_.
     go_bind (subscribe sub_err EventTypeOrderCancelled ''payment-service''
                (payment_handleOrderCancelled sys)) (\<lambda>_.
     go_return ()))"

definition payment_subscriptions :: "sys \<Rightarrow> PaymentUseCase \<Rightarrow> payment_db subscription list" where
  "payment_subscriptions sys uc =
     [\<lparr>sub_subject = EventTypeStockReserved, sub_queue = ''payment-service'',
       sub_handler = payment_handleStockReserved sys uc\<rparr>,
      \<lparr>sub_subject = EventTypeOrderCancelled, sub_queue = ''payment-service'',
       sub_handler = payment_handleOrderCancelled sys\<rparr>]"

text \<open>The call of the service that a message amounts to.\<close>

definition payment_call_of :: "sys \<Rightarrow> PaymentUseCase \<Rightarrow> string \<Rightarrow> wire \<Rightarrow> payment_call option" where
  "payment_call_of sys uc subject data =
     (if subject = EventTypeStockReserved then
        (case ParseStockReservedEvent sys data of Inl _ \<Rightarrow> None
         | Inr e \<Rightarrow> Some (CallPaymentStockReserved uc (EventID e) (sr_OrderID e) (sr_CustomerID e)
             (sr_TotalAmount e)))
      else if subject = EventTypeOrderCancelled then
        (case ParseOrderCancelledEvent sys data of Inl _ \<Rightarrow> None
         | Inr e \<Rightarrow> Some (CallPaymentOrderCancelled (EventID e) (ox_OrderID e)))
      else None)"

interpretation payment_consumer: event_consumer "payment_Start sys uc" "payment_subscriptions sys uc" "payment_call_of sys uc"
    "payment_exec sys" for sys uc
proof
  show "payment_Start sys uc sub_err = subscribe_all sub_err (payment_subscriptions sys uc)" for sub_err
    by (simp add: payment_Start_def payment_subscriptions_def)
  show "distinct (map sub_subject (payment_subscriptions sys uc))"
    by (simp add: payment_subscriptions_def EventType_neq)
  show "sub_handler x data s =
      (case payment_call_of sys uc (sub_subject x) data of None \<Rightarrow> s | Some c \<Rightarrow> payment_exec sys c s)"
    if "x \<in> set (payment_subscriptions sys uc)" for x data s
    using that unfolding payment_subscriptions_def
    by (elim in_set_cases; simp add: payment_call_of_def EventType_neq payment_handleStockReserved_def
      payment_handleOrderCancelled_def
          split: sum.split)
  show "payment_call_of sys uc subject data = None" if "subject \<notin> sub_subject ` set (payment_subscriptions sys uc)"
    for subject data
    using that by (simp add: payment_subscriptions_def payment_call_of_def)
qed

text \<open>
  The consumer of the payment service. If Start succeeds, the service holds exactly the two
  subscriptions, and a message of their subjects has the effect of the matching call of the service
  with the values it carries, while a message that does not parse, or of another subject, has none;
  if a subscription fails, Start returns its error and only those before it are active. Stop ends
  them all in both cases.
\<close>

theorem payment_consumer_delivers:
  assumes "payment_Start sys uc sub_err new_consumer = (r, c)"
  shows "started_with sub_err (payment_subscriptions sys uc) r c \<and>
    (r = Inr () \<longrightarrow> deliver c subject data s =
       (case payment_call_of sys uc subject data of None \<Rightarrow> s | Some call \<Rightarrow> payment_exec sys call s))"
  by (rule payment_consumer.start_outcome [OF assms])

theorem payment_consumer_delivers_witness:
  "let (r, c) = payment_Start sample_sys \<lparr>simulateFailure = False\<rparr> (\<lambda>_. None) new_consumer
   in deliver c EventTypeOrderCreated (Some JNull) (payment_boot empty_payment_db) =
     payment_boot empty_payment_db"
proof -
  obtain r c where rc: "payment_Start sample_sys \<lparr>simulateFailure = False\<rparr> (\<lambda>_. None) new_consumer = (r, c)"
    by fastforce
  from rc have "r = Inr ()"
    by (auto simp: payment_Start_def go_run subscribe_eval Let_def)
  with payment_consumer_delivers [OF rc, of EventTypeOrderCreated "Some JNull" "payment_boot empty_payment_db"] rc show ?thesis
    by (simp add: payment_call_of_def EventType_neq)
qed


section \<open>HTTP\<close>

record PaymentResponse =
  pr_ID :: string
  pr_OrderID :: string
  pr_CustomerID :: string
  pr_Amount :: float64
  pr_Status :: string
  pr_FailureReason :: string
  pr_CreatedAt :: string
  pr_UpdatedAt :: string

text \<open>The failure reason is left out when it is empty (\<open>omitempty\<close>).\<close>

definition marshal_payment :: "sys \<Rightarrow> PaymentResponse \<Rightarrow> json" where
  "marshal_payment sys r =
     JObj ([(''id'', JStr (pr_ID r)), (''order_id'', JStr (pr_OrderID r)),
            (''customer_id'', JStr (pr_CustomerID r)), (''amount'', marshal_float sys (pr_Amount r)),
            (''status'', JStr (pr_Status r))] @
           (if pr_FailureReason r = '''' then [] else [(''failure_reason'', JStr (pr_FailureReason r))]) @
           [(''created_at'', JStr (pr_CreatedAt r)), (''updated_at'', JStr (pr_UpdatedAt r))])"

definition payment_response :: "(int \<Rightarrow> string) \<Rightarrow> Payment \<Rightarrow> PaymentResponse" where
  "payment_response fmt pay =
     \<lparr>pr_ID = pay_ID pay, pr_OrderID = pay_OrderID pay, pr_CustomerID = pay_CustomerID pay,
      pr_Amount = pay_Amount pay, pr_Status = pay_Status pay,
      pr_FailureReason = pay_FailureReason pay, pr_CreatedAt = fmt (pay_CreatedAt pay),
      pr_UpdatedAt = fmt (pay_UpdatedAt pay)\<rparr>"

definition http_GetPaymentByOrder ::
  "sys \<Rightarrow> (int \<Rightarrow> string) \<Rightarrow> string \<Rightarrow> payment_db pg \<Rightarrow> http_response \<times> payment_db pg" where
  "http_GetPaymentByOrder sys fmt orderID s =
     (if orderID = ''''
      then (error_response StatusBadRequest ''invalid_request'' ''Order ID is required'', s)
      else
        (case GetPayment sys orderID s of
           (Inl e, s') \<Rightarrow> (error_response StatusNotFound ''not_found'' ''Payment not found'', s')
         | (Inr pay, s') \<Rightarrow>
             (c_JSON StatusOK (marshal_payment sys (payment_response fmt pay)), s')))"

end
