(* ===== verification/Saga.thy ===== *)
theory Saga
  imports Order_Truth Inventory_Truth Payment_Truth Order_Interfaces Inventory_Interfaces Payment_Interfaces
begin

text \<open>
  The three services together. Each has its own database; they talk through the broker only, which
  may delay, lose, repeat and reorder messages. What the saga promises of an order across the three
  databases.
\<close>

section \<open>The system\<close>

text \<open>The three processes with their databases.\<close>

record world =
  order_proc :: "order_db pg"
  inventory_proc :: "inventory_db pg"
  payment_proc :: "payment_db pg"

abbreviation order_store :: "world \<Rightarrow> order_db" where
  "order_store w \<equiv> durable (order_proc w)"

abbreviation inventory_store :: "world \<Rightarrow> inventory_db" where
  "inventory_store w \<equiv> durable (inventory_proc w)"

abbreviation payment_store :: "world \<Rightarrow> payment_db" where
  "payment_store w \<equiv> durable (payment_proc w)"

text \<open>Every message that any service ever handed to the broker.\<close>

definition broker :: "world \<Rightarrow> (string \<times> json) set" where
  "broker w = set (published (order_proc w)) \<union> set (published (inventory_proc w)) \<union> set (published (payment_proc w))"

text \<open>
  What can happen: a service serves a request or its relay polls; the broker delivers, again or for
  the first time, a message to the consumer of a service; a process restarts, which leaves of it
  what is durable.
\<close>

inductive saga_step :: "sys \<Rightarrow> sys \<Rightarrow> sys \<Rightarrow> world \<Rightarrow> world \<Rightarrow> bool" for osys isys psys where
  order_created: "is_f64 (in_TotalAmount input) \<Longrightarrow>
    saga_step osys isys psys w (w\<lparr>order_proc := order_exec osys (CallCreateOrder input) (order_proc w)\<rparr>)"
| order_queried: "saga_step osys isys psys w (w\<lparr>order_proc := order_exec osys (CallGetOrder oid) (order_proc w)\<rparr>)"
| order_relayed: "saga_step osys isys psys w (w\<lparr>order_proc := order_exec osys CallOrderRelay (order_proc w)\<rparr>)"
| order_received: "(subject, doc) \<in> broker w \<Longrightarrow> order_Start osys (\<lambda>_. None) new_consumer = (Inr (), oc) \<Longrightarrow>
    saga_step osys isys psys w (w\<lparr>order_proc := deliver oc subject (Some doc) (order_proc w)\<rparr>)"
| order_restarted: "durable s = order_store w \<Longrightarrow> published s = published (order_proc w) \<Longrightarrow>
    saga_step osys isys psys w (w\<lparr>order_proc := s\<rparr>)"
| inventory_queried: "saga_step osys isys psys w (w\<lparr>inventory_proc := inventory_exec isys (CallGetInventory p) (inventory_proc w)\<rparr>)"
| inventory_relayed: "saga_step osys isys psys w (w\<lparr>inventory_proc := inventory_exec isys CallInventoryRelay (inventory_proc w)\<rparr>)"
| inventory_received: "(subject, doc) \<in> broker w \<Longrightarrow> inventory_Start isys (\<lambda>_. None) new_consumer = (Inr (), ic) \<Longrightarrow>
    saga_step osys isys psys w (w\<lparr>inventory_proc := deliver ic subject (Some doc) (inventory_proc w)\<rparr>)"
| inventory_restarted: "durable s = inventory_store w \<Longrightarrow> published s = published (inventory_proc w) \<Longrightarrow>
    saga_step osys isys psys w (w\<lparr>inventory_proc := s\<rparr>)"
| payment_queried: "saga_step osys isys psys w (w\<lparr>payment_proc := payment_exec psys (CallGetPayment oid) (payment_proc w)\<rparr>)"
| payment_relayed: "saga_step osys isys psys w (w\<lparr>payment_proc := payment_exec psys CallPaymentRelay (payment_proc w)\<rparr>)"
| payment_received: "(subject, doc) \<in> broker w \<Longrightarrow> payment_Start psys uc (\<lambda>_. None) new_consumer = (Inr (), pc) \<Longrightarrow>
    saga_step osys isys psys w (w\<lparr>payment_proc := deliver pc subject (Some doc) (payment_proc w)\<rparr>)"
| payment_restarted: "durable s = payment_store w \<Longrightarrow> published s = published (payment_proc w) \<Longrightarrow>
    saga_step osys isys psys w (w\<lparr>payment_proc := s\<rparr>)"

text \<open>
  What is relied on of the environment: each service's library, database server and codecs as
  documented, and servers that agree on the text of a UUID and on the value of an amount.
\<close>

definition env_ok :: "sys \<Rightarrow> sys \<Rightarrow> sys \<Rightarrow> bool" where
  "env_ok osys isys psys \<longleftrightarrow>
     (\<forall>X \<in> {osys, isys, psys}. uuids_ok X \<and> scans_ok X \<and> jsonb_ok X \<and> codecs_ok X) \<and>
     uuid_in isys = uuid_in osys \<and> uuid_in psys = uuid_in osys \<and> numeric_in psys = numeric_in osys"

text \<open>The databases as the services are first started: products in stock, and nothing else.\<close>

definition saga_start :: "sys \<Rightarrow> world \<Rightarrow> bool" where
  "saga_start isys w \<longleftrightarrow>
     order_store w = empty_order_db \<and> payment_store w = empty_payment_db \<and>
     inventory_inv isys (inventory_store w) \<and> outbox (inventory_store w) = [] \<and>
     reservations (inventory_store w) = [] \<and> broker w = {}"


section \<open>The invariant\<close>

text \<open>Every service is sound, and says only what is true of the databases.\<close>

definition services_ready :: "sys \<Rightarrow> sys \<Rightarrow> sys \<Rightarrow> world \<Rightarrow> bool" where
  "services_ready osys isys psys w \<longleftrightarrow>
     order_ready osys (order_store w) \<and> inventory_ready isys (inventory_store w) \<and> payment_ready psys (payment_store w)"

definition services_honest :: "sys \<Rightarrow> sys \<Rightarrow> sys \<Rightarrow> world \<Rightarrow> bool" where
  "services_honest osys isys psys w \<longleftrightarrow>
     honest osys (order_true osys (payment_declined (payment_store w))) (order_proc w) \<and>
     honest isys (inventory_true isys (order_placed osys (order_store w))) (inventory_proc w) \<and>
     honest psys (payment_true psys) (payment_proc w)"

text \<open>The events that are true of the world.\<close>

definition saga_true :: "sys \<Rightarrow> sys \<Rightarrow> sys \<Rightarrow> world \<Rightarrow> event \<Rightarrow> bool" where
  "saga_true osys isys psys w ev \<longleftrightarrow>
     order_true osys (payment_declined (payment_store w)) (order_store w) ev \<or>
     inventory_true isys (order_placed osys (order_store w)) (inventory_store w) ev \<or>
     payment_true psys (payment_store w) ev"

lemma saga_true_simps [simp]:
  "saga_true osys isys psys w (EvOrderCreated oc) = order_true osys (payment_declined (payment_store w)) (order_store w) (EvOrderCreated oc)"
  "saga_true osys isys psys w (EvOrderCompleted od) = order_true osys (payment_declined (payment_store w)) (order_store w) (EvOrderCompleted od)"
  "saga_true osys isys psys w (EvOrderCancelled ox) = order_true osys (payment_declined (payment_store w)) (order_store w) (EvOrderCancelled ox)"
  "saga_true osys isys psys w (EvStockReserved sr) = inventory_true isys (order_placed osys (order_store w)) (inventory_store w) (EvStockReserved sr)"
  "saga_true osys isys psys w (EvStockReserveFailed sf) = inventory_true isys (order_placed osys (order_store w)) (inventory_store w) (EvStockReserveFailed sf)"
  "saga_true osys isys psys w (EvPaymentCompleted pc) = payment_true psys (payment_store w) (EvPaymentCompleted pc)"
  "saga_true osys isys psys w (EvPaymentFailed pf) = payment_true psys (payment_store w) (EvPaymentFailed pf)"
  "\<not> saga_true osys isys psys w (EvStockReleased x)"
  by (simp_all add: saga_true_def)

text \<open>
  An order is answered by the inventory service at most once, and after its OrderCreated event was
  processed; a reservation is for what was ordered.
\<close>

definition answers :: "sys \<Rightarrow> inventory_db \<Rightarrow> string \<Rightarrow> nat" where
  "answers isys db u = announcements isys db EventTypeStockReserved u + announcements isys db EventTypeStockReserveFailed u"

definition order_for :: "order_db \<Rightarrow> string \<Rightarrow> string \<Rightarrow> int \<Rightarrow> bool" where
  "order_for db u p q \<longleftrightarrow> (\<exists>r \<in> set (orders db). o_id r = u \<and> o_product_id r = p \<and> o_quantity r = q)"

definition answered_once :: "sys \<Rightarrow> sys \<Rightarrow> sys \<Rightarrow> world \<Rightarrow> bool" where
  "answered_once osys isys psys w \<longleftrightarrow>
     (\<forall>u. answers isys (inventory_store w) u \<le> 1) \<and>
     (\<forall>u. 0 < answers isys (inventory_store w) u \<longrightarrow>
        (\<exists>e x. saga_true osys isys psys w (EvOrderCreated e) \<and> uuid_in osys (oc_OrderID e) = Some u \<and>
           uuid_in osys (EventID e) = Some x \<and> x \<in> dom (processed_events (inventory_store w)))) \<and>
     (\<forall>v \<in> set (reservations (inventory_store w)).
        order_for (order_store w) (rv_order_id v) (rv_product_id v) (rv_quantity v))"

text \<open>
  An order is charged at most once, after its StockReserved event was processed, and for what it
  costs; no payment is refunded.
\<close>

definition charge_backed :: "sys \<Rightarrow> sys \<Rightarrow> sys \<Rightarrow> world \<Rightarrow> pay_row \<Rightarrow> bool" where
  "charge_backed osys isys psys w r \<longleftrightarrow>
     (\<exists>e x. saga_true osys isys psys w (EvStockReserved e) \<and> uuid_in osys (sr_OrderID e) = Some (p_order_id r) \<and>
        p_customer_id r = sr_CustomerID e \<and> numeric_in osys (sr_TotalAmount e) = Some (p_amount r) \<and>
        uuid_in osys (EventID e) = Some x \<and> x \<in> dom (processed_events (payment_store w)))"

definition charged_once :: "sys \<Rightarrow> sys \<Rightarrow> sys \<Rightarrow> world \<Rightarrow> bool" where
  "charged_once osys isys psys w \<longleftrightarrow>
     distinct (map p_order_id (payments (payment_store w))) \<and>
     (\<forall>r \<in> set (payments (payment_store w)).
        p_status r \<noteq> PaymentStatusRefunded \<and> charge_backed osys isys psys w r)"

text \<open>What a status of an order or of a reservation says about the other databases.\<close>

definition stock_refused :: "sys \<Rightarrow> inventory_db \<Rightarrow> string \<Rightarrow> bool" where
  "stock_refused isys db u \<longleftrightarrow> (\<exists>e. recorded isys db u (EvStockReserveFailed e))"

definition order_row_backed :: "sys \<Rightarrow> inventory_db \<Rightarrow> payment_db \<Rightarrow> string \<Rightarrow> string \<Rightarrow> bool" where
  "order_row_backed isys idb pdb u st \<longleftrightarrow>
     (st \<in> {OrderStatusConfirmed, OrderStatusCompleted} \<longrightarrow> u \<in> rv_order_id ` set (reservations idb)) \<and>
     (st = OrderStatusCompleted \<longrightarrow> payment_accepted pdb u) \<and>
     (st = OrderStatusCancelled \<longrightarrow> payment_declined pdb u \<or> stock_refused isys idb u)"

definition orders_backed :: "sys \<Rightarrow> world \<Rightarrow> bool" where
  "orders_backed isys w \<longleftrightarrow>
     (\<forall>r \<in> set (orders (order_store w)).
        order_row_backed isys (inventory_store w) (payment_store w) (o_id r) (o_status r))"

definition reservations_backed :: "world \<Rightarrow> bool" where
  "reservations_backed w \<longleftrightarrow>
     (\<forall>v \<in> set (reservations (inventory_store w)).
        (rv_status v = ReservationStatusCommitted \<longrightarrow>
           order_has_status (order_store w) (rv_order_id v) OrderStatusCompleted) \<and>
        (rv_status v = ReservationStatusReleased \<longrightarrow>
           order_has_status (order_store w) (rv_order_id v) OrderStatusCancelled \<and>
           payment_declined (payment_store w) (rv_order_id v)))"

definition saga_inv :: "sys \<Rightarrow> sys \<Rightarrow> sys \<Rightarrow> world \<Rightarrow> bool" where
  "saga_inv osys isys psys w \<longleftrightarrow>
     services_ready osys isys psys w \<and> services_honest osys isys psys w \<and> answered_once osys isys psys w \<and> charged_once osys isys psys w \<and>
     orders_backed isys w \<and> reservations_backed w"

end
