(* ===== verification/Saga_Invariant.thy ===== *)
theory Saga_Invariant
  imports Saga
begin

text \<open>
  The invariant of the saga holds in every state the system can reach, and what follows from it for
  an order.
\<close>

section \<open>What the services receive\<close>

text \<open>The calls of a service that true events amount to.\<close>

fun order_fair :: "sys \<Rightarrow> sys \<Rightarrow> sys \<Rightarrow> world \<Rightarrow> order_call \<Rightarrow> bool" where
  "order_fair osys isys psys w (CallCreateOrder input) \<longleftrightarrow> is_f64 (in_TotalAmount input)"
| "order_fair osys isys psys w (CallStockReserved eid oid) \<longleftrightarrow>
     (\<exists>e. sr_OrderID e = oid \<and> saga_true osys isys psys w (EvStockReserved e))"
| "order_fair osys isys psys w (CallStockReserveFailed eid oid reason) \<longleftrightarrow>
     (\<exists>e. sf_OrderID e = oid \<and> saga_true osys isys psys w (EvStockReserveFailed e))"
| "order_fair osys isys psys w (CallPaymentCompleted eid oid) \<longleftrightarrow>
     (\<exists>e. pc_OrderID e = oid \<and> saga_true osys isys psys w (EvPaymentCompleted e))"
| "order_fair osys isys psys w (CallPaymentFailed eid oid reason) \<longleftrightarrow>
     (\<exists>e. pf_OrderID e = oid \<and> saga_true osys isys psys w (EvPaymentFailed e))"
| "order_fair osys isys psys w _ \<longleftrightarrow> True"

fun inventory_fair :: "sys \<Rightarrow> sys \<Rightarrow> sys \<Rightarrow> world \<Rightarrow> inventory_call \<Rightarrow> bool" where
  "inventory_fair osys isys psys w (CallOrderCreated eid oid p cid q amount) \<longleftrightarrow>
     (\<exists>e. EventID e = eid \<and> oc_OrderID e = oid \<and> oc_ProductID e = p \<and> oc_CustomerID e = cid \<and>
        oc_Quantity e = q \<and> oc_TotalAmount e = amount \<and> saga_true osys isys psys w (EvOrderCreated e))"
| "inventory_fair osys isys psys w (CallOrderCancelled eid oid) \<longleftrightarrow>
     (\<exists>e. ox_OrderID e = oid \<and> saga_true osys isys psys w (EvOrderCancelled e))"
| "inventory_fair osys isys psys w (CallOrderCompleted eid oid) \<longleftrightarrow>
     (\<exists>e. od_OrderID e = oid \<and> saga_true osys isys psys w (EvOrderCompleted e))"
| "inventory_fair osys isys psys w _ \<longleftrightarrow> True"

fun payment_fair :: "sys \<Rightarrow> sys \<Rightarrow> sys \<Rightarrow> world \<Rightarrow> payment_call \<Rightarrow> bool" where
  "payment_fair osys isys psys w (CallPaymentStockReserved uc eid oid cid amount) \<longleftrightarrow>
     (\<exists>e. EventID e = eid \<and> sr_OrderID e = oid \<and> sr_CustomerID e = cid \<and> sr_TotalAmount e = amount \<and>
        saga_true osys isys psys w (EvStockReserved e))"
| "payment_fair osys isys psys w (CallPaymentOrderCancelled eid oid) \<longleftrightarrow>
     (\<exists>e. ox_OrderID e = oid \<and> saga_true osys isys psys w (EvOrderCancelled e))"
| "payment_fair osys isys psys w _ \<longleftrightarrow> True"

lemma broker_true:
  assumes "services_honest osys isys psys w" and "env_ok osys isys psys" and "m \<in> broker w"
  obtains X ev where "jsonb_ok X" "codecs_ok X" "tells X m ev" "saga_true osys isys psys w ev"
  using assms unfolding services_honest_def honest_def backed_def broker_def env_ok_def saga_true_def by blast

lemma order_received_fair:
  assumes "jsonb_ok X" and "tells X (subject, doc) ev" and true: "saga_true osys isys psys w ev"
    and call: "order_call_of osys subject (Some doc) = Some c"
  shows "order_fair osys isys psys w c"
proof -
  have subject: "subject = event_kind ev" using assms(2) by (simp add: tells_def)
  note simps = subject order_call_of_def EventType_neq
  show ?thesis
  proof (cases ev)
    case (EvStockReserved e)
    then obtain e' where "ParseStockReservedEvent osys (Some doc) = Inr e'"
      "c = CallStockReserved (EventID e') (sr_OrderID e')"
      using call by (auto simp: simps split: sum.splits)
    with true EvStockReserved reads_stock_reserved [OF assms(2) [unfolded EvStockReserved] assms(1)]
    show ?thesis by auto
  next
    case (EvStockReserveFailed e)
    then obtain e' where "ParseStockReserveFailedEvent osys (Some doc) = Inr e'"
      "c = CallStockReserveFailed (EventID e') (sf_OrderID e') (sf_Reason e')"
      using call by (auto simp: simps split: sum.splits)
    with true EvStockReserveFailed reads_stock_reserve_failed [OF assms(2) [unfolded EvStockReserveFailed] assms(1)]
    show ?thesis by auto
  next
    case (EvPaymentCompleted e)
    then obtain e' where "ParsePaymentCompletedEvent osys (Some doc) = Inr e'"
      "c = CallPaymentCompleted (EventID e') (pc_OrderID e')"
      using call by (auto simp: simps split: sum.splits)
    with true EvPaymentCompleted reads_payment_completed [OF assms(2) [unfolded EvPaymentCompleted] assms(1)]
    show ?thesis by auto
  next
    case (EvPaymentFailed e)
    then obtain e' where "ParsePaymentFailedEvent osys (Some doc) = Inr e'"
      "c = CallPaymentFailed (EventID e') (pf_OrderID e') (pf_Reason e')"
      using call by (auto simp: simps split: sum.splits)
    with true EvPaymentFailed reads_payment_failed [OF assms(2) [unfolded EvPaymentFailed] assms(1)]
    show ?thesis by auto
  qed (use call in \<open>simp_all add: simps\<close>)
qed

lemma inventory_received_fair:
  assumes "jsonb_ok X" and "codecs_ok X" and "tells X (subject, doc) ev" and true: "saga_true osys isys psys w ev"
    and call: "inventory_call_of isys subject (Some doc) = Some c"
  shows "inventory_fair osys isys psys w c"
proof -
  have subject: "subject = event_kind ev" using assms(3) by (simp add: tells_def)
  note simps = subject inventory_call_of_def EventType_neq
  show ?thesis
  proof (cases ev)
    case (EvOrderCreated e)
    then obtain e' where parsed: "ParseOrderCreatedEvent isys (Some doc) = Inr e'"
      and c: "c = CallOrderCreated (EventID e') (oc_OrderID e') (oc_ProductID e') (oc_CustomerID e')
          (oc_Quantity e') (oc_TotalAmount e')"
      using call by (auto simp: simps split: sum.splits)
    have "is_f64 (oc_TotalAmount e)" using true EvOrderCreated by (auto simp: order_placed_def)
    note reads = reads_order_created [OF assms(3) [unfolded EvOrderCreated] assms(1) parsed]
      reads_order_created_amount [OF assms(3) [unfolded EvOrderCreated] assms(1) parsed assms(2) this]
    show ?thesis
      unfolding c inventory_fair.simps by (rule exI [of _ e]) (use true EvOrderCreated reads in simp)
  next
    case (EvOrderCancelled e)
    then obtain e' where "ParseOrderCancelledEvent isys (Some doc) = Inr e'"
      "c = CallOrderCancelled (EventID e') (ox_OrderID e')"
      using call by (auto simp: simps split: sum.splits)
    with true EvOrderCancelled reads_order_cancelled [OF assms(3) [unfolded EvOrderCancelled] assms(1)]
    show ?thesis by auto
  next
    case (EvOrderCompleted e)
    then obtain e' where "ParseOrderCompletedEvent isys (Some doc) = Inr e'"
      "c = CallOrderCompleted (EventID e') (od_OrderID e')"
      using call by (auto simp: simps split: sum.splits)
    with true EvOrderCompleted reads_order_completed [OF assms(3) [unfolded EvOrderCompleted] assms(1)]
    show ?thesis by auto
  qed (use call in \<open>simp_all add: simps\<close>)
qed

lemma payment_received_fair:
  assumes "jsonb_ok X" and "codecs_ok X" and "tells X (subject, doc) ev" and true: "saga_true osys isys psys w ev"
    and call: "payment_call_of psys uc subject (Some doc) = Some c"
  shows "payment_fair osys isys psys w c"
proof -
  have subject: "subject = event_kind ev" using assms(3) by (simp add: tells_def)
  note simps = subject payment_call_of_def EventType_neq
  show ?thesis
  proof (cases ev)
    case (EvStockReserved e)
    then obtain e' where parsed: "ParseStockReservedEvent psys (Some doc) = Inr e'"
      and c: "c = CallPaymentStockReserved uc (EventID e') (sr_OrderID e') (sr_CustomerID e') (sr_TotalAmount e')"
      using call by (auto simp: simps split: sum.splits)
    have "is_f64 (sr_TotalAmount e)" using true EvStockReserved by (auto simp: order_placed_def)
    note reads = reads_stock_reserved [OF assms(3) [unfolded EvStockReserved] assms(1) parsed]
      reads_stock_reserved_amount [OF assms(3) [unfolded EvStockReserved] assms(1) parsed assms(2) this]
    show ?thesis
      unfolding c payment_fair.simps by (rule exI [of _ e]) (use true EvStockReserved reads in simp)
  next
    case (EvOrderCancelled e)
    then obtain e' where "ParseOrderCancelledEvent psys (Some doc) = Inr e'"
      "c = CallPaymentOrderCancelled (EventID e') (ox_OrderID e')"
      using call by (auto simp: simps split: sum.splits)
    with true EvOrderCancelled reads_order_cancelled [OF assms(3) [unfolded EvOrderCancelled] assms(1)]
    show ?thesis by auto
  qed (use call in \<open>simp_all add: simps\<close>)
qed

section \<open>What is true stays true\<close>

definition grows :: "world \<Rightarrow> world \<Rightarrow> bool" where
  "grows w w' \<longleftrightarrow>
     order_history (order_store w) (order_store w') \<and>
     inventory_history (inventory_store w) (inventory_store w') \<and>
     payment_history (payment_store w) (payment_store w')"

lemma saga_true_grows:
  assumes "grows w w'" and "saga_true osys isys psys w ev"
  shows "saga_true osys isys psys w' ev"
proof -
  note hist = assms(1) [unfolded grows_def]
  have "order_true osys (payment_declined (payment_store w')) (order_store w') ev"
    if "order_true osys (payment_declined (payment_store w)) (order_store w) ev"
    by (rule order_truth_mono [OF order_truth_stays [OF _ that]]) (use hist payment_declined_stays in blast)+
  moreover have "inventory_true isys (order_placed osys (order_store w')) (inventory_store w') ev"
    if "inventory_true isys (order_placed osys (order_store w)) (inventory_store w) ev"
    by (rule inventory_truth_mono [OF inventory_truth_stays [OF _ that]]) (use hist order_placed_stays in blast)+
  moreover have "payment_true psys (payment_store w') ev" if "payment_true psys (payment_store w) ev"
    using hist payment_truth_stays that by blast
  ultimately show ?thesis using assms(2) unfolding saga_true_def by blast
qed

lemma honest_mono:
  "honest sys truth s \<Longrightarrow> (\<And>ev. truth (durable s) ev \<Longrightarrow> truth' (durable s) ev) \<Longrightarrow> honest sys truth' s"
  unfolding honest_def backed_def by blast

lemma order_placed_for: "order_placed osys db u cid p q amount \<Longrightarrow> order_for db u p (sint q)"
  by (auto simp: order_placed_def order_for_def)

lemma order_for_stays: "order_history db db' \<Longrightarrow> order_for db u p q \<Longrightarrow> order_for db' u p q"
  unfolding order_for_def by (metis order_history_row)

lemma answered_once_grows:
  assumes "grows w w'" and "inventory_store w' = inventory_store w" and "answered_once osys isys psys w"
  shows "answered_once osys isys psys w'"
proof -
  have "order_for (order_store w') u p q" if "order_for (order_store w) u p q" for u p q
    using assms(1) that order_for_stays unfolding grows_def by blast
  with assms(2,3) saga_true_grows [OF assms(1)] show ?thesis
    unfolding answered_once_def by metis
qed

lemma charged_once_grows:
  assumes "grows w w'" and "payment_store w' = payment_store w" and "charged_once osys isys psys w"
  shows "charged_once osys isys psys w'"
  using assms(2,3) saga_true_grows [OF assms(1)] unfolding charged_once_def charge_backed_def by metis

lemma stock_reserved_order: "stock_reserved db u p q \<Longrightarrow> u \<in> rv_order_id ` set (reservations db)"
  by (auto simp: stock_reserved_def)

lemma reservation_stays:
  "inventory_history db db' \<Longrightarrow> u \<in> rv_order_id ` set (reservations db) \<Longrightarrow>
   u \<in> rv_order_id ` set (reservations db')"
  by (metis (no_types, lifting) imageE imageI inventory_history_row res_evolves_fields)

lemma stock_refused_stays:
  "inventory_history db db' \<Longrightarrow> stock_refused isys db u \<Longrightarrow> stock_refused isys db' u"
  unfolding stock_refused_def inventory_history_def using recorded_kept by blast

lemma orders_backed_grows:
  assumes "grows w w'" and "orders_backed isys w" and "order_store w' = order_store w"
  shows "orders_backed isys w'"
proof -
  have "u \<in> rv_order_id ` set (reservations (inventory_store w'))"
    if "u \<in> rv_order_id ` set (reservations (inventory_store w))" for u
    using assms(1) that reservation_stays unfolding grows_def by blast
  moreover have "payment_accepted (payment_store w') u" if "payment_accepted (payment_store w) u" for u
    using assms(1) that payment_accepted_stays unfolding grows_def by blast
  moreover have "payment_declined (payment_store w') u" if "payment_declined (payment_store w) u" for u
    using assms(1) that payment_declined_stays unfolding grows_def by blast
  moreover have "stock_refused isys (inventory_store w') u" if "stock_refused isys (inventory_store w) u" for u
    using assms(1) that stock_refused_stays unfolding grows_def by blast
  ultimately show ?thesis using assms(2) unfolding orders_backed_def order_row_backed_def assms(3) by metis
qed

lemma reservations_backed_grows:
  assumes "grows w w'" and "reservations_backed w" and "inventory_store w' = inventory_store w"
  shows "reservations_backed w'"
proof -
  have "order_has_status (order_store w') u st" if "order_has_status (order_store w) u st" "order_terminal st" for u st
    using assms(1) that order_has_status_stays unfolding grows_def by blast
  moreover have "payment_declined (payment_store w') u" if "payment_declined (payment_store w) u" for u
    using assms(1) that payment_declined_stays unfolding grows_def by blast
  ultimately show ?thesis using assms(2) unfolding reservations_backed_def assms(3) by (simp add: order_terminal_def)
qed


section \<open>The order service moves\<close>

lemma order_exec_history:
  assumes "order_ready sys (durable s)"
  shows "order_history (durable s) (durable (order_exec sys c s))"
proof -
  have "order_inv sys (durable s)" using assms by (simp add: order_ready_def)
  with order_service.exec_refines [OF assms, of c] show ?thesis
    using order_step_history order_history_refl unfolding order_inv_def by metis
qed

lemma inventory_exec_history:
  assumes "inventory_ready sys (durable s)"
  shows "inventory_history (durable s) (durable (inventory_exec sys c s))"
proof -
  have "stock_ok sys (durable s)" using assms by (simp add: inventory_ready_def inventory_inv_def)
  with inventory_service.exec_refines [OF assms, of c] show ?thesis
    using inventory_step_history inventory_history_refl by metis
qed

lemma payment_exec_history:
  assumes "payment_ready sys (durable s)"
  shows "payment_history (durable s) (durable (payment_exec sys c s))"
proof -
  have "payment_keys_ok sys (durable s)" "\<forall>r \<in> set (payments (durable s)). pay_row_ok r"
    using assms by (simp_all add: payment_ready_def payment_inv_def)
  with payment_service.exec_refines [OF assms, of c] show ?thesis
    using payment_step_history payment_history_refl by metis
qed



lemma order_step_backed:
  assumes env: "env_ok osys isys psys"
  shows "order_step osys c db db' \<Longrightarrow> order_fair osys isys psys w c \<Longrightarrow>
    \<forall>r \<in> set (orders db). order_row_backed isys (inventory_store w) (payment_store w) (o_id r) (o_status r) \<Longrightarrow>
    \<forall>r \<in> set (orders db'). order_row_backed isys (inventory_store w) (payment_store w) (o_id r) (o_status r)"
proof (induction rule: order_step.induct)
  case (created oid e db m r input)
  then show ?case by (auto simp: order_row_backed_def OrderStatus_defs)
next
  case (confirmed eid u db r oid now)
  then have "order_row_backed isys (inventory_store w) (payment_store w) (o_id r) OrderStatusConfirmed"
    using env by (auto simp: order_row_backed_def OrderStatus_defs env_ok_def dest: stock_reserved_order)
  with confirmed.prems(2) show ?case by (auto simp: orders_set_status)
next
  case (completed oid e db m eid u r now)
  then have "order_row_backed isys (inventory_store w) (payment_store w) (o_id r) OrderStatusCompleted"
    using env by (auto simp: order_row_backed_def OrderStatus_defs env_ok_def dest: stock_reserved_order)
  with completed.prems(2) show ?case by (auto simp: orders_set_status)
next
  case (payment_failed oid e db m eid u r reason now)
  then have "order_row_backed isys (inventory_store w) (payment_store w) (o_id r) OrderStatusCancelled"
    using env by (auto simp: order_row_backed_def OrderStatus_defs env_ok_def dest: stock_reserved_order)
  with payment_failed.prems(2) show ?case by (auto simp: orders_set_status)
next
  case (stock_failed eid u db r oid reason now)
  then have "order_row_backed isys (inventory_store w) (payment_store w) (o_id r) OrderStatusCancelled"
    using env by (auto simp: order_row_backed_def OrderStatus_defs env_ok_def stock_refused_def)
  with stock_failed.prems(2) show ?case by (auto simp: orders_set_status)
qed simp

lemma order_moves:
  assumes inv: "saga_inv osys isys psys w" and env: "env_ok osys isys psys" and fair: "order_fair osys isys psys w c"
  shows "saga_inv osys isys psys (w\<lparr>order_proc := order_exec osys c (order_proc w)\<rparr>)" (is "saga_inv _ _ _ ?w'")
proof -
  have ready: "order_ready osys (order_store w)"
    using inv by (simp add: saga_inv_def services_ready_def)
  have grows: "grows w ?w'"
    using order_exec_history [OF ready] by (simp add: grows_def inventory_history_refl payment_history_refl)
  have "order_call_ok osys (payment_declined (payment_store w)) c"
    using fair env by (cases c) (auto simp: env_ok_def)
  then have "honest osys (order_true osys (payment_declined (payment_store ?w'))) (order_proc ?w')"
    using order_truthful.exec_honest [OF ready] inv by (simp add: saga_inv_def services_honest_def)
  moreover have "honest isys (inventory_true isys (order_placed osys (order_store ?w'))) (inventory_proc ?w')"
  proof (rule honest_mono)
    show "honest isys (inventory_true isys (order_placed osys (order_store w))) (inventory_proc ?w')"
      using inv by (simp add: saga_inv_def services_honest_def)
  qed (use grows order_placed_stays in \<open>auto simp: grows_def intro: inventory_truth_mono\<close>)
  ultimately have "services_honest osys isys psys ?w'"
    using inv by (simp add: saga_inv_def services_honest_def)
  moreover have "orders_backed isys ?w'"
  proof (cases "order_store ?w' = order_store w")
    case True
    with inv show ?thesis by (simp add: saga_inv_def orders_backed_def)
  next
    case False
    then have "order_step osys c (order_store w) (order_store ?w')"
      using order_service.exec_refines [OF ready, of c] by simp
    from order_step_backed [OF env this fair] inv show ?thesis
      by (simp add: saga_inv_def orders_backed_def)
  qed
  ultimately show ?thesis
    using inv order_service.exec_inv [OF ready] answered_once_grows [OF grows] charged_once_grows [OF grows]
      reservations_backed_grows [OF grows]
    by (simp add: saga_inv_def services_ready_def)
qed


section \<open>The inventory service moves\<close>

lemma inventory_step_answers:
  "inventory_step sys c db db' \<Longrightarrow> answers sys db' v = answers sys db v +
     (case c of CallOrderCreated eid oid p cid q a \<Rightarrow> if uuid_in sys oid = Some v then 1 else 0 | _ \<Rightarrow> 0)"
proof (induction rule: inventory_step.induct)
  case (answered eid u db oid p q cid amount db')
  from answered(3) show ?case
    by cases (auto simp: answers_def outbox_entry_def EventType_neq)
next
  case (relayed db ms)
  then show ?case by (simp add: answers_def announcements_same_events)
qed (simp_all add: answers_def)

lemma inventory_step_processed:
  assumes "inventory_step sys (CallOrderCreated eid oid p cid q a) db db'"
  obtains u where "uuid_in sys eid = Some u" "processed_events db u = None" "u \<in> dom (processed_events db')"
  using assms by cases (auto elim!: inventory_answer.cases)

lemma inventory_step_reservations:
  "inventory_step sys c db db' \<Longrightarrow> v' \<in> set (reservations db') \<Longrightarrow>
   (\<exists>v \<in> set (reservations db). rv_order_id v' = rv_order_id v \<and> rv_product_id v' = rv_product_id v \<and>
      rv_quantity v' = rv_quantity v \<and>
      (rv_status v' = rv_status v \<or>
       (\<exists>eid oid. c = CallOrderCancelled eid oid \<and> uuid_in sys oid = Some (rv_order_id v') \<and>
          rv_status v' = ReservationStatusReleased) \<or>
       (\<exists>eid oid. c = CallOrderCompleted eid oid \<and> uuid_in sys oid = Some (rv_order_id v') \<and>
          rv_status v' = ReservationStatusCommitted))) \<or>
   (\<exists>eid oid cid q a. c = CallOrderCreated eid oid (rv_product_id v') cid q a \<and>
      uuid_in sys oid = Some (rv_order_id v') \<and> sint q = rv_quantity v' \<and> rv_status v' = ReservationStatusReserved)"
proof (induction rule: inventory_step.induct)
  case (answered eid u db oid p q cid amount db')
  from answered(3,4) show ?case by cases auto
next
  case (released eid u db oid ord now)
  then obtain x where "x \<in> set (reservations db)" "v' = settle_res ReservationStatusReleased (\<lambda>r. rv_order_id r = ord) now x"
    by auto
  with released(3) show ?case by (auto simp: settle_res_def intro!: bexI [of _ x])
next
  case (committed eid u db oid ord now)
  then obtain x where "x \<in> set (reservations db)" "v' = settle_res ReservationStatusCommitted (\<lambda>r. rv_order_id r = ord) now x"
    by auto
  with committed(3) show ?case by (auto simp: settle_res_def intro!: bexI [of _ x])
qed auto

lemma inventory_step_reservation:
  assumes "inventory_step sys c db db'" and "v' \<in> set (reservations db')"
  obtains (kept) v where "v \<in> set (reservations db)" "rv_order_id v' = rv_order_id v"
      "rv_product_id v' = rv_product_id v" "rv_quantity v' = rv_quantity v"
      "rv_status v' = rv_status v \<or>
       (\<exists>eid oid. c = CallOrderCancelled eid oid \<and> uuid_in sys oid = Some (rv_order_id v') \<and>
          rv_status v' = ReservationStatusReleased) \<or>
       (\<exists>eid oid. c = CallOrderCompleted eid oid \<and> uuid_in sys oid = Some (rv_order_id v') \<and>
          rv_status v' = ReservationStatusCommitted)"
  | (added) eid oid cid q a where "c = CallOrderCreated eid oid (rv_product_id v') cid q a"
      "uuid_in sys oid = Some (rv_order_id v')" "sint q = rv_quantity v'" "rv_status v' = ReservationStatusReserved"
  using inventory_step_reservations [OF assms] by blast

lemma inventory_answered_once:
  assumes env: "env_ok osys isys psys" and ready: "services_ready osys isys psys w"
    and once: "answered_once osys isys psys w" and fair: "inventory_fair osys isys psys w c"
    and step: "inventory_step isys c (inventory_store w) (inventory_store w')"
    and grows: "grows w w'" and same: "order_store w' = order_store w"
  shows "answered_once osys isys psys w'"
proof -
  let ?d = "inventory_store w" and ?d' = "inventory_store w'"
  have uuids: "uuid_in isys = uuid_in osys" using env by (simp add: env_ok_def)
  have kept: "x \<in> dom (processed_events ?d')" if "x \<in> dom (processed_events ?d)" for x
    using grows that by (auto simp: grows_def inventory_history_def events_kept_def map_le_def dom_def)
  have answer: "answers isys ?d' v \<le> 1 \<and> (0 < answers isys ?d' v \<longrightarrow>
      (\<exists>e x. saga_true osys isys psys w' (EvOrderCreated e) \<and> uuid_in osys (oc_OrderID e) = Some v \<and>
         uuid_in osys (EventID e) = Some x \<and> x \<in> dom (processed_events ?d')))" for v
  proof (cases "\<exists>eid oid p cid q a. c = CallOrderCreated eid oid p cid q a \<and> uuid_in osys oid = Some v")
    case False
    then have "answers isys ?d' v = answers isys ?d v"
      using inventory_step_answers [OF step, of v] uuids by (cases c) auto
    with once kept saga_true_grows [OF grows] show ?thesis unfolding answered_once_def by metis
  next
    case True
    then obtain eid oid p cid q a where c: "c = CallOrderCreated eid oid p cid q a" "uuid_in osys oid = Some v"
      by blast
    with fair obtain e where e: "EventID e = eid" "oc_OrderID e = oid" "saga_true osys isys psys w (EvOrderCreated e)"
      by auto
    obtain u where u: "uuid_in osys eid = Some u" "processed_events ?d u = None" "u \<in> dom (processed_events ?d')"
      using inventory_step_processed step c(1) uuids by metis
    have "answers isys ?d v = 0"
    proof (rule ccontr)
      assume "answers isys ?d v \<noteq> 0"
      with once obtain e' x where e': "saga_true osys isys psys w (EvOrderCreated e')"
        "uuid_in osys (oc_OrderID e') = Some v" "uuid_in osys (EventID e') = Some x" "x \<in> dom (processed_events ?d)"
        unfolding answered_once_def by blast
      have "order_inv osys (order_store w)" "jsonb_ok osys"
        using ready env by (simp_all add: services_ready_def order_ready_def env_ok_def)
      then have "EventID e' = EventID e"
        by (rule order_created_once) (use e e' c in simp_all)
      with e e' u show False by auto
    qed
    then have "answers isys ?d' v = 1"
      using inventory_step_answers [OF step, of v] c uuids by simp
    with e c u saga_true_grows [OF grows e(3)] show ?thesis by auto
  qed
  have "order_for (order_store w') (rv_order_id v') (rv_product_id v') (rv_quantity v')"
    if v': "v' \<in> set (reservations ?d')" for v'
    using step v'
  proof (cases rule: inventory_step_reservation)
    case (kept v)
    then show ?thesis using once same unfolding answered_once_def by simp
  next
    case (added eid oid cid q a)
    with fair uuids have "order_placed osys (order_store w) (rv_order_id v') cid (rv_product_id v') q a" by auto
    from order_placed_for [OF this] show ?thesis using same added(3) by simp
  qed
  with answer show ?thesis unfolding answered_once_def by blast
qed

lemma inventory_reservations_backed:
  assumes env: "env_ok osys isys psys" and backed: "reservations_backed w" and fair: "inventory_fair osys isys psys w c"
    and step: "inventory_step isys c (inventory_store w) (inventory_store w')"
    and same: "order_store w' = order_store w" "payment_store w' = payment_store w"
  shows "reservations_backed w'"
proof -
  have uuids: "uuid_in isys = uuid_in osys" using env by (simp add: env_ok_def)
  show ?thesis
    unfolding reservations_backed_def same
  proof
    fix v'
    assume "v' \<in> set (reservations (inventory_store w'))"
    with step show "(rv_status v' = ReservationStatusCommitted \<longrightarrow>
          order_has_status (order_store w) (rv_order_id v') OrderStatusCompleted) \<and>
        (rv_status v' = ReservationStatusReleased \<longrightarrow>
          order_has_status (order_store w) (rv_order_id v') OrderStatusCancelled \<and>
          payment_declined (payment_store w) (rv_order_id v'))"
    proof (cases rule: inventory_step_reservation)
      case (kept v)
      from kept(5) show ?thesis
        using kept(1,2) backed fair uuids
        by (elim disjE exE conjE) (auto simp: reservations_backed_def ReservationStatus_defs)
    next
      case (added eid oid cid q a)
      then show ?thesis by (simp add: ReservationStatus_defs)
    qed
  qed
qed

lemma inventory_moves:
  assumes inv: "saga_inv osys isys psys w" and env: "env_ok osys isys psys" and fair: "inventory_fair osys isys psys w c"
  shows "saga_inv osys isys psys (w\<lparr>inventory_proc := inventory_exec isys c (inventory_proc w)\<rparr>)" (is "saga_inv _ _ _ ?w'")
proof -
  have ready: "inventory_ready isys (inventory_store w)" "services_ready osys isys psys w"
    using inv by (simp_all add: saga_inv_def services_ready_def)
  have grows: "grows w ?w'"
    using inventory_exec_history [OF ready(1)] by (simp add: grows_def order_history_refl payment_history_refl)
  have "inventory_call_ok isys (order_placed osys (order_store w)) c"
    using fair env by (cases c) (auto simp: env_ok_def)
  then have "services_honest osys isys psys ?w'"
    using inventory_truthful.exec_honest [OF ready(1)] inv by (simp add: saga_inv_def services_honest_def)
  moreover have "answered_once osys isys psys ?w' \<and> reservations_backed ?w'"
  proof (cases "inventory_store ?w' = inventory_store w")
    case True
    with inv show ?thesis
      using answered_once_grows [OF grows] reservations_backed_grows [OF grows] by (simp add: saga_inv_def)
  next
    case False
    then have "inventory_step isys c (inventory_store w) (inventory_store ?w')"
      using inventory_service.exec_refines [OF ready(1), of c] by simp
    then show ?thesis
      using inv inventory_answered_once [OF env ready(2) _ fair _ grows] inventory_reservations_backed [OF env _ fair]
      by (simp add: saga_inv_def)
  qed
  ultimately show ?thesis
    using inv inventory_service.exec_inv [OF ready(1)] charged_once_grows [OF grows] orders_backed_grows [OF grows]
    by (simp add: saga_inv_def services_ready_def)
qed


section \<open>The payment service moves\<close>

lemma payment_step_payments:
  assumes "payment_step sys c db db'"
  obtains (same) "payments db' = payments db"
  | (refund) eid oid r where "c = CallPaymentOrderCancelled eid oid" "r \<in> set (payments db)"
      "uuid_in sys oid = Some (p_order_id r)" "p_status r = PaymentStatusCompleted"
  | (added) uc eid oid cid a u r where "c = CallPaymentStockReserved uc eid oid cid a" "payments db' = payments db @ [r]"
      "uuid_in sys oid = Some (p_order_id r)" "p_customer_id r = cid" "numeric_in sys a = Some (p_amount r)"
      "p_status r \<in> {PaymentStatusCompleted, PaymentStatusFailed}"
      "uuid_in sys eid = Some u" "processed_events db u = None" "u \<in> dom (processed_events db')"
  using assms
proof cases
  case (charged eid u uc amount declined oid cid)
  from charged(5) show ?thesis
  proof cases
    case (accepted e m r now)
    with charged show ?thesis by (intro added [of uc eid oid cid amount r u]) auto
  next
    case (declined e m r t now)
    with charged show ?thesis by (intro added [of uc eid oid cid amount r u]) auto
  qed
next
  case (cancelled eid u oid ord)
  from cancelled(5) show ?thesis
  proof cases
    case (refunded r now)
    with cancelled show ?thesis by (intro refund) auto
  qed (simp_all add: same)
next
  case (relayed ms)
  then show ?thesis by (intro same) simp
qed

text \<open>A payment of an order whose payment was declined is that payment.\<close>

lemma declined_only:
  assumes "charged_once osys isys psys w" and "payment_declined (payment_store w) u"
    and "r \<in> set (payments (payment_store w))" and "p_order_id r = u"
  shows "p_status r = PaymentStatusFailed"
proof -
  obtain x where x: "x \<in> set (payments (payment_store w))" "p_order_id x = u" "p_status x = PaymentStatusFailed"
    using assms(2) unfolding payment_declined_def by blast
  have "distinct (map p_order_id (payments (payment_store w)))" using assms(1) by (simp add: charged_once_def)
  from distinct_key_eq [OF this x(1) assms(3)] x assms(4) show ?thesis by simp
qed

lemma payment_step_charged_once:
  assumes env: "env_ok osys isys psys" and answered: "answered_once osys isys psys w"
    and once: "charged_once osys isys psys w" and fair: "payment_fair osys isys psys w c"
    and step: "payment_step psys c (payment_store w) (payment_store w')"
    and grows: "grows w w'"
  shows "charged_once osys isys psys w'"
proof -
  let ?d = "payment_store w" and ?d' = "payment_store w'"
  have same_codecs: "uuid_in isys = uuid_in osys" "uuid_in psys = uuid_in osys" "numeric_in psys = numeric_in osys"
    using env by (simp_all add: env_ok_def)
  have kept: "x \<in> dom (processed_events ?d')" if "x \<in> dom (processed_events ?d)" for x
    using grows that by (auto simp: grows_def payment_history_def events_kept_def map_le_def dom_def)
  have old: "p_status r \<noteq> PaymentStatusRefunded \<and> charge_backed osys isys psys w' r" if "r \<in> set (payments ?d)" for r
    using once that kept saga_true_grows [OF grows] unfolding charged_once_def charge_backed_def by metis
  from step show ?thesis
  proof (cases rule: payment_step_payments)
    case same
    with old once show ?thesis unfolding charged_once_def by simp
  next
    case (refund eid oid r)
    with fair same_codecs have "payment_declined ?d (p_order_id r)" by auto
    from declined_only [OF once this refund(2)] refund(4) show ?thesis by (simp add: PaymentStatus_defs)
  next
    case (added uc eid oid cid a u r)
    with fair obtain e where e: "EventID e = eid" "sr_OrderID e = oid" "sr_CustomerID e = cid" "sr_TotalAmount e = a"
      "saga_true osys isys psys w (EvStockReserved e)" by auto
    have "p_order_id r \<notin> p_order_id ` set (payments ?d)"
    proof
      assume "p_order_id r \<in> p_order_id ` set (payments ?d)"
      then obtain e' x where e': "saga_true osys isys psys w (EvStockReserved e')"
        "uuid_in osys (sr_OrderID e') = Some (p_order_id r)" "uuid_in osys (EventID e') = Some x"
        "x \<in> dom (processed_events ?d)"
        using once unfolding charged_once_def charge_backed_def by (metis (no_types, lifting) imageE)
      have "announcements isys (inventory_store w) EventTypeStockReserved (p_order_id r) \<le> 1"
        using answered unfolding answered_once_def answers_def by (metis add_leD1)
      moreover have "recorded isys (inventory_store w) (p_order_id r) (EvStockReserved e)"
        "recorded isys (inventory_store w) (p_order_id r) (EvStockReserved e')"
        using e e' added(3) same_codecs by auto
      moreover have "jsonb_ok isys" using env by (simp add: env_ok_def)
      ultimately have "event_id (EvStockReserved e) = event_id (EvStockReserved e')"
        by (intro recorded_unique) simp_all
      then have "EventID e = EventID e'" by (simp add: event_id_def BaseEvent.truncate_def)
      with e e' added same_codecs show False by auto
    qed
    moreover have "charge_backed osys isys psys w' r"
      unfolding charge_backed_def
      by (intro exI [of _ e] exI [of _ u]) (use added e same_codecs saga_true_grows [OF grows e(5)] in simp)
    moreover have "p_status r \<noteq> PaymentStatusRefunded" using added(6) by (auto simp: PaymentStatus_defs)
    ultimately show ?thesis
      using old once unfolding charged_once_def added(2) by auto
  qed
qed

lemma payment_moves:
  assumes inv: "saga_inv osys isys psys w" and env: "env_ok osys isys psys" and fair: "payment_fair osys isys psys w c"
  shows "saga_inv osys isys psys (w\<lparr>payment_proc := payment_exec psys c (payment_proc w)\<rparr>)" (is "saga_inv _ _ _ ?w'")
proof -
  have ready: "payment_ready psys (payment_store w)"
    using inv by (simp add: saga_inv_def services_ready_def)
  have grows: "grows w ?w'"
    using payment_exec_history [OF ready] by (simp add: grows_def order_history_refl inventory_history_refl)
  have "honest osys (order_true osys (payment_declined (payment_store ?w'))) (order_proc ?w')"
  proof (rule honest_mono)
    show "honest osys (order_true osys (payment_declined (payment_store w))) (order_proc ?w')"
      using inv by (simp add: saga_inv_def services_honest_def)
  qed (use grows payment_declined_stays in \<open>auto simp: grows_def intro: order_truth_mono\<close>)
  moreover have "honest psys (payment_true psys) (payment_proc ?w')"
    using payment_truthful.exec_honest [OF ready] inv by (simp add: saga_inv_def services_honest_def)
  ultimately have "services_honest osys isys psys ?w'"
    using inv by (simp add: saga_inv_def services_honest_def)
  moreover have "charged_once osys isys psys ?w'"
  proof (cases "payment_store ?w' = payment_store w")
    case True
    with inv show ?thesis using charged_once_grows [OF grows] by (simp add: saga_inv_def)
  next
    case False
    then have "payment_step psys c (payment_store w) (payment_store ?w')"
      using payment_service.exec_refines [OF ready, of c] by simp
    then show ?thesis using inv payment_step_charged_once [OF env _ _ fair _ grows] by (simp add: saga_inv_def)
  qed
  ultimately show ?thesis
    using inv payment_service.exec_inv [OF ready] answered_once_grows [OF grows] orders_backed_grows [OF grows]
      reservations_backed_grows [OF grows]
    by (simp add: saga_inv_def services_ready_def)
qed


section \<open>Every state the system reaches\<close>

lemma honest_restarted:
  "honest sys truth s \<Longrightarrow> durable s' = durable s \<Longrightarrow> published s' = published s \<Longrightarrow> honest sys truth s'"
  by (simp add: honest_def)

lemma saga_inv_restarted:
  assumes "saga_inv osys isys psys w"
    and "order_store w' = order_store w" "published (order_proc w') = published (order_proc w)"
    and "inventory_store w' = inventory_store w" "published (inventory_proc w') = published (inventory_proc w)"
    and "payment_store w' = payment_store w" "published (payment_proc w') = published (payment_proc w)"
  shows "saga_inv osys isys psys w'"
proof -
  have "saga_true osys isys psys w' = saga_true osys isys psys w"
    using assms(2,4,6) by (simp add: saga_true_def fun_eq_iff)
  with assms show ?thesis
    unfolding saga_inv_def services_ready_def services_honest_def answered_once_def charged_once_def charge_backed_def
      orders_backed_def reservations_backed_def
    by (auto intro: honest_restarted)
qed

lemma saga_step_inv:
  assumes env: "env_ok osys isys psys"
  shows "saga_step osys isys psys w w' \<Longrightarrow> saga_inv osys isys psys w \<Longrightarrow> saga_inv osys isys psys w'"
proof (induction rule: saga_step.induct)
  case (order_received subject doc w oc)
  have "services_honest osys isys psys w" using order_received(3) by (simp add: saga_inv_def)
  then obtain X ev where ev: "jsonb_ok X" "codecs_ok X" "tells X (subject, doc) ev" "saga_true osys isys psys w ev"
    using env order_received(1) by (rule broker_true)
  have "deliver oc subject (Some doc) (order_proc w) =
      (case order_call_of osys subject (Some doc) of None \<Rightarrow> order_proc w | Some c \<Rightarrow> order_exec osys c (order_proc w))"
    using order_consumer.start_outcome [OF order_received(2)] by simp
  then show ?case
    using order_received(3) order_moves [OF order_received(3) env] order_received_fair [OF ev(1,3,4)]
    by (simp split: option.split)
next
  case (inventory_received subject doc w ic)
  have "services_honest osys isys psys w" using inventory_received(3) by (simp add: saga_inv_def)
  then obtain X ev where ev: "jsonb_ok X" "codecs_ok X" "tells X (subject, doc) ev" "saga_true osys isys psys w ev"
    using env inventory_received(1) by (rule broker_true)
  have "deliver ic subject (Some doc) (inventory_proc w) =
      (case inventory_call_of isys subject (Some doc) of None \<Rightarrow> inventory_proc w
       | Some c \<Rightarrow> inventory_exec isys c (inventory_proc w))"
    using inventory_consumer.start_outcome [OF inventory_received(2)] by simp
  then show ?case
    using inventory_received(3) inventory_moves [OF inventory_received(3) env] inventory_received_fair [OF ev]
    by (simp split: option.split)
next
  case (payment_received subject doc w uc pc)
  have "services_honest osys isys psys w" using payment_received(3) by (simp add: saga_inv_def)
  then obtain X ev where ev: "jsonb_ok X" "codecs_ok X" "tells X (subject, doc) ev" "saga_true osys isys psys w ev"
    using env payment_received(1) by (rule broker_true)
  have "deliver pc subject (Some doc) (payment_proc w) =
      (case payment_call_of psys uc subject (Some doc) of None \<Rightarrow> payment_proc w
       | Some c \<Rightarrow> payment_exec psys c (payment_proc w))"
    using payment_consumer.start_outcome [OF payment_received(2)] by simp
  then show ?case
    using payment_received(3) payment_moves [OF payment_received(3) env] payment_received_fair [OF ev]
    by (simp split: option.split)
next
  case (order_restarted s w)
  then show ?case by (rule_tac saga_inv_restarted) auto
next
  case (inventory_restarted s w)
  then show ?case by (rule_tac saga_inv_restarted) auto
next
  case (payment_restarted s w)
  then show ?case by (rule_tac saga_inv_restarted) auto
qed (simp_all add: order_moves [OF _ env] inventory_moves [OF _ env] payment_moves [OF _ env]
      del: order_exec.simps inventory_exec.simps payment_exec.simps)

lemma saga_start_inv:
  assumes env: "env_ok osys isys psys" and start: "saga_start isys w"
  shows "saga_inv osys isys psys w"
proof -
  have silent: "outbox (order_store w) = []" "outbox (inventory_store w) = []" "outbox (payment_store w) = []"
    "published (order_proc w) = []" "published (inventory_proc w) = []" "published (payment_proc w) = []"
    "orders (order_store w) = []" "payments (payment_store w) = []" "reservations (inventory_store w) = []"
    using start by (simp_all add: saga_start_def broker_def empty_order_db_def empty_payment_db_def)
  have "services_ready osys isys psys w"
    using env start
    by (simp add: services_ready_def order_ready_def inventory_ready_def payment_ready_def env_ok_def saga_start_def)
  moreover have "services_honest osys isys psys w"
    by (simp add: services_honest_def honest_def backed_def silent)
  moreover have "answered_once osys isys psys w"
    by (simp add: answered_once_def answers_def announcements_def silent)
  moreover have "charged_once osys isys psys w" "orders_backed isys w" "reservations_backed w"
    by (simp_all add: charged_once_def orders_backed_def reservations_backed_def silent)
  ultimately show ?thesis unfolding saga_inv_def by blast
qed

lemma saga_reachable_inv:
  assumes "env_ok osys isys psys" and "saga_start isys w0" and "(saga_step osys isys psys)\<^sup>*\<^sup>* w0 w"
  shows "saga_inv osys isys psys w"
  using assms(3) saga_start_inv [OF assms(1,2)] saga_step_inv [OF assms(1)]
  by (induction rule: rtranclp_induct) blast+


section \<open>A first step, for the witnesses\<close>

definition sample_input :: CreateOrderInput where
  "sample_input = \<lparr>in_CustomerID = ''c'', in_ProductID = ''PROD-001'', in_Quantity = 2, in_TotalAmount = 10\<rparr>"

definition sample_world :: world where
  "sample_world = \<lparr>order_proc = order_boot empty_order_db, inventory_proc = inventory_boot initial_inventory_db,
     payment_proc = payment_boot empty_payment_db\<rparr>"

definition ordered_world :: world where
  "ordered_world = sample_world\<lparr>order_proc := order_exec sample_sys (CallCreateOrder sample_input) (order_proc sample_world)\<rparr>"

lemma sample_fields:
  "uuid_New sample_sys n = CHR ''u'' # replicate n (CHR ''x'')" "time_Now sample_sys n = 1000 * int n"
  "server_time sample_sys n = int n" "text_ok sample_sys n x = (length x \<le> n)"
  "numeric_in sample_sys a = (if \<bar>a\<bar> < 100000000 then Some \<lfloor>100 * a\<rfloor> else None)"
  "begin_err sample_sys n = None" "stmt_err sample_sys n = None"
  "commit_reply sample_sys n = Ack" "jsonb_in sample_sys j = Some j"
  by (simp_all add: sample_sys_def)

lemma ordered_world_orders:
  "orders (order_store ordered_world) =
     [\<lparr>o_id = ''ux'', o_customer_id = ''c'', o_product_id = ''PROD-001'', o_quantity = 2,
       o_total_amount = 1000, o_status = OrderStatusPending,
       o_created_at = timestamptz sample_sys 0, o_updated_at = timestamptz sample_sys 0\<rparr>]"
  by (simp add: ordered_world_def sample_world_def sample_input_def order_boot_def empty_order_db_def CreateOrder_def
        go_run NewOrder_def go_now_def go_uuid_def with_tx_def tx_Begin_def tx_stmt_def tx_Commit_def tx_Rollback_def
        sample_fields sample_uuid_in order_Save_def insert_order_def NewEvent_defs NewBaseEvent_def PublishInTx_def
        insert_outbox_def ToJSON_def sle_iff int4_ok_def EventType_defs OrderStatus_defs)

lemma sample_saga:
  "env_ok sample_sys sample_sys sample_sys" "saga_start sample_sys sample_world"
  "(saga_step sample_sys sample_sys sample_sys)\<^sup>*\<^sup>* sample_world ordered_world"
proof -
  show "env_ok sample_sys sample_sys sample_sys" by (simp add: env_ok_def)
  show "saga_start sample_sys sample_world"
    by (simp add: saga_start_def sample_world_def broker_def order_boot_def inventory_boot_def payment_boot_def
          initial_inventory_db_def [symmetric])
       (simp add: initial_inventory_db_def)
  have "is_f64 (in_TotalAmount sample_input)"
    using round64_int [of 10] by (simp add: sample_input_def is_f64_def)
  then show "(saga_step sample_sys sample_sys sample_sys)\<^sup>*\<^sup>* sample_world ordered_world"
    unfolding ordered_world_def by (intro r_into_rtranclp saga_step.order_created)
qed

section \<open>What the saga promises\<close>

lemma reservations_of_order:
  assumes "inventory_inv isys db"
  shows "length (filter (\<lambda>v. rv_order_id v = u) (reservations db)) = announcements isys db EventTypeStockReserved u"
  using assms by (simp add: inventory_inv_def inventory_announced_def)

lemma distinct_by_count:
  "(\<And>u. length (filter (\<lambda>x. k x = u) xs) \<le> 1) \<Longrightarrow> distinct (map k xs)"
proof (induction xs)
  case Nil
  then show ?case by simp
next
  case (Cons x xs)
  have "length (filter (\<lambda>y. k y = u) xs) \<le> 1" for u
    using Cons.prems [of u] by (simp split: if_splits)
  moreover have "filter (\<lambda>y. k y = k x) xs = []" using Cons.prems [of "k x"] by simp
  then have "k x \<notin> k ` set xs" by (auto simp: filter_empty_conv)
  ultimately show ?case using Cons.IH by simp
qed

lemma saga_reservations_distinct:
  assumes "saga_inv osys isys psys w"
  shows "distinct (map rv_order_id (reservations (inventory_store w)))"
proof (rule distinct_by_count)
  fix u
  have "inventory_inv isys (inventory_store w)"
    using assms by (simp add: saga_inv_def services_ready_def inventory_ready_def)
  moreover have "answers isys (inventory_store w) u \<le> 1"
    using assms unfolding saga_inv_def answered_once_def by blast
  ultimately show "length (filter (\<lambda>v. rv_order_id v = u) (reservations (inventory_store w))) \<le> 1"
    by (simp add: reservations_of_order answers_def)
qed

lemma saga_payment_for:
  assumes env: "env_ok osys isys psys" and inv: "saga_inv osys isys psys w"
    and p: "p \<in> set (payments (payment_store w))"
  shows "(\<exists>r \<in> set (orders (order_store w)).
      o_id r = p_order_id p \<and> o_customer_id r = p_customer_id p \<and> o_total_amount r = p_amount p) \<and>
    p_order_id p \<in> rv_order_id ` set (reservations (inventory_store w))"
proof -
  have "charge_backed osys isys psys w p" using inv p by (simp add: saga_inv_def charged_once_def)
  then obtain e where e: "saga_true osys isys psys w (EvStockReserved e)" "uuid_in osys (sr_OrderID e) = Some (p_order_id p)"
    "p_customer_id p = sr_CustomerID e" "numeric_in osys (sr_TotalAmount e) = Some (p_amount p)"
    unfolding charge_backed_def by blast
  then have "stock_reserved (inventory_store w) (p_order_id p) (sr_ProductID e) (sr_Quantity e)"
    "order_placed osys (order_store w) (p_order_id p) (sr_CustomerID e) (sr_ProductID e) (sr_Quantity e) (sr_TotalAmount e)"
    using env by (auto simp: env_ok_def)
  with e show ?thesis by (auto simp: order_placed_def dest: stock_reserved_order)
qed

text \<open>An order without stock has no reservation.\<close>

lemma refused_no_reservation:
  assumes inv: "saga_inv osys isys psys w" and refused: "stock_refused isys (inventory_store w) u"
  shows "u \<notin> rv_order_id ` set (reservations (inventory_store w))"
proof -
  let ?db = "inventory_store w"
  obtain e where "recorded isys ?db u (EvStockReserveFailed e)" using refused unfolding stock_refused_def by blast
  then have "filter (\<lambda>m. msg_EventType m = EventTypeStockReserveFailed \<and> uuid_in isys (msg_AggregateID m) = Some u)
      (outbox ?db) \<noteq> []"
    by (auto simp: recorded_def tells_def subject_of_def filter_empty_conv)
  then have "0 < announcements isys ?db EventTypeStockReserveFailed u" by (simp add: announcements_def)
  moreover have "answers isys ?db u \<le> 1" using inv unfolding saga_inv_def answered_once_def by blast
  ultimately have "announcements isys ?db EventTypeStockReserved u = 0" by (simp add: answers_def)
  moreover have "inventory_inv isys ?db" using inv by (simp add: saga_inv_def services_ready_def inventory_ready_def)
  ultimately have "filter (\<lambda>v. rv_order_id v = u) (reservations ?db) = []"
    using reservations_of_order [of isys "inventory_store w" u] by simp
  then show ?thesis by (auto simp: filter_empty_conv)
qed

lemma saga_order_status:
  assumes "saga_inv osys isys psys w" and "r \<in> set (orders (order_store w))"
    and "order_has_status (order_store w) (o_id r) st"
  shows "o_status r = st"
proof -
  have "order_keys_ok osys (order_store w)"
    using assms(1) by (simp add: saga_inv_def services_ready_def order_ready_def order_inv_def)
  with assms(2,3) same_order show ?thesis unfolding order_has_status_def by blast
qed

text \<open>
  C1: exactly once, end to end. However the broker delays, loses, repeats and reorders messages,
  whatever statements, commits and publications fail in the three services, and however often they
  restart: an order has at most one reservation, of the product and quantity that were ordered, and
  at most one payment, by the customer who ordered and of the amount of the order, and only after
  its stock was reserved.
\<close>

theorem saga_exactly_once:
  assumes "env_ok osys isys psys" and "saga_start isys w0" and "(saga_step osys isys psys)\<^sup>*\<^sup>* w0 w"
  shows "distinct (map rv_order_id (reservations (inventory_store w))) \<and>
    (\<forall>v \<in> set (reservations (inventory_store w)). \<exists>r \<in> set (orders (order_store w)).
       o_id r = rv_order_id v \<and> o_product_id r = rv_product_id v \<and> o_quantity r = rv_quantity v) \<and>
    distinct (map p_order_id (payments (payment_store w))) \<and>
    (\<forall>p \<in> set (payments (payment_store w)).
       (\<exists>r \<in> set (orders (order_store w)).
          o_id r = p_order_id p \<and> o_customer_id r = p_customer_id p \<and> o_total_amount r = p_amount p) \<and>
       p_order_id p \<in> rv_order_id ` set (reservations (inventory_store w)))"
proof -
  have inv: "saga_inv osys isys psys w" using assms by (rule saga_reachable_inv)
  then have "answered_once osys isys psys w" "charged_once osys isys psys w" by (simp_all add: saga_inv_def)
  with saga_reservations_distinct [OF inv] saga_payment_for [OF assms(1) inv] show ?thesis
    unfolding answered_once_def charged_once_def order_for_def by blast
qed

theorem saga_exactly_once_witness:
  "distinct (map rv_order_id (reservations (inventory_store ordered_world))) \<and>
   distinct (map p_order_id (payments (payment_store ordered_world))) \<and> orders (order_store ordered_world) \<noteq> []"
  using saga_exactly_once [OF sample_saga] by (simp add: ordered_world_orders)

text \<open>
  C2: money and stock follow the order. In every state the system reaches: a COMPLETED order has a
  payment that is COMPLETED, and a reservation that is not released; the customer of a CANCELLED
  order has no payment that is COMPLETED, and its reservation, if it has one, is not committed; a
  reservation is committed or released only when its order is COMPLETED or CANCELLED; and no payment
  is ever REFUNDED, so the refund in the handler of OrderCancelled is never needed.
\<close>

theorem saga_consistent:
  assumes "env_ok osys isys psys" and "saga_start isys w0" and "(saga_step osys isys psys)\<^sup>*\<^sup>* w0 w"
    and r: "r \<in> set (orders (order_store w))"
  shows "(o_status r = OrderStatusCompleted \<longrightarrow>
      (\<exists>p \<in> set (payments (payment_store w)). p_order_id p = o_id r \<and> p_status p = PaymentStatusCompleted) \<and>
      (\<exists>v \<in> set (reservations (inventory_store w)). rv_order_id v = o_id r \<and> rv_status v \<noteq> ReservationStatusReleased)) \<and>
    (o_status r = OrderStatusCancelled \<longrightarrow>
      (\<forall>p \<in> set (payments (payment_store w)). p_order_id p = o_id r \<longrightarrow> p_status p \<noteq> PaymentStatusCompleted) \<and>
      (\<forall>v \<in> set (reservations (inventory_store w)). rv_order_id v = o_id r \<longrightarrow> rv_status v \<noteq> ReservationStatusCommitted)) \<and>
    (\<forall>v \<in> set (reservations (inventory_store w)). rv_order_id v = o_id r \<longrightarrow>
      rv_status v \<noteq> ReservationStatusReserved \<longrightarrow> o_status r \<in> {OrderStatusCompleted, OrderStatusCancelled}) \<and>
    (\<forall>p \<in> set (payments (payment_store w)). p_status p \<noteq> PaymentStatusRefunded)"
proof -
  let ?rs = "reservations (inventory_store w)" and ?ps = "payments (payment_store w)"
  have inv: "saga_inv osys isys psys w" using assms(1-3) by (rule saga_reachable_inv)
  have once: "charged_once osys isys psys w" and stock: "reservations_backed w"
    and row: "order_row_backed isys (inventory_store w) (payment_store w) (o_id r) (o_status r)"
    using inv r by (simp_all add: saga_inv_def orders_backed_def)
  note status = saga_order_status [OF inv r]
  have settled: "(rv_status v = ReservationStatusCommitted \<longrightarrow> o_status r = OrderStatusCompleted) \<and>
      (rv_status v = ReservationStatusReleased \<longrightarrow> o_status r = OrderStatusCancelled)"
    if "v \<in> set ?rs" "rv_order_id v = o_id r" for v
    using stock that status unfolding reservations_backed_def by metis
  have statuses: "rv_status v \<in> {ReservationStatusReserved, ReservationStatusReleased, ReservationStatusCommitted}"
    if "v \<in> set ?rs" for v
    using inv that by (auto simp: saga_inv_def services_ready_def inventory_ready_def inventory_inv_def stock_ok_def res_row_ok_def)
  have completed: "(\<exists>p \<in> set ?ps. p_order_id p = o_id r \<and> p_status p = PaymentStatusCompleted) \<and>
      (\<exists>v \<in> set ?rs. rv_order_id v = o_id r \<and> rv_status v \<noteq> ReservationStatusReleased)"
    if "o_status r = OrderStatusCompleted"
    using row that once settled unfolding order_row_backed_def payment_accepted_def charged_once_def
    by (auto simp: OrderStatus_defs)
  have cancelled: "(\<forall>p \<in> set ?ps. p_order_id p = o_id r \<longrightarrow> p_status p \<noteq> PaymentStatusCompleted) \<and>
      (\<forall>v \<in> set ?rs. rv_order_id v = o_id r \<longrightarrow> rv_status v \<noteq> ReservationStatusCommitted)"
    if "o_status r = OrderStatusCancelled"
  proof -
    have "p_status p \<noteq> PaymentStatusCompleted" if p: "p \<in> set ?ps" "p_order_id p = o_id r" for p
    proof (cases "payment_declined (payment_store w) (o_id r)")
      case True
      from declined_only [OF once True p] show ?thesis by (simp add: PaymentStatus_defs)
    next
      case False
      with row \<open>o_status r = OrderStatusCancelled\<close> have "stock_refused isys (inventory_store w) (o_id r)"
        by (simp add: order_row_backed_def)
      with refused_no_reservation [OF inv] saga_payment_for [OF assms(1) inv p(1)] p(2) show ?thesis by simp
    qed
    with settled that show ?thesis by (auto simp: OrderStatus_defs)
  qed
  have "p_status p \<noteq> PaymentStatusRefunded" if "p \<in> set ?ps" for p
    using once that by (simp add: charged_once_def)
  with completed cancelled settled statuses show ?thesis by blast
qed

theorem saga_consistent_witness:
  "\<exists>r \<in> set (orders (order_store ordered_world)). o_status r = OrderStatusPending \<and>
     \<not> (\<exists>v \<in> set (reservations (inventory_store ordered_world)).
          rv_order_id v = o_id r \<and> rv_status v = ReservationStatusCommitted)"
proof -
  obtain r where r: "r \<in> set (orders (order_store ordered_world))" "o_status r = OrderStatusPending"
    by (simp add: ordered_world_orders)
  with saga_consistent [OF sample_saga r(1)] show ?thesis
    by (intro bexI [OF _ r(1)]) (auto simp: OrderStatus_defs ReservationStatus_defs)
qed

end
