(* ===== verification/Calm_Calls.thy ===== *)
theory Calm_Calls
  imports Order_Truth Inventory_Truth Payment_Truth
begin

text \<open>
  The calls of the services when nothing fails: each returns nil, and what it leaves is determined
  up to the values drawn from the environment.
\<close>

section \<open>A healthy environment\<close>

text \<open>A flat document of numbers and ASCII texts.\<close>

definition plain_members :: "(string \<times> json) list \<Rightarrow> bool" where
  "plain_members ms \<longleftrightarrow>
     (\<forall>(k, v) \<in> set ms. case v of JStr x \<Rightarrow> ascii_text x | JInt i \<Rightarrow> True | JDec r \<Rightarrow> True | _ \<Rightarrow> False)"

text \<open>
  From call \<open>t\<close> on nothing fails, the clock is before the year 10000, and PostgreSQL accepts
  ASCII texts and plain documents.
\<close>

definition healthy :: "sys \<Rightarrow> nat \<Rightarrow> bool" where
  "healthy sys t \<longleftrightarrow>
     calm sys t \<and> broker_up sys t \<and> uuids_ok sys \<and> scans_ok sys \<and> codecs_ok sys \<and> jsonb_ok sys \<and> varchar_ok sys \<and>
     (\<forall>x. ascii_text x \<longrightarrow> text_in sys x) \<and> (\<forall>n. writable_time (time_Now sys n)) \<and>
     (\<forall>n. ascii_text (time_text sys (time_Now sys n))) \<and>
     (\<forall>ms. distinct (map fst ms) \<and> plain_members ms \<longrightarrow> jsonb_in sys (JObj ms) \<noteq> None)"

text \<open>
  The UUIDs drawn in the calls from \<open>t\<close> to \<open>b\<close> are new: different from each other and from
  those in use.
\<close>

definition fresh_ids :: "sys \<Rightarrow> nat \<Rightarrow> nat \<Rightarrow> string set \<Rightarrow> bool" where
  "fresh_ids sys t b used \<longleftrightarrow> inj_on (uuid_New sys) {t..<b} \<and>
     (\<forall>n \<in> {t..<b}. uuid_New sys n \<notin> used \<and> ascii_text (uuid_New sys n) \<and> length (uuid_New sys n) \<le> 255)"

lemma healthy_facts:
  assumes "healthy sys t"
  shows "calm sys t" "broker_up sys t" "uuids_ok sys" "scans_ok sys" "codecs_ok sys" "jsonb_ok sys" "varchar_ok sys"
    "writable_time (time_Now sys n)" "ascii_text (time_text sys (time_Now sys n))" "ascii_text x \<Longrightarrow> text_in sys x"
  using assms unfolding healthy_def by blast+

lemma healthy_mono: "healthy sys t \<Longrightarrow> t \<le> t' \<Longrightarrow> healthy sys t'"
  unfolding healthy_def by (meson calm_mono broker_up_mono)

lemma uuid_in_New [simp]: "uuids_ok sys \<Longrightarrow> uuid_in sys (uuid_New sys n) = Some (uuid_New sys n)"
  by (simp add: uuids_ok_def)

lemma fresh_ids_later:
  assumes fresh: "fresh_ids sys t b used" and "t \<le> t'" and used: "used' \<subseteq> used \<union> uuid_New sys ` {t..<t'}"
  shows "fresh_ids sys t' b used'"
proof -
  have inj: "inj_on (uuid_New sys) {t..<b}" using fresh by (simp add: fresh_ids_def)
  have "uuid_New sys n \<notin> used'" if n: "n \<in> {t'..<b}" for n
  proof
    assume "uuid_New sys n \<in> used'"
    with used consider "uuid_New sys n \<in> used" | m where "m \<in> {t..<t'}" "uuid_New sys n = uuid_New sys m" by blast
    then show False
    proof cases
      case 1
      with n fresh assms(2) show False by (simp add: fresh_ids_def)
    next
      case 2
      have "n \<in> {t..<b}" "m \<in> {t..<b}" using n 2(1) assms(2) by auto
      with inj 2(2) have "n = m" by (rule inj_onD)
      with n 2(1) show False by simp
    qed
  qed
  moreover have "inj_on (uuid_New sys) {t'..<b}"
    by (rule inj_on_subset [OF inj]) (use assms(2) in auto)
  ultimately show ?thesis using fresh assms(2) by (simp add: fresh_ids_def)
qed

lemma fresh_id:
  assumes "fresh_ids sys t b used" and "t \<le> n" and "n < b"
  shows "uuid_New sys n \<notin> used" "ascii_text (uuid_New sys n)" "length (uuid_New sys n) \<le> 255"
  using assms by (simp_all add: fresh_ids_def)

lemma fresh_ids_differ:
  assumes "fresh_ids sys t b used" and "t \<le> m" and "m < b" and "t \<le> n" and "n < b"
  shows "uuid_New sys m = uuid_New sys n \<longleftrightarrow> m = n"
proof -
  have "inj_on (uuid_New sys) {t..<b}" using assms(1) by (simp add: fresh_ids_def)
  then show ?thesis using assms(2-) by (intro inj_on_eq_iff) auto
qed

lemma varchar_text: "varchar_ok sys \<Longrightarrow> ascii_text x \<Longrightarrow> length x \<le> n \<Longrightarrow> text_ok sys n x"
  by (simp add: varchar_ok_def)

text \<open>An event whose texts are ASCII.\<close>

definition plain_event :: "sys \<Rightarrow> event \<Rightarrow> bool" where
  "plain_event sys ev \<longleftrightarrow> plain_members (event_members sys ev)"

lemma plain_event_accepted:
  assumes "healthy sys t" and "plain_event sys ev"
  shows "\<exists>j. jsonb_in sys (JObj (event_members sys ev)) = Some j"
proof -
  have "jsonb_in sys (JObj ms) \<noteq> None" if "distinct (map fst ms)" "plain_members ms" for ms
    using assms(1) that unfolding healthy_def by blast
  from this [OF event_members_distinct] assms(2) show ?thesis unfolding plain_event_def by blast
qed

lemma plain_float: "case marshal_float sys x of JStr t \<Rightarrow> ascii_text t | JInt i \<Rightarrow> True | JDec r \<Rightarrow> True | _ \<Rightarrow> False"
  by (simp add: marshal_float_def split: sum.split)


section \<open>Publishing\<close>

text \<open>The row that a publication adds when nothing fails.\<close>

definition new_message :: "sys \<Rightarrow> nat \<Rightarrow> string \<Rightarrow> string \<Rightarrow> string \<Rightarrow> event \<Rightarrow> int \<Rightarrow> Message" where
  "new_message sys t agg ai ety ev now =
     \<lparr>msg_ID = uuid_New sys t, msg_AggregateType = agg, msg_AggregateID = ai, msg_EventType = ety,
      msg_Payload = the (jsonb_in sys (JObj (event_members sys ev))), msg_Status = StatusPending,
      msg_RetryCount = 0, msg_CreatedAt = now, msg_ProcessedAt = None\<rparr>"

lemma new_message_fields [simp]:
  "msg_ID (new_message sys t agg ai ety ev now) = uuid_New sys t"
  "deliverable (new_message sys t agg ai ety ev now)"
  by (simp_all add: new_message_def deliverable_def MaxRetryCount_def)

definition publishes :: "sys \<Rightarrow> nat \<Rightarrow> string \<Rightarrow> event \<Rightarrow> 'z core_db_scheme \<Rightarrow> bool" where
  "publishes sys t ai ev db \<longleftrightarrow> healthy sys t \<and> ascii_text ai \<and> length ai \<le> 255 \<and> plain_event sys ev \<and>
     uuid_New sys t \<notin> msg_ID ` set (outbox db)"

lemma ascii_kinds:
  "ascii_text (event_kind ev)" "length (event_kind ev) \<le> 255" "ascii_text ''Order''" "ascii_text ''Inventory''"
  "ascii_text ''Payment''"
  by (cases ev; simp add: EventType_defs ascii_text_def)+

lemma wpc_publish_calm:
  assumes "publishes sys (tick s) ai ev (view s)" and "\<not> failed s" and "agg \<in> {''Order'', ''Inventory'', ''Payment''}"
    and "ety = event_kind ev"
  shows "wpc (PublishInTx sys agg ai ety ev) Q E s =
    Q () (s\<lparr>view := add_message (new_message sys (tick s) agg ai ety ev (started s)) (view s), tick := Suc (Suc (tick s))\<rparr>)"
proof -
  have h: "healthy sys (tick s)" "plain_event sys ev" using assms(1) by (simp_all add: publishes_def)
  from plain_event_accepted [OF h] obtain j where "jsonb_in sys (JObj (event_members sys ev)) = Some j" by blast
  moreover have "text_ok sys 255 agg" "text_ok sys 255 ai" "text_ok sys 255 ety"
    using assms ascii_kinds by (auto simp: publishes_def intro!: varchar_text [OF healthy_facts(7) [OF h(1)]])
  moreover note healthy_facts(1,3) [OF h(1)]
  ultimately show ?thesis
    using assms(1,2) by (simp add: wpc_PublishInTx wpc_stmt insert_outbox_def new_message_def publishes_def)
qed

lemma new_message_tells:
  assumes "healthy sys t" and "plain_event sys ev" and "ety = event_kind ev"
  shows "tells sys (subject_of (new_message sys n agg ai ety ev now)) ev"
  using plain_event_accepted [OF assms(1,2)] assms(3) by (auto simp: tells_def subject_of_def new_message_def)


section \<open>The order service\<close>

lemmas plain_simps = plain_event_def plain_members_def event_members.simps marshal_base_def plain_float

text \<open>A request that the order service accepts.\<close>

definition input_ok :: "sys \<Rightarrow> CreateOrderInput \<Rightarrow> bool" where
  "input_ok sys input \<longleftrightarrow>
     (\<forall>x \<in> {in_CustomerID input, in_ProductID input}. x \<noteq> '''' \<and> ascii_text x \<and> length x \<le> 255) \<and>
     0 < sint (in_Quantity input) \<and> int4_ok (sint (in_Quantity input)) \<and>
     0 < in_TotalAmount input \<and> is_f64 (in_TotalAmount input) \<and> numeric_in sys (in_TotalAmount input) \<noteq> None"

text \<open>The order and its event, as a call that starts at \<open>t\<close> makes them.\<close>

definition placed_row :: "sys \<Rightarrow> nat \<Rightarrow> CreateOrderInput \<Rightarrow> order_row" where
  "placed_row sys t input =
     \<lparr>o_id = uuid_New sys (Suc t), o_customer_id = in_CustomerID input, o_product_id = in_ProductID input,
      o_quantity = sint (in_Quantity input), o_total_amount = the (numeric_in sys (in_TotalAmount input)),
      o_status = OrderStatusPending, o_created_at = timestamptz sys (time_Now sys t),
      o_updated_at = timestamptz sys (time_Now sys t)\<rparr>"

definition placed_event :: "sys \<Rightarrow> nat \<Rightarrow> CreateOrderInput \<Rightarrow> OrderCreatedEvent" where
  "placed_event sys t input =
     \<lparr>EventID = uuid_New sys (t + 4), EventType = EventTypeOrderCreated, Timestamp = time_Now sys (t + 5),
      oc_OrderID = uuid_New sys (Suc t), oc_CustomerID = in_CustomerID input, oc_ProductID = in_ProductID input,
      oc_Quantity = in_Quantity input, oc_TotalAmount = in_TotalAmount input\<rparr>"

lemma CreateOrder_calm:
  assumes h: "healthy sys (tick s)"
    and ids: "fresh_ids sys (tick s) b (o_id ` set (orders (durable s)) \<union> msg_ID ` set (outbox (durable s)))"
    and room: "tick s + 9 \<le> b" and ok: "input_ok sys input"
  shows "wpc (CreateOrder sys input)
    (\<lambda>out s'. out = \<lparr>out_OrderID = uuid_New sys (Suc (tick s)), out_Status = OrderStatusPending\<rparr> \<and> tick s' = tick s + 9 \<and>
       durable s' = add_message (new_message sys (tick s + 6) ''Order'' (uuid_New sys (Suc (tick s))) EventTypeOrderCreated
           (EvOrderCreated (placed_event sys (tick s) input)) (server_time sys (tick s + 2)))
         ((durable s)\<lparr>orders := orders (durable s) @ [placed_row sys (tick s) input]\<rparr>))
    (\<lambda>_ _. False) s"
proof -
  let ?t = "tick s"
  have id: "uuid_New sys (Suc ?t) \<notin> o_id ` set (orders (durable s))"
    "uuid_New sys (Suc (Suc (Suc (Suc (Suc (Suc ?t)))))) \<notin> msg_ID ` set (outbox (durable s))"
    "ascii_text (uuid_New sys (Suc ?t))" "length (uuid_New sys (Suc ?t)) \<le> 255"
    "ascii_text (uuid_New sys (Suc (Suc (Suc (Suc ?t)))))"
    using fresh_id [OF ids, of "Suc ?t"] fresh_id [OF ids, of "Suc (Suc (Suc (Suc ?t)))"]
      fresh_id [OF ids, of "Suc (Suc (Suc (Suc (Suc (Suc ?t)))))"] room by simp_all
  have h': "healthy sys n" if "?t \<le> n" for n using healthy_mono [OF h that] .
  note times = healthy_facts(9) [OF h]
  have c: "calm sys (Suc ?t)" "uuids_ok sys" "text_ok sys 255 (in_CustomerID input)" "text_ok sys 255 (in_ProductID input)"
    "text_ok sys 50 OrderStatusPending"
    using healthy_facts(1,3,7) [OF h] ok
    by (simp_all add: input_ok_def varchar_text) (simp add: ascii_text_def OrderStatus_defs varchar_text)
  have ev: "plain_event sys (EvOrderCreated
      \<lparr>EventID = uuid_New sys (Suc (Suc (Suc (Suc ?t)))), EventType = EventTypeOrderCreated, Timestamp = time_Now sys n,
       oc_OrderID = uuid_New sys (Suc ?t), oc_CustomerID = in_CustomerID input, oc_ProductID = in_ProductID input,
       oc_Quantity = in_Quantity input, oc_TotalAmount = in_TotalAmount input\<rparr>)" for n
    using id ok times ascii_kinds(1) [of "EvOrderCreated undefined"] by (simp add: plain_simps input_ok_def)
  show ?thesis
    using ok id c
    by (simp add: CreateOrder_def wp NewOrder_def sle_iff input_ok_def insert_order_def NewEvent_defs
      wpc_publish_calm publishes_def ev h' placed_row_def placed_event_def numeral_eq_Suc del: wpc_PublishInTx split: option.split)
qed

text \<open>A transaction, the idempotency check of a new event, and the order that is looked up.\<close>

lemma wpc_tx_calm:
  "calm sys (tick s) \<Longrightarrow> wpc (with_tx sys body) Q E s =
     wpc body (\<lambda>a s'. Q a (tx_Rollback s')) (\<lambda>e s'. E e (tx_Rollback s'))
       (s\<lparr>view := durable s, started := server_time sys (tick s), failed := False, tick := Suc (tick s)\<rparr>)"
  by (simp add: wpc_with_tx)

text \<open>An event that a service can take: its ID is new to the service and its type is known.\<close>

definition unseen :: "sys \<Rightarrow> string \<Rightarrow> string \<Rightarrow> 'z core_db_scheme \<Rightarrow> bool" where
  "unseen sys eid v db \<longleftrightarrow> uuid_in sys eid = Some v \<and> processed_events db v = None"

lemma wpc_gate_calm:
  assumes "healthy sys t" and "t \<le> tick s" and "\<not> failed s" and "unseen sys eid v (view s)"
  shows "wpc (idempotency_gate (CheckAndMark sys eid (event_kind ev)) body) Q E s =
    wpc body Q E (s\<lparr>view := mark_processed v (event_kind ev) (started s) (view s), tick := Suc (tick s)\<rparr>)"
proof -
  have "text_ok sys 255 (event_kind ev)"
    using ascii_kinds(1,2) varchar_text [OF healthy_facts(7) [OF assms(1)]] by blast
  moreover have "calm sys (tick s)" using calm_mono [OF healthy_facts(1) [OF assms(1)] assms(2)] .
  ultimately show ?thesis
    using assms(3,4) by (simp add: idempotency_gate_def wp insert_processed_event_def unseen_def domIff)
qed

lemma update_order_calm:
  assumes "order_keys_ok sys db" and "r \<in> set (orders db)" and "orders db1 = orders db"
    and "text_ok sys 50 st"
  shows "update_order sys (order_of_row sys r\<lparr>order_Status := st, order_UpdatedAt := t\<rparr>) now db1 =
    Done 1 (set_order_status (o_id r) st now db1)"
proof -
  have "filter (\<lambda>x. o_id x = o_id r) (orders db) = [r]"
    using assms by (simp add: order_keys_ok_def filter_distinct_key)
  with assms show ?thesis
    by (auto simp: update_order_def order_keys_ok_def canonical_ids_def order_of_row_def)
qed

lemma status_texts:
  assumes "varchar_ok sys"
  shows "text_ok sys 50 OrderStatusConfirmed" "text_ok sys 50 OrderStatusCompleted" "text_ok sys 50 OrderStatusCancelled"
  using assms by (simp_all add: varchar_ok_def ascii_text_def OrderStatus_defs)

lemma order_StockReserved_calm:
  assumes h: "healthy sys (tick s)" and new: "unseen sys eid v (durable s)" and keys: "order_keys_ok sys (durable s)"
    and r: "r \<in> set (orders (durable s))" "uuid_in sys oid = Some (o_id r)" "o_status r = OrderStatusPending"
  shows "wpc (order_HandleStockReserved sys eid oid)
    (\<lambda>_ s'. tick s' = tick s + 6 \<and> durable s' = set_order_status (o_id r) OrderStatusConfirmed (server_time sys (tick s))
       (mark_processed v EventTypeStockReserved (server_time sys (tick s)) (durable s)))
    (\<lambda>_ _. False) s"
proof -
  note texts = status_texts [OF healthy_facts(7) [OF h]]
  note gate = wpc_gate_calm [where ev = "EvStockReserved undefined" and v = v, OF h, simplified]
  note upd = update_order_calm [OF keys r(1) _ texts(1)]
  note sel = select_known_order [OF keys r(1,2)]
  show ?thesis
    using new r(3) healthy_facts(1) [OF h]
    by (simp add: order_HandleStockReserved_def wpc_tx_calm gate wp sel upd order_Confirm_def)
qed

lemma order_StockReserveFailed_calm:
  assumes h: "healthy sys (tick s)" and new: "unseen sys eid v (durable s)" and keys: "order_keys_ok sys (durable s)"
    and r: "r \<in> set (orders (durable s))" "uuid_in sys oid = Some (o_id r)" "o_status r \<noteq> OrderStatusCompleted"
  shows "wpc (order_HandleStockReserveFailed sys eid oid reason)
    (\<lambda>_ s'. tick s' = tick s + 6 \<and> durable s' = set_order_status (o_id r) OrderStatusCancelled (server_time sys (tick s))
       (mark_processed v EventTypeStockReserveFailed (server_time sys (tick s)) (durable s)))
    (\<lambda>_ _. False) s"
proof -
  note texts = status_texts [OF healthy_facts(7) [OF h]]
  note gate = wpc_gate_calm [where ev = "EvStockReserveFailed undefined" and v = v, OF h, simplified]
  note upd = update_order_calm [OF keys r(1) _ texts(3)]
  note sel = select_known_order [OF keys r(1,2)]
  show ?thesis
    using new r(3) healthy_facts(1) [OF h]
    by (simp add: order_HandleStockReserveFailed_def wpc_tx_calm gate wp sel upd order_Cancel_def)
qed

text \<open>The events that end an order, as a call that starts at \<open>t\<close> makes them.\<close>

definition completed_event :: "sys \<Rightarrow> nat \<Rightarrow> string \<Rightarrow> OrderCompletedEvent" where
  "completed_event sys t oid =
     \<lparr>EventID = uuid_New sys (t + 5), EventType = EventTypeOrderCompleted, Timestamp = time_Now sys (t + 6),
      od_OrderID = oid\<rparr>"

definition cancelled_event :: "sys \<Rightarrow> nat \<Rightarrow> string \<Rightarrow> string \<Rightarrow> OrderCancelledEvent" where
  "cancelled_event sys t oid reason =
     \<lparr>EventID = uuid_New sys (t + 5), EventType = EventTypeOrderCancelled, Timestamp = time_Now sys (t + 6),
      ox_OrderID = oid, ox_Reason = reason\<rparr>"

lemma ending_events_plain:
  assumes "healthy sys t" and "fresh_ids sys t b used" and "t + 10 \<le> b" and "ascii_text oid" and "ascii_text reason"
  shows "plain_event sys (EvOrderCompleted (completed_event sys t oid))"
    "plain_event sys (EvOrderCancelled (cancelled_event sys t oid reason))"
  using assms(3-5) healthy_facts(9) [OF assms(1)] fresh_id [OF assms(2), of "t + 5"]
    ascii_kinds(1) [of "EvOrderCompleted undefined"] ascii_kinds(1) [of "EvOrderCancelled undefined"]
  by (simp_all add: plain_simps completed_event_def cancelled_event_def)

lemma order_PaymentCompleted_calm:
  assumes h: "healthy sys (tick s)" and new: "unseen sys eid v (durable s)" and keys: "order_keys_ok sys (durable s)"
    and r: "r \<in> set (orders (durable s))" "uuid_in sys oid = Some (o_id r)" "o_status r = OrderStatusConfirmed"
    and ids: "fresh_ids sys (tick s) b (msg_ID ` set (outbox (durable s)))" and room: "tick s + 10 \<le> b"
    and oid: "ascii_text oid" "length oid \<le> 255"
  shows "wpc (order_HandlePaymentCompleted sys eid oid)
    (\<lambda>_ s'. tick s' = tick s + 10 \<and>
       durable s' = add_message (new_message sys (tick s + 7) ''Order'' oid EventTypeOrderCompleted
           (EvOrderCompleted (completed_event sys (tick s) oid)) (server_time sys (tick s)))
         (set_order_status (o_id r) OrderStatusCompleted (server_time sys (tick s))
           (mark_processed v EventTypePaymentCompleted (server_time sys (tick s)) (durable s))))
    (\<lambda>_ _. False) s"
proof -
  note texts = status_texts [OF healthy_facts(7) [OF h]]
  note gate = wpc_gate_calm [where ev = "EvPaymentCompleted undefined" and v = v, OF h, simplified]
  note upd = update_order_calm [OF keys r(1) _ texts(2)]
  note sel = select_known_order [OF keys r(1,2)]
  note ev = ending_events_plain(1) [OF h ids room oid(1) oid(1), unfolded completed_event_def]
  have h': "healthy sys n" if "tick s \<le> n" for n using healthy_mono [OF h that] .
  have "uuid_New sys (tick s + 7) \<notin> msg_ID ` set (outbox (durable s))" using fresh_id [OF ids] room by simp
  then show ?thesis
    using new r(3) healthy_facts(1) [OF h] oid ev
    by (simp add: order_HandlePaymentCompleted_def wpc_tx_calm gate wp sel upd order_Complete_def NewEvent_defs
        wpc_publish_calm publishes_def h' completed_event_def numeral_eq_Suc del: wpc_PublishInTx)
qed

lemma order_PaymentFailed_calm:
  assumes h: "healthy sys (tick s)" and new: "unseen sys eid v (durable s)" and keys: "order_keys_ok sys (durable s)"
    and r: "r \<in> set (orders (durable s))" "uuid_in sys oid = Some (o_id r)" "o_status r \<noteq> OrderStatusCompleted"
    and ids: "fresh_ids sys (tick s) b (msg_ID ` set (outbox (durable s)))" and room: "tick s + 10 \<le> b"
    and oid: "ascii_text oid" "length oid \<le> 255" and reason: "ascii_text reason"
  shows "wpc (order_HandlePaymentFailed sys eid oid reason)
    (\<lambda>_ s'. tick s' = tick s + 10 \<and>
       durable s' = add_message (new_message sys (tick s + 7) ''Order'' oid EventTypeOrderCancelled
           (EvOrderCancelled (cancelled_event sys (tick s) oid reason)) (server_time sys (tick s)))
         (set_order_status (o_id r) OrderStatusCancelled (server_time sys (tick s))
           (mark_processed v EventTypePaymentFailed (server_time sys (tick s)) (durable s))))
    (\<lambda>_ _. False) s"
proof -
  note texts = status_texts [OF healthy_facts(7) [OF h]]
  note gate = wpc_gate_calm [where ev = "EvPaymentFailed undefined" and v = v, OF h, simplified]
  note upd = update_order_calm [OF keys r(1) _ texts(3)]
  note sel = select_known_order [OF keys r(1,2)]
  note ev = ending_events_plain(2) [OF h ids room oid(1) reason, unfolded cancelled_event_def]
  have h': "healthy sys n" if "tick s \<le> n" for n using healthy_mono [OF h that] .
  have "uuid_New sys (tick s + 7) \<notin> msg_ID ` set (outbox (durable s))" using fresh_id [OF ids] room by simp
  then show ?thesis
    using new r(3) healthy_facts(1) [OF h] oid ev
    by (simp add: order_HandlePaymentFailed_def wpc_tx_calm gate wp sel upd order_Cancel_def NewEvent_defs
        wpc_publish_calm publishes_def h' cancelled_event_def numeral_eq_Suc del: wpc_PublishInTx)
qed


section \<open>The relay\<close>

text \<open>The outbox after the relay has sent the message \<open>m\<close>.\<close>

definition sent :: "Message \<Rightarrow> int \<Rightarrow> 'z core_db_scheme \<Rightarrow> 'z core_db_scheme" where
  "sent m now db = db\<lparr>outbox := upd_where (\<lambda>x. msg_ID x = msg_ID m) (mark_sent now) (outbox db)\<rparr>"

lemma sent_fields [simp]:
  "processed_events (sent m now db) = processed_events db"
  "core_db.more (sent m now db) = core_db.more db"
  "msg_ID ` set (outbox (sent m now db)) = msg_ID ` set (outbox db)"
  by (simp_all add: sent_def flip: set_map)

lemma relay_one_calm:
  fixes s :: "'z core_db_scheme pg"
  assumes h: "healthy sys (tick s)" and wf: "outbox_wf sys (durable s)" and one: "backlog (durable s) = [m]"
  shows "wpc (processPendingMessages sys (nats_Publish sys))
    (\<lambda>_ s'. tick s' = tick s + 6 \<and> published s' = published s @ [subject_of m] \<and>
       durable s' = sent m (timestamptz sys (time_Now sys (tick s + 3))) (durable s))
    (\<lambda>_ _. False) s"
proof -
  have "m \<in> set (backlog (durable s))" using one by simp
  then have "uuid_in sys (msg_ID m) = Some (msg_ID m)"
    using wf by (simp add: backlog_def outbox_wf_def canonical_ids_def)
  moreover have "select_pending sys n (durable s) = [m]" if "tick s \<le> n" for n
    using select_pending_all [OF healthy_facts(4) [OF h] broker_up_mono [OF healthy_facts(2) [OF h] that], where db = "durable s"] one
      healthy_facts(4) [OF h] by simp
  ultimately show ?thesis
    using healthy_facts(1,2) [OF h]
    by (simp add: processPendingMessages_def wp relay_message_def publishMessage_def update_outbox_def subject_of_def
        sent_def numeral_eq_Suc)
qed

lemma relay_none_calm:
  fixes s :: "'z core_db_scheme pg"
  assumes h: "healthy sys (tick s)" and none: "backlog (durable s) = []"
  shows "wpc (processPendingMessages sys (nats_Publish sys))
    (\<lambda>_ s'. tick s' = tick s + 3 \<and> published s' = published s \<and> durable s' = durable s) (\<lambda>_ _. False) s"
proof -
  have "select_pending sys n (durable s) = []" if "tick s \<le> n" for n
    using select_pending_all [OF healthy_facts(4) [OF h] broker_up_mono [OF healthy_facts(2) [OF h] that], where db = "durable s"] none
      healthy_facts(4) [OF h] by simp
  then show ?thesis
    using healthy_facts(1,2) [OF h] by (simp add: processPendingMessages_def wp numeral_eq_Suc)
qed

text \<open>The backlog: a publication adds to it and the relay takes from it.\<close>

lemma backlog_calls [simp]:
  "backlog (mark_processed v ety now db) = backlog db"
  "backlog (add_message (new_message sys t agg ai ety ev now) db) = backlog db @ [new_message sys t agg ai ety ev now]"
  by (simp_all add: backlog_def mark_processed_def)

lemma backlog_sent:
  assumes "backlog db = [m]"
  shows "backlog (sent m now db) = []"
proof -
  have sent: "\<not> deliverable (mark_sent now x)" for x
    by (simp add: deliverable_def mark_sent_def StatusSent_def StatusPending_def)
  have "\<not> deliverable x" if "x \<in> set (outbox db)" "msg_ID x \<noteq> msg_ID m" for x
  proof
    assume "deliverable x"
    with that have "x \<in> set (backlog db)" by (simp add: backlog_def)
    with assms that(2) show False by simp
  qed
  with sent show ?thesis by (auto simp: backlog_def sent_def filter_empty_conv upd_where_def)
qed


section \<open>The inventory service\<close>

text \<open>The reservation and the events of a call that starts at \<open>t\<close>.\<close>

definition reserved_row :: "sys \<Rightarrow> nat \<Rightarrow> string \<Rightarrow> string \<Rightarrow> go_int \<Rightarrow> res_row" where
  "reserved_row sys t ord p q =
     \<lparr>rv_id = uuid_New sys (t + 6), rv_order_id = ord, rv_product_id = p, rv_quantity = sint q,
      rv_status = ReservationStatusReserved, rv_created_at = timestamptz sys (time_Now sys (t + 5)),
      rv_updated_at = timestamptz sys (time_Now sys (t + 5))\<rparr>"

definition reserved_event :: "sys \<Rightarrow> nat \<Rightarrow> string \<Rightarrow> string \<Rightarrow> string \<Rightarrow> go_int \<Rightarrow> float64 \<Rightarrow> StockReservedEvent" where
  "reserved_event sys t oid p cid q amount =
     \<lparr>EventID = uuid_New sys (t + 8), EventType = EventTypeStockReserved, Timestamp = time_Now sys (t + 9),
      sr_OrderID = oid, sr_ProductID = p, sr_Quantity = q, sr_ReservationID = uuid_New sys (t + 6),
      sr_CustomerID = cid, sr_TotalAmount = amount\<rparr>"

definition refused_event :: "sys \<Rightarrow> nat \<Rightarrow> string \<Rightarrow> string \<Rightarrow> go_int \<Rightarrow> string \<Rightarrow> StockReserveFailedEvent" where
  "refused_event sys t oid p q reason =
     \<lparr>EventID = uuid_New sys t, EventType = EventTypeStockReserveFailed, Timestamp = time_Now sys (Suc t),
      sf_OrderID = oid, sf_ProductID = p, sf_Quantity = q, sf_Reason = reason\<rparr>"

text \<open>The texts of an order.\<close>

definition order_texts :: "string \<Rightarrow> string \<Rightarrow> string \<Rightarrow> bool" where
  "order_texts oid p cid \<longleftrightarrow> (\<forall>x \<in> {oid, p, cid}. ascii_text x \<and> length x \<le> 255)"

definition available :: "inventory_db \<Rightarrow> string \<Rightarrow> int \<Rightarrow> bool" where
  "available db p q \<longleftrightarrow> (\<exists>i \<in> set (inventory db). i_product_id i = p \<and> q \<le> i_quantity i - i_reserved_quantity i)"

lemma update_inventory_calm:
  assumes ok: "stock_ok sys db" and i: "i \<in> set (inventory db)" and id: "inv_ID stock = i_id i"
    and db1: "inventory db1 = inventory db"
    and range: "0 \<le> sint (inv_Quantity stock)" "sint (inv_Quantity stock) < 2 ^ 31"
      "0 \<le> sint (inv_ReservedQuantity stock)" "sint (inv_ReservedQuantity stock) < 2 ^ 31"
  shows "update_inventory sys stock now db1 =
    Done 1 (set_stock (i_id i) (sint (inv_Quantity stock)) (sint (inv_ReservedQuantity stock)) now db1)"
proof -
  have keys: "uuid_in sys (i_id i) = Some (i_id i)" "distinct (map i_id (inventory db))"
    using ok i by (simp_all add: stock_ok_def stock_keys_ok_def canonical_ids_def)
  then have "filter (\<lambda>r. i_id r = i_id i) (inventory db) = [i]" using i by (intro filter_distinct_key)
  with keys range show ?thesis by (simp add: update_inventory_def Let_def id db1 int4_ok_def)
qed

lemma inventory_reserves_calm:
  assumes h: "healthy sys (tick s)" and new: "unseen sys eid v (durable s)" and ok: "stock_ok sys (durable s)"
    and i: "i \<in> set (inventory (durable s))" "i_product_id i = p" "sint q \<le> i_quantity i - i_reserved_quantity i"
    and q: "0 < sint q" "int4_ok (sint q)" and oid: "uuid_in sys oid = Some ord" "order_texts oid p cid"
    and ids: "fresh_ids sys (tick s) b (rv_id ` set (reservations (durable s)) \<union> msg_ID ` set (outbox (durable s)))"
    and room: "tick s + 13 \<le> b"
  shows "wpc (inventory_HandleOrderCreated sys eid oid p cid q amount)
    (\<lambda>_ s'. tick s' = tick s + 13 \<and>
       durable s' = add_message (new_message sys (tick s + 10) ''Inventory'' oid EventTypeStockReserved
           (EvStockReserved (reserved_event sys (tick s) oid p cid q amount)) (server_time sys (tick s)))
         (take_stock i (server_time sys (tick s)) (reserved_row sys (tick s) ord p q)
           (mark_processed v EventTypeOrderCreated (server_time sys (tick s)) (durable s))))
    (\<lambda>_ _. False) s"
proof -
  let ?t = "tick s"
  note gate = wpc_gate_calm [where ev = "EvOrderCreated undefined" and v = v, OF h, simplified]
  note sound = inventory_row_sound [OF ok i(1)]
  have find: "select_inventory sys p now db = Done i db" if "inventory db = inventory (durable s)" for now db
    using that ok i healthy_facts(10) [OF h, of p] oid(2)
    by (simp add: select_inventory_def stock_ok_def stock_keys_ok_def find_distinct_key order_texts_def)
  have upd: "update_inventory sys
        (inventory_of_row i\<lparr>inv_ReservedQuantity := inv_ReservedQuantity (inventory_of_row i) + q, inv_UpdatedAt := t\<rparr>) now db1 =
      Done 1 (set_stock (i_id i) (i_quantity i) (i_reserved_quantity i + sint q) now db1)"
    if "inventory db1 = inventory (durable s)" for t now db1
  proof -
    have "CanReserve q (inventory_of_row i)" using CanReserve_iff [OF sound(1), of q] sound(2,3) i(3) by simp
    then have "sint (inv_ReservedQuantity (inventory_of_row i) + q) = i_reserved_quantity i + sint q"
      using sint_reserve [OF sound(1) q(1)] sound(3) by simp
    with update_inventory_calm [OF ok i(1) _ that, of "inventory_of_row i\<lparr>inv_ReservedQuantity :=
          inv_ReservedQuantity (inventory_of_row i) + q, inv_UpdatedAt := t\<rparr>" now] sound i(3) q(1)
    show ?thesis by simp
  qed
  have can: "inventory_Reserve now q (inventory_of_row i) =
      Inr (inventory_of_row i\<lparr>inv_ReservedQuantity := inv_ReservedQuantity (inventory_of_row i) + q, inv_UpdatedAt := now\<rparr>)"
    for now using q(1) CanReserve_iff [OF sound(1), of q] sound(2,3) i(3) by (simp add: inventory_Reserve_def sle_iff)
  have fresh: "uuid_New sys (?t + 6) \<notin> rv_id ` set (reservations (durable s))" "uuid_New sys (?t + 10) \<notin> msg_ID ` set (outbox (durable s))"
    "ascii_text (uuid_New sys (?t + 6))" "ascii_text (uuid_New sys (?t + 8))"
    using fresh_id [OF ids, of "?t + 6"] fresh_id [OF ids, of "?t + 8"] fresh_id [OF ids, of "?t + 10"] room by simp_all
  have ev: "plain_event sys (EvStockReserved (reserved_event sys ?t oid p cid q amount))"
    using fresh healthy_facts(9) [OF h] oid(2) ascii_kinds(1) [of "EvStockReserved undefined"]
    by (simp add: plain_simps reserved_event_def order_texts_def)
  have texts: "text_ok sys 255 p" "text_ok sys 50 ReservationStatusReserved"
    using oid(2) varchar_text [OF healthy_facts(7) [OF h]]
    by (simp_all add: order_texts_def ReservationStatus_defs ascii_text_def)
  have h': "healthy sys n" if "?t \<le> n" for n using healthy_mono [OF h that] .
  show ?thesis
    using new fresh q ev texts oid healthy_facts(1,3) [OF h]
    by (simp add: inventory_HandleOrderCreated_def handle_created_def reserve_stock_def wpc_tx_calm gate wp find upd can
        NewReservation_def sle_iff NewEvent_defs insert_reservation_def wpc_publish_calm publishes_def h' reserved_event_def
        reserved_row_def take_stock_def Let_def order_texts_def numeral_eq_Suc del: wpc_PublishInTx)
qed

lemma inventory_refuses_calm:
  assumes h: "healthy sys (tick s)" and new: "unseen sys eid v (durable s)" and ok: "stock_ok sys (durable s)"
    and none: "\<not> available (durable s) p (sint q)"
    and q: "0 < sint q" and oid: "order_texts oid p cid"
    and ids: "fresh_ids sys (tick s) b (msg_ID ` set (outbox (durable s)))" and room: "tick s + 13 \<le> b"
  shows "wpc (inventory_HandleOrderCreated sys eid oid p cid q amount)
    (\<lambda>_ s'. \<exists>n reason. tick s < n \<and> n \<le> tick s + 4 \<and> tick s' = n + 5 \<and> reason \<in> {''product not found'', ''insufficient stock''} \<and>
       durable s' = add_message (new_message sys (n + 2) ''Inventory'' oid EventTypeStockReserveFailed
           (EvStockReserveFailed (refused_event sys n oid p q reason)) (server_time sys (tick s)))
         (mark_processed v EventTypeOrderCreated (server_time sys (tick s)) (durable s)))
    (\<lambda>_ _. False) s"
proof -
  let ?t = "tick s"
  note gate = wpc_gate_calm [where ev = "EvOrderCreated undefined" and v = v, OF h, simplified]
  have fresh: "uuid_New sys n \<notin> msg_ID ` set (outbox (durable s))" "ascii_text (uuid_New sys n)" if "?t \<le> n" "n \<le> ?t + 8" for n
    using fresh_id [OF ids that(1)] that(2) room by simp_all
  have h': "healthy sys n" if "?t \<le> n" for n using healthy_mono [OF h that] .
  have ev: "plain_event sys (EvStockReserveFailed (refused_event sys n oid p q reason))"
    if "?t \<le> n" "n \<le> ?t + 8" "ascii_text reason" for n reason
    using fresh(2) [OF that(1,2)] that(3) healthy_facts(9) [OF h] oid ascii_kinds(1) [of "EvStockReserveFailed undefined"]
    by (simp add: plain_simps refused_event_def order_texts_def)
  note publish = wpc_publish_calm publishes_def h' fresh ev [unfolded refused_event_def]
  show ?thesis
  proof (cases "p \<in> i_product_id ` set (inventory (durable s))")
    case False
    then have find: "find (\<lambda>r. i_product_id r = p) (inventory (durable s)) = None" by (simp add: find_product)
    have "ascii_text ''product not found''" by (simp add: ascii_text_def)
    then show ?thesis
      using new find healthy_facts(1,3) [OF h] oid healthy_facts(10) [OF h, of p]
      by (simp add: inventory_HandleOrderCreated_def handle_created_def publish_reserve_failed_def wpc_tx_calm gate wp
          select_inventory_def NewEvent_defs publish order_texts_def numeral_eq_Suc del: wpc_PublishInTx)
         (rule exI [of _ "''product not found''"], simp add: refused_event_def)
  next
    case True
    then obtain i where i: "i \<in> set (inventory (durable s))" "i_product_id i = p" by auto
    have find: "find (\<lambda>r. i_product_id r = p) (inventory (durable s)) = Some i"
      using ok i by (simp add: stock_ok_def stock_keys_ok_def find_distinct_key)
    note sound = inventory_row_sound [OF ok i(1)]
    have "\<not> CanReserve q (inventory_of_row i)"
      using none i CanReserve_iff [OF sound(1), of q] sound(2,3) by (auto simp: available_def)
    then have "inventory_Reserve now q (inventory_of_row i) = Inl ErrInsufficientStock" for now
      using q by (simp add: inventory_Reserve_def sle_iff)
    moreover have "ascii_text ''insufficient stock''" by (simp add: ascii_text_def)
    ultimately show ?thesis
      using new find healthy_facts(1,3) [OF h] oid healthy_facts(10) [OF h, of p]
      by (simp add: inventory_HandleOrderCreated_def handle_created_def publish_reserve_failed_def wpc_tx_calm gate wp
          select_inventory_def NewEvent_defs publish order_texts_def numeral_eq_Suc inventory_Err_defs del: wpc_PublishInTx)
         (rule exI [of _ "''insufficient stock''"], simp add: refused_event_def)
  qed
qed

lemma inventory_settles_calm:
  assumes h: "healthy sys (tick s)" and new: "unseen sys eid v (durable s)" and ok: "stock_ok sys (durable s)"
    and oid: "uuid_in sys oid = Some ord"
  shows "wpc (inventory_HandleOrderCancelled sys eid oid)
      (\<lambda>_ s'. durable s' = settled ReservationStatusReleased 0 (\<lambda>r. rv_order_id r = ord) (server_time sys (tick s))
         (mark_processed v EventTypeOrderCancelled (server_time sys (tick s)) (durable s))) (\<lambda>_ _. False) s"
    "wpc (inventory_HandleOrderCompleted sys eid oid)
      (\<lambda>_ s'. durable s' = settled ReservationStatusCommitted 1 (\<lambda>r. rv_order_id r = ord) (server_time sys (tick s))
         (mark_processed v EventTypeOrderCompleted (server_time sys (tick s)) (durable s))) (\<lambda>_ _. False) s"
proof -
  note gate_x = wpc_gate_calm [where ev = "EvOrderCancelled undefined" and v = v, OF h, simplified]
  note gate_d = wpc_gate_calm [where ev = "EvOrderCompleted undefined" and v = v, OF h, simplified]
  have fresh: "processed_events (durable s) v = None" using new by (simp add: unseen_def)
  note ready = healthy_facts(1,7) [OF h]
  show "wpc (inventory_HandleOrderCancelled sys eid oid)
      (\<lambda>_ s'. durable s' = settled ReservationStatusReleased 0 (\<lambda>r. rv_order_id r = ord) (server_time sys (tick s))
         (mark_processed v EventTypeOrderCancelled (server_time sys (tick s)) (durable s))) (\<lambda>_ _. False) s"
    using new ready unfolding inventory_HandleOrderCancelled_def
    by (simp add: wpc_tx_calm gate_x)
       (rule wpc_mono [OF releaser.settle_order [OF ok fresh oid healthy_facts(4) [OF h]]], auto simp: smooth_def)
  show "wpc (inventory_HandleOrderCompleted sys eid oid)
      (\<lambda>_ s'. durable s' = settled ReservationStatusCommitted 1 (\<lambda>r. rv_order_id r = ord) (server_time sys (tick s))
         (mark_processed v EventTypeOrderCompleted (server_time sys (tick s)) (durable s))) (\<lambda>_ _. False) s"
    using new ready unfolding inventory_HandleOrderCompleted_def
    by (simp add: wpc_tx_calm gate_d)
       (rule wpc_mono [OF committer.settle_order [OF ok fresh oid healthy_facts(4) [OF h]]], auto simp: smooth_def)
qed


section \<open>The payment service\<close>

text \<open>The payment and the event of a call that starts at \<open>t\<close> and charges at \<open>n\<close>.\<close>

definition charged_row :: "sys \<Rightarrow> nat \<Rightarrow> nat \<Rightarrow> bool \<Rightarrow> string \<Rightarrow> string \<Rightarrow> float64 \<Rightarrow> pay_row" where
  "charged_row sys t n declined ord cid amount =
     \<lparr>p_id = uuid_New sys (t + 3), p_order_id = ord, p_customer_id = cid, p_amount = the (numeric_in sys amount),
      p_status = (if declined then PaymentStatusFailed else PaymentStatusCompleted),
      p_failure_reason = Some (if declined then decline_reason else ''''),
      p_created_at = timestamptz sys (time_Now sys (t + 2)), p_updated_at = timestamptz sys (time_Now sys n)\<rparr>"

definition paid_event :: "sys \<Rightarrow> nat \<Rightarrow> nat \<Rightarrow> string \<Rightarrow> float64 \<Rightarrow> PaymentCompletedEvent" where
  "paid_event sys t n oid amount =
     \<lparr>EventID = uuid_New sys (n + 2), EventType = EventTypePaymentCompleted, Timestamp = time_Now sys (n + 3),
      pc_OrderID = oid, pc_PaymentID = uuid_New sys (t + 3), pc_Amount = amount\<rparr>"

definition declined_event :: "sys \<Rightarrow> nat \<Rightarrow> string \<Rightarrow> PaymentFailedEvent" where
  "declined_event sys n oid =
     \<lparr>EventID = uuid_New sys (n + 2), EventType = EventTypePaymentFailed, Timestamp = time_Now sys (n + 3),
      pf_OrderID = oid, pf_Reason = decline_reason\<rparr>"

definition charge_event :: "sys \<Rightarrow> nat \<Rightarrow> nat \<Rightarrow> bool \<Rightarrow> string \<Rightarrow> float64 \<Rightarrow> event" where
  "charge_event sys t n declined oid amount =
     (if declined then EvPaymentFailed (declined_event sys n oid) else EvPaymentCompleted (paid_event sys t n oid amount))"

lemma payment_charges_calm:
  assumes h: "healthy sys (tick s)" and new: "unseen sys eid v (durable s)"
    and oid: "uuid_in sys oid = Some ord" "ascii_text oid" "length oid \<le> 255"
    and cid: "ascii_text cid" "length cid \<le> 255" and amount: "0 < amount" "numeric_in sys amount \<noteq> None"
    and ids: "fresh_ids sys (tick s) b (p_id ` set (payments (durable s)) \<union> msg_ID ` set (outbox (durable s)))"
    and room: "tick s + 12 \<le> b"
  shows "wpc (payment_HandleStockReserved sys uc eid oid cid amount)
    (\<lambda>_ s'. \<exists>d n. decision sys uc amount d \<and> n \<in> {tick s + 4, tick s + 5} \<and> tick s' = n + 7 \<and>
       durable s' = add_message (new_message sys (n + 4) ''Payment'' oid (event_kind (charge_event sys (tick s) n d oid amount))
           (charge_event sys (tick s) n d oid amount) (server_time sys (tick s)))
         (add_payment (charged_row sys (tick s) n d ord cid amount)
           (mark_processed v EventTypeStockReserved (server_time sys (tick s)) (durable s))))
    (\<lambda>_ _. False) s"
proof -
  let ?t = "tick s"
  let ?post = "\<lambda>s' :: payment_db pg. \<exists>d n. decision sys uc amount d \<and> n \<in> {?t + 4, ?t + 5} \<and> tick s' = n + 7 \<and>
       durable s' = add_message (new_message sys (n + 4) ''Payment'' oid (event_kind (charge_event sys ?t n d oid amount))
           (charge_event sys ?t n d oid amount) (server_time sys ?t))
         (add_payment (charged_row sys ?t n d ord cid amount)
           (mark_processed v EventTypeStockReserved (server_time sys ?t) (durable s)))"
  let ?pay = "\<lparr>pay_ID = uuid_New sys (?t + 3), pay_OrderID = oid, pay_CustomerID = cid, pay_Amount = amount,
      pay_Status = PaymentStatusPending, pay_FailureReason = '''', pay_CreatedAt = time_Now sys (?t + 2),
      pay_UpdatedAt = time_Now sys (?t + 2)\<rparr>"
  let ?s1 = "\<lambda>n. s\<lparr>started := server_time sys ?t, failed := False,
      view := mark_processed v EventTypeStockReserved (server_time sys ?t) (durable s), tick := n\<rparr>"
  note gate = wpc_gate_calm [where ev = "EvStockReserved undefined" and v = v, OF h, simplified]
  have h': "healthy sys n" if "?t \<le> n" for n using healthy_mono [OF h that] .
  have fresh: "uuid_New sys (?t + 3) \<notin> p_id ` set (payments (durable s))" "ascii_text (uuid_New sys (?t + 3))"
    "\<And>n. ?t \<le> n \<Longrightarrow> n \<le> ?t + 11 \<Longrightarrow> uuid_New sys n \<notin> msg_ID ` set (outbox (durable s)) \<and> ascii_text (uuid_New sys n)"
    using fresh_id [OF ids] room by simp_all
  have ev: "plain_event sys (charge_event sys ?t n d oid amount)" if "n \<in> {?t + 4, ?t + 5}" for n d
    using that fresh(2) fresh(3) [of "n + 2"] healthy_facts(9) [OF h] oid(2) ascii_kinds(1) [of "EvPaymentCompleted undefined"]
      ascii_kinds(1) [of "EvPaymentFailed undefined"]
    by (auto simp: charge_event_def plain_simps paid_event_def declined_event_def decline_reason_def ascii_text_def)
  have texts: "text_ok sys 255 cid" "text_ok sys 50 PaymentStatusFailed" "text_ok sys 50 PaymentStatusCompleted"
    "text_in sys decline_reason" "text_in sys ''''"
    using cid varchar_text [OF healthy_facts(7) [OF h]] healthy_facts(10) [OF h]
    by (simp_all add: PaymentStatus_defs ascii_text_def decline_reason_def)
  note tools = wp NewEvent_defs insert_payment_def wpc_publish_calm publishes_def h' numeral_eq_Suc charge_event_def
    charged_row_def add_payment_def
  have declined: "wpc (charge_failed sys oid ?pay) (\<lambda>_. ?post) (\<lambda>_ _. False) (?s1 n)"
    if n: "n \<in> {?t + 4, ?t + 5}" and d: "decision sys uc amount True" for n
  proof -
    have "uuid_New sys (n + 4) \<notin> msg_ID ` set (outbox (durable s))" using fresh(3) [of "n + 4"] n by auto
    moreover have "calm sys n" "?t \<le> n" using calm_mono [OF healthy_facts(1) [OF h]] n by auto
    ultimately have "wpc (charge_failed sys oid ?pay) (\<lambda>_ s'. tick s' = n + 7 \<and>
       durable s' = add_message (new_message sys (n + 4) ''Payment'' oid (event_kind (charge_event sys ?t n True oid amount))
           (charge_event sys ?t n True oid amount) (server_time sys ?t))
         (add_payment (charged_row sys ?t n True ord cid amount)
           (mark_processed v EventTypeStockReserved (server_time sys ?t) (durable s)))) (\<lambda>_ _. False) (?s1 n)"
      using fresh(1) texts oid amount healthy_facts(3) [OF h] ev [OF n, of True]
      by (auto simp: charge_failed_def payment_Fail_def tools declined_event_def decline_reason_def simp del: wpc_PublishInTx)
    then show ?thesis by (rule wpc_mono) (use n d in blast)+
  qed
  have accepted: "wpc (charge_completed sys oid amount ?pay) (\<lambda>_. ?post) (\<lambda>_ _. False) (?s1 n)"
    if n: "n \<in> {?t + 4, ?t + 5}" and d: "decision sys uc amount False" for n
  proof -
    have "uuid_New sys (n + 4) \<notin> msg_ID ` set (outbox (durable s))" using fresh(3) [of "n + 4"] n by auto
    moreover have "calm sys n" "?t \<le> n" using calm_mono [OF healthy_facts(1) [OF h]] n by auto
    ultimately have "wpc (charge_completed sys oid amount ?pay) (\<lambda>_ s'. tick s' = n + 7 \<and>
       durable s' = add_message (new_message sys (n + 4) ''Payment'' oid (event_kind (charge_event sys ?t n False oid amount))
           (charge_event sys ?t n False oid amount) (server_time sys ?t))
         (add_payment (charged_row sys ?t n False ord cid amount)
           (mark_processed v EventTypeStockReserved (server_time sys ?t) (durable s)))) (\<lambda>_ _. False) (?s1 n)"
      using fresh(1) texts oid amount healthy_facts(3) [OF h] ev [OF n, of False]
      by (auto simp: charge_completed_def payment_Complete_def tools paid_event_def simp del: wpc_PublishInTx)
    then show ?thesis by (rule wpc_mono) (use n d in blast)+
  qed
  define P where "P = ?post"
  have P: "P (tx_Rollback s') = P s'" for s' by (simp add: P_def)
  have "wpc (payment_HandleStockReserved sys uc eid oid cid amount) (\<lambda>_. P) (\<lambda>_ _. False) s"
    using new amount healthy_facts(1) [OF h] declined [of "?t + 4", folded P_def] accepted [of "?t + 4", folded P_def]
      declined [of "?t + 5", folded P_def] accepted [of "?t + 5", folded P_def]
    by (simp add: payment_HandleStockReserved_def wpc_tx_calm gate wpc_bind [of "go_now sys"] wpc_now wpc_bind [of "go_uuid sys"]
       wpc_uuid wpc_try [of "go_lift r" for r] wpc_lift NewPayment_def shouldFailPayment_def wpc_bind wpc_return wpc_tick wpc_if P numeral_eq_Suc)
      (auto simp: decision_def, blast+)
  then show ?thesis unfolding P_def .
qed

lemma payment_cancel_calm:
  assumes h: "healthy sys (tick s)" and new: "unseen sys eid v (durable s)" and oid: "uuid_in sys oid = Some ord"
    and one: "filter (\<lambda>r. p_order_id r = ord) (payments (durable s)) = [r]" "p_status r \<noteq> PaymentStatusCompleted"
  shows "wpc (payment_HandleOrderCancelled sys eid oid)
    (\<lambda>_ s'. durable s' = mark_processed v EventTypeOrderCancelled (server_time sys (tick s)) (durable s)) (\<lambda>_ _. False) s"
proof -
  note gate = wpc_gate_calm [where ev = "EvOrderCancelled undefined" and v = v, OF h, simplified]
  have "select_payment_of_order sys n oid now db = Done r db" if "payments db = payments (durable s)" for n now db
    using one(1) oid healthy_facts(4) [OF h] that by (simp add: select_payment_of_order_def)
  then show ?thesis
    using new one(2) healthy_facts(1) [OF h]
    by (simp add: payment_HandleOrderCancelled_def wpc_tx_calm gate wp refund_if_completed_def payment_IsCompleted_def)
qed

end
