(* ===== verification/Saga_Run.thy ===== *)
theory Saga_Run
  imports Saga_Invariant Calm_Calls
begin

text \<open>
  An order on its way through the system when nothing fails: the relays poll in turn and every
  message is delivered once, in the order in which it was published. The run ends with the order
  COMPLETED or CANCELLED, and with the stock and the money where they belong.
\<close>

section \<open>A run\<close>

definition running :: "('db consumer, unit) go \<Rightarrow> 'db consumer" where
  "running start = snd (start new_consumer)"

text \<open>The broker hands a message to the consumer of every service.\<close>

definition hand_over :: "sys \<Rightarrow> sys \<Rightarrow> sys \<Rightarrow> PaymentUseCase \<Rightarrow> string \<times> json \<Rightarrow> world \<Rightarrow> world" where
  "hand_over osys isys psys uc m w =
     (let data = Some (snd m)
      in w\<lparr>order_proc := deliver (running (order_Start osys (\<lambda>_. None))) (fst m) data (order_proc w),
          inventory_proc := deliver (running (inventory_Start isys (\<lambda>_. None))) (fst m) data (inventory_proc w),
          payment_proc := deliver (running (payment_Start psys uc (\<lambda>_. None))) (fst m) data (payment_proc w)\<rparr>)"

text \<open>A relay polls once, and what it publishes is handed over.\<close>

definition news :: "'db pg \<Rightarrow> 'db pg \<Rightarrow> (string \<times> json) list" where
  "news s s' = drop (length (published s)) (published s')"

definition order_turn :: "sys \<Rightarrow> sys \<Rightarrow> sys \<Rightarrow> PaymentUseCase \<Rightarrow> world \<Rightarrow> world" where
  "order_turn osys isys psys uc w =
     (let s' = order_exec osys CallOrderRelay (order_proc w)
      in fold (hand_over osys isys psys uc) (news (order_proc w) s') (w\<lparr>order_proc := s'\<rparr>))"

definition inventory_turn :: "sys \<Rightarrow> sys \<Rightarrow> sys \<Rightarrow> PaymentUseCase \<Rightarrow> world \<Rightarrow> world" where
  "inventory_turn osys isys psys uc w =
     (let s' = inventory_exec isys CallInventoryRelay (inventory_proc w)
      in fold (hand_over osys isys psys uc) (news (inventory_proc w) s') (w\<lparr>inventory_proc := s'\<rparr>))"

definition payment_turn :: "sys \<Rightarrow> sys \<Rightarrow> sys \<Rightarrow> PaymentUseCase \<Rightarrow> world \<Rightarrow> world" where
  "payment_turn osys isys psys uc w =
     (let s' = payment_exec psys CallPaymentRelay (payment_proc w)
      in fold (hand_over osys isys psys uc) (news (payment_proc w) s') (w\<lparr>payment_proc := s'\<rparr>))"

definition saga_round :: "sys \<Rightarrow> sys \<Rightarrow> sys \<Rightarrow> PaymentUseCase \<Rightarrow> world \<Rightarrow> world" where
  "saga_round osys isys psys uc w =
     payment_turn osys isys psys uc (inventory_turn osys isys psys uc (order_turn osys isys psys uc w))"

text \<open>A request, and two rounds.\<close>

definition saga_run :: "sys \<Rightarrow> sys \<Rightarrow> sys \<Rightarrow> PaymentUseCase \<Rightarrow> CreateOrderInput \<Rightarrow> world \<Rightarrow> world" where
  "saga_run osys isys psys uc input w =
     saga_round osys isys psys uc (saga_round osys isys psys uc
       (w\<lparr>order_proc := order_exec osys (CallCreateOrder input) (order_proc w)\<rparr>))"

lemma deliver_running:
  "deliver (running (order_Start osys (\<lambda>_. None))) subject data s =
     (case order_call_of osys subject data of None \<Rightarrow> s | Some c \<Rightarrow> order_exec osys c s)"
  "deliver (running (inventory_Start isys (\<lambda>_. None))) subject data t =
     (case inventory_call_of isys subject data of None \<Rightarrow> t | Some c' \<Rightarrow> inventory_exec isys c' t)"
  "deliver (running (payment_Start psys uc (\<lambda>_. None))) subject data v =
     (case payment_call_of psys uc subject data of None \<Rightarrow> v | Some c'' \<Rightarrow> payment_exec psys c'' v)"
  by (simp_all add: running_def order_consumer.start_subscribes inventory_consumer.start_subscribes
      payment_consumer.start_subscribes subscribe_all_result new_consumer_def accepted_subs_def order_consumer.delivers
      inventory_consumer.delivers payment_consumer.delivers)


section \<open>A run is a run of the system\<close>

text \<open>A consumer publishes nothing.\<close>

lemma deliver_silent:
  "published (deliver (running (order_Start osys (\<lambda>_. None))) subject data s) = published s"
  "published (deliver (running (inventory_Start isys (\<lambda>_. None))) subject data t) = published t"
  "published (deliver (running (payment_Start psys uc (\<lambda>_. None))) subject data v) = published v"
  by (simp_all add: deliver_running order_call_of_def inventory_call_of_def payment_call_of_def silentD
      order_calls_silent inventory_calls_silent payment_calls_silent split: sum.split)

lemma find_False: "find (\<lambda>_. False) xs = None"
  by (induction xs) simp_all

lemma start_succeeds:
  "order_Start osys (\<lambda>_. None) new_consumer = (Inr (), running (order_Start osys (\<lambda>_. None)))"
  "inventory_Start isys (\<lambda>_. None) new_consumer = (Inr (), running (inventory_Start isys (\<lambda>_. None)))"
  "payment_Start psys uc (\<lambda>_. None) new_consumer = (Inr (), running (payment_Start psys uc (\<lambda>_. None)))"
  by (simp_all add: running_def order_consumer.start_subscribes inventory_consumer.start_subscribes
      payment_consumer.start_subscribes subscribe_all_result find_False)

lemma hand_over_broker: "broker (hand_over osys isys psys uc m w) = broker w"
  by (simp add: hand_over_def broker_def Let_def deliver_silent)

lemma hand_over_steps:
  assumes "m \<in> broker w"
  shows "(saga_step osys isys psys)\<^sup>*\<^sup>* w (hand_over osys isys psys uc m w)"
proof -
  obtain subject doc where m: "m = (subject, doc)" by fastforce
  let ?o = "deliver (running (order_Start osys (\<lambda>_. None))) subject (Some doc) (order_proc w)"
  let ?i = "deliver (running (inventory_Start isys (\<lambda>_. None))) subject (Some doc) (inventory_proc w)"
  let ?p = "deliver (running (payment_Start psys uc (\<lambda>_. None))) subject (Some doc) (payment_proc w)"
  let ?w1 = "w\<lparr>order_proc := ?o\<rparr>" and ?w2 = "w\<lparr>order_proc := ?o, inventory_proc := ?i\<rparr>"
  have b: "(subject, doc) \<in> broker w" "(subject, doc) \<in> broker ?w1" "(subject, doc) \<in> broker ?w2"
    using assms by (auto simp: m broker_def deliver_silent)
  have "saga_step osys isys psys w ?w1" by (rule order_received [OF b(1) start_succeeds(1)])
  moreover have "saga_step osys isys psys ?w1 (?w1\<lparr>inventory_proc := ?i\<rparr>)"
    using inventory_received [OF b(2) start_succeeds(2)] by simp
  moreover have "saga_step osys isys psys ?w2 (?w2\<lparr>payment_proc := ?p\<rparr>)"
    using payment_received [OF b(3) start_succeeds(3)] by simp
  moreover have "?w2\<lparr>payment_proc := ?p\<rparr> = hand_over osys isys psys uc m w" by (simp add: hand_over_def m Let_def)
  ultimately show ?thesis by simp
qed

lemma hand_over_all_steps:
  "set ms \<subseteq> broker w \<Longrightarrow> (saga_step osys isys psys)\<^sup>*\<^sup>* w (fold (hand_over osys isys psys uc) ms w)"
proof (induction ms arbitrary: w)
  case (Cons m ms)
  then have "(saga_step osys isys psys)\<^sup>*\<^sup>* w (hand_over osys isys psys uc m w)" by (simp add: hand_over_steps)
  also have "(saga_step osys isys psys)\<^sup>*\<^sup>* (hand_over osys isys psys uc m w)
      (fold (hand_over osys isys psys uc) ms (hand_over osys isys psys uc m w))"
    using Cons by (simp add: hand_over_broker)
  finally show ?case by simp
qed simp

lemma news_steps:
  assumes "set (published s') \<subseteq> broker w"
  shows "(saga_step osys isys psys)\<^sup>*\<^sup>* w (fold (hand_over osys isys psys uc) (news s s') w)"
  using assms by (intro hand_over_all_steps) (auto simp: news_def dest: in_set_dropD)

lemma turn_steps:
  "(saga_step osys isys psys)\<^sup>*\<^sup>* w (order_turn osys isys psys uc w)"
  "(saga_step osys isys psys)\<^sup>*\<^sup>* w (inventory_turn osys isys psys uc w)"
  "(saga_step osys isys psys)\<^sup>*\<^sup>* w (payment_turn osys isys psys uc w)"
  unfolding order_turn_def inventory_turn_def payment_turn_def Let_def
  by (rule converse_rtranclp_into_rtranclp [OF order_relayed news_steps]
      converse_rtranclp_into_rtranclp [OF inventory_relayed news_steps]
      converse_rtranclp_into_rtranclp [OF payment_relayed news_steps], simp add: broker_def le_supI1 le_supI2)+

lemma saga_run_steps:
  assumes "is_f64 (in_TotalAmount input)"
  shows "(saga_step osys isys psys)\<^sup>*\<^sup>* w (saga_run osys isys psys uc input w)"
proof -
  have round: "(saga_step osys isys psys)\<^sup>*\<^sup>* w (saga_round osys isys psys uc w)" for w
    unfolding saga_round_def using turn_steps by (meson rtranclp_trans)
  show ?thesis
    unfolding saga_run_def
    by (rule converse_rtranclp_into_rtranclp [OF order_created [OF assms] rtranclp_trans [OF round round]])
qed


section \<open>What the services make of a message\<close>

text \<open>
  Three healthy services of one build: they write times and numbers in the same way, and their
  servers agree on UUIDs and amounts.
\<close>

definition run_env :: "sys \<Rightarrow> sys \<Rightarrow> sys \<Rightarrow> bool" where
  "run_env osys isys psys \<longleftrightarrow>
     (\<forall>X \<in> {osys, isys, psys}. healthy X 0 \<and> uuid_in X = uuid_in osys \<and>
        time_text X = time_text osys \<and> float_text X = float_text osys) \<and>
     numeric_in psys = numeric_in osys"

lemma run_env_healthy:
  assumes "run_env osys isys psys"
  shows "healthy osys t" "healthy isys t" "healthy psys t"
  using assms healthy_mono [of _ 0 t] by (simp_all add: run_env_def)

lemma run_env_ok: "run_env osys isys psys \<Longrightarrow> env_ok osys isys psys"
  using healthy_facts(3-6) [of _ 0] by (simp add: run_env_def env_ok_def)

lemma same_members: "time_text X = time_text Y \<Longrightarrow> float_text X = float_text Y \<Longrightarrow> event_members X ev = event_members Y ev"
  by (cases ev) (simp_all add: event_members.simps marshal_base_def marshal_float_def)

lemma reads_back:
  assumes "tells X m ev" and "healthy X t" and "healthy Y t'" and "event_ok Y ev"
    and "time_text X = time_text Y" and "float_text X = float_text Y"
  shows "case ev of
      EvOrderCreated e \<Rightarrow> ParseOrderCreatedEvent Y (Some (snd m)) = Inr e
    | EvOrderCompleted e \<Rightarrow> ParseOrderCompletedEvent Y (Some (snd m)) = Inr e
    | EvOrderCancelled e \<Rightarrow> ParseOrderCancelledEvent Y (Some (snd m)) = Inr e
    | EvStockReserved e \<Rightarrow> ParseStockReservedEvent Y (Some (snd m)) = Inr e
    | EvStockReserveFailed e \<Rightarrow> ParseStockReserveFailedEvent Y (Some (snd m)) = Inr e
    | EvStockReleased e \<Rightarrow> True
    | EvPaymentCompleted e \<Rightarrow> ParsePaymentCompletedEvent Y (Some (snd m)) = Inr e
    | EvPaymentFailed e \<Rightarrow> ParsePaymentFailedEvent Y (Some (snd m)) = Inr e"
proof -
  obtain subject doc where m: "m = (subject, doc)" by fastforce
  obtain ms where "doc = JObj ms" "mset ms = mset (event_members X ev)"
    using tells_document [OF assms(1) [unfolded m] healthy_facts(6) [OF assms(2)]] .
  then have doc: "snd m = JObj ms" "mset ms = mset (event_members Y ev)"
    using same_members [OF assms(5,6)] by (simp_all add: m)
  note Y = healthy_facts(5) [OF assms(3)] assms(4)
  show ?thesis
    using doc Y
    by (cases ev)
       (simp_all add: ParseEvent_defs oc_codec.unmarshal_encoded od_codec.unmarshal_encoded
          ox_codec.unmarshal_encoded sr_codec.unmarshal_encoded sf_codec.unmarshal_encoded
          pc_codec.unmarshal_encoded pf_codec.unmarshal_encoded)
qed

text \<open>A message of one of the services, that every consumer can read.\<close>

definition told :: "sys \<Rightarrow> sys \<Rightarrow> sys \<Rightarrow> string \<times> json \<Rightarrow> event \<Rightarrow> bool" where
  "told osys isys psys m ev \<longleftrightarrow> (\<exists>X \<in> {osys, isys, psys}. tells X m ev) \<and> event_ok osys ev"

lemma event_ok_same: "event_ok X ev = event_ok Y ev"
  by (cases ev) simp_all

text \<open>What the three services do with an event.\<close>

fun act_on :: "sys \<Rightarrow> sys \<Rightarrow> sys \<Rightarrow> PaymentUseCase \<Rightarrow> event \<Rightarrow> world \<Rightarrow> world" where
  "act_on osys isys psys uc (EvOrderCreated e) w = w\<lparr>inventory_proc := inventory_exec isys (CallOrderCreated (EventID e)
     (oc_OrderID e) (oc_ProductID e) (oc_CustomerID e) (oc_Quantity e) (oc_TotalAmount e)) (inventory_proc w)\<rparr>"
| "act_on osys isys psys uc (EvOrderCompleted e) w =
     w\<lparr>inventory_proc := inventory_exec isys (CallOrderCompleted (EventID e) (od_OrderID e)) (inventory_proc w)\<rparr>"
| "act_on osys isys psys uc (EvOrderCancelled e) w =
     w\<lparr>inventory_proc := inventory_exec isys (CallOrderCancelled (EventID e) (ox_OrderID e)) (inventory_proc w),
       payment_proc := payment_exec psys (CallPaymentOrderCancelled (EventID e) (ox_OrderID e)) (payment_proc w)\<rparr>"
| "act_on osys isys psys uc (EvStockReserved e) w =
     w\<lparr>order_proc := order_exec osys (CallStockReserved (EventID e) (sr_OrderID e)) (order_proc w),
       payment_proc := payment_exec psys (CallPaymentStockReserved uc (EventID e) (sr_OrderID e) (sr_CustomerID e)
         (sr_TotalAmount e)) (payment_proc w)\<rparr>"
| "act_on osys isys psys uc (EvStockReserveFailed e) w =
     w\<lparr>order_proc := order_exec osys (CallStockReserveFailed (EventID e) (sf_OrderID e) (sf_Reason e)) (order_proc w)\<rparr>"
| "act_on osys isys psys uc (EvStockReleased e) w = w"
| "act_on osys isys psys uc (EvPaymentCompleted e) w =
     w\<lparr>order_proc := order_exec osys (CallPaymentCompleted (EventID e) (pc_OrderID e)) (order_proc w)\<rparr>"
| "act_on osys isys psys uc (EvPaymentFailed e) w =
     w\<lparr>order_proc := order_exec osys (CallPaymentFailed (EventID e) (pf_OrderID e) (pf_Reason e)) (order_proc w)\<rparr>"

lemma hand_over_told:
  assumes env: "run_env osys isys psys" and told: "told osys isys psys m ev"
  shows "hand_over osys isys psys uc m w = act_on osys isys psys uc ev w"
proof -
  obtain X where X: "X \<in> {osys, isys, psys}" "tells X m ev" using told by (auto simp: told_def)
  have same: "time_text X = time_text Y" "float_text X = float_text Y" if "Y \<in> {osys, isys, psys}" for Y
    using env X(1) that by (auto simp: run_env_def)
  have healthy: "healthy Y 0" if "Y \<in> {osys, isys, psys}" for Y using env that by (auto simp: run_env_def)
  have ok: "event_ok Y ev" for Y using told event_ok_same by (auto simp: told_def)
  note reads = reads_back [OF X(2) healthy [OF X(1)] healthy ok same]
  have subject: "fst m = event_kind ev" using X(2) by (simp add: tells_def)
  show ?thesis
    using reads [of osys] reads [of isys] reads [of psys]
    by (cases ev)
       (simp_all add: hand_over_def Let_def deliver_running subject order_call_of_def inventory_call_of_def payment_call_of_def
          EventType_neq del: order_exec.simps inventory_exec.simps payment_exec.simps)
qed

end
