(* ===== verification/Saga_Stages.thy ===== *)
theory Saga_Stages
  imports Saga_Run
begin

text \<open>
  The calls of a run, in the order in which they come, seen from each of the three databases.
\<close>

section \<open>What the services say on the way\<close>

lemma told_new_message:
  assumes "healthy X t" and "plain_event X ev" and "ety = event_kind ev" and "event_ok osys ev"
    and "X \<in> {osys, isys, psys}"
  shows "told osys isys psys (subject_of (new_message X n agg ai ety ev now)) ev"
  using new_message_tells [OF assms(1-3)] assms(4,5) by (auto simp: told_def)

lemma drawn_text: "fresh_ids sys t b used \<Longrightarrow> t \<le> n \<Longrightarrow> n < b \<Longrightarrow> ascii_text (uuid_New sys n)"
  by (rule fresh_id(2))

lemma run_events_plain:
  assumes h: "\<And>n. healthy sys n" and ids: "fresh_ids sys t b used" and room: "t + 14 \<le> b"
  shows "input_ok sys input \<Longrightarrow> plain_event sys (EvOrderCreated (placed_event sys t input))"
    "order_texts oid p cid \<Longrightarrow> plain_event sys (EvStockReserved (reserved_event sys t oid p cid q amount))"
    "order_texts oid p cid \<Longrightarrow> t \<le> n \<Longrightarrow> n \<le> t + 4 \<Longrightarrow> ascii_text reason \<Longrightarrow>
      plain_event sys (EvStockReserveFailed (refused_event sys n oid p q reason))"
    "ascii_text oid \<Longrightarrow> t \<le> n \<Longrightarrow> n \<le> t + 5 \<Longrightarrow> plain_event sys (charge_event sys t n d oid amount)"
    "ascii_text oid \<Longrightarrow> ascii_text reason \<Longrightarrow> t \<le> n \<Longrightarrow> n + 10 \<le> b \<Longrightarrow>
      plain_event sys (EvOrderCompleted (completed_event sys n oid))"
    "ascii_text oid \<Longrightarrow> ascii_text reason \<Longrightarrow> t \<le> n \<Longrightarrow> n + 10 \<le> b \<Longrightarrow>
      plain_event sys (EvOrderCancelled (cancelled_event sys n oid reason))"
proof -
  note texts = healthy_facts(9) [OF h] ascii_kinds(1) [of "EvOrderCreated undefined"] ascii_kinds(1) [of "EvStockReserved undefined"]
    ascii_kinds(1) [of "EvStockReserveFailed undefined"] ascii_kinds(1) [of "EvPaymentCompleted undefined"]
    ascii_kinds(1) [of "EvPaymentFailed undefined"] ascii_kinds(1) [of "EvOrderCompleted undefined"]
    ascii_kinds(1) [of "EvOrderCancelled undefined"]
  have drawn: "ascii_text (uuid_New sys n)" if "t \<le> n" "n < t + 14" for n
    using fresh_id(2) [OF ids that(1)] that(2) room by simp
  have drawn': "ascii_text (uuid_New sys (n + 5))" if "t \<le> n" "n + 10 \<le> b" for n
    using fresh_id(2) [OF ids, of "n + 5"] that by simp
  note events = plain_simps placed_event_def reserved_event_def refused_event_def charge_event_def paid_event_def
    declined_event_def decline_reason_def completed_event_def cancelled_event_def order_texts_def input_ok_def
  note texts' = texts [simplified]
  show "input_ok sys input \<Longrightarrow> plain_event sys (EvOrderCreated (placed_event sys t input))"
    "order_texts oid p cid \<Longrightarrow> plain_event sys (EvStockReserved (reserved_event sys t oid p cid q amount))"
    "order_texts oid p cid \<Longrightarrow> t \<le> n \<Longrightarrow> n \<le> t + 4 \<Longrightarrow> ascii_text reason \<Longrightarrow>
      plain_event sys (EvStockReserveFailed (refused_event sys n oid p q reason))"
    "ascii_text oid \<Longrightarrow> t \<le> n \<Longrightarrow> n \<le> t + 5 \<Longrightarrow> plain_event sys (charge_event sys t n d oid amount)"
    "ascii_text oid \<Longrightarrow> ascii_text reason \<Longrightarrow> t \<le> n \<Longrightarrow> n + 10 \<le> b \<Longrightarrow>
      plain_event sys (EvOrderCompleted (completed_event sys n oid))"
    "ascii_text oid \<Longrightarrow> ascii_text reason \<Longrightarrow> t \<le> n \<Longrightarrow> n + 10 \<le> b \<Longrightarrow>
      plain_event sys (EvOrderCancelled (cancelled_event sys n oid reason))"
    by (simp_all add: events texts' drawn drawn') (simp add: ascii_text_def)
qed

lemma run_events_ok:
  assumes "\<And>n. writable_time (time_Now X n)"
  shows "is_f64 (in_TotalAmount input) \<Longrightarrow> event_ok Y (EvOrderCreated (placed_event X t input))"
    "is_f64 amount \<Longrightarrow> event_ok Y (EvStockReserved (reserved_event X t oid p cid q amount))"
    "event_ok Y (EvStockReserveFailed (refused_event X n oid p q reason))"
    "is_f64 amount \<Longrightarrow> event_ok Y (charge_event X t n d oid amount)"
    "event_ok Y (EvOrderCompleted (completed_event X t oid))"
    "event_ok Y (EvOrderCancelled (cancelled_event X t oid reason))"
  using assms
  by (simp_all add: placed_event_def reserved_event_def refused_event_def charge_event_def paid_event_def declined_event_def
      completed_event_def cancelled_event_def)


section \<open>The order service on the way\<close>

text \<open>
  The order process \<open>k\<close> calls of its environment after \<open>s0\<close>: it has one more order, in
  status \<open>st\<close>, has processed the events \<open>xs\<close> since then, and its relay has \<open>q\<close> to send.
\<close>

definition order_stage ::
  "sys \<Rightarrow> order_db pg \<Rightarrow> CreateOrderInput \<Rightarrow> nat \<Rightarrow> string \<Rightarrow> string set \<Rightarrow> Message list \<Rightarrow> order_db pg \<Rightarrow> bool" where
  "order_stage sys s0 input k st xs q s \<longleftrightarrow>
     order_ready sys (durable s) \<and> tick s = tick s0 + k \<and>
     (\<exists>now. orders (durable s) = orders (durable s0) @
        [(placed_row sys (tick s0) input)\<lparr>o_status := st, o_updated_at := now\<rparr>]) \<and>
     dom (processed_events (durable s)) \<subseteq> dom (processed_events (durable s0)) \<union> xs \<and>
     msg_ID ` set (outbox (durable s)) \<subseteq> msg_ID ` set (outbox (durable s0)) \<union> uuid_New sys ` {tick s0..<tick s} \<and>
     backlog (durable s) = q"

definition order_ids :: "order_db \<Rightarrow> string set" where
  "order_ids db = o_id ` set (orders db) \<union> msg_ID ` set (outbox db)"

lemma wpc_total: "wpc m Q (\<lambda>_ _. False) s \<Longrightarrow> \<exists>a s'. m s = (Inr a, s') \<and> Q a s'"
  by (auto simp: wpc_def split: prod.splits sum.splits)

lemma wpc_final: "wpc m (\<lambda>_ s'. P s') (\<lambda>_ _. False) s \<Longrightarrow> P (snd (m s))"
  by (auto simp: wpc_def split: prod.splits sum.splits)

lemma stage_order_ids:
  assumes "fresh_ids sys (tick s0) b (order_ids (durable s0))" and "order_stage sys s0 input k st xs q s"
  shows "fresh_ids sys (tick s) b (msg_ID ` set (outbox (durable s)))"
  by (rule fresh_ids_later [OF assms(1)]) (use assms(2) in \<open>auto simp: order_stage_def order_ids_def\<close>)

lemma stage_order_row:
  assumes "order_stage sys s0 input k st xs q s"
  obtains r where "r \<in> set (orders (durable s))" "o_id r = uuid_New sys (Suc (tick s0))" "o_status r = st"
proof -
  obtain now where "orders (durable s) = orders (durable s0) @ [(placed_row sys (tick s0) input)\<lparr>o_status := st, o_updated_at := now\<rparr>]"
    using assms by (auto simp: order_stage_def)
  then show thesis
    by (intro that [of "(placed_row sys (tick s0) input)\<lparr>o_status := st, o_updated_at := now\<rparr>"]) (simp_all add: placed_row_def)
qed

text \<open>Setting the status of the new order leaves the others as they are.\<close>

lemma stage_set_status:
  assumes ready: "order_keys_ok sys db" and ords: "orders db = os @ [(placed_row sys t input)\<lparr>o_status := st, o_updated_at := now\<rparr>]"
  shows "\<exists>now'. orders (set_order_status (uuid_New sys (Suc t)) st' n db) =
    os @ [(placed_row sys t input)\<lparr>o_status := st', o_updated_at := now'\<rparr>]"
proof -
  have "uuid_New sys (Suc t) \<notin> o_id ` set os"
    using ready ords by (auto simp: order_keys_ok_def placed_row_def)
  then have "upd_where (\<lambda>r. o_id r = uuid_New sys (Suc t)) (\<lambda>r. r\<lparr>o_status := st', o_updated_at := n\<rparr>) os = os"
    by (intro upd_where_none) (auto simp: image_iff)
  then show ?thesis by (auto simp: set_order_status_def ords placed_row_def)
qed

lemma order_placed_stage:
  assumes h: "healthy sys (tick s0)" and ready: "order_ready sys (durable s0)" and rest: "backlog (durable s0) = []"
    and ids: "fresh_ids sys (tick s0) b (order_ids (durable s0))" and room: "tick s0 + 9 \<le> b" and ok: "input_ok sys input"
  shows "CreateOrder sys input s0 = (Inr \<lparr>out_OrderID = uuid_New sys (Suc (tick s0)), out_Status = OrderStatusPending\<rparr>,
      order_exec sys (CallCreateOrder input) s0)"
    "order_stage sys s0 input 9 OrderStatusPending {}
      [new_message sys (tick s0 + 6) ''Order'' (uuid_New sys (Suc (tick s0))) EventTypeOrderCreated
         (EvOrderCreated (placed_event sys (tick s0) input)) (server_time sys (tick s0 + 2))]
      (order_exec sys (CallCreateOrder input) s0)"
proof -
  from wpc_total [OF CreateOrder_calm [OF h ids [unfolded order_ids_def] room ok]] obtain s' where
    s': "CreateOrder sys input s0 = (Inr \<lparr>out_OrderID = uuid_New sys (Suc (tick s0)), out_Status = OrderStatusPending\<rparr>, s')"
    "tick s' = tick s0 + 9"
    "durable s' = add_message (new_message sys (tick s0 + 6) ''Order'' (uuid_New sys (Suc (tick s0))) EventTypeOrderCreated
           (EvOrderCreated (placed_event sys (tick s0) input)) (server_time sys (tick s0 + 2)))
         ((durable s0)\<lparr>orders := orders (durable s0) @ [placed_row sys (tick s0) input]\<rparr>)"
    by blast
  then show created: "CreateOrder sys input s0 = (Inr \<lparr>out_OrderID = uuid_New sys (Suc (tick s0)), out_Status = OrderStatusPending\<rparr>,
      order_exec sys (CallCreateOrder input) s0)" by simp
  have "order_ready sys (durable s')"
    using order_service.exec_inv [OF ready, of "CallCreateOrder input"] s'(1) by simp
  moreover have "\<exists>now. placed_row sys (tick s0) input =
      (placed_row sys (tick s0) input)\<lparr>o_status := OrderStatusPending, o_updated_at := now\<rparr>"
    by (rule exI [of _ "timestamptz sys (time_Now sys (tick s0))"]) (simp add: placed_row_def)
  ultimately show "order_stage sys s0 input 9 OrderStatusPending {}
      [new_message sys (tick s0 + 6) ''Order'' (uuid_New sys (Suc (tick s0))) EventTypeOrderCreated
         (EvOrderCreated (placed_event sys (tick s0) input)) (server_time sys (tick s0 + 2))]
      (order_exec sys (CallCreateOrder input) s0)"
    using s' rest by (auto simp: order_stage_def backlog_def)
qed

text \<open>The handlers of the order service, on the new order and with an event that is new.\<close>

lemma drawn_ids:
  fixes f :: "nat \<Rightarrow> string"
  assumes "A \<subseteq> B \<union> f ` {t..<n}" and "A' \<subseteq> A \<union> f ` {t..<m}" and "n \<le> m"
  shows "A' \<subseteq> B \<union> f ` {t..<m}"
proof -
  have "f ` {t..<n} \<subseteq> f ` {t..<m}" using assms(3) by (intro image_mono) auto
  with assms(1,2) show ?thesis by blast
qed

lemma order_stage_moves:
  assumes stage: "order_stage sys s0 input k st xs [] s" and ready: "order_ready sys (durable s')"
    and tick: "tick s' = tick s + n"
    and db: "db = set_order_status (uuid_New sys (Suc (tick s0))) st' now (mark_processed v ety now (durable s))"
    and res: "durable s' = db \<and> q = [] \<or> (\<exists>m. durable s' = add_message m db \<and> q = [m] \<and> deliverable m \<and>
        (\<exists>j < n. msg_ID m = uuid_New sys (tick s + j)))"
  shows "order_stage sys s0 input (k + n) st' (insert v xs) q s'"
proof -
  obtain now' where "orders (durable s) = orders (durable s0) @
      [(placed_row sys (tick s0) input)\<lparr>o_status := st, o_updated_at := now'\<rparr>]"
    using stage by (auto simp: order_stage_def)
  moreover have "order_keys_ok sys (mark_processed v ety now (durable s))"
    using stage by (simp add: order_stage_def order_ready_def order_inv_def)
  ultimately have orders: "\<exists>now. orders db = orders (durable s0) @
      [(placed_row sys (tick s0) input)\<lparr>o_status := st', o_updated_at := now\<rparr>]"
    unfolding db by (intro stage_set_status) simp_all
  have db': "dom (processed_events db) = insert v (dom (processed_events (durable s)))" "outbox db = outbox (durable s)"
    by (simp_all add: db mark_processed_def)
  have rest: "backlog db = []" using stage by (simp add: order_stage_def backlog_def db mark_processed_def)
  have s': "orders (durable s') = orders db \<and> processed_events (durable s') = processed_events db \<and>
      backlog (durable s') = backlog db @ q \<and>
      msg_ID ` set (outbox (durable s')) \<subseteq> msg_ID ` set (outbox db) \<union> uuid_New sys ` {tick s0..<tick s'}"
    using res
  proof (elim disjE conjE exE)
    fix m j assume m: "durable s' = add_message m db" "q = [m]" "deliverable m" "j < n" "msg_ID m = uuid_New sys (tick s + j)"
    then have "msg_ID m \<in> uuid_New sys ` {tick s0..<tick s'}" using tick stage by (auto simp: order_stage_def)
    with m(1-3) show ?thesis by (auto simp: backlog_def)
  qed simp
  have ticks: "tick s' = tick s0 + (k + n)" using stage tick by (simp add: order_stage_def)
  have before: "dom (processed_events (durable s)) \<subseteq> dom (processed_events (durable s0)) \<union> xs" "tick s \<le> tick s'"
      "msg_ID ` set (outbox (durable s)) \<subseteq> msg_ID ` set (outbox (durable s0)) \<union> uuid_New sys ` {tick s0..<tick s}"
    using stage [unfolded order_stage_def] tick by (blast, simp, blast)
  have ids: "msg_ID ` set (outbox (durable s')) \<subseteq> msg_ID ` set (outbox (durable s0)) \<union> uuid_New sys ` {tick s0..<tick s'}"
    by (rule drawn_ids [OF before(3) _ before(2)]) (use s' db'(2) in simp)
  have "dom (processed_events (durable s')) \<subseteq> dom (processed_events (durable s0)) \<union> insert v xs"
    using before(1) s' db'(1) by auto
  then show ?thesis
    unfolding order_stage_def using ready orders rest s' ticks ids by simp
qed

lemma stage_unseen:
  "order_stage sys s0 input k st xs q s \<Longrightarrow> uuid_in sys eid = Some v \<Longrightarrow>
   v \<notin> dom (processed_events (durable s0)) \<union> xs \<Longrightarrow> unseen sys eid v (durable s)"
  by (auto simp: unseen_def order_stage_def)

lemma stage_order_ready:
  assumes "order_stage sys s0 input k st xs q s"
  shows "order_ready sys (durable s)" "order_keys_ok sys (durable s)"
    "uuid_in sys (uuid_New sys n) = Some (uuid_New sys n)"
  using assms by (simp_all add: order_stage_def order_ready_def order_inv_def)

lemma order_stage_confirmed:
  assumes h: "healthy sys (tick s)" and stage: "order_stage sys s0 input k OrderStatusPending xs [] s"
    and v: "uuid_in sys eid = Some v" "v \<notin> dom (processed_events (durable s0)) \<union> xs"
  shows "order_stage sys s0 input (k + 6) OrderStatusConfirmed (insert v xs) []
    (order_exec sys (CallStockReserved eid (uuid_New sys (Suc (tick s0)))) s)"
proof -
  obtain r where r: "r \<in> set (orders (durable s))" "o_id r = uuid_New sys (Suc (tick s0))" "o_status r = OrderStatusPending"
    using stage by (rule stage_order_row)
  note ready = stage_order_ready [OF stage]
  show ?thesis
    using wpc_final [OF order_StockReserved_calm [OF h stage_unseen [OF stage v] ready(2) r(1) _ r(3)],
        of "uuid_New sys (Suc (tick s0))"] r(2) ready(3)
    by (intro order_stage_moves [OF stage order_service.exec_inv [OF ready(1)] _ refl]) (auto simp: r(2))
qed

lemma order_stage_refused:
  assumes h: "healthy sys (tick s)" and stage: "order_stage sys s0 input k OrderStatusPending xs [] s"
    and v: "uuid_in sys eid = Some v" "v \<notin> dom (processed_events (durable s0)) \<union> xs"
  shows "order_stage sys s0 input (k + 6) OrderStatusCancelled (insert v xs) []
    (order_exec sys (CallStockReserveFailed eid (uuid_New sys (Suc (tick s0))) reason) s)"
proof -
  obtain r where r: "r \<in> set (orders (durable s))" "o_id r = uuid_New sys (Suc (tick s0))" "o_status r = OrderStatusPending"
    using stage by (rule stage_order_row)
  note ready = stage_order_ready [OF stage]
  have "o_status r \<noteq> OrderStatusCompleted" by (simp add: r(3) OrderStatus_defs)
  then show ?thesis
    using wpc_final [OF order_StockReserveFailed_calm [OF h stage_unseen [OF stage v] ready(2) r(1)],
        of "uuid_New sys (Suc (tick s0))" reason] r(2) ready(3)
    by (intro order_stage_moves [OF stage order_service.exec_inv [OF ready(1)] _ refl]) (auto simp: r(2))
qed

lemma order_stage_completed:
  assumes h: "healthy sys (tick s)" and stage: "order_stage sys s0 input k OrderStatusConfirmed xs [] s"
    and v: "uuid_in sys eid = Some v" "v \<notin> dom (processed_events (durable s0)) \<union> xs"
    and ids: "fresh_ids sys (tick s0) b (order_ids (durable s0))" and room: "tick s + 10 \<le> b"
  shows "order_stage sys s0 input (k + 10) OrderStatusCompleted (insert v xs)
    [new_message sys (tick s + 7) ''Order'' (uuid_New sys (Suc (tick s0))) EventTypeOrderCompleted
       (EvOrderCompleted (completed_event sys (tick s) (uuid_New sys (Suc (tick s0))))) (server_time sys (tick s))]
    (order_exec sys (CallPaymentCompleted eid (uuid_New sys (Suc (tick s0)))) s)"
proof -
  obtain r where r: "r \<in> set (orders (durable s))" "o_id r = uuid_New sys (Suc (tick s0))" "o_status r = OrderStatusConfirmed"
    using stage by (rule stage_order_row)
  note ready = stage_order_ready [OF stage]
  have oid: "ascii_text (uuid_New sys (Suc (tick s0)))" "length (uuid_New sys (Suc (tick s0))) \<le> 255"
    using fresh_id [OF ids, of "Suc (tick s0)"] room stage by (simp_all add: order_stage_def)
  show ?thesis
    using wpc_final [OF order_PaymentCompleted_calm [OF h stage_unseen [OF stage v] ready(2) r(1) _ r(3)
        stage_order_ids [OF ids stage] room oid]] r(2) ready(3)
    by (intro order_stage_moves [OF stage order_service.exec_inv [OF ready(1)] _ refl]) (auto simp: r(2) intro: exI [of _ 7])
qed

lemma order_stage_cancelled:
  assumes h: "healthy sys (tick s)" and stage: "order_stage sys s0 input k OrderStatusConfirmed xs [] s"
    and v: "uuid_in sys eid = Some v" "v \<notin> dom (processed_events (durable s0)) \<union> xs" and reason: "ascii_text reason"
    and ids: "fresh_ids sys (tick s0) b (order_ids (durable s0))" and room: "tick s + 10 \<le> b"
  shows "order_stage sys s0 input (k + 10) OrderStatusCancelled (insert v xs)
    [new_message sys (tick s + 7) ''Order'' (uuid_New sys (Suc (tick s0))) EventTypeOrderCancelled
       (EvOrderCancelled (cancelled_event sys (tick s) (uuid_New sys (Suc (tick s0))) reason)) (server_time sys (tick s))]
    (order_exec sys (CallPaymentFailed eid (uuid_New sys (Suc (tick s0))) reason) s)"
proof -
  obtain r where r: "r \<in> set (orders (durable s))" "o_id r = uuid_New sys (Suc (tick s0))" "o_status r = OrderStatusConfirmed"
    using stage by (rule stage_order_row)
  note ready = stage_order_ready [OF stage]
  have oid: "ascii_text (uuid_New sys (Suc (tick s0)))" "length (uuid_New sys (Suc (tick s0))) \<le> 255"
    using fresh_id [OF ids, of "Suc (tick s0)"] room stage by (simp_all add: order_stage_def)
  have "o_status r \<noteq> OrderStatusCompleted" by (simp add: r(3) OrderStatus_defs)
  then show ?thesis
    using wpc_final [OF order_PaymentFailed_calm [OF h stage_unseen [OF stage v] ready(2) r(1) _ _
        stage_order_ids [OF ids stage] room oid reason]] r(2) ready(3)
    by (intro order_stage_moves [OF stage order_service.exec_inv [OF ready(1)] _ refl]) (auto simp: r(2) intro: exI [of _ 7])
qed

text \<open>The relay of the order service.\<close>

lemma order_stage_relayed:
  assumes h: "healthy sys (tick s)" and stage: "order_stage sys s0 input k st xs [m] s"
  shows "order_stage sys s0 input (k + 6) st xs [] (order_exec sys CallOrderRelay s)"
    "news s (order_exec sys CallOrderRelay s) = [subject_of m]"
proof -
  note ready = stage_order_ready [OF stage]
  have "outbox_wf sys (durable s)" "backlog (durable s) = [m]"
    using ready stage by (simp_all add: order_keys_ok_def order_stage_def)
  note res = wpc_final [OF relay_one_calm [OF h this]]
  then show "news s (order_exec sys CallOrderRelay s) = [subject_of m]" by (simp add: news_def)
  have "orders (sent m n (durable s)) = orders (durable s)" for n by (simp add: sent_def)
  then show "order_stage sys s0 input (k + 6) st xs [] (order_exec sys CallOrderRelay s)"
    using stage res order_service.exec_inv [OF ready(1), of CallOrderRelay] backlog_sent [of "durable s" m]
    by (auto simp: order_stage_def intro: drawn_ids)
qed

lemma order_stage_idle:
  assumes h: "healthy sys (tick s)" and stage: "order_stage sys s0 input k st xs [] s"
  shows "order_stage sys s0 input (k + 3) st xs [] (order_exec sys CallOrderRelay s)"
    "news s (order_exec sys CallOrderRelay s) = []"
proof -
  note ready = stage_order_ready [OF stage]
  have "backlog (durable s) = []" using stage by (simp add: order_stage_def)
  note res = wpc_final [OF relay_none_calm [OF h this]]
  then show "news s (order_exec sys CallOrderRelay s) = []" by (simp add: news_def)
  show "order_stage sys s0 input (k + 3) st xs [] (order_exec sys CallOrderRelay s)"
    using stage res by (auto simp: order_stage_def intro: drawn_ids)
qed

section \<open>A relay with one message, and with none\<close>

lemma relayed_one:
  assumes "healthy sys (tick s)" and "outbox_wf sys (durable s)" and "backlog (durable s) = [m]"
    and "s' = snd (processPendingMessages sys (nats_Publish sys) s)"
  shows "news s s' = [subject_of m]" "backlog (durable s') = []" "\<exists>n. durable s' = sent m n (durable s)"
    "tick s' = tick s + 6"
  using wpc_final [OF relay_one_calm [OF assms(1-3)]] backlog_sent [OF assms(3)] by (auto simp: news_def assms(4))

lemma relayed_none:
  assumes "healthy sys (tick s)" and "backlog (durable s) = []"
    and "s' = snd (processPendingMessages sys (nats_Publish sys) s)"
  shows "news s s' = []" "durable s' = durable s" "tick s' = tick s + 3"
  using wpc_final [OF relay_none_calm [OF assms(1,2)]] by (auto simp: news_def assms(3))


section \<open>The inventory service on the way\<close>

definition stock_levels :: "inventory_db \<Rightarrow> (string \<times> int \<times> int) list" where
  "stock_levels db = map (\<lambda>i. (i_product_id i, i_quantity i, i_reserved_quantity i)) (inventory db)"

definition inventory_ids :: "inventory_db \<Rightarrow> string set" where
  "inventory_ids db = rv_id ` set (reservations db) \<union> msg_ID ` set (outbox db)"

lemma sent_inventory [simp]:
  "inventory (sent m n db) = inventory db" "reservations (sent m n db) = reservations db"
  by (simp_all add: sent_def)

lemma inventory_takes:
  assumes h: "\<And>n. healthy sys n" and ready: "inventory_ready sys (durable s)" and rest: "backlog (durable s) = []"
    and new: "unseen sys eid v (durable s)" and stock: "available (durable s) p (sint q)"
    and q: "0 < sint q" "int4_ok (sint q)" and oid: "uuid_in sys oid = Some ord" "order_texts oid p cid"
    and ids: "fresh_ids sys (tick s) b (inventory_ids (durable s))" and room: "tick s + 13 \<le> b"
    and s1: "s1 = inventory_exec sys (CallOrderCreated eid oid p cid q amount) s"
    and s2: "s2 = inventory_exec sys CallInventoryRelay s1"
  shows "news s1 s2 = [subject_of (new_message sys (tick s + 10) ''Inventory'' oid EventTypeStockReserved
      (EvStockReserved (reserved_event sys (tick s) oid p cid q amount)) (server_time sys (tick s)))]"
    "inventory_ready sys (durable s2)" "backlog (durable s2) = []"
    "dom (processed_events (durable s2)) = insert v (dom (processed_events (durable s)))"
    "\<exists>i \<in> set (inventory (durable s)). \<exists>n. i_product_id i = p \<and> inventory (durable s2) =
        inventory (take_stock i n (reserved_row sys (tick s) ord p q) (durable s))"
    "reservations (durable s2) = reservations (durable s) @ [reserved_row sys (tick s) ord p q]"
proof -
  obtain i where i: "i \<in> set (inventory (durable s))" "i_product_id i = p" "sint q \<le> i_quantity i - i_reserved_quantity i"
    using stock by (auto simp: available_def)
  have ok: "stock_ok sys (durable s)" using ready by (simp add: inventory_ready_def inventory_inv_def)
  let ?m = "new_message sys (tick s + 10) ''Inventory'' oid EventTypeStockReserved
      (EvStockReserved (reserved_event sys (tick s) oid p cid q amount)) (server_time sys (tick s))"
  let ?r = "reserved_row sys (tick s) ord p q"
  have d1: "durable s1 = add_message ?m (take_stock i (server_time sys (tick s)) ?r
      (mark_processed v EventTypeOrderCreated (server_time sys (tick s)) (durable s)))"
    using wpc_final [OF inventory_reserves_calm [OF h new ok i q oid ids [unfolded inventory_ids_def] room], of amount]
    by (simp add: s1)
  have ready1: "inventory_ready sys (durable s1)" unfolding s1 by (rule inventory_service.exec_inv [OF ready])
  then have wf: "outbox_wf sys (durable s1)" by (simp add: inventory_ready_def inventory_inv_def)
  have queue: "backlog (durable s1) = [?m]" using rest by (simp add: d1 backlog_def)
  note sends = relayed_one [OF h wf queue s2 [unfolded inventory_exec.simps]]
  show "news s1 s2 = [subject_of ?m]" "backlog (durable s2) = []" using sends by simp_all
  show "inventory_ready sys (durable s2)" unfolding s2 by (rule inventory_service.exec_inv [OF ready1])
  obtain n where d2: "durable s2 = sent ?m n (durable s1)" using sends(3) by blast
  show "dom (processed_events (durable s2)) = insert v (dom (processed_events (durable s)))"
    "reservations (durable s2) = reservations (durable s) @ [?r]" by (simp_all add: d1 d2 mark_processed_def)
  have "inventory (durable s2) = inventory (take_stock i (server_time sys (tick s)) ?r (durable s))"
    by (simp add: d1 d2)
  with i show "\<exists>i \<in> set (inventory (durable s)). \<exists>n. i_product_id i = p \<and> inventory (durable s2) =
        inventory (take_stock i n ?r (durable s))" by blast
qed

lemma inventory_turns_down:
  assumes h: "\<And>n. healthy sys n" and ready: "inventory_ready sys (durable s)" and rest: "backlog (durable s) = []"
    and new: "unseen sys eid v (durable s)" and none: "\<not> available (durable s) p (sint q)"
    and q: "0 < sint q" and oid: "order_texts oid p cid"
    and ids: "fresh_ids sys (tick s) b (inventory_ids (durable s))" and room: "tick s + 13 \<le> b"
    and s1: "s1 = inventory_exec sys (CallOrderCreated eid oid p cid q amount) s"
    and s2: "s2 = inventory_exec sys CallInventoryRelay s1"
  obtains n reason where "news s1 s2 = [subject_of (new_message sys (n + 2) ''Inventory'' oid EventTypeStockReserveFailed
      (EvStockReserveFailed (refused_event sys n oid p q reason)) (server_time sys (tick s)))]"
    "tick s < n" "n \<le> tick s + 4" "ascii_text reason"
    "backlog (durable s2) = []" "inventory (durable s2) = inventory (durable s)"
    "reservations (durable s2) = reservations (durable s)"
proof -
  have ok: "stock_ok sys (durable s)" using ready by (simp add: inventory_ready_def inventory_inv_def)
  have "fresh_ids sys (tick s) b (msg_ID ` set (outbox (durable s)))"
    by (rule fresh_ids_later [OF ids]) (auto simp: inventory_ids_def)
  from wpc_final [OF inventory_refuses_calm [OF h new ok none q oid this room], of amount]
  obtain n reason where n: "tick s < n" "n \<le> tick s + 4" "reason \<in> {''product not found'', ''insufficient stock''}"
    and d1: "durable s1 = add_message (new_message sys (n + 2) ''Inventory'' oid EventTypeStockReserveFailed
           (EvStockReserveFailed (refused_event sys n oid p q reason)) (server_time sys (tick s)))
         (mark_processed v EventTypeOrderCreated (server_time sys (tick s)) (durable s))"
    by (auto simp: s1)
  let ?m = "new_message sys (n + 2) ''Inventory'' oid EventTypeStockReserveFailed
           (EvStockReserveFailed (refused_event sys n oid p q reason)) (server_time sys (tick s))"
  have "inventory_ready sys (durable s1)" unfolding s1 by (rule inventory_service.exec_inv [OF ready])
  then have wf: "outbox_wf sys (durable s1)" by (simp add: inventory_ready_def inventory_inv_def)
  have queue: "backlog (durable s1) = [?m]" using rest by (simp add: d1)
  note sends = relayed_one [OF h wf queue s2 [unfolded inventory_exec.simps]]
  obtain k where d2: "durable s2 = sent ?m k (durable s1)" using sends(3) by blast
  show thesis
  proof (rule that)
    show "news s1 s2 = [subject_of ?m]" "backlog (durable s2) = []" using sends by simp_all
    show "ascii_text reason" using n(3) by (auto simp: ascii_text_def)
  qed (use n in \<open>simp_all add: d1 d2\<close>)
qed

text \<open>What becomes of the stock when the new reservation is settled.\<close>

lemma settle_untouched:
  "(\<And>x. x \<in> set rs \<Longrightarrow> \<not> P x) \<Longrightarrow> map (settle_res st P now) rs = rs"
  by (induction rs) (simp_all add: settle_res_def)

lemma taken_then_settled:
  assumes ok: "stock_ok sys db" and i: "i \<in> set (inventory db)" "i_product_id i = rv_product_id r"
    and r: "rv_order_id r \<notin> rv_order_id ` set (reservations db)" "rv_status r = ReservationStatusReserved"
    and db': "inventory db' = inventory (take_stock i n r db)" "reservations db' = reservations db @ [r]"
  shows "reservations (settled st dq (\<lambda>x. rv_order_id x = rv_order_id r) k db') =
      reservations db @ [r\<lparr>rv_status := st, rv_updated_at := k\<rparr>]"
    "stock_levels (settled st dq (\<lambda>x. rv_order_id x = rv_order_id r) k db') =
      map (\<lambda>(p, a, h). (p, if p = rv_product_id r then a - dq * rv_quantity r else a, h)) (stock_levels db)"
proof -
  let ?P = "\<lambda>x. rv_order_id x = rv_order_id r"
  have old: "\<not> ?P x" if "x \<in> set (reservations db)" for x using r(1) that by (auto simp: image_iff)
  then show "reservations (settled st dq ?P k db') = reservations db @ [r\<lparr>rv_status := st, rv_updated_at := k\<rparr>]"
    using r(2) by (simp add: db'(2) settle_untouched) (simp add: settle_res_def)
  have "held ?P p (reservations db') = (if p = rv_product_id r then rv_quantity r else 0)" for p
    using old r(2) held_none [of "reservations db" ?P p] by (auto simp: db'(2) open_res_def)
  moreover have "i_id x = i_id i \<longleftrightarrow> x = i" "i_product_id x = i_product_id i \<longleftrightarrow> x = i" if "x \<in> set (inventory db)" for x
    using ok i(1) that by (auto simp: stock_ok_def stock_keys_ok_def distinct_map inj_on_def)
  ultimately show "stock_levels (settled st dq ?P k db') =
      map (\<lambda>(p, a, h). (p, if p = rv_product_id r then a - dq * rv_quantity r else a, h)) (stock_levels db)"
    using i(2) by (auto simp: stock_levels_def db'(1) upd_where_def comp_def)
qed


section \<open>The payment service on the way\<close>

definition payment_ids :: "payment_db \<Rightarrow> string set" where
  "payment_ids db = p_id ` set (payments db) \<union> msg_ID ` set (outbox db)"

lemma sent_payments [simp]: "payments (sent m n db) = payments db"
  by (simp add: sent_def)

lemma payment_charges:
  assumes h: "\<And>n. healthy sys n" and ready: "payment_ready sys (durable s)" and rest: "backlog (durable s) = []"
    and new: "unseen sys eid v (durable s)"
    and oid: "uuid_in sys oid = Some ord" "ascii_text oid" "length oid \<le> 255"
    and cid: "ascii_text cid" "length cid \<le> 255" and amount: "0 < amount" "numeric_in sys amount \<noteq> None"
    and ids: "fresh_ids sys (tick s) b (payment_ids (durable s))" and room: "tick s + 12 \<le> b"
    and s1: "s1 = payment_exec sys (CallPaymentStockReserved uc eid oid cid amount) s"
    and s2: "s2 = payment_exec sys CallPaymentRelay s1"
  obtains d n where "decision sys uc amount d" "n = tick s + 4 \<or> n = tick s + 5"
    "news s1 s2 = [subject_of (new_message sys (n + 4) ''Payment'' oid (event_kind (charge_event sys (tick s) n d oid amount))
       (charge_event sys (tick s) n d oid amount) (server_time sys (tick s)))]"
    "payment_ready sys (durable s2)" "backlog (durable s2) = []"
    "dom (processed_events (durable s2)) = insert v (dom (processed_events (durable s)))"
    "payments (durable s2) = payments (durable s) @ [charged_row sys (tick s) n d ord cid amount]"
proof -
  from wpc_final [OF payment_charges_calm [OF h new oid cid amount ids [unfolded payment_ids_def] room], of uc]
  obtain d n where d: "decision sys uc amount d" and n: "n = tick s + 4 \<or> n = tick s + 5"
    and d1: "durable s1 = add_message (new_message sys (n + 4) ''Payment'' oid (event_kind (charge_event sys (tick s) n d oid amount))
           (charge_event sys (tick s) n d oid amount) (server_time sys (tick s)))
         (add_payment (charged_row sys (tick s) n d ord cid amount)
           (mark_processed v EventTypeStockReserved (server_time sys (tick s)) (durable s)))"
    by (auto simp: s1)
  let ?m = "new_message sys (n + 4) ''Payment'' oid (event_kind (charge_event sys (tick s) n d oid amount))
           (charge_event sys (tick s) n d oid amount) (server_time sys (tick s))"
  have ready1: "payment_ready sys (durable s1)" unfolding s1 by (rule payment_service.exec_inv [OF ready])
  then have wf: "outbox_wf sys (durable s1)" by (simp add: payment_ready_def payment_inv_def)
  have queue: "backlog (durable s1) = [?m]" using rest by (simp add: d1 backlog_def)
  note sends = relayed_one [OF h wf queue s2 [unfolded payment_exec.simps]]
  obtain k where d2: "durable s2 = sent ?m k (durable s1)" using sends(3) by blast
  show thesis
  proof (rule that)
    show "news s1 s2 = [subject_of ?m]" "backlog (durable s2) = []" using sends by simp_all
    show "payment_ready sys (durable s2)" unfolding s2 by (rule payment_service.exec_inv [OF ready1])
    show "dom (processed_events (durable s2)) = insert v (dom (processed_events (durable s)))"
      by (simp add: d1 d2 mark_processed_def)
  qed (use d n in \<open>simp_all add: d1 d2\<close>)
qed

text \<open>The news that an order was cancelled leaves a declined payment as it is.\<close>

lemma payment_stays_declined:
  assumes h: "healthy sys (tick s)" and new: "unseen sys eid v (durable s)" and oid: "uuid_in sys oid = Some ord"
    and pay: "payments (durable s) = ps @ [r]" "p_order_id r = ord" "p_status r \<noteq> PaymentStatusCompleted"
    and fresh: "ord \<notin> p_order_id ` set ps"
    and s': "s' = payment_exec sys (CallPaymentOrderCancelled eid oid) s"
  shows "payments (durable s') = payments (durable s)" "backlog (durable s') = backlog (durable s)"
proof -
  have "filter (\<lambda>r. p_order_id r = ord) ps = []" using fresh by (auto simp: filter_empty_conv image_iff)
  then have "filter (\<lambda>r. p_order_id r = ord) (payments (durable s)) = [r]" using pay(1,2) by simp
  from wpc_final [OF payment_cancel_calm [OF h new oid this pay(3)]]
  have "durable s' = mark_processed v EventTypeOrderCancelled (server_time sys (tick s)) (durable s)" by (simp add: s')
  then show "payments (durable s') = payments (durable s)" "backlog (durable s') = backlog (durable s)" by simp_all
qed

end
