(* ===== verification/Saga_Settles.thy ===== *)
theory Saga_Settles
  imports Saga_Stages
begin

text \<open>
  What one order does to the three databases together, when nothing fails: what a shop with one
  table for each thing would do in one step.
\<close>

section \<open>A shop\<close>

text \<open>
  The databases without IDs of rows and without times: sales (order, customer, product, quantity,
  cents, status), the stock of each product (quantity, reserved), what is held for an order, and
  what was charged.
\<close>

record shop =
  sales :: "(string \<times> string \<times> string \<times> int \<times> int \<times> string) list"
  levels :: "(string \<times> int \<times> int) list"
  holds :: "(string \<times> string \<times> int \<times> string) list"
  charges :: "(string \<times> string \<times> int \<times> string) list"

definition shop_of :: "world \<Rightarrow> shop" where
  "shop_of w =
     \<lparr>sales = map (\<lambda>r. (o_id r, o_customer_id r, o_product_id r, o_quantity r, o_total_amount r, o_status r)) (orders (order_store w)),
      levels = stock_levels (inventory_store w),
      holds = map (\<lambda>r. (rv_order_id r, rv_product_id r, rv_quantity r, rv_status r)) (reservations (inventory_store w)),
      charges = map (\<lambda>r. (p_order_id r, p_customer_id r, p_amount r, p_status r)) (payments (payment_store w))\<rparr>"

definition in_stock :: "shop \<Rightarrow> string \<Rightarrow> int \<Rightarrow> bool" where
  "in_stock sh p q \<longleftrightarrow> (\<exists>(p', a, h) \<in> set (levels sh). p' = p \<and> q \<le> a - h)"

text \<open>An order with the ID \<open>u\<close> over an amount of \<open>cents\<close>, whose payment is declined or not.\<close>

definition place_order :: "CreateOrderInput \<Rightarrow> string \<Rightarrow> int \<Rightarrow> bool \<Rightarrow> shop \<Rightarrow> shop" where
  "place_order input u cents declined sh =
     (let c = in_CustomerID input; p = in_ProductID input; q = sint (in_Quantity input);
          sold = (\<lambda>st. sales sh @ [(u, c, p, q, cents, st)])
      in if \<not> in_stock sh p q then sh\<lparr>sales := sold OrderStatusCancelled\<rparr>
         else if declined
         then sh\<lparr>sales := sold OrderStatusCancelled, holds := holds sh @ [(u, p, q, ReservationStatusReleased)],
                 charges := charges sh @ [(u, c, cents, PaymentStatusFailed)]\<rparr>
         else sh\<lparr>sales := sold OrderStatusCompleted,
                 levels := map (\<lambda>(p', a, h). (p', if p' = p then a - q else a, h)) (levels sh),
                 holds := holds sh @ [(u, p, q, ReservationStatusCommitted)],
                 charges := charges sh @ [(u, c, cents, PaymentStatusCompleted)]\<rparr>)"

lemma in_stock_available: "in_stock (shop_of w) p q \<longleftrightarrow> available (inventory_store w) p q"
  by (auto simp: in_stock_def shop_of_def stock_levels_def available_def)


section \<open>A world at rest\<close>

text \<open>The UUIDs that occur in the databases.\<close>

definition ids_in_use :: "world \<Rightarrow> string set" where
  "ids_in_use w =
     order_ids (order_store w) \<union> inventory_ids (inventory_store w) \<union> payment_ids (payment_store w) \<union>
     dom (processed_events (order_store w)) \<union> dom (processed_events (inventory_store w)) \<union>
     dom (processed_events (payment_store w)) \<union>
     rv_order_id ` set (reservations (inventory_store w)) \<union> p_order_id ` set (payments (payment_store w))"

text \<open>The next forty calls of each service draw UUIDs that occur nowhere, each once.\<close>

definition new_ids :: "sys \<Rightarrow> sys \<Rightarrow> sys \<Rightarrow> world \<Rightarrow> bool" where
  "new_ids osys isys psys w \<longleftrightarrow>
     (let t = tick (order_proc w); i = tick (inventory_proc w); p = tick (payment_proc w);
          A = uuid_New osys ` {t..<t + 40}; B = uuid_New isys ` {i..<i + 40}; C = uuid_New psys ` {p..<p + 40}
      in fresh_ids osys t (t + 40) (ids_in_use w) \<and> fresh_ids isys i (i + 40) (ids_in_use w) \<and>
         fresh_ids psys p (p + 40) (ids_in_use w) \<and> A \<inter> B = {} \<and> A \<inter> C = {} \<and> B \<inter> C = {})"

text \<open>No message waits in an outbox.\<close>

definition all_sent :: "world \<Rightarrow> bool" where
  "all_sent w \<longleftrightarrow> backlog (order_store w) = [] \<and> backlog (inventory_store w) = [] \<and> backlog (payment_store w) = []"

definition at_rest :: "sys \<Rightarrow> sys \<Rightarrow> sys \<Rightarrow> CreateOrderInput \<Rightarrow> world \<Rightarrow> bool" where
  "at_rest osys isys psys input w \<longleftrightarrow>
     run_env osys isys psys \<and> services_ready osys isys psys w \<and> all_sent w \<and> input_ok osys input \<and> new_ids osys isys psys w"

lemma at_rest_healthy:
  assumes "at_rest osys isys psys input w"
  shows "healthy osys n" "healthy isys n" "healthy psys n"
  using assms run_env_healthy [of osys isys psys] by (simp_all add: at_rest_def)

lemma at_rest_ready:
  assumes "at_rest osys isys psys input w"
  shows "run_env osys isys psys" "order_ready osys (order_store w)" "inventory_ready isys (inventory_store w)"
    "payment_ready psys (payment_store w)" "backlog (order_store w) = []" "backlog (inventory_store w) = []"
    "backlog (payment_store w) = []" "input_ok osys input"
  using assms by (simp_all add: at_rest_def services_ready_def all_sent_def)

lemma fresh_ids_part: "fresh_ids sys t b used \<Longrightarrow> used' \<subseteq> used \<Longrightarrow> fresh_ids sys t b used'"
  by (auto simp: fresh_ids_def)

lemma at_rest_fresh:
  assumes "at_rest osys isys psys input w"
  shows "fresh_ids osys (tick (order_proc w)) (tick (order_proc w) + 40) (order_ids (order_store w))"
    "fresh_ids isys (tick (inventory_proc w)) (tick (inventory_proc w) + 40) (inventory_ids (inventory_store w))"
    "fresh_ids psys (tick (payment_proc w)) (tick (payment_proc w) + 40) (payment_ids (payment_store w))"
  using assms by (auto simp: at_rest_def new_ids_def Let_def ids_in_use_def intro: fresh_ids_part)

lemma at_rest_drawn:
  assumes "at_rest osys isys psys input w"
  shows "i < 40 \<Longrightarrow> uuid_New osys (tick (order_proc w) + i) \<notin> ids_in_use w"
    "i < 40 \<Longrightarrow> uuid_New isys (tick (inventory_proc w) + i) \<notin> ids_in_use w"
    "i < 40 \<Longrightarrow> uuid_New psys (tick (payment_proc w) + i) \<notin> ids_in_use w"
  using assms by (simp_all add: at_rest_def new_ids_def Let_def fresh_ids_def)

lemma at_rest_apart:
  assumes "at_rest osys isys psys input w" and "i < 40" and "j < 40"
  shows "uuid_New osys (tick (order_proc w) + i) = uuid_New osys (tick (order_proc w) + j) \<longleftrightarrow> i = j"
    "uuid_New osys (tick (order_proc w) + i) \<noteq> uuid_New isys (tick (inventory_proc w) + j)"
    "uuid_New isys (tick (inventory_proc w) + i) \<noteq> uuid_New psys (tick (payment_proc w) + j)"
proof -
  let ?O = "uuid_New osys ` {tick (order_proc w)..<tick (order_proc w) + 40}"
    and ?I = "uuid_New isys ` {tick (inventory_proc w)..<tick (inventory_proc w) + 40}"
    and ?P = "uuid_New psys ` {tick (payment_proc w)..<tick (payment_proc w) + 40}"
  have "?O \<inter> ?I = {}" "?I \<inter> ?P = {}" using assms(1) by (simp_all add: at_rest_def new_ids_def Let_def)
  moreover have "uuid_New osys (tick (order_proc w) + i) \<in> ?O" "uuid_New isys (tick (inventory_proc w) + j) \<in> ?I"
    "uuid_New isys (tick (inventory_proc w) + i) \<in> ?I" "uuid_New psys (tick (payment_proc w) + j) \<in> ?P"
    using assms(2,3) by simp_all
  ultimately show "uuid_New osys (tick (order_proc w) + i) \<noteq> uuid_New isys (tick (inventory_proc w) + j)"
    "uuid_New isys (tick (inventory_proc w) + i) \<noteq> uuid_New psys (tick (payment_proc w) + j)" by (metis disjoint_iff)+
  show "uuid_New osys (tick (order_proc w) + i) = uuid_New osys (tick (order_proc w) + j) \<longleftrightarrow> i = j"
    using fresh_ids_differ [OF at_rest_fresh(1) [OF assms(1)], of "tick (order_proc w) + i" "tick (order_proc w) + j"] assms(2,3)
    by simp
qed

lemma at_rest_uuids:
  assumes "at_rest osys isys psys input w" and "X \<in> {osys, isys, psys}" and "Y \<in> {osys, isys, psys}"
  shows "uuid_in X (uuid_New Y n) = Some (uuid_New Y n)"
proof -
  have "uuid_in X = uuid_in Y" using at_rest_ready(1) [OF assms(1)] assms(2,3) by (auto simp: run_env_def)
  moreover have "uuids_ok Y"
    using assms(3) at_rest_healthy [OF assms(1), of 0] by (auto dest: healthy_facts(3))
  ultimately show ?thesis by (simp add: uuids_ok_def)
qed

lemma at_rest_texts:
  assumes "at_rest osys isys psys input w"
  shows "order_texts (uuid_New osys (Suc (tick (order_proc w)))) (in_ProductID input) (in_CustomerID input)"
  using fresh_id [OF at_rest_fresh(1) [OF assms], of "Suc (tick (order_proc w))"] at_rest_ready(8) [OF assms]
  by (simp add: order_texts_def input_ok_def)


section \<open>The turns of a run\<close>

text \<open>What a service tells the others takes effect in its turn.\<close>

lemma turn_told:
  assumes "run_env osys isys psys" and "told osys isys psys x ev"
  shows "s = order_exec osys CallOrderRelay (order_proc w) \<Longrightarrow> news (order_proc w) s = [x] \<Longrightarrow>
      order_turn osys isys psys uc w = act_on osys isys psys uc ev (w\<lparr>order_proc := s\<rparr>)"
    "t = inventory_exec isys CallInventoryRelay (inventory_proc w) \<Longrightarrow> news (inventory_proc w) t = [x] \<Longrightarrow>
      inventory_turn osys isys psys uc w = act_on osys isys psys uc ev (w\<lparr>inventory_proc := t\<rparr>)"
    "v = payment_exec psys CallPaymentRelay (payment_proc w) \<Longrightarrow> news (payment_proc w) v = [x] \<Longrightarrow>
      payment_turn osys isys psys uc w = act_on osys isys psys uc ev (w\<lparr>payment_proc := v\<rparr>)"
  by (simp_all add: order_turn_def inventory_turn_def payment_turn_def Let_def hand_over_told [OF assms]
      del: order_exec.simps inventory_exec.simps payment_exec.simps)

text \<open>A turn without news changes nothing.\<close>

definition same_stores :: "world \<Rightarrow> world \<Rightarrow> bool" where
  "same_stores w w' \<longleftrightarrow> order_store w' = order_store w \<and> inventory_store w' = inventory_store w \<and> payment_store w' = payment_store w"

lemma same_stores_shop: "same_stores w w' \<Longrightarrow> shop_of w' = shop_of w" "same_stores w w' \<Longrightarrow> all_sent w' = all_sent w"
  by (simp_all add: same_stores_def shop_of_def all_sent_def)

lemma same_stores_trans: "same_stores w w' \<Longrightarrow> same_stores w' w'' \<Longrightarrow> same_stores w w''"
  by (simp add: same_stores_def)

lemma turn_idle:
  assumes "at_rest osys isys psys input w0" and "all_sent w"
  shows "same_stores w (order_turn osys isys psys uc w)" "same_stores w (inventory_turn osys isys psys uc w)"
    "same_stores w (payment_turn osys isys psys uc w)"
  using relayed_none [OF at_rest_healthy(1) [OF assms(1)] _ refl, of "order_proc w"]
    relayed_none [OF at_rest_healthy(2) [OF assms(1)] _ refl, of "inventory_proc w"]
    relayed_none [OF at_rest_healthy(3) [OF assms(1)] _ refl, of "payment_proc w"] assms(2)
  by (simp_all add: order_turn_def inventory_turn_def payment_turn_def Let_def same_stores_def all_sent_def)

lemma turns_idle:
  assumes "at_rest osys isys psys input w0" and "all_sent w" and "same_stores w u"
  shows "same_stores w (order_turn osys isys psys uc u)" "same_stores w (inventory_turn osys isys psys uc u)"
    "same_stores w (payment_turn osys isys psys uc u)"
  using turn_idle [OF assms(1), of u uc] assms(2,3) same_stores_shop(2) same_stores_trans by blast+

lemma run_event_fields [simp]:
  "EventID (placed_event X t input) = uuid_New X (t + 4)" "oc_OrderID (placed_event X t input) = uuid_New X (Suc t)"
  "oc_ProductID (placed_event X t input) = in_ProductID input" "oc_CustomerID (placed_event X t input) = in_CustomerID input"
  "oc_Quantity (placed_event X t input) = in_Quantity input" "oc_TotalAmount (placed_event X t input) = in_TotalAmount input"
  "EventID (reserved_event X t oid p cid q amount) = uuid_New X (t + 8)" "sr_OrderID (reserved_event X t oid p cid q amount) = oid"
  "sr_CustomerID (reserved_event X t oid p cid q amount) = cid" "sr_TotalAmount (reserved_event X t oid p cid q amount) = amount"
  "EventID (refused_event X t oid p q reason) = uuid_New X t" "sf_OrderID (refused_event X t oid p q reason) = oid"
  "sf_Reason (refused_event X t oid p q reason) = reason"
  "EventID (completed_event X t oid) = uuid_New X (t + 5)" "od_OrderID (completed_event X t oid) = oid"
  "EventID (cancelled_event X t oid reason) = uuid_New X (t + 5)" "ox_OrderID (cancelled_event X t oid reason) = oid"
  "EventID (paid_event X t n oid amount) = uuid_New X (n + 2)" "pc_OrderID (paid_event X t n oid amount) = oid"
  "EventID (declined_event X n oid) = uuid_New X (n + 2)" "pf_OrderID (declined_event X n oid) = oid"
  "pf_Reason (declined_event X n oid) = decline_reason"
  by (simp_all add: placed_event_def reserved_event_def refused_event_def completed_event_def cancelled_event_def
      paid_event_def declined_event_def)

text \<open>The order is announced to the inventory service.\<close>

lemma turn_announced:
  assumes rest: "at_rest osys isys psys input w"
    and o1: "o1 = order_exec osys (CallCreateOrder input) (order_proc w)" and o2: "o2 = order_exec osys CallOrderRelay o1"
    and oid: "oid = uuid_New osys (Suc (tick (order_proc w)))"
    and i1: "i1 = inventory_exec isys (CallOrderCreated (uuid_New osys (tick (order_proc w) + 4)) oid (in_ProductID input)
        (in_CustomerID input) (in_Quantity input) (in_TotalAmount input)) (inventory_proc w)"
  shows "order_turn osys isys psys uc (w\<lparr>order_proc := o1\<rparr>) = w\<lparr>order_proc := o2, inventory_proc := i1\<rparr>"
    "order_stage osys (order_proc w) input 15 OrderStatusPending {} [] o2"
proof -
  note facts = at_rest_ready [OF rest] and h = at_rest_healthy [OF rest]
  let ?t = "tick (order_proc w)"
  let ?e = "EvOrderCreated (placed_event osys ?t input)"
  let ?m = "new_message osys (?t + 6) ''Order'' oid EventTypeOrderCreated ?e (server_time osys (?t + 2))"
  have stage: "order_stage osys (order_proc w) input 9 OrderStatusPending {} [?m] o1"
    using order_placed_stage(2) [OF h(1) facts(2,5) at_rest_fresh(1) [OF rest] _ facts(8)] by (simp add: o1 oid)
  note sends = order_stage_relayed [OF h(1) stage, folded o2]
  have "15 = 9 + (6 :: nat)" by simp
  with sends(1) show "order_stage osys (order_proc w) input 15 OrderStatusPending {} [] o2" by metis
  have told: "told osys isys psys (subject_of ?m) ?e"
    by (rule told_new_message [OF h(1) run_events_plain(1) [OF h(1) at_rest_fresh(1) [OF rest] _ facts(8)] _
          run_events_ok(1) [OF healthy_facts(8) [OF h(1)]]])
       (use facts(8) in \<open>auto simp: input_ok_def\<close>)
  show "order_turn osys isys psys uc (w\<lparr>order_proc := o1\<rparr>) = w\<lparr>order_proc := o2, inventory_proc := i1\<rparr>"
    using turn_told(1) [OF facts(1) told, of o2 "w\<lparr>order_proc := o1\<rparr>" uc] sends(2)
    by (simp add: o2 i1 oid del: order_exec.simps inventory_exec.simps)
qed

text \<open>The stock is reserved: the order is confirmed and charged.\<close>

lemma turn_reserved:
  assumes rest: "at_rest osys isys psys input w"
    and oid: "oid = uuid_New osys (Suc (tick (order_proc w)))" and sid: "sid = uuid_New isys (tick (inventory_proc w) + 8)"
    and stock: "available (inventory_store w) (in_ProductID input) (sint (in_Quantity input))"
    and o2: "order_stage osys (order_proc w) input k OrderStatusPending {} [] o2"
    and i1: "i1 = inventory_exec isys (CallOrderCreated (uuid_New osys (tick (order_proc w) + 4)) oid (in_ProductID input)
        (in_CustomerID input) (in_Quantity input) (in_TotalAmount input)) (inventory_proc w)"
    and i2: "i2 = inventory_exec isys CallInventoryRelay i1"
    and o3: "o3 = order_exec osys (CallStockReserved sid oid) o2"
    and p1: "p1 = payment_exec psys (CallPaymentStockReserved uc sid oid (in_CustomerID input) (in_TotalAmount input)) (payment_proc w)"
  shows "inventory_turn osys isys psys uc (w\<lparr>order_proc := o2, inventory_proc := i1\<rparr>) =
      w\<lparr>order_proc := o3, inventory_proc := i2, payment_proc := p1\<rparr>"
    "order_stage osys (order_proc w) input (k + 6) OrderStatusConfirmed {sid} [] o3"
    "backlog (durable i2) = []" "dom (processed_events (durable i2)) =
       insert (uuid_New osys (tick (order_proc w) + 4)) (dom (processed_events (inventory_store w)))"
    "\<exists>i \<in> set (inventory (inventory_store w)). \<exists>n. i_product_id i = in_ProductID input \<and> inventory (durable i2) =
        inventory (take_stock i n (reserved_row isys (tick (inventory_proc w)) oid (in_ProductID input) (in_Quantity input)) (inventory_store w))"
    "reservations (durable i2) = reservations (inventory_store w) @
       [reserved_row isys (tick (inventory_proc w)) oid (in_ProductID input) (in_Quantity input)]"
    "inventory_ready isys (durable i2)"
proof -
  note facts = at_rest_ready [OF rest] and h = at_rest_healthy [OF rest] and uuids = at_rest_uuids [OF rest]
  let ?e = "EvStockReserved (reserved_event isys (tick (inventory_proc w)) oid (in_ProductID input) (in_CustomerID input)
      (in_Quantity input) (in_TotalAmount input))"
  have new: "unseen isys (uuid_New osys (tick (order_proc w) + 4)) (uuid_New osys (tick (order_proc w) + 4)) (inventory_store w)"
    "unseen osys sid sid (order_store w)"
    using uuids at_rest_drawn(1) [OF rest, of 4] at_rest_drawn(2) [OF rest, of 8]
    by (auto simp: unseen_def ids_in_use_def sid)
  have q: "0 < sint (in_Quantity input)" "int4_ok (sint (in_Quantity input))" "is_f64 (in_TotalAmount input)"
    using facts(8) by (simp_all add: input_ok_def)
  have isid: "uuid_in isys oid = Some oid" using uuids by (simp add: oid)
  note takes = inventory_takes [OF h(2) facts(3,6) new(1) stock q(1,2) isid at_rest_texts [OF rest, folded oid]
      at_rest_fresh(2) [OF rest] _ i1 i2]
  have room: "tick (inventory_proc w) + 13 \<le> tick (inventory_proc w) + 40" by simp
  note takes' = takes [OF room]
  show "backlog (durable i2) = []" "inventory_ready isys (durable i2)" "dom (processed_events (durable i2)) =
       insert (uuid_New osys (tick (order_proc w) + 4)) (dom (processed_events (inventory_store w)))"
    "\<exists>i \<in> set (inventory (inventory_store w)). \<exists>n. i_product_id i = in_ProductID input \<and> inventory (durable i2) =
        inventory (take_stock i n (reserved_row isys (tick (inventory_proc w)) oid (in_ProductID input) (in_Quantity input)) (inventory_store w))"
    "reservations (durable i2) = reservations (inventory_store w) @
       [reserved_row isys (tick (inventory_proc w)) oid (in_ProductID input) (in_Quantity input)]"
    by (fact takes')+
  have told: "told osys isys psys (subject_of (new_message isys (tick (inventory_proc w) + 10) ''Inventory'' oid EventTypeStockReserved
      ?e (server_time isys (tick (inventory_proc w))))) ?e"
    by (rule told_new_message [OF h(2) run_events_plain(2) [OF h(2) at_rest_fresh(2) [OF rest] _ at_rest_texts [OF rest, folded oid]] _
          run_events_ok(2) [OF healthy_facts(8) [OF h(2)] q(3)]]) simp_all
  show "inventory_turn osys isys psys uc (w\<lparr>order_proc := o2, inventory_proc := i1\<rparr>) =
      w\<lparr>order_proc := o3, inventory_proc := i2, payment_proc := p1\<rparr>"
    using turn_told(2) [OF facts(1) told, of i2 "w\<lparr>order_proc := o2, inventory_proc := i1\<rparr>" uc] takes'(1)
    by (simp add: i2 o3 p1 sid del: order_exec.simps inventory_exec.simps payment_exec.simps)
  have "sid \<notin> dom (processed_events (order_store w)) \<union> {}" using new(2) by (auto simp: unseen_def)
  with order_stage_confirmed [OF h(1) o2, of sid sid]
  show "order_stage osys (order_proc w) input (k + 6) OrderStatusConfirmed {sid} [] o3"
    using uuids by (simp add: o3 oid sid del: order_exec.simps)
qed

text \<open>There is no stock: the order is cancelled.\<close>

lemma turn_refused:
  assumes rest: "at_rest osys isys psys input w"
    and oid: "oid = uuid_New osys (Suc (tick (order_proc w)))"
    and none: "\<not> available (inventory_store w) (in_ProductID input) (sint (in_Quantity input))"
    and o2: "order_stage osys (order_proc w) input k OrderStatusPending {} [] o2"
    and i1: "i1 = inventory_exec isys (CallOrderCreated (uuid_New osys (tick (order_proc w) + 4)) oid (in_ProductID input)
        (in_CustomerID input) (in_Quantity input) (in_TotalAmount input)) (inventory_proc w)"
  obtains o3 i2 v where "inventory_turn osys isys psys uc (w\<lparr>order_proc := o2, inventory_proc := i1\<rparr>) =
      w\<lparr>order_proc := o3, inventory_proc := i2\<rparr>"
    "order_stage osys (order_proc w) input (k + 6) OrderStatusCancelled {v} [] o3"
    "backlog (durable i2) = []" "inventory (durable i2) = inventory (inventory_store w)"
    "reservations (durable i2) = reservations (inventory_store w)"
proof -
  note facts = at_rest_ready [OF rest] and h = at_rest_healthy [OF rest] and uuids = at_rest_uuids [OF rest]
  define i2 where "i2 = inventory_exec isys CallInventoryRelay i1"
  have new: "unseen isys (uuid_New osys (tick (order_proc w) + 4)) (uuid_New osys (tick (order_proc w) + 4)) (inventory_store w)"
    using uuids at_rest_drawn(1) [OF rest, of 4] by (auto simp: unseen_def ids_in_use_def)
  have q: "0 < sint (in_Quantity input)" using facts(8) by (simp add: input_ok_def)
  have room: "tick (inventory_proc w) + 13 \<le> tick (inventory_proc w) + 40" by simp
  obtain n reason where news: "news i1 i2 = [subject_of (new_message isys (n + 2) ''Inventory'' oid EventTypeStockReserveFailed
      (EvStockReserveFailed (refused_event isys n oid (in_ProductID input) (in_Quantity input) reason))
      (server_time isys (tick (inventory_proc w))))]"
    and n: "tick (inventory_proc w) < n" "n \<le> tick (inventory_proc w) + 4" and reason: "ascii_text reason"
    and db: "backlog (durable i2) = []" "inventory (durable i2) = inventory (inventory_store w)"
      "reservations (durable i2) = reservations (inventory_store w)"
    by (rule inventory_turns_down [OF h(2) facts(3,6) new none q at_rest_texts [OF rest, folded oid]
      at_rest_fresh(2) [OF rest] room i1 i2_def])
  let ?e = "EvStockReserveFailed (refused_event isys n oid (in_ProductID input) (in_Quantity input) reason)"
  let ?v = "uuid_New isys n"
  define o3 where "o3 = order_exec osys (CallStockReserveFailed ?v oid reason) o2"
  have told: "told osys isys psys (subject_of (new_message isys (n + 2) ''Inventory'' oid EventTypeStockReserveFailed
      ?e (server_time isys (tick (inventory_proc w))))) ?e"
    by (rule told_new_message [OF h(2) run_events_plain(3) [OF h(2) at_rest_fresh(2) [OF rest] _ at_rest_texts [OF rest, folded oid]
          _ _ reason] _ run_events_ok(3) [OF healthy_facts(8) [OF h(2)]]]) (use n in simp_all)
  have turn: "inventory_turn osys isys psys uc (w\<lparr>order_proc := o2, inventory_proc := i1\<rparr>) =
      w\<lparr>order_proc := o3, inventory_proc := i2\<rparr>"
    using turn_told(2) [OF facts(1) told, of i2 "w\<lparr>order_proc := o2, inventory_proc := i1\<rparr>" uc] news
    by (simp add: i2_def o3_def del: order_exec.simps inventory_exec.simps)
  have "uuid_New isys (tick (inventory_proc w) + (n - tick (inventory_proc w))) \<notin> ids_in_use w"
    by (rule at_rest_drawn(2) [OF rest]) (use n in simp)
  then have "?v \<notin> dom (processed_events (order_store w)) \<union> {}" using n by (simp add: ids_in_use_def)
  with order_stage_refused [OF h(1) o2, of ?v ?v]
  have "order_stage osys (order_proc w) input (k + 6) OrderStatusCancelled {?v} [] o3"
    using uuids by (simp add: o3_def oid del: order_exec.simps)
  from that [OF turn this db] show thesis .
qed

text \<open>The charge: the order is completed or cancelled, and says so.\<close>

definition settling_event :: "sys \<Rightarrow> nat \<Rightarrow> bool \<Rightarrow> string \<Rightarrow> event" where
  "settling_event sys t declined oid =
     (if declined then EvOrderCancelled (cancelled_event sys t oid decline_reason)
      else EvOrderCompleted (completed_event sys t oid))"

lemma turn_charged:
  assumes rest: "at_rest osys isys psys input w"
    and oid: "oid = uuid_New osys (Suc (tick (order_proc w)))" and sid: "sid = uuid_New isys (tick (inventory_proc w) + 8)"
    and k: "k + 10 \<le> 40" and o3: "order_stage osys (order_proc w) input k OrderStatusConfirmed {sid} [] o3"
    and p1: "p1 = payment_exec psys (CallPaymentStockReserved uc sid oid (in_CustomerID input) (in_TotalAmount input)) (payment_proc w)"
  obtains d n xs o4 p2 where "decision psys uc (in_TotalAmount input) d"
    "payment_turn osys isys psys uc (w\<lparr>order_proc := o3, inventory_proc := i2, payment_proc := p1\<rparr>) =
       w\<lparr>order_proc := o4, inventory_proc := i2, payment_proc := p2\<rparr>"
    "order_stage osys (order_proc w) input (k + 10) (if d then OrderStatusCancelled else OrderStatusCompleted) xs
       [new_message osys (tick (order_proc w) + k + 7) ''Order'' oid
          (event_kind (settling_event osys (tick (order_proc w) + k) d oid))
          (settling_event osys (tick (order_proc w) + k) d oid) (server_time osys (tick (order_proc w) + k))] o4"
    "payment_ready psys (durable p2)" "backlog (durable p2) = []"
    "dom (processed_events (durable p2)) = insert sid (dom (processed_events (payment_store w)))"
    "payments (durable p2) = payments (payment_store w) @
       [charged_row psys (tick (payment_proc w)) n d oid (in_CustomerID input) (in_TotalAmount input)]"
proof -
  note facts = at_rest_ready [OF rest] and h = at_rest_healthy [OF rest] and uuids = at_rest_uuids [OF rest]
  let ?t = "tick (payment_proc w)" and ?c = "in_CustomerID input" and ?a = "in_TotalAmount input"
  define p2 where "p2 = payment_exec psys CallPaymentRelay p1"
  have new: "unseen psys sid sid (payment_store w)"
    using uuids at_rest_drawn(2) [OF rest, of 8] by (auto simp: unseen_def ids_in_use_def sid)
  have psid: "uuid_in psys oid = Some oid" using uuids by (simp add: oid)
  have "numeric_in psys = numeric_in osys" using facts(1) by (simp add: run_env_def)
  then have a: "0 < ?a" "numeric_in psys ?a \<noteq> None" "is_f64 ?a" "ascii_text ?c" "length ?c \<le> 255"
    using facts(8) by (auto simp: input_ok_def)
  have texts: "ascii_text oid" "length oid \<le> 255"
    using at_rest_texts [OF rest, folded oid] by (simp_all add: order_texts_def)
  have room: "?t + 12 \<le> ?t + 40" by simp
  obtain d n where d: "decision psys uc ?a d" and n: "n = ?t + 4 \<or> n = ?t + 5"
    and news: "news p1 p2 = [subject_of (new_message psys (n + 4) ''Payment'' oid (event_kind (charge_event psys ?t n d oid ?a))
       (charge_event psys ?t n d oid ?a) (server_time psys ?t))]"
    and db: "payment_ready psys (durable p2)" "backlog (durable p2) = []"
      "dom (processed_events (durable p2)) = insert sid (dom (processed_events (payment_store w)))"
      "payments (durable p2) = payments (payment_store w) @ [charged_row psys ?t n d oid ?c ?a]"
    by (rule payment_charges [OF h(3) facts(4,7) new psid texts a(4,5,1,2) at_rest_fresh(3) [OF rest] room p1 p2_def])
  let ?e = "charge_event psys ?t n d oid ?a" and ?v = "uuid_New psys (n + 2)"
  define o4 where "o4 = order_exec osys (if d then CallPaymentFailed ?v oid decline_reason else CallPaymentCompleted ?v oid) o3"
  have told: "told osys isys psys (subject_of (new_message psys (n + 4) ''Payment'' oid (event_kind ?e) ?e (server_time psys ?t))) ?e"
    by (rule told_new_message [OF h(3) run_events_plain(4) [OF h(3) at_rest_fresh(3) [OF rest] _ texts(1)] _
          run_events_ok(4) [OF healthy_facts(8) [OF h(3)] a(3)]]) (use n in auto)
  have turn: "payment_turn osys isys psys uc (w\<lparr>order_proc := o3, inventory_proc := i2, payment_proc := p1\<rparr>) =
       w\<lparr>order_proc := o4, inventory_proc := i2, payment_proc := p2\<rparr>"
    using turn_told(3) [OF facts(1) told, of p2 "w\<lparr>order_proc := o3, inventory_proc := i2, payment_proc := p1\<rparr>" uc] news
    by (simp add: p2_def o4_def charge_event_def del: order_exec.simps payment_exec.simps)
  have m: "n + 2 = ?t + (n + 2 - ?t)" "n + 2 - ?t < 40" using n by auto
  have "?v \<notin> ids_in_use w" "?v \<noteq> sid"
    using at_rest_drawn(3) [OF rest m(2)] at_rest_apart(3) [OF rest _ m(2), of 8] m(1) by (simp_all add: sid)
  then have v: "?v \<notin> dom (processed_events (order_store w)) \<union> {sid}" by (simp add: ids_in_use_def)
  have tick: "tick o3 = tick (order_proc w) + k" using o3 by (simp add: order_stage_def)
  have osid: "uuid_in osys ?v = Some ?v" using uuids by simp
  have room: "tick o3 + 10 \<le> tick (order_proc w) + 40" using k tick by simp
  have reason: "ascii_text decline_reason" by (simp add: decline_reason_def ascii_text_def)
  have "order_stage osys (order_proc w) input (k + 10) (if d then OrderStatusCancelled else OrderStatusCompleted) (insert ?v {sid})
       [new_message osys (tick (order_proc w) + k + 7) ''Order'' oid
          (event_kind (settling_event osys (tick (order_proc w) + k) d oid))
          (settling_event osys (tick (order_proc w) + k) d oid) (server_time osys (tick (order_proc w) + k))] o4"
    using order_stage_cancelled [OF h(1) o3 osid v reason at_rest_fresh(1) [OF rest] room]
      order_stage_completed [OF h(1) o3 osid v at_rest_fresh(1) [OF rest] room]
    by (simp add: o4_def settling_event_def oid tick add.assoc del: order_exec.simps)
  from that [OF d turn this db] show thesis .
qed

text \<open>The order has settled: the reservation is committed or released.\<close>

lemma turn_settled:
  assumes rest: "at_rest osys isys psys input w"
    and oid: "oid = uuid_New osys (Suc (tick (order_proc w)))" and k: "0 < k" "k + 10 \<le> 40"
    and o4: "order_stage osys (order_proc w) input (k + 10) st xs
       [new_message osys (tick (order_proc w) + k + 7) ''Order'' oid
          (event_kind (settling_event osys (tick (order_proc w) + k) d oid))
          (settling_event osys (tick (order_proc w) + k) d oid) (server_time osys (tick (order_proc w) + k))] o4"
    and i2: "inventory_ready isys (durable i2)" "dom (processed_events (durable i2)) =
       insert (uuid_New osys (tick (order_proc w) + 4)) (dom (processed_events (inventory_store w)))" "backlog (durable i2) = []"
    and p2: "dom (processed_events (durable p2)) =
       insert (uuid_New isys (tick (inventory_proc w) + 8)) (dom (processed_events (payment_store w)))" "backlog (durable p2) = []"
      "payments (durable p2) = payments (payment_store w) @
       [charged_row psys (tick (payment_proc w)) n d oid (in_CustomerID input) (in_TotalAmount input)]"
  obtains o5 i3 p3 now where
    "order_turn osys isys psys uc (w\<lparr>order_proc := o4, inventory_proc := i2, payment_proc := p2\<rparr>) =
       w\<lparr>order_proc := o5, inventory_proc := i3, payment_proc := p3\<rparr>"
    "order_stage osys (order_proc w) input (k + 16) st xs [] o5"
    "\<exists>db. inventory db = inventory (durable i2) \<and> reservations db = reservations (durable i2) \<and> backlog db = [] \<and>
       durable i3 = settled (if d then ReservationStatusReleased else ReservationStatusCommitted) (if d then 0 else 1)
         (\<lambda>r. rv_order_id r = oid) now db"
    "payments (durable p3) = payments (durable p2)" "backlog (durable p3) = []"
proof -
  note facts = at_rest_ready [OF rest] and h = at_rest_healthy [OF rest] and uuids = at_rest_uuids [OF rest]
  let ?t = "tick (order_proc w)" and ?e = "settling_event osys (tick (order_proc w) + k) d oid"
  let ?m = "new_message osys (?t + k + 7) ''Order'' oid (event_kind ?e) ?e (server_time osys (?t + k))"
  let ?v = "uuid_New osys (?t + k + 5)"
  define o5 where "o5 = order_exec osys CallOrderRelay o4"
  define i3 where "i3 = inventory_exec isys (if d then CallOrderCancelled ?v oid else CallOrderCompleted ?v oid) i2"
  define p3 where "p3 = (if d then payment_exec psys (CallPaymentOrderCancelled ?v oid) p2 else p2)"
  note sends = order_stage_relayed [OF h(1) o4, folded o5_def]
  have texts: "ascii_text oid" using at_rest_texts [OF rest, folded oid] by (simp add: order_texts_def)
  have reason: "ascii_text decline_reason" by (simp add: decline_reason_def ascii_text_def)
  have plain: "plain_event osys ?e"
    using run_events_plain(5,6) [OF h(1) at_rest_fresh(1) [OF rest] _ texts reason, of "?t + k"] k
    by (simp add: settling_event_def)
  have ok: "event_ok osys ?e"
    using run_events_ok(5,6) [OF healthy_facts(8) [OF h(1)]] by (simp add: settling_event_def)
  have told: "told osys isys psys (subject_of ?m) ?e" by (rule told_new_message [OF h(1) plain refl ok]) simp
  have turn: "order_turn osys isys psys uc (w\<lparr>order_proc := o4, inventory_proc := i2, payment_proc := p2\<rparr>) =
       w\<lparr>order_proc := o5, inventory_proc := i3, payment_proc := p3\<rparr>"
    using turn_told(1) [OF facts(1) told, of o5 "w\<lparr>order_proc := o4, inventory_proc := i2, payment_proc := p2\<rparr>" uc] sends(2)
    by (simp add: o5_def i3_def p3_def settling_event_def del: order_exec.simps inventory_exec.simps payment_exec.simps)
  have "uuid_New osys (?t + (k + 5)) \<notin> ids_in_use w" "uuid_New osys (?t + (k + 5)) \<noteq> uuid_New osys (?t + 4)"
    "uuid_New osys (?t + (k + 5)) \<noteq> uuid_New isys (tick (inventory_proc w) + 8)"
    using at_rest_drawn(1) [OF rest, of "k + 5"] at_rest_apart(1) [OF rest, of "k + 5" 4] at_rest_apart(2) [OF rest, of "k + 5" 8] k
    by simp_all
  then have v: "?v \<notin> dom (processed_events (durable i2))" "?v \<notin> dom (processed_events (durable p2))"
    using i2(2) p2(1) by (simp_all add: ids_in_use_def add.assoc)
  have new: "unseen isys ?v ?v (durable i2)" "unseen psys ?v ?v (durable p2)"
    using uuids v by (auto simp: unseen_def)
  have stock: "stock_ok isys (durable i2)" using i2(1) by (simp add: inventory_ready_def inventory_inv_def)
  have isid: "uuid_in isys oid = Some oid" "uuid_in psys oid = Some oid" using uuids by (simp_all add: oid)
  note settles = wpc_final [OF inventory_settles_calm(1) [OF h(2) new(1) stock isid(1)]]
    wpc_final [OF inventory_settles_calm(2) [OF h(2) new(1) stock isid(1)]]
  have i3: "\<exists>db. inventory db = inventory (durable i2) \<and> reservations db = reservations (durable i2) \<and> backlog db = [] \<and>
       durable i3 = settled (if d then ReservationStatusReleased else ReservationStatusCommitted) (if d then 0 else 1)
         (\<lambda>r. rv_order_id r = oid) (server_time isys (tick i2)) db"
    by (rule exI [of _ "mark_processed ?v (event_kind ?e) (server_time isys (tick i2)) (durable i2)"])
       (use settles i2(3) in \<open>simp add: i3_def settling_event_def\<close>)
  have fresh: "oid \<notin> p_order_id ` set (payments (payment_store w))"
    using at_rest_drawn(1) [OF rest, of 1] by (simp add: oid ids_in_use_def)
  have "payments (durable p3) = payments (durable p2) \<and> backlog (durable p3) = []"
  proof (cases d)
    case True
    note stays = payment_stays_declined [OF h(3) new(2) isid(2) p2(3) _ _ fresh, of p3]
    then show ?thesis using True p2(2) by (simp add: p3_def charged_row_def PaymentStatus_defs)
  qed (simp add: p3_def p2(2))
  moreover have "order_stage osys (order_proc w) input (k + 16) st xs [] o5"
    using sends(1) by (simp add: add.assoc)
  ultimately show thesis using that [OF turn _ i3] by blast
qed


section \<open>The run\<close>

lemma order_stage_sales:
  assumes "order_stage sys s0 input k st xs q s"
  shows "map (\<lambda>r. (o_id r, o_customer_id r, o_product_id r, o_quantity r, o_total_amount r, o_status r)) (orders (durable s)) =
    map (\<lambda>r. (o_id r, o_customer_id r, o_product_id r, o_quantity r, o_total_amount r, o_status r)) (orders (durable s0)) @
    [(uuid_New sys (Suc (tick s0)), in_CustomerID input, in_ProductID input, sint (in_Quantity input),
      the (numeric_in sys (in_TotalAmount input)), st)]"
  using assms by (auto simp: order_stage_def placed_row_def)

lemma run_refused:
  assumes rest: "at_rest osys isys psys input w" and none: "\<not> available (inventory_store w) (in_ProductID input) (sint (in_Quantity input))"
    and w': "w' = saga_run osys isys psys uc input w"
  shows "all_sent w'" "shop_of w' = place_order input (uuid_New osys (Suc (tick (order_proc w))))
      (the (numeric_in osys (in_TotalAmount input))) d (shop_of w)"
proof -
  note facts = at_rest_ready [OF rest]
  let ?w1 = "w\<lparr>order_proc := order_exec osys (CallCreateOrder input) (order_proc w)\<rparr>"
  note told = turn_announced [OF rest refl refl refl refl]
  obtain o3 i2 v where turn: "inventory_turn osys isys psys uc (order_turn osys isys psys uc ?w1) = w\<lparr>order_proc := o3, inventory_proc := i2\<rparr>"
    and o3: "order_stage osys (order_proc w) input (15 + 6) OrderStatusCancelled {v} [] o3"
    and i2: "backlog (durable i2) = []" "inventory (durable i2) = inventory (inventory_store w)"
      "reservations (durable i2) = reservations (inventory_store w)"
    unfolding told(1) by (rule turn_refused [OF rest refl none told(2) refl])
  let ?w3 = "w\<lparr>order_proc := o3, inventory_proc := i2\<rparr>"
  have sent: "all_sent ?w3" using o3 i2(1) facts(7) by (simp add: all_sent_def order_stage_def)
  have "same_stores ?w3 ?w3" by (simp add: same_stores_def)
  then have "same_stores ?w3 w'"
    unfolding w' saga_run_def saga_round_def turn by (intro turns_idle [OF rest sent])
  then show "all_sent w'" "shop_of w' = place_order input (uuid_New osys (Suc (tick (order_proc w))))
      (the (numeric_in osys (in_TotalAmount input))) d (shop_of w)"
    using sent none order_stage_sales [OF o3] i2(2,3)
    by (simp_all add: same_stores_shop place_order_def in_stock_available Let_def) (simp add: shop_of_def stock_levels_def)
qed

lemma run_reserved:
  assumes rest: "at_rest osys isys psys input w" and stock: "available (inventory_store w) (in_ProductID input) (sint (in_Quantity input))"
    and w': "w' = saga_run osys isys psys uc input w"
  shows "\<exists>d. decision psys uc (in_TotalAmount input) d \<and> all_sent w' \<and>
    shop_of w' = place_order input (uuid_New osys (Suc (tick (order_proc w)))) (the (numeric_in osys (in_TotalAmount input))) d (shop_of w)"
proof -
  note facts = at_rest_ready [OF rest]
  define oid where "oid = uuid_New osys (Suc (tick (order_proc w)))"
  define sid where "sid = uuid_New isys (tick (inventory_proc w) + 8)"
  define o1 where "o1 = order_exec osys (CallCreateOrder input) (order_proc w)"
  define o2 where "o2 = order_exec osys CallOrderRelay o1"
  define i1 where "i1 = inventory_exec isys (CallOrderCreated (uuid_New osys (tick (order_proc w) + 4)) oid (in_ProductID input)
        (in_CustomerID input) (in_Quantity input) (in_TotalAmount input)) (inventory_proc w)"
  define i2 where "i2 = inventory_exec isys CallInventoryRelay i1"
  define o3 where "o3 = order_exec osys (CallStockReserved sid oid) o2"
  define p1 where "p1 = payment_exec psys (CallPaymentStockReserved uc sid oid (in_CustomerID input) (in_TotalAmount input)) (payment_proc w)"
  let ?r = "reserved_row isys (tick (inventory_proc w)) oid (in_ProductID input) (in_Quantity input)"
  note told = turn_announced [OF rest o1_def o2_def oid_def i1_def]
  note res = turn_reserved [OF rest oid_def sid_def stock told(2) i1_def i2_def o3_def p1_def]
  obtain d n xs o4 p2 where d: "decision psys uc (in_TotalAmount input) d"
    and turn3: "payment_turn osys isys psys uc (w\<lparr>order_proc := o3, inventory_proc := i2, payment_proc := p1\<rparr>) =
       w\<lparr>order_proc := o4, inventory_proc := i2, payment_proc := p2\<rparr>"
    and o4: "order_stage osys (order_proc w) input (15 + 6 + 10) (if d then OrderStatusCancelled else OrderStatusCompleted) xs
       [new_message osys (tick (order_proc w) + (15 + 6) + 7) ''Order'' oid
          (event_kind (settling_event osys (tick (order_proc w) + (15 + 6)) d oid))
          (settling_event osys (tick (order_proc w) + (15 + 6)) d oid) (server_time osys (tick (order_proc w) + (15 + 6)))] o4"
    and p2: "payment_ready psys (durable p2)" "backlog (durable p2) = []"
      "dom (processed_events (durable p2)) = insert sid (dom (processed_events (payment_store w)))"
      "payments (durable p2) = payments (payment_store w) @
         [charged_row psys (tick (payment_proc w)) n d oid (in_CustomerID input) (in_TotalAmount input)]"
    by (rule turn_charged [OF rest oid_def sid_def _ res(2) p1_def]) simp
  obtain o5 i3 p3 now where turn4: "order_turn osys isys psys uc (w\<lparr>order_proc := o4, inventory_proc := i2, payment_proc := p2\<rparr>) =
       w\<lparr>order_proc := o5, inventory_proc := i3, payment_proc := p3\<rparr>"
    and o5: "order_stage osys (order_proc w) input (15 + 6 + 16) (if d then OrderStatusCancelled else OrderStatusCompleted) xs [] o5"
    and i3: "\<exists>db. inventory db = inventory (durable i2) \<and> reservations db = reservations (durable i2) \<and> backlog db = [] \<and>
       durable i3 = settled (if d then ReservationStatusReleased else ReservationStatusCommitted) (if d then 0 else 1)
         (\<lambda>r. rv_order_id r = oid) now db"
    and p3: "payments (durable p3) = payments (durable p2)" "backlog (durable p3) = []"
    by (rule turn_settled [OF rest oid_def _ _ o4 res(7,4,3) p2(3) [unfolded sid_def] p2(2,4)]) simp_all
  let ?w4 = "w\<lparr>order_proc := o5, inventory_proc := i3, payment_proc := p3\<rparr>"
  have sent: "all_sent ?w4" using o5 i3 p3(2) by (auto simp: all_sent_def order_stage_def backlog_def)
  have "same_stores ?w4 ?w4" by (simp add: same_stores_def)
  then have same: "same_stores ?w4 w'"
    unfolding w' saga_run_def saga_round_def o1_def [symmetric] told(1) res(1) turn3 turn4 by (intro turns_idle [OF rest sent])
  have stock_ok: "stock_ok isys (inventory_store w)" using facts(3) by (simp add: inventory_ready_def inventory_inv_def)
  obtain i m where i: "i \<in> set (inventory (inventory_store w))" "i_product_id i = rv_product_id ?r"
    "inventory (durable i2) = inventory (take_stock i m ?r (inventory_store w))"
    using res(5) by (auto simp: reserved_row_def)
  have fresh: "rv_order_id ?r \<notin> rv_order_id ` set (reservations (inventory_store w))"
    using at_rest_drawn(1) [OF rest, of 1] by (simp add: reserved_row_def oid_def ids_in_use_def)
  obtain db where db: "inventory db = inventory (durable i2)" "reservations db = reservations (durable i2)"
    and settled: "durable i3 = settled (if d then ReservationStatusReleased else ReservationStatusCommitted) (if d then 0 else 1)
         (\<lambda>r. rv_order_id r = oid) now db" using i3 by blast
  have oid: "rv_order_id ?r = oid" "rv_status ?r = ReservationStatusReserved" by (simp_all add: reserved_row_def)
  note level = taken_then_settled [OF stock_ok i(1,2) fresh oid(2) db(1) [unfolded i(3)] db(2) [unfolded res(6)], unfolded oid(1)]
  have levels: "stock_levels (durable i3) = (if d then stock_levels (inventory_store w)
      else map (\<lambda>(p', a, h). (p', if p' = in_ProductID input then a - sint (in_Quantity input) else a, h)) (stock_levels (inventory_store w)))"
    unfolding settled level(2) by (auto simp: reserved_row_def intro: map_idI)
  have held: "reservations (durable i3) = reservations (inventory_store w) @
      [?r\<lparr>rv_status := if d then ReservationStatusReleased else ReservationStatusCommitted, rv_updated_at := now\<rparr>]"
    unfolding settled level(1) ..
  have "numeric_in psys = numeric_in osys" using facts(1) by (simp add: run_env_def)
  then have "shop_of ?w4 = place_order input oid (the (numeric_in osys (in_TotalAmount input))) d (shop_of w)"
    using order_stage_sales [OF o5] p2(4) p3(1) stock
    by (simp add: place_order_def in_stock_available Let_def)
       (simp add: shop_of_def levels held charged_row_def reserved_row_def oid_def [symmetric])
  with d sent same show ?thesis by (auto simp: same_stores_shop oid_def)
qed

lemma decision_exists: "\<exists>d. decision sys uc amount d"
  by (auto simp: decision_def)

text \<open>
  C3: an order is settled. From every state that the system can reach and in which no message waits,
  with services, database servers and a broker in which nothing fails, a CreateOrder request that is
  valid returns a PENDING order, and two rounds of the relays, with every published message
  delivered once, end with nothing left to send and with the three databases as one step of a shop
  would leave them: COMPLETED, with the stock gone and the money taken, if there was stock and the
  payment was accepted; CANCELLED with a released reservation and a failed payment if it was
  declined; CANCELLED with the stock and the payments untouched if there was no stock.
\<close>

theorem saga_settles:
  assumes "run_env osys isys psys" and "saga_start isys w0" and "(saga_step osys isys psys)\<^sup>*\<^sup>* w0 w"
    and "all_sent w" and "input_ok osys input" and "new_ids osys isys psys w"
    and "w' = saga_run osys isys psys uc input w" and "oid = uuid_New osys (Suc (tick (order_proc w)))"
  shows "fst (CreateOrder osys input (order_proc w)) = Inr \<lparr>out_OrderID = oid, out_Status = OrderStatusPending\<rparr> \<and>
    (saga_step osys isys psys)\<^sup>*\<^sup>* w w' \<and> all_sent w' \<and>
    (\<exists>declined. decision psys uc (in_TotalAmount input) declined \<and>
       shop_of w' = place_order input oid (the (numeric_in osys (in_TotalAmount input))) declined (shop_of w))"
proof -
  have "services_ready osys isys psys w"
    using saga_reachable_inv [OF run_env_ok [OF assms(1)] assms(2,3)] by (simp add: saga_inv_def)
  with assms have rest: "at_rest osys isys psys input w" by (simp add: at_rest_def)
  note facts = at_rest_ready [OF rest]
  have "fst (CreateOrder osys input (order_proc w)) = Inr \<lparr>out_OrderID = oid, out_Status = OrderStatusPending\<rparr>"
    using order_placed_stage(1) [OF at_rest_healthy(1) [OF rest] facts(2,5) at_rest_fresh(1) [OF rest] _ facts(8)]
    by (simp add: assms(8) del: order_exec.simps)
  moreover have "(saga_step osys isys psys)\<^sup>*\<^sup>* w w'"
    unfolding assms(7) by (rule saga_run_steps) (use assms(5) in \<open>simp add: input_ok_def\<close>)
  moreover have "\<exists>d. decision psys uc (in_TotalAmount input) d \<and> all_sent w' \<and>
      shop_of w' = place_order input oid (the (numeric_in osys (in_TotalAmount input))) d (shop_of w)"
    using run_refused [OF rest _ assms(7)] run_reserved [OF rest _ assms(7)] decision_exists
    unfolding assms(8) by blast
  ultimately show ?thesis by blast
qed

text \<open>Three services of one build, with UUIDs of their own.\<close>

definition run_sys :: "char \<Rightarrow> sys" where
  "run_sys c = sample_sys\<lparr>uuid_New := \<lambda>n. c # replicate n (CHR ''x''), time_Now := \<lambda>n. 0\<rparr>"

lemma run_sys_healthy: "ascii_text [c] \<Longrightarrow> healthy (run_sys c) t"
  by (auto simp: run_sys_def healthy_def sample_sys_def calm_def broker_up_def uuids_ok_def scans_ok_def codecs_ok_def
      jsonb_ok_def varchar_ok_def writable_time_def ascii_text_def json_number_def is_f64_def)

lemma run_sample:
  defines "osys \<equiv> run_sys CHR ''o''" and "isys \<equiv> run_sys CHR ''i''" and "psys \<equiv> run_sys CHR ''p''"
  shows "run_env osys isys psys" "saga_start isys sample_world" "all_sent sample_world" "input_ok osys sample_input"
    "new_ids osys isys psys sample_world" "at_rest osys isys psys sample_input sample_world"
proof -
  show env: "run_env osys isys psys"
    using run_sys_healthy [of "CHR ''o''" 0] run_sys_healthy [of "CHR ''i''" 0] run_sys_healthy [of "CHR ''p''" 0]
    by (auto simp: run_env_def ascii_text_def osys_def isys_def psys_def) (simp_all add: run_sys_def)
  have "uuid_in isys = uuid_in sample_sys" "text_in isys = text_in sample_sys" by (simp_all add: run_sys_def isys_def)
  then have "inventory_inv isys db = inventory_inv sample_sys db" for db
    by (simp add: inventory_inv_def stock_ok_def stock_keys_ok_def res_row_ok_def outbox_wf_def inventory_announced_def
        announcements_def canonical_ids_def)
  then show start: "saga_start isys sample_world" using sample_saga(2) by (simp add: saga_start_def)
  have sent: "all_sent sample_world" "ids_in_use sample_world = {}"
    using sample_saga(2)
    by (auto simp: all_sent_def backlog_def sample_world_def order_boot_def inventory_boot_def payment_boot_def
        empty_order_db_def empty_payment_db_def initial_inventory_db_def ids_in_use_def order_ids_def inventory_ids_def payment_ids_def)
  then show "all_sent sample_world" by simp
  show input: "input_ok osys sample_input"
    using round64_int [of 10] by (simp add: input_ok_def sample_input_def osys_def run_sys_def sample_sys_def ascii_text_def int4_ok_def is_f64_def)
  have "inj_on (uuid_New (run_sys c)) A" for c A by (simp add: run_sys_def inj_on_def replicate_eq_replicate)
  then show ids: "new_ids osys isys psys sample_world"
    by (auto simp: new_ids_def Let_def fresh_ids_def sent(2) osys_def isys_def psys_def)
       (auto simp: run_sys_def ascii_text_def list_all_iff sample_world_def order_boot_def inventory_boot_def payment_boot_def)
  have "services_ready osys isys psys sample_world"
    using saga_reachable_inv [OF run_env_ok [OF env] start rtranclp.rtrancl_refl] by (simp add: saga_inv_def)
  with env sent(1) input ids show "at_rest osys isys psys sample_input sample_world" by (simp add: at_rest_def)
qed

theorem saga_settles_witness:
  "sales (shop_of (saga_run (run_sys CHR ''o'') (run_sys CHR ''i'') (run_sys CHR ''p'') \<lparr>simulateFailure = False\<rparr> sample_input sample_world)) =
     [(''ox'', ''c'', ''PROD-001'', 2, 1000, OrderStatusCompleted)]"
proof -
  let ?p = "run_sys CHR ''p''" and ?uc = "\<lparr>simulateFailure = False\<rparr>"
  note settles = saga_settles [OF run_sample(1,2) rtranclp.rtrancl_refl run_sample(3-5) refl refl, of ?uc]
  have not99: "\<not> ends_in_99 ?p 10" using whole_amounts_accepted [of 10 ?p] by simp
  have accepted: "\<not> d" if "decision ?p ?uc (in_TotalAmount sample_input) d" for d
    using that not99 by (simp add: decision_def sample_input_def) (simp add: run_sys_def sample_sys_def tenth_def)
  have stock: "in_stock (shop_of sample_world) ''PROD-001'' 2"
    by (simp add: in_stock_available) (simp add: available_def sample_world_def initial_inventory_db_def initial_stock_def)
  have "sales (shop_of sample_world) = []" by (simp add: shop_of_def sample_world_def order_boot_def empty_order_db_def)
  with settles accepted stock show ?thesis
    by (auto simp: place_order_def Let_def sample_input_def) (auto simp: run_sys_def sample_sys_def sample_world_def order_boot_def)
qed

end
