(* ===== verification/Wire_Types.thy ===== *)
theory Wire_Types
  imports Saga_Settles
begin

text \<open>
  The messages between the services as a typed protocol: the subject of a message is a type of
  documents, every message that a service publishes is of the type of its subject, and a consumer
  accepts every message of a type it subscribes to.
\<close>

section \<open>The types\<close>

datatype wire_type = WText | WTime | WInt | WNumber

fun wire_typed :: "json \<Rightarrow> wire_type \<Rightarrow> bool" where
  "wire_typed (JStr x) WText = True"
| "wire_typed (JStr x) WTime = True"
| "wire_typed (JInt i) WInt = int8_ok i"
| "wire_typed (JInt i) WNumber = True"
| "wire_typed (JDec r) WNumber = True"
| "wire_typed _ _ = False"

text \<open>The members of the document of an event, by the type of the event.\<close>

definition base_type :: "(string \<times> wire_type) list" where
  "base_type = [(''event_id'', WText), (''event_type'', WText), (''timestamp'', WTime)]"

definition event_schema :: "string \<rightharpoonup> (string \<times> wire_type) list" where
  "event_schema = map_of
     [(EventTypeOrderCreated, base_type @ [(''order_id'', WText), (''customer_id'', WText), (''product_id'', WText),
        (''quantity'', WInt), (''total_amount'', WNumber)]),
      (EventTypeOrderCompleted, base_type @ [(''order_id'', WText)]),
      (EventTypeOrderCancelled, base_type @ [(''order_id'', WText), (''reason'', WText)]),
      (EventTypeStockReserved, base_type @ [(''order_id'', WText), (''product_id'', WText), (''quantity'', WInt),
        (''reservation_id'', WText), (''customer_id'', WText), (''total_amount'', WNumber)]),
      (EventTypeStockReserveFailed, base_type @ [(''order_id'', WText), (''product_id'', WText), (''quantity'', WInt),
        (''reason'', WText)]),
      (EventTypePaymentCompleted, base_type @ [(''order_id'', WText), (''payment_id'', WText), (''amount'', WNumber)]),
      (EventTypePaymentFailed, base_type @ [(''order_id'', WText), (''reason'', WText)])]"

text \<open>
  A document with exactly these members, each of its type, in any order; and one whose timestamp and
  amounts a reader can represent, which no type guarantees.
\<close>

definition message_typed :: "string \<Rightarrow> json \<Rightarrow> bool" where
  "message_typed subject doc \<longleftrightarrow>
     (\<exists>schema ms. event_schema subject = Some schema \<and> doc = JObj ms \<and>
        mset (map fst ms) = mset (map fst schema) \<and>
        (\<forall>(k, v) \<in> set ms. \<exists>t. (k, t) \<in> set schema \<and> wire_typed v t))"

fun readable_value :: "sys \<Rightarrow> string \<times> json \<Rightarrow> bool" where
  "readable_value sys (k, JStr x) = (k = ''timestamp'' \<longrightarrow> time_parse sys x \<noteq> None)"
| "readable_value sys (k, JInt i) = (round64 (of_int i) \<noteq> None)"
| "readable_value sys (k, JDec r) = (round64 r \<noteq> None)"
| "readable_value sys _ = True"

definition readable :: "sys \<Rightarrow> json \<Rightarrow> bool" where
  "readable sys doc \<longleftrightarrow> (\<forall>ms. doc = JObj ms \<longrightarrow> list_all (readable_value sys) ms)"


section \<open>What is published is typed\<close>

lemma event_members_typed:
  assumes "\<And>e. ev \<noteq> EvStockReleased e"
  obtains schema where "event_schema (event_kind ev) = Some schema"
    "map fst (event_members sys ev) = map fst schema"
    "list_all2 (\<lambda>(k, v) (k', t). wire_typed v t) (event_members sys ev) schema"
proof -
  have number: "wire_typed (marshal_float sys x) WNumber" for x by (simp add: marshal_float_def split: sum.split)
  have word: "int8_ok (sint (q :: go_int))" for q by (simp add: int8_ok_sint)
  show thesis
    using assms
    by (cases ev; intro that [of "the (event_schema (event_kind ev))"])
       (simp_all add: event_schema_def EventType_neq event_members.simps marshal_base_def base_type_def number word)
qed

lemma tells_typed:
  assumes "tells sys (subject, doc) ev" and "jsonb_ok sys" and "\<And>e. ev \<noteq> EvStockReleased e"
  shows "message_typed subject doc"
proof -
  obtain ms where ms: "doc = JObj ms" "mset ms = mset (event_members sys ev)"
    using tells_document [OF assms(1,2)] .
  obtain schema where schema: "event_schema (event_kind ev) = Some schema" "map fst (event_members sys ev) = map fst schema"
    "list_all2 (\<lambda>(k, v) (k', t). wire_typed v t) (event_members sys ev) schema"
    using event_members_typed [OF assms(3)] .
  have "\<exists>t. (k, t) \<in> set schema \<and> wire_typed v t" if "(k, v) \<in> set ms" for k v
  proof -
    have "(k, v) \<in> set (event_members sys ev)" using that ms(2) by (metis mset_eq_setD)
    then obtain i where i: "i < length (event_members sys ev)" "event_members sys ev ! i = (k, v)"
      by (auto simp: in_set_conv_nth)
    have len: "length schema = length (event_members sys ev)" using schema(2) by (metis length_map)
    obtain k' t where t: "schema ! i = (k', t)" by fastforce
    have "fst (event_members sys ev ! i) = fst (schema ! i)"
      using schema(2) i(1) len by (metis nth_map)
    then have "k' = k" using i(2) t by simp
    moreover have "wire_typed v t" using list_all2_nthD [OF schema(3) i(1)] i(2) t by simp
    moreover have "schema ! i \<in> set schema" using i(1) len by simp
    ultimately show ?thesis using t by auto
  qed
  moreover have "mset (map fst ms) = mset (map fst schema)" using ms(2) schema(2) by (metis mset_map)
  moreover have "subject = event_kind ev" using assms(1) by (simp add: tells_def)
  ultimately show ?thesis using ms(1) schema(1) unfolding message_typed_def by blast
qed


section \<open>What is typed is accepted\<close>

lemma unmarshal_accepts:
  assumes "\<And>k v e. (k, v) \<in> set ms \<Longrightarrow> \<exists>e'. dec_member fs k v e = Inr e'"
  shows "\<exists>e'. json_Unmarshal fs zero (Some (JObj ms)) = Inr e'"
proof -
  have "\<exists>e'. dec_members fs ms e = Inr e'" for e
    using assms
  proof (induction ms arbitrary: e)
    case (Cons m ms)
    obtain k v where m: "m = (k, v)" by fastforce
    then obtain e1 where "dec_member fs k v e = Inr e1" using Cons.prems by fastforce
    moreover have "\<exists>e'. dec_members fs ms e1 = Inr e'" using Cons by simp
    ultimately show ?case by (simp add: m)
  qed simp
  then show ?thesis by (simp add: json_Unmarshal_def)
qed

lemma field_accepts:
  "wire_typed v WText \<Longrightarrow> \<exists>e'. field_of dec_string get upd v e = Inr e'"
  "wire_typed v WTime \<Longrightarrow> readable_value sys (''timestamp'', v) \<Longrightarrow> \<exists>e'. field_of (dec_time (time_parse sys)) get' upd' v e = Inr e'"
  "wire_typed v WInt \<Longrightarrow> \<exists>e'. field_of dec_int get'' upd'' v e = Inr e'"
  "wire_typed v WNumber \<Longrightarrow> readable_value sys (k, v) \<Longrightarrow> \<exists>e'. field_of dec_float get3 upd3 v e = Inr e'"
  by (cases v; auto simp: field_of_def dec_number_def)+

lemma typed_member:
  assumes "message_typed subject (JObj ms)" and "readable sys (JObj ms)" and "(k, v) \<in> set ms"
    and "event_schema subject = Some schema"
  obtains t where "(k, t) \<in> set schema" "wire_typed v t" "readable_value sys (k, v)"
  using assms by (fastforce simp: message_typed_def readable_def list_all_iff)

lemma typed_accepted:
  assumes typed: "message_typed subject doc" and read: "readable sys doc"
  shows "subject = EventTypeOrderCreated \<Longrightarrow> \<exists>e. ParseOrderCreatedEvent sys (Some doc) = Inr e"
    "subject = EventTypeOrderCompleted \<Longrightarrow> \<exists>e. ParseOrderCompletedEvent sys (Some doc) = Inr e"
    "subject = EventTypeOrderCancelled \<Longrightarrow> \<exists>e. ParseOrderCancelledEvent sys (Some doc) = Inr e"
    "subject = EventTypeStockReserved \<Longrightarrow> \<exists>e. ParseStockReservedEvent sys (Some doc) = Inr e"
    "subject = EventTypeStockReserveFailed \<Longrightarrow> \<exists>e. ParseStockReserveFailedEvent sys (Some doc) = Inr e"
    "subject = EventTypePaymentCompleted \<Longrightarrow> \<exists>e. ParsePaymentCompletedEvent sys (Some doc) = Inr e"
    "subject = EventTypePaymentFailed \<Longrightarrow> \<exists>e. ParsePaymentFailedEvent sys (Some doc) = Inr e"
proof -
  obtain ms where doc: "doc = JObj ms" using typed by (auto simp: message_typed_def)
  note member = typed_member [OF typed [unfolded doc] read [unfolded doc]]
  note accept = field_accepts(1,3) field_accepts(2) [where sys = sys] field_accepts(4) [where sys = sys]
  note schema = event_schema_def EventType_neq base_type_def
  show "subject = EventTypeOrderCreated \<Longrightarrow> \<exists>e. ParseOrderCreatedEvent sys (Some doc) = Inr e"
    unfolding doc ParseEvent_defs
    by (rule unmarshal_accepts, erule member) (auto simp: schema oc_member, (erule accept, assumption?)+)
  show "subject = EventTypeOrderCompleted \<Longrightarrow> \<exists>e. ParseOrderCompletedEvent sys (Some doc) = Inr e"
    unfolding doc ParseEvent_defs
    by (rule unmarshal_accepts, erule member) (auto simp: schema od_member, (erule accept, assumption?)+)
  show "subject = EventTypeOrderCancelled \<Longrightarrow> \<exists>e. ParseOrderCancelledEvent sys (Some doc) = Inr e"
    unfolding doc ParseEvent_defs
    by (rule unmarshal_accepts, erule member) (auto simp: schema ox_member, (erule accept, assumption?)+)
  show "subject = EventTypeStockReserved \<Longrightarrow> \<exists>e. ParseStockReservedEvent sys (Some doc) = Inr e"
    unfolding doc ParseEvent_defs
    by (rule unmarshal_accepts, erule member) (auto simp: schema sr_member, (erule accept, assumption?)+)
  show "subject = EventTypeStockReserveFailed \<Longrightarrow> \<exists>e. ParseStockReserveFailedEvent sys (Some doc) = Inr e"
    unfolding doc ParseEvent_defs
    by (rule unmarshal_accepts, erule member) (auto simp: schema sf_member, (erule accept, assumption?)+)
  show "subject = EventTypePaymentCompleted \<Longrightarrow> \<exists>e. ParsePaymentCompletedEvent sys (Some doc) = Inr e"
    unfolding doc ParseEvent_defs
    by (rule unmarshal_accepts, erule member) (auto simp: schema pc_member, (erule accept, assumption?)+)
  show "subject = EventTypePaymentFailed \<Longrightarrow> \<exists>e. ParsePaymentFailedEvent sys (Some doc) = Inr e"
    unfolding doc ParseEvent_defs
    by (rule unmarshal_accepts, erule member) (auto simp: schema pf_member, (erule accept, assumption?)+)
qed


section \<open>The protocol\<close>

lemma broker_typed:
  assumes "services_honest osys isys psys w" and "env_ok osys isys psys" and "(subject, doc) \<in> broker w"
  shows "message_typed subject doc"
proof -
  obtain X ev where X: "jsonb_ok X" "tells X (subject, doc) ev" "saga_true osys isys psys w ev"
    using broker_true [OF assms] .
  then have "ev \<noteq> EvStockReleased e" for e by (auto simp: saga_true_simps(8))
  with X show ?thesis by (intro tells_typed)
qed

text \<open>
  C4: the messages of the system are well typed, and typed messages are understood. In every state
  that the system reaches, the document of every published message has exactly the members that
  the type of its subject says, each of the type that it says; at least one of the services
  subscribes to the subject; and each that does turns the message into a call of its handler,
  unless it cannot represent its timestamp or its amount.
\<close>

theorem saga_messages_typed:
  assumes "env_ok osys isys psys" and "saga_start isys w0" and "(saga_step osys isys psys)\<^sup>*\<^sup>* w0 w"
    and "(subject, doc) \<in> broker w"
  shows "message_typed subject doc \<and>
    subject \<in> sub_subject ` (set (order_subscriptions osys)) \<union> sub_subject ` (set (inventory_subscriptions isys)) \<union>
      sub_subject ` (set (payment_subscriptions psys uc)) \<and>
    (subject \<in> sub_subject ` set (order_subscriptions osys) \<and> readable osys doc \<longrightarrow>
       order_call_of osys subject (Some doc) \<noteq> None) \<and>
    (subject \<in> sub_subject ` set (inventory_subscriptions isys) \<and> readable isys doc \<longrightarrow>
       inventory_call_of isys subject (Some doc) \<noteq> None) \<and>
    (subject \<in> sub_subject ` set (payment_subscriptions psys uc) \<and> readable psys doc \<longrightarrow>
       payment_call_of psys uc subject (Some doc) \<noteq> None)"
proof -
  have "services_honest osys isys psys w" using saga_reachable_inv [OF assms(1-3)] by (simp add: saga_inv_def)
  from broker_typed [OF this assms(1,4)] have typed: "message_typed subject doc" .
  have "event_schema subject \<noteq> None" using typed by (auto simp: message_typed_def)
  then have "subject \<in> sub_subject ` (set (order_subscriptions osys)) \<union> sub_subject ` (set (inventory_subscriptions isys)) \<union>
      sub_subject ` (set (payment_subscriptions psys uc))"
    by (auto simp: event_schema_def order_subscriptions_def inventory_subscriptions_def payment_subscriptions_def
        split: if_splits)
  moreover have "order_call_of osys subject (Some doc) \<noteq> None"
    if "subject \<in> sub_subject ` set (order_subscriptions osys)" "readable osys doc"
    using that(1) typed_accepted [OF typed that(2)]
    by (auto simp: order_subscriptions_def order_call_of_def EventType_neq split: sum.split)
  moreover have "inventory_call_of isys subject (Some doc) \<noteq> None"
    if "subject \<in> sub_subject ` set (inventory_subscriptions isys)" "readable isys doc"
    using that(1) typed_accepted [OF typed that(2)]
    by (auto simp: inventory_subscriptions_def inventory_call_of_def EventType_neq split: sum.split)
  moreover have "payment_call_of psys uc subject (Some doc) \<noteq> None"
    if "subject \<in> sub_subject ` set (payment_subscriptions psys uc)" "readable psys doc"
    using that(1) typed_accepted [OF typed that(2)]
    by (auto simp: payment_subscriptions_def payment_call_of_def EventType_neq split: sum.split)
  ultimately show ?thesis using typed by blast
qed

text \<open>A world in which the first order has been announced.\<close>

definition announced_world :: world where
  "announced_world = order_turn (run_sys CHR ''o'') (run_sys CHR ''i'') (run_sys CHR ''p'') \<lparr>simulateFailure = False\<rparr>
     (sample_world\<lparr>order_proc := order_exec (run_sys CHR ''o'') (CallCreateOrder sample_input) (order_proc sample_world)\<rparr>)"

theorem saga_messages_typed_witness:
  "\<exists>doc. (EventTypeOrderCreated, doc) \<in> broker announced_world \<and> message_typed EventTypeOrderCreated doc"
proof -
  let ?o = "run_sys CHR ''o''" and ?i = "run_sys CHR ''i''" and ?p = "run_sys CHR ''p''"
  let ?w1 = "sample_world\<lparr>order_proc := order_exec ?o (CallCreateOrder sample_input) (order_proc sample_world)\<rparr>"
  note rest = run_sample(6)
  note facts = at_rest_ready [OF rest]
  have "is_f64 (in_TotalAmount sample_input)" using run_sample(4) by (simp add: input_ok_def)
  then have "saga_step ?o ?i ?p sample_world ?w1" by (rule order_created)
  then have steps: "(saga_step ?o ?i ?p)\<^sup>*\<^sup>* sample_world announced_world"
    unfolding announced_world_def by (rule converse_rtranclp_into_rtranclp [OF _ turn_steps(1)])
  note stage = order_placed_stage(2) [OF at_rest_healthy(1) [OF rest] facts(2,5) at_rest_fresh(1) [OF rest] _ facts(8)]
  obtain m where "news (order_proc ?w1) (order_exec ?o CallOrderRelay (order_proc ?w1)) = [subject_of m]" "msg_EventType m = EventTypeOrderCreated"
    using order_stage_relayed(2) [OF at_rest_healthy(1) [OF rest] stage] by (simp add: new_message_def)
  then have "subject_of m \<in> set (published (order_exec ?o CallOrderRelay (order_proc ?w1)))" "fst (subject_of m) = EventTypeOrderCreated"
    by (auto simp: news_def subject_of_def simp del: order_exec.simps intro: in_set_dropD [where n = "length (published (order_proc ?w1))"])
  then have "\<exists>doc. (EventTypeOrderCreated, doc) \<in> set (published (order_exec ?o CallOrderRelay (order_proc ?w1)))"
    by (metis prod.collapse)
  moreover have "order_proc announced_world = order_exec ?o CallOrderRelay (order_proc ?w1)"
    unfolding announced_world_def using turn_announced(1) [OF rest refl refl refl refl] by simp
  ultimately obtain doc where "(EventTypeOrderCreated, doc) \<in> broker announced_world" by (auto simp: broker_def)
  with saga_messages_typed [OF run_env_ok [OF run_sample(1)] run_sample(2) steps this] show ?thesis by blast
qed

end
