(* ===== verification/Service_Main.thy ===== *)
theory Service_Main
  imports Order_Interfaces Inventory_Interfaces Payment_Interfaces
begin

text \<open>
  services/*/cmd/main.go: how a service process starts and ends. The three main functions are the
  same but for the service; the main goroutine, the goroutine of the HTTP server and the signals
  that arrive are interleaved in every order. What a goroutine does between two points where it may
  wait is one step. The logger, the middleware and Echo's server are outside the model: \<open>sc.Start\<close>
  returns with an error at any time, or without one once its context is cancelled, as the comment in
  the code says; in the state \<open>Quitting\<close> the server goroutine has seen an error and has not
  yet sent to the channel.
\<close>

section \<open>The process\<close>

datatype main_pc =
    ConnectDatabase
  | ConnectBroker
  | StartRelay
  | StartConsumer
  | ServeHTTP
  | AwaitQuit
  | CancelContext
  | AwaitServer
  | CheckFailed
  | Exited nat

datatype server_pc = NotStarted | Running | Quitting | Finished

text \<open>
  \<open>quit\<close> is the channel of capacity 1; \<open>Finished\<close> means that \<open>serverDone\<close> is closed.
\<close>

record 'db process =
  pc :: main_pc
  ctx_cancelled :: bool
  pool_open :: bool
  nats_open :: bool
  relay_started :: bool
  consumer_of :: "'db consumer"
  address :: string
  registered :: bool
  quit :: "string list"
  server :: server_pc
  startFailed :: bool

definition new_process :: "'db process" where
  "new_process = \<lparr>pc = ConnectDatabase, ctx_cancelled = False, pool_open = False, nats_open = False,
     relay_started = False, consumer_of = new_consumer, address = '''', registered = False, quit = [],
     server = NotStarted, startFailed = False\<rparr>"

text \<open>\<open>port := os.Getenv("HTTP_PORT"); if port == "" { port = "8080" }\<close>, \<open>":" + port\<close>\<close>

definition http_address :: "(string \<Rightarrow> string) \<Rightarrow> string" where
  "http_address env = (let port = env ''HTTP_PORT'' in '':'' @ (if port = '''' then ''8080'' else port))"

text \<open>
  The steps of the program: \<open>pool\<close> and \<open>client\<close> are what NewPool and NewClient returned,
  \<open>start\<close> and \<open>stop\<close> are Start and Stop of the consumer. \<open>os.Exit\<close> runs no deferred call;
  returning runs them, last first: Stop, the two Closes, cancel.
\<close>

inductive main_step ::
  "err + 'p \<Rightarrow> err + 'c \<Rightarrow> ('db consumer, unit) go \<Rightarrow> ('db consumer \<Rightarrow> 'db consumer) \<Rightarrow> (string \<Rightarrow> string)
   \<Rightarrow> 'db process \<Rightarrow> 'db process \<Rightarrow> bool"
  for pool client start stop env where
  database_failed: "pc p = ConnectDatabase \<Longrightarrow> pool = Inl e \<Longrightarrow>
    main_step pool client start stop env p (p\<lparr>pc := Exited 1\<rparr>)"
| database_connected: "pc p = ConnectDatabase \<Longrightarrow> pool = Inr conns \<Longrightarrow>
    main_step pool client start stop env p (p\<lparr>pc := ConnectBroker, pool_open := True\<rparr>)"
| broker_failed: "pc p = ConnectBroker \<Longrightarrow> client = Inl e \<Longrightarrow>
    main_step pool client start stop env p (p\<lparr>pc := Exited 1\<rparr>)"
| broker_connected: "pc p = ConnectBroker \<Longrightarrow> client = Inr conn \<Longrightarrow>
    main_step pool client start stop env p (p\<lparr>pc := StartRelay, nats_open := True\<rparr>)"
| relay_spawned: "pc p = StartRelay \<Longrightarrow>
    main_step pool client start stop env p (p\<lparr>pc := StartConsumer, relay_started := True\<rparr>)"
| consumer_failed: "pc p = StartConsumer \<Longrightarrow> start (consumer_of p) = (Inl e, c) \<Longrightarrow>
    main_step pool client start stop env p (p\<lparr>pc := Exited 1, consumer_of := c\<rparr>)"
| consumer_started: "pc p = StartConsumer \<Longrightarrow> start (consumer_of p) = (Inr (), c) \<Longrightarrow>
    main_step pool client start stop env p (p\<lparr>pc := ServeHTTP, consumer_of := c\<rparr>)"
| server_spawned: "pc p = ServeHTTP \<Longrightarrow>
    main_step pool client start stop env p
      (p\<lparr>pc := AwaitQuit, address := http_address env, registered := True, server := Running\<rparr>)"
| quit_received: "pc p = AwaitQuit \<Longrightarrow> quit p = sig # sigs \<Longrightarrow>
    main_step pool client start stop env p (p\<lparr>pc := CancelContext, quit := sigs\<rparr>)"
| context_cancelled: "pc p = CancelContext \<Longrightarrow>
    main_step pool client start stop env p (p\<lparr>pc := AwaitServer, ctx_cancelled := True\<rparr>)"
| server_joined: "pc p = AwaitServer \<Longrightarrow> server p = Finished \<Longrightarrow>
    main_step pool client start stop env p (p\<lparr>pc := CheckFailed\<rparr>)"
| exited_failed: "pc p = CheckFailed \<Longrightarrow> startFailed p \<Longrightarrow>
    main_step pool client start stop env p (p\<lparr>pc := Exited 1\<rparr>)"
| returned: "pc p = CheckFailed \<Longrightarrow> \<not> startFailed p \<Longrightarrow>
    main_step pool client start stop env p
      (p\<lparr>pc := Exited 0, consumer_of := stop (consumer_of p), nats_open := False, pool_open := False,
         ctx_cancelled := True\<rparr>)"
| start_failed: "server p = Running \<Longrightarrow> \<not> (\<exists>code. pc p = Exited code) \<Longrightarrow>
    main_step pool client start stop env p (p\<lparr>server := Quitting, startFailed := True\<rparr>)"
| start_returned: "server p = Running \<Longrightarrow> \<not> (\<exists>code. pc p = Exited code) \<Longrightarrow> ctx_cancelled p \<Longrightarrow>
    main_step pool client start stop env p (p\<lparr>server := Finished\<rparr>)"
| quit_sent: "server p = Quitting \<Longrightarrow> \<not> (\<exists>code. pc p = Exited code) \<Longrightarrow> quit p = [] \<Longrightarrow>
    main_step pool client start stop env p (p\<lparr>quit := [''SIGTERM''], server := Finished\<rparr>)"

text \<open>
  A signal that arrives is put into the channel, or dropped when the channel is full
  (\<open>signal.Notify\<close>).
\<close>

definition signalled :: "string \<Rightarrow> 'db process \<Rightarrow> 'db process" where
  "signalled sig p = (if quit p = [] then p\<lparr>quit := [sig]\<rparr> else p)"

text \<open>Runs of the process in which \<open>n\<close> signals arrive once the handler is registered.\<close>

inductive main_run ::
  "err + 'p \<Rightarrow> err + 'c \<Rightarrow> ('db consumer, unit) go \<Rightarrow> ('db consumer \<Rightarrow> 'db consumer) \<Rightarrow> (string \<Rightarrow> string)
   \<Rightarrow> nat \<Rightarrow> 'db process \<Rightarrow> bool"
  for pool client start stop env where
  init: "main_run pool client start stop env 0 new_process"
| program: "main_run pool client start stop env n p \<Longrightarrow> main_step pool client start stop env p p' \<Longrightarrow>
    main_run pool client start stop env n p'"
| signal: "main_run pool client start stop env n p \<Longrightarrow> registered p \<Longrightarrow> \<not> (\<exists>code. pc p = Exited code) \<Longrightarrow>
    sig \<in> {''SIGINT'', ''SIGTERM''} \<Longrightarrow> main_run pool client start stop env (Suc n) (signalled sig p)"

inductive_cases main_stepE: "main_step pool client start stop env p p'"

text \<open>The main functions of the three services.\<close>

definition order_main ::
  "sys \<Rightarrow> (string \<Rightarrow> string option) \<Rightarrow> (string \<Rightarrow> string option) \<Rightarrow> err + 'p \<Rightarrow> err + 'c \<Rightarrow> (string \<Rightarrow> string)
   \<Rightarrow> order_db process \<Rightarrow> order_db process \<Rightarrow> bool" where
  "order_main sys sub_err unsub_err pool client =
     main_step pool client (order_Start sys sub_err) (consumer_Stop unsub_err)"

definition inventory_main ::
  "sys \<Rightarrow> (string \<Rightarrow> string option) \<Rightarrow> (string \<Rightarrow> string option) \<Rightarrow> err + 'p \<Rightarrow> err + 'c \<Rightarrow> (string \<Rightarrow> string)
   \<Rightarrow> inventory_db process \<Rightarrow> inventory_db process \<Rightarrow> bool" where
  "inventory_main sys sub_err unsub_err pool client =
     main_step pool client (inventory_Start sys sub_err) (consumer_Stop unsub_err)"

definition payment_main ::
  "sys \<Rightarrow> (string \<Rightarrow> string option) \<Rightarrow> (string \<Rightarrow> string option) \<Rightarrow> err + 'p \<Rightarrow> err + 'c \<Rightarrow> (string \<Rightarrow> string)
   \<Rightarrow> payment_db process \<Rightarrow> payment_db process \<Rightarrow> bool" where
  "payment_main sys sub_err unsub_err pool client =
     main_step pool client (payment_Start sys \<lparr>simulateFailure = False\<rparr> sub_err) (consumer_Stop unsub_err)"


section \<open>The invariant\<close>

text \<open>
  Where the main goroutine is says what is open and what the server goroutine may be doing; until
  the server goroutine has sent to the channel, the channel holds only signals that arrived.
\<close>

definition fresh :: "nat \<Rightarrow> 'db process \<Rightarrow> bool" where
  "fresh n p \<longleftrightarrow> \<not> registered p \<and> server p = NotStarted \<and> \<not> startFailed p \<and> quit p = [] \<and> n = 0"

definition connected :: "err + 'p \<Rightarrow> err + 'c \<Rightarrow> 'db process \<Rightarrow> bool" where
  "connected pool client p \<longleftrightarrow> pool_open p \<and> nats_open p \<and> \<not> isl pool \<and> \<not> isl client"

definition serving :: "('db consumer, unit) go \<Rightarrow> 'db process \<Rightarrow> bool" where
  "serving start p \<longleftrightarrow> server p \<noteq> NotStarted \<and> (server p = Quitting \<longrightarrow> startFailed p) \<and>
     (server p = Running \<longrightarrow> \<not> startFailed p) \<and> start new_consumer = (Inr (), consumer_of p)"

text \<open>How a process ended: what it left open, and why.\<close>

definition ended ::
  "err + 'p \<Rightarrow> err + 'c \<Rightarrow> ('db consumer, unit) go \<Rightarrow> ('db consumer \<Rightarrow> 'db consumer) \<Rightarrow> nat \<Rightarrow> 'db process \<Rightarrow> bool" where
  "ended pool client start stop code p \<longleftrightarrow>
     code = (if isl pool \<or> isl client \<or> isl (fst (start new_consumer)) \<or> startFailed p then 1 else 0) \<and>
     (code = 0 \<longrightarrow> \<not> pool_open p \<and> \<not> nats_open p \<and> ctx_cancelled p \<and> server p = Finished \<and>
        consumer_of p = stop (snd (start new_consumer))) \<and>
     (code = 1 \<longrightarrow> pool_open p = (\<not> isl pool) \<and> nats_open p = (\<not> isl pool \<and> \<not> isl client))"

definition main_inv ::
  "err + 'p \<Rightarrow> err + 'c \<Rightarrow> ('db consumer, unit) go \<Rightarrow> ('db consumer \<Rightarrow> 'db consumer) \<Rightarrow> nat \<Rightarrow> 'db process \<Rightarrow> bool" where
  "main_inv pool client start stop n p \<longleftrightarrow> length (quit p) \<le> 1 \<and>
     (ctx_cancelled p \<longrightarrow> pc p \<in> {AwaitServer, CheckFailed, Exited 0, Exited 1}) \<and>
     (case pc p of
        ConnectDatabase \<Rightarrow> fresh n p \<and> \<not> pool_open p \<and> \<not> nats_open p \<and> consumer_of p = new_consumer
      | ConnectBroker \<Rightarrow> fresh n p \<and> pool_open p \<and> \<not> isl pool \<and> \<not> nats_open p \<and> consumer_of p = new_consumer
      | StartRelay \<Rightarrow> fresh n p \<and> connected pool client p \<and> consumer_of p = new_consumer
      | StartConsumer \<Rightarrow> fresh n p \<and> connected pool client p \<and> consumer_of p = new_consumer
      | ServeHTTP \<Rightarrow> fresh n p \<and> connected pool client p \<and> start new_consumer = (Inr (), consumer_of p)
      | AwaitQuit \<Rightarrow> serving start p \<and> connected pool client p \<and>
          (if server p = Finished then quit p \<noteq> [] else length (quit p) \<le> n)
      | CancelContext \<Rightarrow> serving start p \<and> connected pool client p \<and>
          (server p \<noteq> Finished \<longrightarrow> Suc (length (quit p)) \<le> n)
      | AwaitServer \<Rightarrow> serving start p \<and> connected pool client p \<and> ctx_cancelled p \<and>
          (server p \<noteq> Finished \<longrightarrow> Suc (length (quit p)) \<le> n)
      | CheckFailed \<Rightarrow> serving start p \<and> connected pool client p \<and> ctx_cancelled p \<and> server p = Finished
      | Exited code \<Rightarrow> ended pool client start stop code p)"

lemmas main_inv_defs = main_inv_def fresh_def connected_def serving_def ended_def

lemma main_step_inv:
  "main_step pool client start stop env p p' \<Longrightarrow> main_inv pool client start stop n p \<Longrightarrow>
   main_inv pool client start stop n p'"
  by (induction rule: main_step.induct) (auto simp: main_inv_defs split: main_pc.splits)

lemma signalled_inv:
  assumes "main_inv pool client start stop n p" and "registered p" and "\<not> (\<exists>code. pc p = Exited code)"
  shows "main_inv pool client start stop (Suc n) (signalled sig p)"
  using assms by (auto simp: signalled_def main_inv_defs split: main_pc.splits if_splits)

lemma main_run_inv: "main_run pool client start stop env n p \<Longrightarrow> main_inv pool client start stop n p"
proof (induction rule: main_run.induct)
  case init
  then show ?case by (simp add: main_inv_defs new_process_def)
next
  case (program n p p')
  then show ?case by (blast intro: main_step_inv)
next
  case (signal n p sig)
  then show ?case by (blast intro: signalled_inv)
qed

text \<open>How many steps the program can still make on its own.\<close>

fun pc_rank :: "main_pc \<Rightarrow> nat" where
  "pc_rank ConnectDatabase = 9"
| "pc_rank ConnectBroker = 8"
| "pc_rank StartRelay = 7"
| "pc_rank StartConsumer = 6"
| "pc_rank ServeHTTP = 5"
| "pc_rank AwaitQuit = 4"
| "pc_rank CancelContext = 3"
| "pc_rank AwaitServer = 2"
| "pc_rank CheckFailed = 1"
| "pc_rank (Exited code) = 0"

fun server_rank :: "server_pc \<Rightarrow> nat" where
  "server_rank NotStarted = 0"
| "server_rank Running = 2"
| "server_rank Quitting = 1"
| "server_rank Finished = 0"

definition steps_left :: "'db process \<Rightarrow> nat" where
  "steps_left p = 3 * pc_rank (pc p) + server_rank (server p)"

lemma main_step_decreases:
  "main_step pool client start stop env p p' \<Longrightarrow> main_inv pool client start stop n p \<Longrightarrow> steps_left p' < steps_left p"
  by (induction rule: main_step.induct) (auto simp: steps_left_def main_inv_defs)

text \<open>The process waits for a signal, or hangs: the server goroutine cannot send, and is waited for.\<close>

definition waiting :: "'db process \<Rightarrow> bool" where
  "waiting p \<longleftrightarrow> pc p = AwaitQuit \<and> quit p = [] \<and> server p = Running"

definition deadlocked :: "'db process \<Rightarrow> bool" where
  "deadlocked p \<longleftrightarrow> pc p = AwaitServer \<and> server p = Quitting \<and> quit p \<noteq> []"

lemma main_progress:
  assumes "main_inv pool client start stop n p" and "\<not> (\<exists>code. pc p = Exited code)" and "\<not> waiting p"
    and "\<not> deadlocked p"
  shows "\<exists>p'. main_step pool client start stop env p p'"
proof (cases "pc p")
  case ConnectDatabase
  then show ?thesis by (cases pool) (auto intro: main_step.intros)
next
  case ConnectBroker
  then show ?thesis by (cases client) (auto intro: main_step.intros)
next
  case StartConsumer
  obtain r c where "start (consumer_of p) = (r, c)" by fastforce
  with StartConsumer show ?thesis by (cases r) (auto intro: main_step.intros)
next
  case AwaitQuit
  show ?thesis
  proof (cases "quit p")
    case Nil
    with AwaitQuit assms(1,3) have "server p = Quitting"
      by (cases "server p") (auto simp: main_inv_defs waiting_def)
    with main_step.quit_sent [of p pool client start stop env] Nil assms(2) show ?thesis by blast
  next
    case (Cons sig sigs)
    with main_step.quit_received [OF AwaitQuit Cons] show ?thesis by blast
  qed
next
  case AwaitServer
  show ?thesis
  proof (cases "server p")
    case NotStarted
    with AwaitServer assms(1) show ?thesis by (simp add: main_inv_defs)
  next
    case Running
    with AwaitServer assms(1) have "ctx_cancelled p" by (simp add: main_inv_defs)
    with main_step.start_returned [OF Running assms(2)] show ?thesis by blast
  next
    case Quitting
    with AwaitServer assms(4) have "quit p = []" by (simp add: deadlocked_def)
    with main_step.quit_sent [OF Quitting assms(2)] show ?thesis by blast
  next
    case Finished
    from main_step.server_joined [OF AwaitServer Finished] show ?thesis by blast
  qed
next
  case CheckFailed
  then show ?thesis by (cases "startFailed p") (auto intro: main_step.intros)
qed (use assms(2) in \<open>auto intro: main_step.intros\<close>)

lemma deadlocked_signals: "main_inv pool client start stop n p \<Longrightarrow> deadlocked p \<Longrightarrow> 2 \<le> n"
  by (cases "quit p") (auto simp: deadlocked_def main_inv_defs)

lemma deadlocked_stuck: "deadlocked p \<Longrightarrow> \<not> main_step pool client start stop env p p'"
  by (auto simp: deadlocked_def elim!: main_stepE)


section \<open>How a process ends\<close>

text \<open>
  C28: a service process that ends, ends with code 1 exactly if connecting to the database or to the
  broker, subscribing, or the HTTP server failed, and with code 0 otherwise. With code 0 everything
  is released: the server has stopped, the context is cancelled, the consumer is stopped and both
  connections are closed. With code 1 nothing is: \<open>os.Exit\<close> skips the deferred calls, so the
  connections that were made are left to the operating system.
\<close>

theorem main_exit:
  assumes "main_run pool client start stop env n p" and "pc p = Exited code"
  shows "code = (if isl pool \<or> isl client \<or> isl (fst (start new_consumer)) \<or> startFailed p then 1 else 0) \<and>
    (code = 0 \<longrightarrow> \<not> pool_open p \<and> \<not> nats_open p \<and> ctx_cancelled p \<and> server p = Finished \<and>
       consumer_of p = stop (snd (start new_consumer))) \<and>
    (code = 1 \<longrightarrow> pool_open p = (\<not> isl pool) \<and> nats_open p = (\<not> isl pool \<and> \<not> isl client))"
  using main_run_inv [OF assms(1)] assms(2) by (simp add: main_inv_def ended_def)

theorem main_exit_witness:
  "\<exists>p. main_run (Inr ()) (Inl (Driver ''no servers'') :: err + unit) (order_Start sample_sys (\<lambda>_. None))
      (consumer_Stop (\<lambda>_. None)) (\<lambda>_. '''') 0 p \<and> pc p = Exited 1 \<and> pool_open p"
proof -
  let ?client = "Inl (Driver ''no servers'') :: err + unit" and ?start = "order_Start sample_sys (\<lambda>_. None)"
  let ?step = "main_step (Inr ()) ?client ?start (consumer_Stop (\<lambda>_. None)) (\<lambda>_. '''')"
  let ?p1 = "new_process\<lparr>pc := ConnectBroker, pool_open := True\<rparr>"
  let ?p2 = "?p1\<lparr>pc := Exited 1\<rparr>"
  have "?step new_process ?p1" by (rule main_step.database_connected) (simp_all add: new_process_def)
  moreover have "?step ?p1 ?p2" by (rule main_step.broker_failed) simp_all
  ultimately have run: "main_run (Inr ()) ?client ?start (consumer_Stop (\<lambda>_. None)) (\<lambda>_. '''') 0 ?p2"
    by (blast intro: main_run.intros)
  from main_exit [OF run, of 1] have "pool_open ?p2" by (simp add: new_process_def)
  with run show ?thesis by (intro exI [of _ ?p2]) simp
qed

text \<open>Two signals and a failing server can make the process hang; further signals are dropped.\<close>

lemma deadlock_run:
  assumes start: "start new_consumer = (Inr (), c)"
  shows "\<exists>p. main_run (Inr conns) (Inr conn) start stop env (2 + k) p \<and> deadlocked p \<and> registered p"
proof (induction k)
  case 0
  let ?run = "main_run (Inr conns) (Inr conn) start stop env"
  let ?p5 = "new_process\<lparr>pc := AwaitQuit, pool_open := True, nats_open := True, relay_started := True,
    consumer_of := c, address := http_address env, registered := True, server := Running\<rparr>"
  let ?p9 = "?p5\<lparr>pc := AwaitServer, ctx_cancelled := True, quit := [''SIGINT''], server := Quitting,
    startFailed := True\<rparr>"
  note [simp] = new_process_def
  have "?run 0 (new_process\<lparr>pc := ConnectBroker, pool_open := True\<rparr>)"
    by (rule main_run.program [OF main_run.init main_step.database_connected]) simp_all
  from main_run.program [OF this main_step.broker_connected]
  have "?run 0 (new_process\<lparr>pc := StartRelay, pool_open := True, nats_open := True\<rparr>)" by simp
  from main_run.program [OF this main_step.relay_spawned]
  have "?run 0 (new_process\<lparr>pc := StartConsumer, pool_open := True, nats_open := True, relay_started := True\<rparr>)"
    by simp
  from main_run.program [OF this main_step.consumer_started [where c = c]]
  have "?run 0 (new_process\<lparr>pc := ServeHTTP, pool_open := True, nats_open := True, relay_started := True,
      consumer_of := c\<rparr>)" using start by simp
  from main_run.program [OF this main_step.server_spawned]
  have "?run 0 ?p5" by simp
  from main_run.signal [OF this, of "''SIGINT''"]
  have "?run 1 (?p5\<lparr>quit := [''SIGINT'']\<rparr>)" by (simp add: signalled_def)
  from main_run.program [OF this main_step.quit_received [where sig = "''SIGINT''" and sigs = "[]"]]
  have "?run 1 (?p5\<lparr>pc := CancelContext\<rparr>)" by simp
  from main_run.program [OF this main_step.context_cancelled]
  have "?run 1 (?p5\<lparr>pc := AwaitServer, ctx_cancelled := True\<rparr>)" by simp
  from main_run.signal [OF this, of "''SIGINT''"]
  have "?run 2 (?p5\<lparr>pc := AwaitServer, ctx_cancelled := True, quit := [''SIGINT'']\<rparr>)"
    by (simp add: signalled_def numeral_2_eq_2)
  from main_run.program [OF this main_step.start_failed]
  have "?run 2 ?p9" by simp
  then have "?run 2 ?p9 \<and> deadlocked ?p9 \<and> registered ?p9" by (simp add: deadlocked_def)
  then show ?case unfolding add_0_right by (rule exI)
next
  case (Suc k)
  then obtain p where p: "main_run (Inr conns) (Inr conn) start stop env (2 + k) p" "deadlocked p" "registered p" by blast
  then have "signalled ''SIGINT'' p = p" by (simp add: signalled_def deadlocked_def)
  with main_run.signal [OF p(1,3), of "''SIGINT''"] p(2)
  have "main_run (Inr conns) (Inr conn) start stop env (2 + Suc k) p" by (simp add: deadlocked_def)
  with p show ?case by blast
qed

text \<open>
  C27: starting and stopping end. The program makes finitely many steps of its own, and a process
  that can make no more has ended, or waits for a signal while it serves, or hangs: the HTTP server
  failed and its goroutine cannot send to the channel, because a second signal fills it, while main
  waits for that goroutine. It takes two signals to hang, and with two it can.
\<close>

theorem main_terminates:
  assumes "start new_consumer = (Inr (), c)"
  shows "(\<forall>p. main_run (Inr conns) (Inr conn) start stop env n p \<longrightarrow>
      (\<forall>p'. main_step (Inr conns) (Inr conn) start stop env p p' \<longrightarrow> steps_left p' < steps_left p) \<and>
      ((\<exists>p'. main_step (Inr conns) (Inr conn) start stop env p p') \<or> (\<exists>code. pc p = Exited code) \<or>
         waiting p \<or> deadlocked p)) \<and>
    ((\<exists>p. main_run (Inr conns) (Inr conn) start stop env n p \<and> deadlocked p \<and>
        \<not> (\<exists>p'. main_step (Inr conns) (Inr conn) start stop env p p')) \<longleftrightarrow> 2 \<le> n)"
proof (intro conjI allI impI)
  fix p p'
  assume run: "main_run (Inr conns) (Inr conn) start stop env n p"
    and "main_step (Inr conns) (Inr conn) start stop env p p'"
  with main_run_inv [OF run] show "steps_left p' < steps_left p" by (blast intro: main_step_decreases)
next
  fix p
  assume run: "main_run (Inr conns) (Inr conn) start stop env n p"
  show "(\<exists>p'. main_step (Inr conns) (Inr conn) start stop env p p') \<or> (\<exists>code. pc p = Exited code) \<or>
      waiting p \<or> deadlocked p"
    using main_progress [OF main_run_inv [OF run]] by blast
next
  have "2 \<le> n" if "main_run (Inr conns) (Inr conn) start stop env n p" "deadlocked p" for p
    by (rule deadlocked_signals [OF main_run_inv [OF that(1)] that(2)])
  moreover have "\<exists>p. main_run (Inr conns) (Inr conn) start stop env n p \<and> deadlocked p" if "2 \<le> n"
  proof -
    from that obtain k where "n = 2 + k" using le_Suc_ex by blast
    with deadlock_run [where start = start and k = k and conns = conns and conn = conn and stop = stop and env = env, OF assms] show ?thesis by blast
  qed
  ultimately show "(\<exists>p. main_run (Inr conns) (Inr conn) start stop env n p \<and> deadlocked p \<and>
        \<not> (\<exists>p'. main_step (Inr conns) (Inr conn) start stop env p p')) \<longleftrightarrow> 2 \<le> n"
    using deadlocked_stuck by metis
qed

theorem main_terminates_witness:
  "\<exists>p. main_run (Inr ()) (Inr ()) (order_Start sample_sys (\<lambda>_. None)) (consumer_Stop (\<lambda>_. None)) (\<lambda>_. '''') 2 p \<and>
     deadlocked p"
proof -
  obtain c where c: "order_Start sample_sys (\<lambda>_. None) new_consumer = (Inr (), c)"
    by (simp add: order_Start_def go_run subscribe_eval Let_def)
  show ?thesis using main_terminates [where start = "order_Start sample_sys (\<lambda>_. None)" and n = 2 and conns = "()"
        and conn = "()" and stop = "consumer_Stop (\<lambda>_. None)" and env = "\<lambda>_. ''''", OF c] by blast
qed

end
