(* ===== verification/Http_Server.thy ===== *)
theory Http_Server
  imports Order_Interfaces Inventory_Interfaces Payment_Interfaces
begin

text \<open>
  The HTTP servers of the three services: newHTTPServer of services/*/cmd/main.go and RegisterRoutes
  of services/*/internal/interfaces/http.go. Echo is a library: a server is the list of what was
  given to \<open>Use\<close> and of the routes that were registered, in order; which route takes a request is
  up to the argument \<open>router\<close>, of which \<open>router_ok\<close> says what Echo documents; requests that no
  route takes are answered by the argument \<open>fallback\<close>. What the middleware does around a handler
  is outside the model.
\<close>

section \<open>A server\<close>

datatype middleware = RequestLogger | Recover | CORS "string list"

text \<open>What a handler gets: the path parameters, and the body that \<open>c.Bind\<close> reads.\<close>

record 'b http_context =
  ctx_params :: "(string \<times> string) list"
  ctx_body :: 'b

type_synonym ('b, 's) handler = "'b http_context \<Rightarrow> 's \<Rightarrow> http_response \<times> 's"

record ('b, 's) echo =
  uses :: "middleware list"
  routes :: "((string \<times> string) \<times> ('b, 's) handler) list"

definition c_Param :: "string \<Rightarrow> 'b http_context \<Rightarrow> string" where
  "c_Param name c = (case map_of (ctx_params c) name of None \<Rightarrow> '''' | Some v \<Rightarrow> v)"

definition e_Use :: "middleware \<Rightarrow> ('b, 's) echo \<Rightarrow> ('b, 's) echo" where
  "e_Use m e = e\<lparr>uses := uses e @ [m]\<rparr>"

definition add_route :: "string \<Rightarrow> string \<Rightarrow> ('b, 's) handler \<Rightarrow> ('b, 's) echo \<Rightarrow> ('b, 's) echo" where
  "add_route method path h e = e\<lparr>routes := routes e @ [((method, path), h)]\<rparr>"

text \<open>\<open>CORS\<close> panics when it is given no origin; a panic is \<open>None\<close>.\<close>

definition middleware_CORS :: "string list \<Rightarrow> middleware option" where
  "middleware_CORS origins = (if origins = [] then None else Some (CORS origins))"

definition echo_New :: "('b, 's) echo" where
  "echo_New = \<lparr>uses = [], routes = []\<rparr>"


section \<open>The servers of the services\<close>

definition order_newHTTPServer :: "('b, 's) echo option" where
  "order_newHTTPServer =
     (let e = e_Use Recover (e_Use RequestLogger echo_New)
      in map_option (\<lambda>cors. e_Use cors e) (middleware_CORS [''*'']))"

definition inventory_newHTTPServer :: "('b, 's) echo option" where
  "inventory_newHTTPServer =
     (let e = e_Use Recover (e_Use RequestLogger echo_New)
      in map_option (\<lambda>cors. e_Use cors e) (middleware_CORS [''*'']))"

definition payment_newHTTPServer :: "('b, 's) echo option" where
  "payment_newHTTPServer =
     (let e = e_Use Recover (e_Use RequestLogger echo_New)
      in map_option (\<lambda>cors. e_Use cors e) (middleware_CORS [''*'']))"

text \<open>The health checks.\<close>

definition order_HealthCheck :: "('b, 's) handler" where
  "order_HealthCheck c s = (c_JSON StatusOK (JObj [(''status'', JStr ''healthy'')]), s)"

definition inventory_HealthCheck :: "('b, 's) handler" where
  "inventory_HealthCheck c s = (c_JSON StatusOK (JObj [(''status'', JStr ''healthy'')]), s)"

definition payment_HealthCheck :: "('b, 's) handler" where
  "payment_HealthCheck c s = (c_JSON StatusOK (JObj [(''status'', JStr ''healthy'')]), s)"

text \<open>
  The routes: a group puts its prefix before the paths that are registered on it. The argument
  \<open>bind\<close> is \<open>c.Bind\<close>, and \<open>fmt\<close> the layout of a time.
\<close>

definition order_RegisterRoutes ::
  "sys \<Rightarrow> ('b \<Rightarrow> err + CreateOrderRequest) \<Rightarrow> (int \<Rightarrow> string) \<Rightarrow> ('b, order_db pg) echo \<Rightarrow> ('b, order_db pg) echo" where
  "order_RegisterRoutes sys bind fmt e =
     (let orders = ''/orders'';
          e = add_route ''POST'' (orders @ '''') (\<lambda>c. http_CreateOrder sys (bind (ctx_body c))) e;
          e = add_route ''GET'' (orders @ ''/:id'') (\<lambda>c. http_GetOrder sys fmt (c_Param ''id'' c)) e
      in add_route ''GET'' ''/health'' order_HealthCheck e)"

definition inventory_RegisterRoutes :: "sys \<Rightarrow> ('b, inventory_db pg) echo \<Rightarrow> ('b, inventory_db pg) echo" where
  "inventory_RegisterRoutes sys e =
     (let inventory = ''/inventory'';
          e = add_route ''GET'' (inventory @ ''/:product_id'') (\<lambda>c. http_GetInventory sys (c_Param ''product_id'' c)) e
      in add_route ''GET'' ''/health'' inventory_HealthCheck e)"

definition payment_RegisterRoutes ::
  "sys \<Rightarrow> (int \<Rightarrow> string) \<Rightarrow> ('b, payment_db pg) echo \<Rightarrow> ('b, payment_db pg) echo" where
  "payment_RegisterRoutes sys fmt e =
     (let payments = ''/payments'';
          e = add_route ''GET'' (payments @ ''/order/:order_id'')
                (\<lambda>c. http_GetPaymentByOrder sys fmt (c_Param ''order_id'' c)) e
      in add_route ''GET'' ''/health'' payment_HealthCheck e)"

text \<open>What main starts: a new server with the routes of the handler, or a panic.\<close>

definition order_http ::
  "sys \<Rightarrow> ('b \<Rightarrow> err + CreateOrderRequest) \<Rightarrow> (int \<Rightarrow> string) \<Rightarrow> ('b, order_db pg) echo option" where
  "order_http sys bind fmt = map_option (order_RegisterRoutes sys bind fmt) order_newHTTPServer"

definition inventory_http :: "sys \<Rightarrow> ('b, inventory_db pg) echo option" where
  "inventory_http sys = map_option (inventory_RegisterRoutes sys) inventory_newHTTPServer"

definition payment_http :: "sys \<Rightarrow> (int \<Rightarrow> string) \<Rightarrow> ('b, payment_db pg) echo option" where
  "payment_http sys fmt = map_option (payment_RegisterRoutes sys fmt) payment_newHTTPServer"


section \<open>Requests\<close>

record 'b http_request =
  rq_method :: string
  rq_path :: string
  rq_body :: 'b

type_synonym echo_router = "(string \<times> string) list \<Rightarrow> string \<Rightarrow> string \<Rightarrow> (nat \<times> (string \<times> string) list) option"

definition serve ::
  "echo_router \<Rightarrow> ('b http_request \<Rightarrow> http_response) \<Rightarrow> ('b, 's) echo \<Rightarrow> 'b http_request \<Rightarrow> 's \<Rightarrow> http_response \<times> 's" where
  "serve router fallback e rq s =
     (case router (map fst (routes e)) (rq_method rq) (rq_path rq) of
        None \<Rightarrow> (fallback rq, s)
      | Some (i, params) \<Rightarrow> snd (routes e ! i) \<lparr>ctx_params = params, ctx_body = rq_body rq\<rparr> s)"

text \<open>
  A path matches a pattern segment by segment, where \<open>:name\<close> takes any segment that is not empty. A
  request goes to a route of its method, and when exactly one route of its method matches its path,
  to that route, with the parameters. The latter is only said of paths of letters, digits and
  hyphens, since Echo may decode others.
\<close>

fun segments :: "string \<Rightarrow> string list" where
  "segments [] = [[]]"
| "segments (c # cs) =
     (if c = CHR ''/'' then [] # segments cs
      else case segments cs of [] \<Rightarrow> [[c]] | x # xs \<Rightarrow> (c # x) # xs)"

fun seg_match :: "string list \<Rightarrow> string list \<Rightarrow> (string \<times> string) list option" where
  "seg_match [] [] = Some []"
| "seg_match (p # ps) (x # xs) =
     (if p \<noteq> [] \<and> hd p = CHR '':'' then (if x = [] then None else map_option (Cons (tl p, x)) (seg_match ps xs))
      else if p = x then seg_match ps xs else None)"
| "seg_match _ _ = None"

definition route_match :: "(string \<times> string) list \<Rightarrow> string \<Rightarrow> string \<Rightarrow> nat \<Rightarrow> (string \<times> string) list option" where
  "route_match table method path j =
     (if j < length table \<and> fst (table ! j) = method then seg_match (segments (snd (table ! j))) (segments path) else None)"

definition plain_path :: "string \<Rightarrow> bool" where
  "plain_path = list_all (\<lambda>c. c \<in> set ''/-0123456789abcdefghijklmnopqrstuvwxyzABCDEFGHIJKLMNOPQRSTUVWXYZ'')"

definition router_ok :: "echo_router \<Rightarrow> bool" where
  "router_ok router \<longleftrightarrow>
     (\<forall>table method path i params. router table method path = Some (i, params) \<longrightarrow>
        i < length table \<and> fst (table ! i) = method) \<and>
     (\<forall>table method path i params. plain_path path \<and> route_match table method path i = Some params \<and>
        (\<forall>j. j \<noteq> i \<longrightarrow> route_match table method path j = None) \<longrightarrow>
        router table method path = Some (i, params))"


section \<open>Reading over HTTP\<close>

lemma find_filter: "find P xs = (case filter P xs of [] \<Rightarrow> None | x # _ \<Rightarrow> Some x)"
  by (induction xs) auto

lemma order_read:
  assumes "http_GetOrder sys fmt key s = (resp, s')"
  shows "durable s' = durable s \<and>
    read_answer key (stmt_err sys (tick s) \<noteq> None) (filter (\<lambda>r. uuid_in sys key = Some (o_id r)) (orders (durable s)))
      (\<lambda>r. marshal_order sys (order_response fmt (order_of_row sys r))) resp"
  using assms
  by (auto simp: http_GetOrder_def GetOrder_def order_FindByID_def go_run pool_stmt_def select_order_def
        read_answer_def http_status_defs find_filter filter_empty_conv
        split: if_splits option.splits list.splits dest!: filter_eq_ConsD)

lemma inventory_read:
  assumes "http_GetInventory sys key s = (resp, s')"
  shows "durable s' = durable s \<and>
    read_answer key (stmt_err sys (tick s) \<noteq> None \<or> \<not> text_in sys key)
      (filter (\<lambda>r. i_product_id r = key) (inventory (durable s)))
      (\<lambda>r. marshal_inventory (inventory_response (inventory_of_row r))) resp"
  using assms
  by (auto simp: http_GetInventory_def GetInventory_def inventory_FindByProductID_def go_run pool_stmt_def
        select_inventory_def read_answer_def http_status_defs find_filter filter_empty_conv
        split: if_splits option.splits list.splits dest!: filter_eq_ConsD)

lemma payment_read:
  assumes "http_GetPaymentByOrder sys fmt key s = (resp, s')" and "scans_ok sys"
  shows "durable s' = durable s \<and>
    read_answer key (stmt_err sys (tick s) \<noteq> None)
      (filter (\<lambda>r. uuid_in sys key = Some (p_order_id r)) (payments (durable s)))
      (\<lambda>r. marshal_payment sys (payment_response fmt (payment_of_row sys r))) resp"
proof (cases "uuid_in sys key")
  case None
  with assms(1) show ?thesis
    by (auto simp: http_GetPaymentByOrder_def GetPayment_def payment_FindByOrderID_def payment_not_found_def go_run
          pool_stmt_def select_payment_of_order_def read_answer_def http_status_defs split: if_splits option.splits)
next
  case (Some u)
  let ?rs = "filter (\<lambda>r. p_order_id r = u) (payments (durable s))"
  have found: "filter (\<lambda>r. uuid_in sys key = Some (p_order_id r)) (payments (durable s)) = ?rs"
    using Some by (metis option.inject)
  have scan: "set (scan sys (tick s) ?rs) = set ?rs" using assms(2) by simp
  show ?thesis
  proof (cases "scan sys (tick s) ?rs")
    case Nil
    with scan have "?rs = []" by (metis set_empty2)
    with assms(1) Some Nil found show ?thesis
      by (auto simp: http_GetPaymentByOrder_def GetPayment_def payment_FindByOrderID_def payment_not_found_def go_run
            pool_stmt_def select_payment_of_order_def read_answer_def http_status_defs split: if_splits option.splits)
  next
    case (Cons r rs)
    with scan have r: "r \<in> set ?rs" by (metis list.set_intros(1))
    then have "?rs \<noteq> []" by (metis empty_iff empty_set)
    with assms(1) Some Cons r found show ?thesis
      by (auto simp: http_GetPaymentByOrder_def GetPayment_def payment_FindByOrderID_def payment_not_found_def go_run
            pool_stmt_def select_payment_of_order_def read_answer_def http_status_defs simp del: set_filter
            split: if_splits option.splits)
  qed
qed


section \<open>Dispatch\<close>

lemma router_method:
  "router_ok router \<Longrightarrow> router table method path = Some (i, params) \<Longrightarrow> i < length table \<and> fst (table ! i) = method"
  unfolding router_ok_def by blast

lemma router_only:
  assumes "router_ok router" and "plain_path path" and "route_match table method path i = Some params"
    and "\<And>j. j < length table \<Longrightarrow> j \<noteq> i \<Longrightarrow> route_match table method path j = None"
  shows "router table method path = Some (i, params)"
proof -
  have "route_match table method path j = None" if "j \<noteq> i" for j
    using assms(4) that by (cases "j < length table") (auto simp: route_match_def)
  with assms(1-3) show ?thesis unfolding router_ok_def by blast
qed

lemma segments_last: "CHR ''/'' \<notin> set v \<Longrightarrow> segments v = [v]"
  by (induction v) auto

lemmas server_defs = e_Use_def add_route_def echo_New_def middleware_CORS_def Let_def

lemmas order_routes = order_http_def order_newHTTPServer_def order_RegisterRoutes_def server_defs

lemmas inventory_routes = inventory_http_def inventory_newHTTPServer_def inventory_RegisterRoutes_def server_defs

lemmas payment_routes = payment_http_def payment_newHTTPServer_def payment_RegisterRoutes_def server_defs

text \<open>A name that is one segment of a path.\<close>

definition plain_name :: "string \<Rightarrow> bool" where
  "plain_name v \<longleftrightarrow> v \<noteq> '''' \<and> plain_path v \<and> CHR ''/'' \<notin> set v"

lemma small_index:
  "(j :: nat) < Suc (Suc (Suc 0)) \<longleftrightarrow> j = 0 \<or> j = 1 \<or> j = 2" "(j :: nat) < Suc (Suc 0) \<longleftrightarrow> j = 0 \<or> j = 1"
  by auto

lemmas dispatch = route_match_def small_index plain_path_def segments_last

lemma order_dispatch:
  assumes ok: "router_ok router" and e: "order_http sys bind fmt = Some e"
  shows "serve router fallback e \<lparr>rq_method = ''POST'', rq_path = ''/orders'', rq_body = body\<rparr> s = http_CreateOrder sys (bind body) s"
    "plain_name v \<Longrightarrow> serve router fallback e \<lparr>rq_method = ''GET'', rq_path = ''/orders/'' @ v, rq_body = body\<rparr> s = http_GetOrder sys fmt v s"
    "serve router fallback e \<lparr>rq_method = ''GET'', rq_path = ''/health'', rq_body = body\<rparr> s = (HealthCheck, s)"
proof -
  have table: "map fst (routes e) = [(''POST'', ''/orders''), (''GET'', ''/orders/:id''), (''GET'', ''/health'')]"
    using e by (auto simp: order_routes)
  have "router (map fst (routes e)) ''POST'' ''/orders'' = Some (0, [])"
    by (rule router_only [OF ok]) (auto simp: table dispatch)
  then show "serve router fallback e \<lparr>rq_method = ''POST'', rq_path = ''/orders'', rq_body = body\<rparr> s = http_CreateOrder sys (bind body) s"
    using e by (auto simp: serve_def order_routes)
  have "router (map fst (routes e)) ''GET'' ''/health'' = Some (2, [])"
    by (rule router_only [OF ok]) (auto simp: table dispatch)
  then show "serve router fallback e \<lparr>rq_method = ''GET'', rq_path = ''/health'', rq_body = body\<rparr> s = (HealthCheck, s)"
    using e by (auto simp: serve_def order_routes order_HealthCheck_def HealthCheck_def)
  assume v: "plain_name v"
  have "router (map fst (routes e)) ''GET'' (''/orders/'' @ v) = Some (1, [(''id'', v)])"
    by (rule router_only [OF ok]) (use v in \<open>auto simp: table dispatch plain_name_def\<close>)
  then show "serve router fallback e \<lparr>rq_method = ''GET'', rq_path = ''/orders/'' @ v, rq_body = body\<rparr> s = http_GetOrder sys fmt v s"
    using e by (auto simp: serve_def order_routes c_Param_def)
qed

lemma inventory_dispatch:
  assumes ok: "router_ok router" and e: "inventory_http sys = Some e"
  shows "plain_name v \<Longrightarrow> serve router fallback e \<lparr>rq_method = ''GET'', rq_path = ''/inventory/'' @ v, rq_body = body\<rparr> s = http_GetInventory sys v s"
    "serve router fallback e \<lparr>rq_method = ''GET'', rq_path = ''/health'', rq_body = body\<rparr> s = (HealthCheck, s)"
proof -
  have table: "map fst (routes e) = [(''GET'', ''/inventory/:product_id''), (''GET'', ''/health'')]"
    using e by (auto simp: inventory_routes)
  have "router (map fst (routes e)) ''GET'' ''/health'' = Some (1, [])"
    by (rule router_only [OF ok]) (auto simp: table dispatch)
  then show "serve router fallback e \<lparr>rq_method = ''GET'', rq_path = ''/health'', rq_body = body\<rparr> s = (HealthCheck, s)"
    using e by (auto simp: serve_def inventory_routes inventory_HealthCheck_def HealthCheck_def)
  assume v: "plain_name v"
  have "router (map fst (routes e)) ''GET'' (''/inventory/'' @ v) = Some (0, [(''product_id'', v)])"
    by (rule router_only [OF ok]) (use v in \<open>auto simp: table dispatch plain_name_def\<close>)
  then show "serve router fallback e \<lparr>rq_method = ''GET'', rq_path = ''/inventory/'' @ v, rq_body = body\<rparr> s = http_GetInventory sys v s"
    using e by (auto simp: serve_def inventory_routes c_Param_def)
qed

lemma payment_dispatch:
  assumes ok: "router_ok router" and e: "payment_http sys fmt = Some e"
  shows "plain_name v \<Longrightarrow> serve router fallback e \<lparr>rq_method = ''GET'', rq_path = ''/payments/order/'' @ v, rq_body = body\<rparr> s = http_GetPaymentByOrder sys fmt v s"
    "serve router fallback e \<lparr>rq_method = ''GET'', rq_path = ''/health'', rq_body = body\<rparr> s = (HealthCheck, s)"
proof -
  have table: "map fst (routes e) = [(''GET'', ''/payments/order/:order_id''), (''GET'', ''/health'')]"
    using e by (auto simp: payment_routes)
  have "router (map fst (routes e)) ''GET'' ''/health'' = Some (1, [])"
    by (rule router_only [OF ok]) (auto simp: table dispatch)
  then show "serve router fallback e \<lparr>rq_method = ''GET'', rq_path = ''/health'', rq_body = body\<rparr> s = (HealthCheck, s)"
    using e by (auto simp: serve_def payment_routes payment_HealthCheck_def HealthCheck_def)
  assume v: "plain_name v"
  have "router (map fst (routes e)) ''GET'' (''/payments/order/'' @ v) = Some (0, [(''order_id'', v)])"
    by (rule router_only [OF ok]) (use v in \<open>auto simp: table dispatch plain_name_def\<close>)
  then show "serve router fallback e \<lparr>rq_method = ''GET'', rq_path = ''/payments/order/'' @ v, rq_body = body\<rparr> s = http_GetPaymentByOrder sys fmt v s"
    using e by (auto simp: serve_def payment_routes c_Param_def)
qed

text \<open>What a request of any method and path can do to a database.\<close>

lemma http_harmless:
  assumes "router_ok router" and "serve router fallback e rq s = (resp, s')"
    and "\<And>i c t. i < length (routes e) \<Longrightarrow> fst (fst (routes e ! i)) = rq_method rq \<Longrightarrow>
      durable (snd (snd (routes e ! i) c t)) = durable t"
  shows "durable s' = durable s"
proof (cases "router (map fst (routes e)) (rq_method rq) (rq_path rq)")
  case None
  with assms(2) show ?thesis by (simp add: serve_def)
next
  case (Some x)
  then obtain i params where x: "router (map fst (routes e)) (rq_method rq) (rq_path rq) = Some (i, params)" by (cases x) auto
  from router_method [OF assms(1) this] have "i < length (map fst (routes e))" "fst (map fst (routes e) ! i) = rq_method rq" by blast+
  then have "i < length (routes e)" "fst (fst (routes e ! i)) = rq_method rq" by simp_all
  from assms(3) [OF this] assms(2) x show ?thesis by (simp add: serve_def) (metis snd_conv)
qed

lemma order_http_harmless:
  assumes "router_ok router" and "order_http sys bind fmt = Some e" and "serve router fallback e rq s = (resp, s')"
    and "rq_method rq \<noteq> ''POST''"
  shows "durable s' = durable s"
  by (rule http_harmless [OF assms(1,3)])
     (use assms(2,4) order_read in \<open>auto simp: order_routes small_index order_HealthCheck_def\<close>, metis prod.collapse)

lemma inventory_http_harmless:
  assumes "router_ok router" and "inventory_http sys = Some e" and "serve router fallback e rq s = (resp, s')"
  shows "durable s' = durable s"
  by (rule http_harmless [OF assms(1,3)])
     (use assms(2) inventory_read in \<open>auto simp: inventory_routes small_index inventory_HealthCheck_def\<close>, metis prod.collapse)

lemma payment_http_harmless:
  assumes "router_ok router" and "payment_http sys fmt = Some e" and "serve router fallback e rq s = (resp, s')" and "scans_ok sys"
  shows "durable s' = durable s"
  by (rule http_harmless [OF assms(1,3)])
     (use assms(2,4) payment_read in \<open>auto simp: payment_routes small_index payment_HealthCheck_def\<close>, metis prod.collapse)

text \<open>A router that takes the first route that matches.\<close>

definition first_match :: echo_router where
  "first_match table method path =
     (case find (\<lambda>i. route_match table method path i \<noteq> None) [0..<length table] of
        None \<Rightarrow> None
      | Some i \<Rightarrow> Some (i, the (route_match table method path i)))"

lemma first_match_ok: "router_ok first_match"
  unfolding router_ok_def
proof (intro conjI allI impI)
  fix table verb url i params
  assume "first_match table verb url = Some (i, params)"
  then show "i < length table" "fst (table ! i) = verb"
    by (auto simp: first_match_def find_Some_iff route_match_def split: option.splits if_splits)
next
  fix table verb url i params
  assume only: "plain_path url \<and> route_match table verb url i = Some params \<and>
      (\<forall>j. j \<noteq> i \<longrightarrow> route_match table verb url j = None)"
  then have "i < length table" by (auto simp: route_match_def split: if_splits)
  with only have "find (\<lambda>i. route_match table verb url i \<noteq> None) [0..<length table] = Some i"
    by (auto simp: find_Some_iff intro!: exI [of _ i])
  with only show "first_match table verb url = Some (i, params)" by (simp add: first_match_def)
qed

end
