(* ===== verification/Tx_Prog.thy ===== *)
theory Tx_Prog
  imports Outbox_Relay
begin

text \<open>
  A call of a service as a program whose steps are its exchanges with the database, so that several
  calls can run at the same time.

  The use cases are functions of the whole process state, which fits a call that has the database to
  itself. A \<open>prog\<close> is the same call cut at every exchange: what it asks next, and how it goes on
  with the answer. \<open>alone\<close> runs a program without interruption; run so, the programs of a service
  are its use cases. \<open>advance\<close> makes one exchange against the committed database as it is then.
\<close>

section \<open>Programs\<close>

text \<open>
  What a statement does in an open transaction: it is served, the rows it locks or writes given as row
  operations; or it is served and the connection breaks while the rows are read; or it is never sent,
  or the server rejects it.
\<close>

datatype ('p, 'op) answer =
    Served 'p "'op list"
  | Cut 'p "'op list"
  | Unsent err
  | Rejected err

text \<open>
  \<open>Draw\<close> takes a value from the process's environment (a UUID, the clock); \<open>Stmt\<close> is a statement
  in the open transaction, with the number of the exchange, the time the transaction began and the
  rows it sees; \<open>Read\<close> is a query on the pool; \<open>Hand\<close> gives a message to the broker. The other
  argument of a step that can fail is what follows a failure.
\<close>

datatype ('op, 'db, 'a) prog =
    Finish "err + 'a"
  | Draw "nat \<Rightarrow> ('op, 'db, 'a) prog"
  | Begin "err \<Rightarrow> ('op, 'db, 'a) prog" "('op, 'db, 'a) prog"
  | Stmt "err \<Rightarrow> ('op, 'db, 'a) prog" "nat \<times> int \<times> 'db \<Rightarrow> (('op, 'db, 'a) prog, 'op) answer"
  | Read "err \<Rightarrow> ('op, 'db, 'a) prog" "nat \<times> int \<times> 'db \<Rightarrow> err + ('op, 'db, 'a) prog"
  | Hand "string \<times> json" "err \<Rightarrow> ('op, 'db, 'a) prog" "('op, 'db, 'a) prog"
  | Commit "err \<Rightarrow> ('op, 'db, 'a) prog" "('op, 'db, 'a) prog"
  | Rollback "('op, 'db, 'a) prog"

text \<open>\<open>v, err := m(); if err != nil { h(err) }; k(v)\<close>\<close>

primrec p_catch ::
  "('op, 'db, 'a) prog \<Rightarrow> (err \<Rightarrow> ('op, 'db, 'b) prog) \<Rightarrow> ('a \<Rightarrow> ('op, 'db, 'b) prog) \<Rightarrow> ('op, 'db, 'b) prog"
  where
  "p_catch (Finish r) f g = (case r of Inl e \<Rightarrow> f e | Inr a \<Rightarrow> g a)"
| "p_catch (Draw k) f g = Draw (\<lambda>t. p_catch (k t) f g)"
| "p_catch (Begin h p) f g = Begin (\<lambda>e. p_catch (h e) f g) (p_catch p f g)"
| "p_catch (Stmt h q) f g = Stmt (\<lambda>e. p_catch (h e) f g) (\<lambda>x. map_answer (\<lambda>p. p_catch p f g) id (q x))"
| "p_catch (Read h q) f g = Read (\<lambda>e. p_catch (h e) f g) (\<lambda>x. map_sum id (\<lambda>p. p_catch p f g) (q x))"
| "p_catch (Hand m h p) f g = Hand m (\<lambda>e. p_catch (h e) f g) (p_catch p f g)"
| "p_catch (Commit h p) f g = Commit (\<lambda>e. p_catch (h e) f g) (p_catch p f g)"
| "p_catch (Rollback p) f g = Rollback (p_catch p f g)"

definition p_return :: "'a \<Rightarrow> ('op, 'db, 'a) prog" where
  "p_return a = Finish (Inr a)"

definition p_fail :: "err \<Rightarrow> ('op, 'db, 'a) prog" where
  "p_fail e = Finish (Inl e)"

definition p_bind :: "('op, 'db, 'a) prog \<Rightarrow> ('a \<Rightarrow> ('op, 'db, 'b) prog) \<Rightarrow> ('op, 'db, 'b) prog" where
  "p_bind m k = p_catch m p_fail k"

definition p_try :: "('op, 'db, 'a) prog \<Rightarrow> string \<Rightarrow> ('a \<Rightarrow> ('op, 'db, 'b) prog) \<Rightarrow> ('op, 'db, 'b) prog" where
  "p_try m w k = p_catch m (\<lambda>e. p_fail (Errorf w e)) k"

definition p_uuid :: "sys \<Rightarrow> ('op, 'db, string) prog" where
  "p_uuid sys = Draw (\<lambda>t. p_return (uuid_New sys t))"

definition p_now :: "sys \<Rightarrow> ('op, 'db, int) prog" where
  "p_now sys = Draw (\<lambda>t. p_return (time_Now sys t))"

text \<open>A statement, from what it does to the rows it sees; \<open>w\<close> lists its row operations.\<close>

definition p_stmt_at ::
  "(nat \<Rightarrow> int \<Rightarrow> 'db \<Rightarrow> ('a, 'db) reply) \<Rightarrow> (int \<Rightarrow> 'a \<Rightarrow> 'db \<Rightarrow> 'op list) \<Rightarrow> ('op, 'db, 'a) prog" where
  "p_stmt_at q w = Stmt p_fail (\<lambda>(t, now, v).
     case q t now v of
       Done a v' \<Rightarrow> Served (p_return a) (w now a v')
     | ClientReject e \<Rightarrow> Unsent e
     | ServerReject e \<Rightarrow> Rejected e)"

abbreviation p_stmt ::
  "(int \<Rightarrow> 'db \<Rightarrow> ('a, 'db) reply) \<Rightarrow> (int \<Rightarrow> 'a \<Rightarrow> 'db \<Rightarrow> 'op list) \<Rightarrow> ('op, 'db, 'a) prog" where
  "p_stmt q \<equiv> p_stmt_at (\<lambda>_. q)"

definition p_rows ::
  "sys \<Rightarrow> (nat \<Rightarrow> int \<Rightarrow> 'db \<Rightarrow> ('r list, 'db) reply) \<Rightarrow> (int \<Rightarrow> 'r list \<Rightarrow> 'db \<Rightarrow> 'op list)
   \<Rightarrow> ('op, 'db, 'r list \<times> err option) prog" where
  "p_rows sys q w = Stmt p_fail (\<lambda>(t, now, v).
     case q t now v of
       Done rs v' \<Rightarrow>
         (case rows_cut sys t of
            None \<Rightarrow> Served (p_return (rs, None)) (w now rs v')
          | Some (k, msg) \<Rightarrow> Cut (p_return (take k rs, Some (Driver msg))) (w now rs v'))
     | ClientReject e \<Rightarrow> Unsent e
     | ServerReject e \<Rightarrow> Rejected e)"

text \<open>A query on the pool that leaves the database as it is.\<close>

definition p_read :: "(nat \<Rightarrow> int \<Rightarrow> 'db \<Rightarrow> ('a, 'db) reply) \<Rightarrow> ('op, 'db, 'a) prog" where
  "p_read q = Read p_fail (\<lambda>(t, now, v).
     case q t now v of Done a _ \<Rightarrow> Inr (p_return a) | ClientReject e \<Rightarrow> Inl e | ServerReject e \<Rightarrow> Inl e)"

definition p_publish :: "string \<Rightarrow> json \<Rightarrow> ('op, 'db, unit) prog" where
  "p_publish subject data =
     Hand (subject, data) (\<lambda>e. p_fail (Errorf (''publish to '' @ subject) e)) (p_return ())"

definition p_commit :: "('op, 'db, unit) prog" where
  "p_commit = Commit (\<lambda>e. Finish (Inl e)) (Finish (Inr ()))"

definition p_with_tx :: "('op, 'db, 'a) prog \<Rightarrow> ('op, 'db, 'a) prog" where
  "p_with_tx body =
     Begin (\<lambda>e. p_fail (Errorf ''begin transaction'' e))
       (p_catch body (\<lambda>e. Rollback (p_fail e)) (\<lambda>a. Rollback (p_return a)))"

lemmas p_defs = p_return_def p_fail_def p_bind_def p_try_def p_uuid_def p_now_def p_stmt_at_def p_rows_def
  p_read_def p_publish_def p_commit_def p_with_tx_def


lemma p_catch_catch:
  "p_catch (p_catch m f g) f' g' = p_catch m (\<lambda>e. p_catch (f e) f' g') (\<lambda>a. p_catch (g a) f' g')"
proof (induction m)
  case (Stmt h q)
  have "map_answer (\<lambda>p. p_catch (p_catch p f g) f' g') id (q x) =
      map_answer (\<lambda>p. p_catch p (\<lambda>e. p_catch (f e) f' g') (\<lambda>a. p_catch (g a) f' g')) id (q x)" for x
    by (rule answer.map_cong0) (use Stmt.IH(2) [OF rangeI] in auto)
  then show ?case using Stmt.IH(1) by (simp add: answer.map_comp comp_def id_def)
next
  case (Read h q)
  have "map_sum id (\<lambda>p. p_catch (p_catch p f g) f' g') (q x) =
      map_sum id (\<lambda>p. p_catch p (\<lambda>e. p_catch (f e) f' g') (\<lambda>a. p_catch (g a) f' g')) (q x)" for x
    by (rule sum.map_cong0) (use Read.IH(2) [OF rangeI] in auto)
  then show ?case using Read.IH(1) by (simp add: sum.map_comp comp_def id_def)
qed (auto split: sum.split)

text \<open>A program in the form in which its first step shows.\<close>

named_theorems first_step \<open>bringing the first step of a program to the front\<close>

lemma first_steps [first_step]:
  "p_bind m1 k1 = p_catch m1 p_fail k1"
  "p_try m2 w k2 = p_catch m2 (\<lambda>e. p_fail (Errorf w e)) k2"
  "p_catch (p_catch m3 f3 g3) f3' g3' = p_catch m3 (\<lambda>e. p_catch (f3 e) f3' g3') (\<lambda>a. p_catch (g3 a) f3' g3')"
  "p_catch (p_return x) f4 g4 = g4 x"
  "p_catch (p_fail err) f5 g5 = f5 err"
  "p_catch (Finish r6) f6 g6 = (case r6 of Inl e \<Rightarrow> f6 e | Inr a \<Rightarrow> g6 a)"
  "p_catch (Rollback p7) f7 g7 = Rollback (p_catch p7 f7 g7)"
  "p_catch (if b then m8 else m8') f8 g8 = (if b then p_catch m8 f8 g8 else p_catch m8' f8 g8)"
  "p_catch (case r9 of Inl e \<Rightarrow> m9 e | Inr a \<Rightarrow> m9' a) f9 g9 =
     (case r9 of Inl e \<Rightarrow> p_catch (m9 e) f9 g9 | Inr a \<Rightarrow> p_catch (m9' a) f9 g9)"
  by (simp_all add: p_bind_def p_try_def p_catch_catch p_return_def p_fail_def split: sum.split)


section \<open>A program on its own\<close>

text \<open>
  The environment as a program sees it whose exchanges are the numbers \<open>f 0\<close>, \<open>f 1\<close>, \dots of the
  process: other calls made the ones in between.
\<close>

definition retime :: "(nat \<Rightarrow> nat) \<Rightarrow> sys \<Rightarrow> sys" where
  "retime f sys = sys
     \<lparr>uuid_New := uuid_New sys \<circ> f, time_Now := time_Now sys \<circ> f, server_time := server_time sys \<circ> f,
      scan_order := scan_order sys \<circ> f, begin_err := begin_err sys \<circ> f,
      stmt_err := stmt_err sys \<circ> f, rows_cut := rows_cut sys \<circ> f, commit_reply := commit_reply sys \<circ> f,
      row_locked := row_locked sys \<circ> f, publish_err := publish_err sys \<circ> f,
      rand_Float64 := rand_Float64 sys \<circ> f\<rparr>"

lemma retime_fields [simp]:
  "uuid_New (retime f sys) t = uuid_New sys (f t)" "time_Now (retime f sys) t = time_Now sys (f t)"
  "server_time (retime f sys) t = server_time sys (f t)" "scan_order (retime f sys) t = scan_order sys (f t)"
  "begin_err (retime f sys) t = begin_err sys (f t)" "stmt_err (retime f sys) t = stmt_err sys (f t)"
  "rows_cut (retime f sys) t = rows_cut sys (f t)" "commit_reply (retime f sys) t = commit_reply sys (f t)"
  "row_locked (retime f sys) t = row_locked sys (f t)" "publish_err (retime f sys) t = publish_err sys (f t)"
  "rand_Float64 (retime f sys) t = rand_Float64 sys (f t)"
  "uuid_in (retime f sys) = uuid_in sys" "text_in (retime f sys) = text_in sys"
  "text_ok (retime f sys) = text_ok sys" "timestamptz (retime f sys) = timestamptz sys"
  "numeric_in (retime f sys) = numeric_in sys" "numeric_out (retime f sys) = numeric_out sys"
  "int_of_big_float (retime f sys) = int_of_big_float sys" "time_text (retime f sys) = time_text sys"
  "time_parse (retime f sys) = time_parse sys" "float_text (retime f sys) = float_text sys"
  "jsonb_in (retime f sys) = jsonb_in sys"
  by (simp_all add: retime_def)

primrec alone ::
  "(nat \<Rightarrow> nat) \<Rightarrow> sys \<Rightarrow> ('op \<Rightarrow> 'db \<Rightarrow> 'db) \<Rightarrow> ('op, 'db, 'a) prog \<Rightarrow> ('db pg, 'a) go" where
  "alone f sys A (Finish r) = go_lift r"
| "alone f sys A (Draw k) = (\<lambda>s. alone f sys A (k (f (tick s))) (s\<lparr>tick := Suc (tick s)\<rparr>))"
| "alone f sys A (Begin h p) =
     go_catch (tx_Begin (retime f sys)) (\<lambda>e. alone f sys A (h e)) (\<lambda>_. alone f sys A p)"
| "alone f sys A (Stmt h q) = (\<lambda>s.
     let s' = s\<lparr>tick := Suc (tick s)\<rparr> in
     if failed s then alone f sys A (h ErrTxAborted) s'
     else case stmt_err sys (f (tick s)) of
       Some msg \<Rightarrow> alone f sys A (h (Driver msg)) (s'\<lparr>failed := True\<rparr>)
     | None \<Rightarrow>
         (case map_answer (alone f sys A) id (q (f (tick s), started s, view s)) of
            Served m ops \<Rightarrow> m (s'\<lparr>view := fold A ops (view s)\<rparr>)
          | Cut m ops \<Rightarrow> m (s'\<lparr>view := fold A ops (view s), failed := True\<rparr>)
          | Unsent e \<Rightarrow> alone f sys A (h e) s'
          | Rejected e \<Rightarrow> alone f sys A (h e) (s'\<lparr>failed := True\<rparr>)))"
| "alone f sys A (Read h q) = (\<lambda>s.
     let s' = s\<lparr>tick := Suc (tick s)\<rparr> in
     case stmt_err sys (f (tick s)) of
       Some msg \<Rightarrow> alone f sys A (h (Driver msg)) s'
     | None \<Rightarrow>
         (case map_sum id (alone f sys A) (q (f (tick s), server_time sys (f (tick s)), durable s)) of
            Inl e \<Rightarrow> alone f sys A (h e) s'
          | Inr m \<Rightarrow> m s'))"
| "alone f sys A (Hand m h p) = (\<lambda>s.
     let s' = s\<lparr>tick := Suc (tick s)\<rparr> in
     case publish_err sys (f (tick s)) of
       Some msg \<Rightarrow> alone f sys A (h (Driver msg)) s'
     | None \<Rightarrow> alone f sys A p (s'\<lparr>published := published s @ [m]\<rparr>))"
| "alone f sys A (Commit h p) =
     go_catch (tx_Commit (retime f sys)) (\<lambda>e. alone f sys A (h e)) (\<lambda>_. alone f sys A p)"
| "alone f sys A (Rollback p) = (\<lambda>s. alone f sys A p (tx_Rollback s))"


section \<open>The combinators\<close>

named_theorems solo \<open>what a program does on its own\<close>

lemma case_map_answer [simp]:
  "(case map_answer f g y of Served p ops \<Rightarrow> a p ops | Cut p ops \<Rightarrow> b p ops | Unsent e \<Rightarrow> c e | Rejected e \<Rightarrow> d e)
   = (case y of Served p ops \<Rightarrow> a (f p) (map g ops) | Cut p ops \<Rightarrow> b (f p) (map g ops) | Unsent e \<Rightarrow> c e | Rejected e \<Rightarrow> d e)"
  by (cases y) simp_all

lemma case_map_sum [simp]:
  "(case map_sum f g y of Inl e \<Rightarrow> a e | Inr p \<Rightarrow> b p) = (case y of Inl e \<Rightarrow> a (f e) | Inr p \<Rightarrow> b (g p))"
  by (cases y) simp_all

lemma alone_catch [solo]:
  "alone f sys A (p_catch m h k) =
     go_catch (alone f sys A m) (\<lambda>e. alone f sys A (h e)) (\<lambda>a. alone f sys A (k a))"
proof (induction m)
  case (Finish r)
  then show ?case by (simp add: go_eval fun_eq_iff split: sum.split)
next
  case (Stmt g q)
  have served: "alone f sys A (p_catch p h k) = go_catch (alone f sys A p) (\<lambda>e. alone f sys A (h e)) (\<lambda>a. alone f sys A (k a))"
    if "q x = Served p ops \<or> q x = Cut p ops" for x p ops
    by (rule Stmt.IH(2) [of "q x" p, OF rangeI]) (use that in auto)
  show ?case
  proof
    fix s
    show "alone f sys A (p_catch (Stmt g q) h k) s = go_catch (alone f sys A (Stmt g q)) (\<lambda>e. alone f sys A (h e)) (\<lambda>a. alone f sys A (k a)) s"
      using Stmt.IH(1) served [of "(f (tick s), started s, view s)"]
      by (cases "q (f (tick s), started s, view s)") (auto simp: go_eval Let_def split: option.split)
  qed
next
  case (Read g q)
  have served: "alone f sys A (p_catch p h k) = go_catch (alone f sys A p) (\<lambda>e. alone f sys A (h e)) (\<lambda>a. alone f sys A (k a))"
    if "q x = Inr p" for x p
    by (rule Read.IH(2) [of "q x" p, OF rangeI]) (simp add: that)
  show ?case
  proof
    fix s
    show "alone f sys A (p_catch (Read g q) h k) s = go_catch (alone f sys A (Read g q)) (\<lambda>e. alone f sys A (h e)) (\<lambda>a. alone f sys A (k a)) s"
      using Read.IH(1) served [of "(f (tick s), server_time sys (f (tick s)), durable s)"]
      by (cases "q (f (tick s), server_time sys (f (tick s)), durable s)") (auto simp: go_eval Let_def split: option.split)
  qed
qed (auto simp: fun_eq_iff go_eval Let_def split: prod.split sum.split option.split)

lemma alone_return [solo]: "alone f sys A (p_return a) = go_return a"
  by (simp add: p_return_def fun_eq_iff go_eval)

lemma alone_fail [solo]: "alone f sys A (p_fail e) = go_fail e"
  by (simp add: p_fail_def fun_eq_iff go_eval)

lemma alone_bind [solo]:
  "alone f sys A (p_bind m k) = go_bind (alone f sys A m) (\<lambda>a. alone f sys A (k a))"
  by (simp add: p_bind_def go_bind_def solo)

lemma alone_try [solo]:
  "alone f sys A (p_try m w k) = go_try (alone f sys A m) w (\<lambda>a. alone f sys A (k a))"
  by (simp add: p_try_def go_try_def solo)

lemma alone_uuid [solo]: "alone f sys A (p_uuid sys) = go_uuid (retime f sys)"
  by (simp add: p_uuid_def go_uuid_def fun_eq_iff solo go_eval)

lemma alone_now [solo]: "alone f sys A (p_now sys) = go_now (retime f sys)"
  by (simp add: p_now_def go_now_def fun_eq_iff solo go_eval)

lemma alone_stmt_at:
  assumes "\<And>t now v a v'. q t now v = Done a v' \<Longrightarrow> fold A (w now a v') v = v'"
  shows "alone f sys A (p_stmt_at q w) s = tx_stmt (retime f sys) (q (f (tick s))) s"
  using assms [of "f (tick s)" "started s" "view s"]
  by (auto simp: p_stmt_at_def tx_stmt_def Let_def solo go_eval split: option.split reply.split)

lemma alone_stmt:
  assumes "\<And>now v a v'. q now v = Done a v' \<Longrightarrow> fold A (w now a v') v = v'"
  shows "alone f sys A (p_stmt q w) = tx_stmt (retime f sys) q"
  by (rule ext, rule alone_stmt_at, rule assms)

lemma alone_rows:
  assumes "\<And>t now v rs v'. q t now v = Done rs v' \<Longrightarrow> fold A (w now rs v') v = v'"
  shows "alone f sys A (p_rows sys q w) s = tx_rows (retime f sys) (q (f (tick s))) s"
  using assms [of "f (tick s)" "started s" "view s"]
  by (auto simp: p_rows_def tx_rows_def tx_stmt_def Let_def solo go_eval
       split: option.split reply.split prod.split sum.split)

lemma alone_read_at:
  assumes "\<And>t now v a v'. q t now v = Done a v' \<Longrightarrow> v' = v"
  shows "alone f sys A (p_read q) s = pool_stmt (retime f sys) (q (f (tick s))) s"
  using assms [of "f (tick s)" "server_time sys (f (tick s))" "durable s"]
  by (auto simp: p_read_def pool_stmt_def Let_def solo go_eval split: option.split reply.split)

lemma alone_read:
  assumes "\<And>now v a v'. q now v = Done a v' \<Longrightarrow> v' = v"
  shows "alone f sys A (p_read (\<lambda>_. q)) = pool_stmt (retime f sys) q"
  by (rule ext, rule alone_read_at, rule assms)

lemma alone_publish [solo]: "alone f sys A (p_publish subject data) = nats_Publish (retime f sys) subject data"
  by (auto simp: p_publish_def nats_Publish_def fun_eq_iff Let_def solo go_eval split: option.split)

lemma alone_commit [solo]: "alone f sys A p_commit = tx_Commit (retime f sys)"
  by (auto simp: p_commit_def fun_eq_iff solo go_eval split: prod.split sum.split)

lemma alone_with_tx [solo]:
  "alone f sys A (p_with_tx body) = with_tx (retime f sys) (alone f sys A body)"
  by (auto simp: p_with_tx_def with_tx_def fun_eq_iff solo go_eval split: prod.split sum.split)

lemma alone_if: "alone f sys A (if b then m1 else m2) = (if b then alone f sys A m1 else alone f sys A m2)"
  by simp

lemma alone_case [solo]:
  "alone f sys A (case r of Inl e \<Rightarrow> m1 e | Inr a \<Rightarrow> m2 a) = (case r of Inl e \<Rightarrow> alone f sys A (m1 e) | Inr a \<Rightarrow> alone f sys A (m2 a))"
  by (simp split: sum.split)

lemma alone_lift [solo]: "alone f sys A (Finish r) = go_lift r"
  by simp

lemma snd_bind_returns: "snd (go_bind m (\<lambda>a. go_return (g a)) s) = snd (m s)"
  by (simp add: go_eval split: prod.split sum.split)

end
