(* ===== verification/Tx_Sessions.thy ===== *)
theory Tx_Sessions
  imports Tx_Prog Service
begin

text \<open>
  Calls that run at the same time on one database.

  A configuration (\<open>server\<close>) is the committed database and the calls in progress, each a session with
  what is left of its program and the row operations of its open transaction. A \<open>choice\<close> lets a call
  arrive, lets one session make its next exchange, or ends one (it has returned, or its connection
  broke). As PostgreSQL does it at READ COMMITTED: a statement sees the rows committed when it runs and
  those of its own transaction; a row that another open transaction has locked or written cannot be
  locked or written, the statement waits; locks are held until the transaction ends.
\<close>

section \<open>Sessions\<close>

record ('op, 'db, 'a) session =
  rest :: "('op, 'db, 'a) prog"
  rows :: "'op list"
  opened :: int
  broken :: bool

definition new_session :: "('op, 'db, 'a) prog \<Rightarrow> ('op, 'db, 'a) session" where
  "new_session p = \<lparr>rest = p, rows = [], opened = 0, broken = False\<rparr>"

lemma new_session_fields [simp]:
  "rest (new_session p) = p" "rows (new_session p) = []"
  by (simp_all add: new_session_def)

fun served_rows :: "('p, 'op) answer \<Rightarrow> 'op list" where
  "served_rows (Served p ops) = ops"
| "served_rows (Cut p ops) = ops"
| "served_rows (Unsent e) = []"
| "served_rows (Rejected e) = []"

fun follow :: "(err \<Rightarrow> 'p) \<Rightarrow> ('p, 'op) answer \<Rightarrow> 'p" where
  "follow h (Served p ops) = p"
| "follow h (Cut p ops) = p"
| "follow h (Unsent e) = h e"
| "follow h (Rejected e) = h e"

text \<open>The rows a session sees, and those the statement it is at would lock or write.\<close>

definition sees :: "('op \<Rightarrow> 'db \<Rightarrow> 'db) \<Rightarrow> 'db \<Rightarrow> ('op, 'db, 'a) session \<Rightarrow> 'db" where
  "sees A db x = fold A (rows x) db"

definition wanted :: "sys \<Rightarrow> ('op \<Rightarrow> 'db \<Rightarrow> 'db) \<Rightarrow> nat \<Rightarrow> 'db \<Rightarrow> ('op, 'db, 'a) session \<Rightarrow> 'op list" where
  "wanted sys A t db x =
     (case rest x of
        Stmt h q \<Rightarrow>
          if broken x \<or> stmt_err sys t \<noteq> None then []
          else served_rows (q (t, opened x, sees A db x))
      | _ \<Rightarrow> [])"

text \<open>One exchange, number \<open>t\<close> of the process, with the committed database \<open>db\<close>.\<close>

definition advance ::
  "sys \<Rightarrow> ('op \<Rightarrow> 'db \<Rightarrow> 'db) \<Rightarrow> nat \<Rightarrow> 'db \<Rightarrow> ('op, 'db, 'a) session \<Rightarrow> ('op, 'db, 'a) session" where
  "advance sys A t db x =
     (case rest x of
        Finish r \<Rightarrow> x
      | Draw k \<Rightarrow> x\<lparr>rest := k t\<rparr>
      | Begin h p \<Rightarrow>
          (case begin_err sys t of
             Some msg \<Rightarrow> x\<lparr>rest := h (Driver msg)\<rparr>
           | None \<Rightarrow> \<lparr>rest = p, rows = [], opened = server_time sys t, broken = False\<rparr>)
      | Stmt h q \<Rightarrow>
          if broken x then x\<lparr>rest := h ErrTxAborted\<rparr>
          else (case stmt_err sys t of
             Some msg \<Rightarrow> x\<lparr>rest := h (Driver msg), broken := True\<rparr>
           | None \<Rightarrow>
               (let a = q (t, opened x, sees A db x) in
                x\<lparr>rest := follow h a, rows := rows x @ served_rows a,
                  broken := (case a of Cut _ _ \<Rightarrow> True | Rejected _ \<Rightarrow> True | _ \<Rightarrow> False)\<rparr>))
      | Read h q \<Rightarrow>
          (case stmt_err sys t of
             Some msg \<Rightarrow> x\<lparr>rest := h (Driver msg)\<rparr>
           | None \<Rightarrow>
               (case q (t, server_time sys t, db) of
                  Inl e \<Rightarrow> x\<lparr>rest := h e\<rparr>
                | Inr p \<Rightarrow> x\<lparr>rest := p\<rparr>))
      | Hand m h p \<Rightarrow>
          (case publish_err sys t of
             Some msg \<Rightarrow> x\<lparr>rest := h (Driver msg)\<rparr>
           | None \<Rightarrow> x\<lparr>rest := p\<rparr>)
      | Commit h p \<Rightarrow>
          if broken x then x\<lparr>rest := h ErrTxCommitRollback\<rparr>
          else (case commit_reply sys t of
             Ack \<Rightarrow> x\<lparr>rest := p, rows := []\<rparr>
           | Refused msg \<Rightarrow> x\<lparr>rest := h (Driver msg), broken := True\<rparr>
           | Unacked msg \<Rightarrow> x\<lparr>rest := h (Driver msg), rows := [], broken := True\<rparr>)
      | Rollback p \<Rightarrow> x\<lparr>rest := p, rows := [], broken := False\<rparr>)"

text \<open>Whether the exchange commits the transaction, and the message it hands to the broker.\<close>

definition commits_now :: "sys \<Rightarrow> nat \<Rightarrow> ('op, 'db, 'a) session \<Rightarrow> bool" where
  "commits_now sys t x \<longleftrightarrow>
     (case rest x of
        Commit h p \<Rightarrow> \<not> broken x \<and> (case commit_reply sys t of Refused _ \<Rightarrow> False | _ \<Rightarrow> True)
      | _ \<Rightarrow> False)"

definition handed_now :: "sys \<Rightarrow> nat \<Rightarrow> ('op, 'db, 'a) session \<Rightarrow> (string \<times> json) list" where
  "handed_now sys t x =
     (case rest x of Hand m h p \<Rightarrow> if publish_err sys t = None then [m] else [] | _ \<Rightarrow> [])"


section \<open>Interleaving\<close>

record ('call, 'op, 'db, 'a) server =
  committed :: 'db
  clock :: nat
  sessions :: "('call \<times> ('op, 'db, 'a) session) list"
  commits :: "'call list"
  broker :: "(string \<times> json) list"

datatype 'call choice = Arrive 'call | Go nat | Gone nat

definition locked_by_others :: "('op \<Rightarrow> 'k) \<Rightarrow> nat \<Rightarrow> ('call, 'op, 'db, 'a) server \<Rightarrow> 'k set" where
  "locked_by_others key i g =
     (\<Union>j \<in> {..<length (sessions g)} - {i}. key ` set (rows (snd (sessions g ! j))))"

definition may_go ::
  "sys \<Rightarrow> ('op \<Rightarrow> 'db \<Rightarrow> 'db) \<Rightarrow> ('op \<Rightarrow> 'k) \<Rightarrow> nat \<Rightarrow> ('call, 'op, 'db, 'a) server \<Rightarrow> bool" where
  "may_go sys A key i g \<longleftrightarrow> i < length (sessions g) \<and>
     key ` set (wanted sys A (clock g) (committed g) (snd (sessions g ! i))) \<inter> locked_by_others key i g = {}"

definition go_session ::
  "sys \<Rightarrow> ('op \<Rightarrow> 'db \<Rightarrow> 'db) \<Rightarrow> nat \<Rightarrow> ('call, 'op, 'db, 'a) server \<Rightarrow> ('call, 'op, 'db, 'a) server" where
  "go_session sys A i g =
     (let (c, x) = sessions g ! i; t = clock g; db = committed g in
      g\<lparr>committed := (if commits_now sys t x then sees A db x else db), clock := Suc t,
        sessions := (sessions g)[i := (c, advance sys A t db x)],
        commits := commits g @ (if commits_now sys t x then [c] else []),
        broker := broker g @ handed_now sys t x\<rparr>)"

fun move ::
  "sys \<Rightarrow> ('op \<Rightarrow> 'db \<Rightarrow> 'db) \<Rightarrow> ('op \<Rightarrow> 'k) \<Rightarrow> ('call \<Rightarrow> ('op, 'db, 'a) prog) \<Rightarrow> 'call choice
   \<Rightarrow> ('call, 'op, 'db, 'a) server \<Rightarrow> ('call, 'op, 'db, 'a) server" where
  "move sys A key P (Arrive c) g = g\<lparr>sessions := sessions g @ [(c, new_session (P c))]\<rparr>"
| "move sys A key P (Go i) g = (if may_go sys A key i g then go_session sys A i g else g)"
| "move sys A key P (Gone i) g = g\<lparr>sessions := take i (sessions g) @ drop (Suc i) (sessions g)\<rparr>"

definition server_on :: "'db \<Rightarrow> ('call, 'op, 'db, 'a) server" where
  "server_on db = \<lparr>committed = db, clock = 0, sessions = [], commits = [], broker = []\<rparr>"

definition interleaved ::
  "sys \<Rightarrow> ('op \<Rightarrow> 'db \<Rightarrow> 'db) \<Rightarrow> ('op \<Rightarrow> 'k) \<Rightarrow> ('call \<Rightarrow> ('op, 'db, 'a) prog) \<Rightarrow> 'call choice list \<Rightarrow> 'db
   \<Rightarrow> ('call, 'op, 'db, 'a) server" where
  "interleaved sys A key P choices db = fold (move sys A key P) choices (server_on db)"

text \<open>The calls that arrived, in order.\<close>

fun arrivals :: "'call choice list \<Rightarrow> 'call list" where
  "arrivals [] = []"
| "arrivals (Arrive c # chs) = c # arrivals chs"
| "arrivals (_ # chs) = arrivals chs"

text \<open>The process in which a call has a database to itself.\<close>

definition process_on :: "'db \<Rightarrow> 'db pg" where
  "process_on db = \<lparr>durable = db, view = db, started = 0, failed = False, tick = 0, published = []\<rparr>"


section \<open>Programs that commit at most once\<close>

text \<open>A program that will not commit.\<close>

primrec quiet :: "('op, 'db, 'a) prog \<Rightarrow> bool" where
  "quiet (Finish r) = True"
| "quiet (Draw k) = (\<forall>t. quiet (k t))"
| "quiet (Begin h p) = ((\<forall>e. quiet (h e)) \<and> quiet p)"
| "quiet (Stmt h q) = ((\<forall>e. quiet (h e)) \<and>
     (\<forall>x. case map_answer quiet id (q x) of Served b _ \<Rightarrow> b | Cut b _ \<Rightarrow> b | _ \<Rightarrow> True))"
| "quiet (Read h q) = ((\<forall>e. quiet (h e)) \<and> (\<forall>x. case map_sum id quiet (q x) of Inl _ \<Rightarrow> True | Inr b \<Rightarrow> b))"
| "quiet (Hand m h p) = ((\<forall>e. quiet (h e)) \<and> quiet p)"
| "quiet (Commit h p) = False"
| "quiet (Rollback p) = quiet p"

lemma quiet_Stmt [simp]:
  "quiet (Stmt h q) \<longleftrightarrow> (\<forall>e. quiet (h e)) \<and> (\<forall>t now v. quiet (follow h (q (t, now, v))))"
proof -
  have "(case map_answer quiet id a of Served b _ \<Rightarrow> b | Cut b _ \<Rightarrow> b | _ \<Rightarrow> True) \<longleftrightarrow> quiet (follow h a)"
    if "\<forall>e. quiet (h e)" for a
    using that by (cases a) simp_all
  then show ?thesis unfolding quiet.simps by (metis surj_pair)
qed

lemma quiet_Read [simp]:
  "quiet (Read h q) \<longleftrightarrow> (\<forall>e. quiet (h e)) \<and> (\<forall>t now v p. q (t, now, v) = Inr p \<longrightarrow> quiet p)"
  unfolding quiet.simps by (auto split: sum.split)

declare quiet.simps(4,5) [simp del]

lemma quiet_advance: "quiet (rest x) \<Longrightarrow> quiet (rest (advance sys A t db x))"
  by (cases "rest x") (auto simp: advance_def Let_def split: option.split sum.split)

lemma live_advance: "\<not> quiet (rest (advance sys A t db x)) \<Longrightarrow> \<not> quiet (rest x)"
  using quiet_advance by metis

lemma quiet_commits: "quiet (rest x) \<Longrightarrow> \<not> commits_now sys t x"
  by (cases "rest x") (simp_all add: commits_now_def)

lemma quiet_alone: "quiet p \<Longrightarrow> durable (snd (alone f sys A p s)) = durable s"
proof (induction p arbitrary: s)
  case (Stmt h q)
  let ?a = "q (f (tick s), started s, view s)"
  have h: "durable (snd (alone f sys A (h e) s)) = durable s" for e s
    using Stmt by auto
  have served: "durable (snd (alone f sys A p s')) = durable s'"
    if "?a = Served p ops \<or> ?a = Cut p ops" for p ops s'
  proof (rule Stmt.IH(2) [of ?a p, OF rangeI])
    show "p \<in> set1_answer ?a" using that by auto
    have "quiet (follow h ?a)" using Stmt.prems by simp
    then show "quiet p" using that by auto
  qed
  show ?case
    by (cases ?a) (auto simp: Let_def h served split: option.split)
next
  case (Read h q)
  let ?a = "q (f (tick s), server_time sys (f (tick s)), durable s)"
  have h: "durable (snd (alone f sys A (h e) s)) = durable s" for e s
    using Read by auto
  have served: "durable (snd (alone f sys A p s')) = durable s'" if "?a = Inr p" for p s'
    by (rule Read.IH(2) [of ?a p, OF rangeI]) (use that Read.prems in auto)
  show ?case
    by (cases ?a) (auto simp: Let_def h served split: option.split)
qed (auto simp: go_eval tx_Begin_def Let_def split: sum.split option.split prod.split)

text \<open>A program whose first commit is its last.\<close>

primrec once :: "('op, 'db, 'a) prog \<Rightarrow> bool" where
  "once (Finish r) = True"
| "once (Draw k) = (\<forall>t. once (k t))"
| "once (Begin h p) = ((\<forall>e. once (h e)) \<and> once p)"
| "once (Stmt h q) = ((\<forall>e. once (h e)) \<and>
     (\<forall>x. case map_answer once id (q x) of Served b _ \<Rightarrow> b | Cut b _ \<Rightarrow> b | _ \<Rightarrow> True))"
| "once (Read h q) = ((\<forall>e. once (h e)) \<and> (\<forall>x. case map_sum id once (q x) of Inl _ \<Rightarrow> True | Inr b \<Rightarrow> b))"
| "once (Hand m h p) = ((\<forall>e. once (h e)) \<and> once p)"
| "once (Commit h p) = ((\<forall>e. quiet (h e)) \<and> quiet p)"
| "once (Rollback p) = once p"

lemma once_Stmt [simp]:
  "once (Stmt h q) \<longleftrightarrow> (\<forall>e. once (h e)) \<and> (\<forall>t now v. once (follow h (q (t, now, v))))"
proof -
  have "(case map_answer once id a of Served b _ \<Rightarrow> b | Cut b _ \<Rightarrow> b | _ \<Rightarrow> True) \<longleftrightarrow> once (follow h a)"
    if "\<forall>e. once (h e)" for a
    using that by (cases a) simp_all
  then show ?thesis unfolding once.simps by (metis surj_pair)
qed

lemma once_Read [simp]:
  "once (Read h q) \<longleftrightarrow> (\<forall>e. once (h e)) \<and> (\<forall>t now v p. q (t, now, v) = Inr p \<longrightarrow> once p)"
  unfolding once.simps by (auto split: sum.split)

declare once.simps(4,5) [simp del]

lemma quiet_once: "quiet p \<Longrightarrow> once p"
proof (induction p)
  case (Stmt h q)
  have "once (follow h (q (t, now, v)))" for t now v
  proof (cases "q (t, now, v)")
    case (Served p ops)
    have "quiet (follow h (q (t, now, v)))" using Stmt.prems by simp
    with Served show ?thesis using Stmt.IH(2) [of "q (t, now, v)" p, OF rangeI] by simp
  next
    case (Cut p ops)
    have "quiet (follow h (q (t, now, v)))" using Stmt.prems by simp
    with Cut show ?thesis using Stmt.IH(2) [of "q (t, now, v)" p, OF rangeI] by simp
  qed (use Stmt in auto)
  then show ?case using Stmt by simp
next
  case (Read h q)
  have "once p" if "q (t, now, v) = Inr p" for t now v p
    by (rule Read.IH(2) [of "q (t, now, v)" p, OF rangeI]) (use that Read.prems in auto)
  then show ?case using Read by auto
qed auto

lemma once_advance: "once (rest x) \<Longrightarrow> once (rest (advance sys A t db x))"
  by (cases "rest x")
    (auto simp: advance_def Let_def quiet_once split: option.split sum.split commit_reply.split)

lemma once_commit: "once (rest x) \<Longrightarrow> commits_now sys t x \<Longrightarrow> quiet (rest (advance sys A t db x))"
  by (cases "rest x") (auto simp: advance_def commits_now_def split: commit_reply.split)

text \<open>
  What the isolation of the calls rests on. A statement is repeatable if its answer is the same as long
  as the rows are that the transaction holds, those it locks included: then no other call can change
  the answer before this one ends. A program that holds the locks \<open>H\<close> is \<open>framed\<close> if every statement
  in its transaction is repeatable on tables that satisfy \<open>J\<close>, or leads to no commit, and it ends with
  its first commit; \<open>framed_call\<close> adds what comes before the transaction begins.
\<close>

definition repeatable ::
  "('k set \<Rightarrow> 'db \<Rightarrow> 'db \<Rightarrow> bool) \<Rightarrow> ('op \<Rightarrow> 'k) \<Rightarrow> 'k set \<Rightarrow> (nat \<times> int \<times> 'db \<Rightarrow> ('p, 'op) answer)
   \<Rightarrow> nat \<Rightarrow> int \<Rightarrow> 'db \<Rightarrow> bool"
  where
  "repeatable agree key H q t now v \<longleftrightarrow>
     (\<forall>v'. agree (H \<union> key ` set (served_rows (q (t, now, v)))) v v' \<longrightarrow> q (t, now, v') = q (t, now, v))"

inductive framed ::
  "('k set \<Rightarrow> 'db \<Rightarrow> 'db \<Rightarrow> bool) \<Rightarrow> ('op \<Rightarrow> 'k) \<Rightarrow> ('db \<Rightarrow> bool) \<Rightarrow> 'k set \<Rightarrow> ('op, 'db, 'a) prog \<Rightarrow> bool"
  for agree key J where
  framed_quiet: "quiet p \<Longrightarrow> framed agree key J H p"
| framed_Draw: "(\<And>t. framed agree key J H (k t)) \<Longrightarrow> framed agree key J H (Draw k)"
| framed_Hand: "(\<And>e. framed agree key J H (h e)) \<Longrightarrow> framed agree key J H p \<Longrightarrow> framed agree key J H (Hand m h p)"
| framed_Stmt: "(\<And>e. framed agree key J H (h e)) \<Longrightarrow>
    (\<And>t now v. J v \<Longrightarrow>
       framed agree key J (H \<union> key ` set (served_rows (q (t, now, v)))) (follow h (q (t, now, v)))) \<Longrightarrow>
    (\<And>t now v. J v \<Longrightarrow> quiet (follow h (q (t, now, v))) \<or> repeatable agree key H q t now v) \<Longrightarrow>
    framed agree key J H (Stmt h q)"
| framed_Commit: "(\<And>e. quiet (h e)) \<Longrightarrow> quiet p \<Longrightarrow> framed agree key J H (Commit h p)"

inductive framed_call ::
  "('k set \<Rightarrow> 'db \<Rightarrow> 'db \<Rightarrow> bool) \<Rightarrow> ('op \<Rightarrow> 'k) \<Rightarrow> ('db \<Rightarrow> bool) \<Rightarrow> ('op, 'db, 'a) prog \<Rightarrow> bool"
  for agree key J where
  call_quiet: "quiet p \<Longrightarrow> framed_call agree key J p"
| call_Draw: "(\<And>t. framed_call agree key J (k t)) \<Longrightarrow> framed_call agree key J (Draw k)"
| call_Begin: "(\<And>e. quiet (h e)) \<Longrightarrow> framed agree key J {} p \<Longrightarrow> framed_call agree key J (Begin h p)"

inductive_simps framed_simps:
  "framed agree key J H (Finish r)" "framed agree key J H (Draw k)" "framed agree key J H (Begin h p)"
  "framed agree key J H (Stmt h q)" "framed agree key J H (Read h q')" "framed agree key J H (Hand m h p)"
  "framed agree key J H (Commit h p)" "framed agree key J H (Rollback p)"

inductive_simps framed_call_simps:
  "framed_call agree key J (Finish r)" "framed_call agree key J (Draw k)" "framed_call agree key J (Begin h p)"
  "framed_call agree key J (Stmt h q)" "framed_call agree key J (Read h q')" "framed_call agree key J (Hand m h p)"
  "framed_call agree key J (Commit h p)" "framed_call agree key J (Rollback p)"

text \<open>A program all of whose row operations satisfy \<open>D\<close>.\<close>

primrec only :: "('op \<Rightarrow> bool) \<Rightarrow> ('op, 'db, 'a) prog \<Rightarrow> bool" where
  "only D (Finish r) = True"
| "only D (Draw k) = (\<forall>t. only D (k t))"
| "only D (Begin h p) = ((\<forall>e. only D (h e)) \<and> only D p)"
| "only D (Stmt h q) = ((\<forall>e. only D (h e)) \<and> (\<forall>x. list_all D (served_rows (q x)) \<and>
     (case map_answer (only D) id (q x) of Served b _ \<Rightarrow> b | Cut b _ \<Rightarrow> b | _ \<Rightarrow> True)))"
| "only D (Read h q) =
     ((\<forall>e. only D (h e)) \<and> (\<forall>x. case map_sum id (only D) (q x) of Inl _ \<Rightarrow> True | Inr b \<Rightarrow> b))"
| "only D (Hand m h p) = ((\<forall>e. only D (h e)) \<and> only D p)"
| "only D (Commit h p) = ((\<forall>e. only D (h e)) \<and> only D p)"
| "only D (Rollback p) = only D p"

lemma only_Stmt [simp]:
  "only D (Stmt h q) \<longleftrightarrow> (\<forall>e. only D (h e)) \<and>
     (\<forall>t now v. list_all D (served_rows (q (t, now, v))) \<and> only D (follow h (q (t, now, v))))"
proof -
  have "(case map_answer (only D) id a of Served b _ \<Rightarrow> b | Cut b _ \<Rightarrow> b | _ \<Rightarrow> True) \<longleftrightarrow> only D (follow h a)"
    if "\<forall>e. only D (h e)" for a
    using that by (cases a) simp_all
  then show ?thesis unfolding only.simps by (metis surj_pair)
qed

lemma only_Read [simp]:
  "only D (Read h q) \<longleftrightarrow> (\<forall>e. only D (h e)) \<and> (\<forall>t now v p. q (t, now, v) = Inr p \<longrightarrow> only D p)"
  unfolding only.simps by (auto split: sum.split)

declare only.simps(4,5) [simp del]

lemma only_advance:
  assumes "only D (rest x)" and "list_all D (rows x)"
  shows "only D (rest (advance sys A t db x)) \<and> list_all D (rows (advance sys A t db x))"
  using assms
  by (cases "rest x") (auto simp: advance_def Let_def split: option.split sum.split commit_reply.split)


subsection \<open>Rules for programs\<close>

lemma quiet_catch:
  "quiet m \<Longrightarrow> (\<And>e. quiet (f e)) \<Longrightarrow> (\<And>a. quiet (g a)) \<Longrightarrow> quiet (p_catch m f g)"
proof (induction m)
  case (Stmt h q)
  have served: "quiet (p_catch p f g)" if "q (t, now, v) = Served p ops \<or> q (t, now, v) = Cut p ops" for t now v p ops
  proof (rule Stmt.IH(2) [of "q (t, now, v)" p, OF rangeI])
    have "quiet (follow h (q (t, now, v)))" using Stmt.prems(1) by simp
    then show "quiet p" using that by auto
  qed (use that Stmt.prems in auto)
  have "quiet (follow (\<lambda>e. p_catch (h e) f g) (map_answer (\<lambda>p. p_catch p f g) id (q (t, now, v))))" for t now v
    using Stmt.IH(1) Stmt.prems served [of t now v] by (cases "q (t, now, v)") auto
  then show ?case using Stmt by simp
next
  case (Read h q)
  have "quiet (p_catch p f g)" if "q (t, now, v) = Inr p" for t now v p
    by (rule Read.IH(2) [of "q (t, now, v)" p, OF rangeI]) (use that Read.prems in auto)
  then show ?case using Read by (auto simp: map_sum_def split: sum.splits)
qed (auto split: sum.split)

lemma quiet_prims [simp]:
  "quiet (p_return a)" "quiet (p_fail e)" "quiet (p_uuid sys)" "quiet (p_now sys)" "quiet (p_read q)"
  "quiet (p_publish subject data)"
  by (auto simp: p_defs split: reply.splits)

lemma quiet_stmt [simp]: "quiet (p_stmt_at q w)" "quiet (p_rows sys q' w')"
  by (auto simp: p_stmt_at_def p_rows_def p_return_def p_fail_def split: reply.split option.split)

lemma quiet_bind [intro]: "quiet m \<Longrightarrow> (\<And>a. quiet (k a)) \<Longrightarrow> quiet (p_bind m k)"
  by (simp add: p_bind_def quiet_catch)

lemma quiet_try [intro]: "quiet m \<Longrightarrow> (\<And>a. quiet (k a)) \<Longrightarrow> quiet (p_try m w k)"
  by (simp add: p_try_def quiet_catch)

lemma once_quiet_first:
  "quiet m \<Longrightarrow> (\<And>e. once (f e)) \<Longrightarrow> (\<And>a. once (g a)) \<Longrightarrow> once (p_catch m f g)"
proof (induction m)
  case (Stmt h q)
  have served: "once (p_catch p f g)" if "q (t, now, v) = Served p ops \<or> q (t, now, v) = Cut p ops" for t now v p ops
  proof (rule Stmt.IH(2) [of "q (t, now, v)" p, OF rangeI])
    have "quiet (follow h (q (t, now, v)))" using Stmt.prems(1) by simp
    then show "quiet p" using that by auto
  qed (use that Stmt.prems in auto)
  have "once (follow (\<lambda>e. p_catch (h e) f g) (map_answer (\<lambda>p. p_catch p f g) id (q (t, now, v))))" for t now v
    using Stmt.IH(1) Stmt.prems served [of t now v] by (cases "q (t, now, v)") auto
  then show ?case using Stmt by simp
next
  case (Read h q)
  have "once (p_catch p f g)" if "q (t, now, v) = Inr p" for t now v p
    by (rule Read.IH(2) [of "q (t, now, v)" p, OF rangeI]) (use that Read.prems in auto)
  then show ?case using Read by (auto simp: map_sum_def split: sum.splits)
qed (auto split: sum.split)

lemma once_rules:
  "(\<And>e. quiet (f1 e)) \<Longrightarrow> quiet (g1 ()) \<Longrightarrow> once (p_catch p_commit f1 g1)"
  "(\<And>e. once (f2 e)) \<Longrightarrow> once (p_catch body (\<lambda>e. Rollback (f2 e)) (\<lambda>a. Rollback (g2 a))) \<Longrightarrow>
   once (p_catch (p_with_tx body) f2 g2)"
  "(\<And>e. r = Inl e \<Longrightarrow> once (m1 e)) \<Longrightarrow> (\<And>a. r = Inr a \<Longrightarrow> once (m2 a)) \<Longrightarrow>
   once (case r of Inl e \<Rightarrow> m1 e | Inr a \<Rightarrow> m2 a)"
  by (auto simp: p_commit_def p_with_tx_def first_step split: sum.split)

lemma once_if: "once m1 \<Longrightarrow> once m2 \<Longrightarrow> once (if b then m1 else m2)"
  by simp

lemma only_catch:
  "only D m \<Longrightarrow> (\<And>e. only D (f e)) \<Longrightarrow> (\<And>a. only D (g a)) \<Longrightarrow> only D (p_catch m f g)"
proof (induction m)
  case (Stmt h q)
  have served: "only D (p_catch p f g)" if "q (t, now, v) = Served p ops \<or> q (t, now, v) = Cut p ops" for t now v p ops
  proof (rule Stmt.IH(2) [of "q (t, now, v)" p, OF rangeI])
    have "only D (follow h (q (t, now, v)))" using Stmt.prems(1) by simp
    then show "only D p" using that by auto
  qed (use that Stmt.prems in auto)
  have "list_all D (served_rows (map_answer (\<lambda>p. p_catch p f g) id (q (t, now, v)))) \<and>
      only D (follow (\<lambda>e. p_catch (h e) f g) (map_answer (\<lambda>p. p_catch p f g) id (q (t, now, v))))" for t now v
  proof -
    have "list_all D (served_rows (q (t, now, v)))" using Stmt.prems(1) by simp
    then show ?thesis
      using Stmt.IH(1) Stmt.prems served [of t now v] by (cases "q (t, now, v)") auto
  qed
  then show ?case using Stmt by simp
next
  case (Read h q)
  have "only D (p_catch p f g)" if "q (t, now, v) = Inr p" for t now v p
    by (rule Read.IH(2) [of "q (t, now, v)" p, OF rangeI]) (use that Read.prems in auto)
  then show ?case using Read by (auto simp: map_sum_def split: sum.splits)
qed (auto split: sum.split)

lemma only_mono: "only D p \<Longrightarrow> (\<And>op. D op \<Longrightarrow> D' op) \<Longrightarrow> only D' p"
proof (induction p)
  case (Stmt h q)
  have "list_all D' (served_rows (q (t, now, v))) \<and> only D' (follow h (q (t, now, v)))" for t now v
  proof -
    have "list_all D (served_rows (q (t, now, v)))" "only D (follow h (q (t, now, v)))" using Stmt.prems(1) by simp_all
    then show ?thesis
      using Stmt.IH(1) Stmt.IH(2) [of "q (t, now, v)", OF rangeI] Stmt.prems
      by (cases "q (t, now, v)") (auto simp: list_all_iff)
  qed
  then show ?case using Stmt by simp
next
  case (Read h q)
  have "only D' p" if "q (t, now, v) = Inr p" for t now v p
    by (rule Read.IH(2) [of "q (t, now, v)" p, OF rangeI]) (use that Read.prems in auto)
  then show ?case using Read by auto
qed auto

lemma only_True: "only (\<lambda>_. True) p"
proof (induction p)
  case (Stmt h q)
  have "only (\<lambda>_. True) (follow h (q (t, now, v)))" for t now v
    using Stmt.IH(1) Stmt.IH(2) [of "q (t, now, v)", OF rangeI] by (cases "q (t, now, v)") auto
  then show ?case using Stmt by (simp add: list_all_iff)
next
  case (Read h q)
  have "only (\<lambda>_. True) p" if "q (t, now, v) = Inr p" for t now v p
    by (rule Read.IH(2) [of "q (t, now, v)" p, OF rangeI]) (simp add: that)
  then show ?case using Read by auto
qed auto

lemma only_prims [simp]:
  "only D (p_return a)" "only D (p_fail e)" "only D (p_uuid sys)" "only D (p_now sys)" "only D (p_read q)"
  "only D (p_publish subject data)" "only D p_commit"
  by (auto simp: p_defs split: reply.splits)

lemma only_stmt: "(\<And>t now v a v'. q t now v = Done a v' \<Longrightarrow> list_all D (w now a v')) \<Longrightarrow> only D (p_stmt_at q w)"
  by (auto simp: p_stmt_at_def p_return_def p_fail_def split: reply.split)

lemma only_rows:
  "(\<And>t now v rs v'. q t now v = Done rs v' \<Longrightarrow> list_all D (w now rs v')) \<Longrightarrow> only D (p_rows sys q w)"
  by (auto simp: p_rows_def p_return_def p_fail_def split: reply.split option.split)

lemma only_with_tx: "only D body \<Longrightarrow> only D (p_with_tx body)"
  by (simp add: p_with_tx_def only_catch)

text \<open>
  \<open>steady\<close>: the answer of a statement, and its row operations, while the rows stay as they are that the
  transaction holds and it locks.
\<close>

definition steady ::
  "('k set \<Rightarrow> 'db \<Rightarrow> 'db \<Rightarrow> bool) \<Rightarrow> ('op \<Rightarrow> 'k) \<Rightarrow> 'k set \<Rightarrow> (int \<Rightarrow> 'db \<Rightarrow> ('a, 'db) reply)
   \<Rightarrow> (int \<Rightarrow> 'a \<Rightarrow> 'db \<Rightarrow> 'op list) \<Rightarrow> int \<Rightarrow> 'db \<Rightarrow> bool" where
  "steady agree key H q w now v \<longleftrightarrow>
     (case q now v of
        Done a v' \<Rightarrow> \<forall>u. agree (H \<union> key ` set (w now a v')) v u \<longrightarrow> (\<exists>u'. q now u = Done a u' \<and> w now a u' = w now a v')
      | ClientReject e \<Rightarrow> \<forall>u. agree H v u \<longrightarrow> q now u = ClientReject e
      | ServerReject e \<Rightarrow> \<forall>u. agree H v u \<longrightarrow> q now u = ServerReject e)"

lemma steady_Done:
  "q now v = Done a v' \<Longrightarrow>
   (\<And>u. agree (H \<union> key ` set (w now a v')) v u \<Longrightarrow> \<exists>u'. q now u = Done a u' \<and> w now a u' = w now a v') \<Longrightarrow>
   steady agree key H q w now v"
  by (simp add: steady_def)

fun outcome :: "(err \<Rightarrow> 'p) \<Rightarrow> ('a \<Rightarrow> 'p) \<Rightarrow> ('a, 'db) reply \<Rightarrow> 'p" where
  "outcome f g (Done a v) = g a"
| "outcome f g (ClientReject e) = f e"
| "outcome f g (ServerReject e) = f e"

lemma framed_stmt_at:
  assumes "\<And>e. framed agree key J H (f e)"
    and "\<And>t now v a v'. J v \<Longrightarrow> q t now v = Done a v' \<Longrightarrow> framed agree key J (H \<union> key ` set (w now a v')) (g a)"
    and "\<And>t now v. J v \<Longrightarrow> quiet (outcome f g (q t now v)) \<or> steady agree key H (q t) w now v"
  shows "framed agree key J H (p_catch (p_stmt_at q w) f g)"
proof -
  let ?a = "\<lambda>x. map_answer (\<lambda>p. p_catch p f g) id (case x of (t, now, v) \<Rightarrow>
    case q t now v of Done a v' \<Rightarrow> Served (p_return a) (w now a v') | ClientReject e \<Rightarrow> Unsent e | ServerReject e \<Rightarrow> Rejected e)"
  have prog: "p_catch (p_stmt_at q w) f g = Stmt f ?a"
    by (simp add: p_stmt_at_def first_step)
  have follow: "follow f (?a (t, now, v)) = outcome f g (q t now v)" for t now v
    by (cases "q t now v") (simp_all add: first_step)
  have framed: "framed agree key J (H \<union> key ` set (served_rows (?a (t, now, v)))) (outcome f g (q t now v))"
    if "J v" for t now v
    using assms(1) assms(2) [OF that, of t now] by (cases "q t now v") simp_all
  have "repeatable agree key H ?a t now v" if "steady agree key H (q t) w now v" for t now v
    using that by (cases "q t now v") (auto simp: repeatable_def steady_def)
  then have "quiet (follow f (?a (t, now, v))) \<or> repeatable agree key H ?a t now v" if "J v" for t now v
    using assms(3) [OF that, of t now] unfolding follow by blast
  then show ?thesis
    unfolding prog using assms(1) framed by (intro framed_Stmt) (simp_all only: follow)
qed

text \<open>A query all of whose rows are locked, and whose errors end the transaction.\<close>

lemma framed_rows:
  assumes "\<And>e. quiet (f e)"
    and "\<And>t now v rs v' k. J v \<Longrightarrow> q t now v = Done rs v' \<Longrightarrow>
      framed agree key J (H \<union> key ` set (w now rs v')) (g (rs, None)) \<and>
      (\<forall>e. framed agree key J (H \<union> key ` set (w now rs v')) (g (take k rs, Some e)))"
    and "\<And>t now v rs v'. J v \<Longrightarrow> q t now v = Done rs v' \<Longrightarrow> steady agree key H (q t) w now v"
  shows "framed agree key J H (p_catch (p_rows sys q w) f g)"
proof -
  let ?b = "\<lambda>t now v. case q t now v of
       Done rs v' \<Rightarrow>
         (case rows_cut sys t of
            None \<Rightarrow> Served (p_return (rs, None)) (w now rs v')
          | Some (k, msg) \<Rightarrow> Cut (p_return (take k rs, Some (Driver msg))) (w now rs v'))
     | ClientReject e \<Rightarrow> Unsent e
     | ServerReject e \<Rightarrow> Rejected e"
  let ?a = "\<lambda>x. map_answer (\<lambda>p. p_catch p f g) id (case x of (t, now, v) \<Rightarrow> ?b t now v)"
  have prog: "p_catch (p_rows sys q w) f g = Stmt f ?a"
    by (simp add: p_rows_def first_step)
  have next_step: "framed agree key J (H \<union> key ` set (served_rows (?a (t, now, v)))) (follow f (?a (t, now, v)))"
    if "J v" for t now v
    using assms(1) assms(2) [OF that, of t now]
    by (cases "q t now v") (auto simp: first_step framed_quiet split: option.split)
  have same: "quiet (follow f (?a (t, now, v))) \<or> repeatable agree key H ?a t now v" if "J v" for t now v
  proof (cases "q t now v")
    case (Done rs v')
    then show ?thesis
      using assms(3) [OF that Done] by (auto simp: repeatable_def steady_def first_step split: option.split)
  qed (use assms(1) in \<open>simp_all add: first_step\<close>)
  show ?thesis
    unfolding prog by (rule framed_Stmt [OF framed_quiet [OF assms(1)] next_step same])
qed

lemma framed_draws:
  "(\<And>t. framed agree key J H (g (uuid_New sys t))) \<Longrightarrow> framed agree key J H (p_catch (p_uuid sys) f g)"
  "(\<And>t. framed agree key J H (h (time_Now sys t))) \<Longrightarrow> framed agree key J H (p_catch (p_now sys) f h)"
  by (auto simp: p_uuid_def p_now_def first_step intro: framed_Draw)

lemma framed_commit:
  "(\<And>e. quiet (f e)) \<Longrightarrow> quiet (g ()) \<Longrightarrow> framed agree key J H (p_catch p_commit f g)"
  by (auto simp: p_commit_def first_step intro: framed_Commit)

lemma framed_with_tx:
  "(\<And>e. quiet (f e)) \<Longrightarrow> framed agree key J {} (p_catch body (\<lambda>e. Rollback (f e)) (\<lambda>a. Rollback (g a)))
   \<Longrightarrow> framed_call agree key J (p_catch (p_with_tx body) f g)"
  by (auto simp: p_with_tx_def first_step intro: call_Begin)

lemma framed_call_draws:
  "(\<And>t. framed_call agree key J (g (uuid_New sys t))) \<Longrightarrow> framed_call agree key J (p_catch (p_uuid sys) f g)"
  "(\<And>t. framed_call agree key J (h (time_Now sys t))) \<Longrightarrow> framed_call agree key J (p_catch (p_now sys) f h)"
  by (auto simp: p_uuid_def p_now_def first_step intro: call_Draw)

lemma framed_cases:
  "(\<And>e. r = Inl e \<Longrightarrow> framed agree key J H (m1 e)) \<Longrightarrow> (\<And>a. r = Inr a \<Longrightarrow> framed agree key J H (m2 a)) \<Longrightarrow>
   framed agree key J H (case r of Inl e \<Rightarrow> m1 e | Inr a \<Rightarrow> m2 a)"
  "(\<And>e. r = Inl e \<Longrightarrow> framed_call agree key J (m1 e)) \<Longrightarrow> (\<And>a. r = Inr a \<Longrightarrow> framed_call agree key J (m2 a)) \<Longrightarrow>
   framed_call agree key J (case r of Inl e \<Rightarrow> m1 e | Inr a \<Rightarrow> m2 a)"
  by (auto split: sum.split)

end
