(* ===== verification/Tx_Late.thy ===== *)
theory Tx_Late
  imports Tx_Sessions
begin

text \<open>
  Programs with a query whose answer other calls can add to. \<open>FOR UPDATE\<close> locks the rows a query
  finds; it does not keep another transaction from inserting one more that the query would have found.
  What such a program goes on with is what it found when it looked, and that is decided only then: so
  a program comes with a variant \<open>Q w\<close> for every \<open>w\<close> that it may find, and at its query it turns into
  the variant for what is there.
\<close>

section \<open>A program and its variants\<close>

text \<open>
  \<open>found v\<close> is what the query finds in the tables \<open>v\<close>, of which \<open>J\<close> holds. Up to the query the
  program and its variants ask the same and get the same answers.
\<close>

inductive late ::
  "('db \<Rightarrow> bool) \<Rightarrow> ('db \<Rightarrow> 'w) \<Rightarrow> ('op, 'db, 'a) prog \<Rightarrow> ('w \<Rightarrow> ('op, 'db, 'a) prog) \<Rightarrow> bool"
  for J found where
  late_same: "late J found p (\<lambda>_. p)"
| late_Draw: "(\<And>t. late J found (k t) (\<lambda>w. k' w t)) \<Longrightarrow> late J found (Draw k) (\<lambda>w. Draw (k' w))"
| late_Begin: "(\<And>e. late J found (h e) (\<lambda>w. h' w e)) \<Longrightarrow> late J found p p' \<Longrightarrow>
    late J found (Begin h p) (\<lambda>w. Begin (h' w) (p' w))"
| late_Stmt: "(\<And>e. late J found (h e) (\<lambda>w. h' w e)) \<Longrightarrow>
    (\<And>x w. map_answer (\<lambda>_. ()) id (q' w x) = map_answer (\<lambda>_. ()) id (q x)) \<Longrightarrow>
    (\<And>x. late J found (follow h (q x)) (\<lambda>w. follow (h' w) (q' w x))) \<Longrightarrow>
    late J found (Stmt h q) (\<lambda>w. Stmt (h' w) (q' w))"
| late_query: "(\<And>t now v. J v \<Longrightarrow> q' (found v) (t, now, v) = q (t, now, v)) \<Longrightarrow>
    late J found (Stmt h q) (\<lambda>w. Stmt h (q' w))"

lemma follow_shape:
  assumes "map_answer (\<lambda>_. ()) id a' = map_answer (\<lambda>_. ()) id a"
  shows "served_rows a' = served_rows a" "(case a' of Cut _ _ \<Rightarrow> True | Rejected _ \<Rightarrow> True | _ \<Rightarrow> False) =
    (case a of Cut _ _ \<Rightarrow> True | Rejected _ \<Rightarrow> True | _ \<Rightarrow> False)"
  using assms by (cases a; cases a'; simp)+

lemma late_plain: "(\<And>w. Q w = p) \<Longrightarrow> late J found p Q"
  using late_same [of J found p] by presburger

text \<open>One exchange: the variants make the same one, or the query decides between them.\<close>

lemma late_advance:
  fixes x :: "('op, 'db, 'a) session"
  assumes "late J found (rest x) Q" and "J (sees A db x)"
  shows "(\<exists>Q'. late J found (rest (advance sys A t db x)) Q' \<and>
      (\<forall>w. advance sys A t db (x\<lparr>rest := Q w\<rparr>) = (advance sys A t db x)\<lparr>rest := Q' w\<rparr>)) \<or>
    advance sys A t db (x\<lparr>rest := Q (found (sees A db x))\<rparr>) = advance sys A t db x"
  using assms(1)
proof (cases rule: late.cases)
  case late_same
  have self: "y\<lparr>rest := rest y\<rparr> = y" for y :: "('op, 'db, 'a) session" by (cases y) simp
  from late_same have "Q w = rest x" for w by (rule fun_cong)
  then have "x\<lparr>rest := Q w\<rparr> = x" for w by (simp only: self)
  then show ?thesis
    by (intro disjI1 exI [of _ "\<lambda>_. rest (advance sys A t db x)"] conjI allI) (simp_all only: self late.late_same)
next
  case (late_Draw k k')
  then show ?thesis by (intro disjI1 exI [of _ "\<lambda>w. k' w t"]) (simp add: advance_def)
next
  case (late_Begin h h' p p')
  then show ?thesis
    by (intro disjI1 exI [of _ "\<lambda>w. case begin_err sys t of Some msg \<Rightarrow> h' w (Driver msg) | None \<Rightarrow> p' w"])
      (auto simp: advance_def split: option.split)
next
  case (late_Stmt h h' q' q)
  let ?x = "(t, opened x, sees A db x)"
  let ?Q' = "\<lambda>w. if broken x then h' w ErrTxAborted else
        case stmt_err sys t of Some msg \<Rightarrow> h' w (Driver msg) | None \<Rightarrow> follow (h' w) (q' w ?x)"
  have sees: "sees A db (x\<lparr>rest := r\<rparr>) = sees A db x" for r by (simp add: sees_def)
  have "late J found (rest (advance sys A t db x)) ?Q'"
    using late_Stmt(3,5) by (auto simp: advance_def Let_def late_Stmt(1) split: option.split)
  moreover have "advance sys A t db (x\<lparr>rest := Q w\<rparr>) = (advance sys A t db x)\<lparr>rest := ?Q' w\<rparr>" for w
    using late_Stmt(1,2) follow_shape [OF late_Stmt(4) [of w ?x]]
    by (simp add: advance_def Let_def sees split: option.split)
  ultimately show ?thesis by blast
next
  case (late_query q' q h)
  have "sees A db (x\<lparr>rest := r\<rparr>) = sees A db x" for r by (simp add: sees_def)
  then show ?thesis
    using late_query assms(2) by (auto simp: advance_def Let_def split: option.split)
qed

text \<open>On its own, a program is its variant for what the database holds.\<close>

lemma late_alone:
  assumes "late J found p Q" and "only E p" and "E \<le> (\<lambda>op. \<forall>v. J v \<longrightarrow> J (A op v) \<and> found (A op v) = found v)"
    and "J (view s)" and "J (durable s)" and "found (view s) = w" and "found (durable s) = w"
  shows "alone f sys A (Q w) s = alone f sys A p s"
proof -
  have keeps: "J (fold A ops v) \<and> found (fold A ops v) = found v" if "list_all E ops" "J v" for ops v
    using that assms(3) by (induction ops arbitrary: v) (auto simp: le_fun_def)
  show ?thesis
    using assms(1,2,4-)
  proof (induction arbitrary: s rule: late.induct)
    case (late_Begin h h' p p')
    then show ?case
      by (auto simp: go_eval tx_Begin_def split: option.split)
  next
    case (late_Stmt h h' q' q)
    let ?x = "(f (tick s), started s, view s)"
    have h: "alone f sys A (h' w e) s' = alone f sys A (h e) s'"
      if "J (view s')" "J (durable s')" "found (view s') = w" "found (durable s') = w" for e s'
      using late_Stmt.IH(1) that late_Stmt.prems(1) by simp
    have rows: "list_all E (served_rows (q ?x))" using late_Stmt.prems(1) by simp
    have next_step: "alone f sys A (follow (h' w) (q' w ?x)) s' = alone f sys A (follow h (q ?x)) s'"
      if "J (view s')" "J (durable s')" "found (view s') = w" "found (durable s') = w" for s'
      using late_Stmt.IH(2) that late_Stmt.prems(1) by simp
    show ?case
      using late_Stmt.prems keeps [OF rows] late_Stmt.hyps(2) [of w ?x] h next_step
      by (cases "q ?x"; cases "q' w ?x") (auto simp: Let_def split: option.split)
  next
    case (late_query q' q h)
    have "q' w (f (tick s), started s, view s) = q (f (tick s), started s, view s)"
      using late_query(1) [of "view s" "f (tick s)" "started s"] late_query.prems by simp
    then show ?case by (simp only: alone.simps)
  qed (auto simp: Let_def)
qed


section \<open>Rules for programs\<close>

lemma late_with_tx:
  "late J found (p_catch body (\<lambda>e. Rollback (f e)) (\<lambda>a. Rollback (g a)))
     (\<lambda>w. p_catch (body' w) (\<lambda>e. Rollback (f e)) (\<lambda>a. Rollback (g a))) \<Longrightarrow>
   late J found (p_catch (p_with_tx body) f g) (\<lambda>w. p_catch (p_with_tx (body' w)) f g)"
  by (auto simp: p_with_tx_def first_step intro: late_Begin late_same)

lemma late_stmt_at:
  fixes g :: "'c \<Rightarrow> ('op, 'b, 'a) prog"
  assumes "\<And>a. late J found (g a) (\<lambda>w. g' w a)"
  shows "late J found (p_catch (p_stmt_at q wr) f g) (\<lambda>w. p_catch (p_stmt_at q wr) f (g' w))"
proof -
  let ?q = "\<lambda>g x. map_answer (\<lambda>p. p_catch p f g) id (case x of (t, now, v) \<Rightarrow>
    case q t now v of Done a v' \<Rightarrow> Served (p_return a) (wr now a v') | ClientReject e \<Rightarrow> Unsent e | ServerReject e \<Rightarrow> Rejected e)"
  have prog: "p_catch (p_stmt_at q wr) f g = Stmt f (?q g)" for g
    by (simp add: p_stmt_at_def first_step)
  show ?thesis
    unfolding prog
  proof (rule late_Stmt, rule late_same)
    fix x :: "nat \<times> int \<times> 'b"
    obtain t now v where x: "x = (t, now, v)" by (cases x)
    show "map_answer (\<lambda>_. ()) id (?q (g' w) x) = map_answer (\<lambda>_. ()) id (?q g x)" for w
      by (cases "q t now v") (simp_all add: x)
    show "late J found (follow f (?q g x)) (\<lambda>w. follow f (?q (g' w) x))"
      by (cases "q t now v") (simp_all add: x first_step assms late_same)
  qed
qed

text \<open>The query itself: a statement, or one whose result set is read row by row.\<close>

definition same_found ::
  "('db \<Rightarrow> bool) \<Rightarrow> ('db \<Rightarrow> 'w) \<Rightarrow> (nat \<Rightarrow> int \<Rightarrow> 'db \<Rightarrow> ('b, 'db) reply) \<Rightarrow> (int \<Rightarrow> 'b \<Rightarrow> 'db \<Rightarrow> 'op list)
   \<Rightarrow> ('w \<Rightarrow> nat \<Rightarrow> int \<Rightarrow> 'db \<Rightarrow> ('b, 'db) reply) \<Rightarrow> ('w \<Rightarrow> int \<Rightarrow> 'b \<Rightarrow> 'db \<Rightarrow> 'op list) \<Rightarrow> bool" where
  "same_found J found q wr q' wr' \<longleftrightarrow>
     (\<forall>t now v. J v \<longrightarrow> q' (found v) t now v = q t now v \<and>
        (\<forall>a v'. q t now v = Done a v' \<longrightarrow> wr' (found v) now a v' = wr now a v'))"

lemma late_query_at:
  assumes "same_found J found q wr q' wr'"
  shows "late J found (p_catch (p_stmt_at q wr) f g) (\<lambda>w. p_catch (p_stmt_at (q' w) (wr' w)) f g)"
  unfolding p_stmt_at_def p_catch.simps prod.case first_step
  by (rule late_query) (use assms in \<open>auto simp: same_found_def split: reply.split\<close>)

lemma late_rows:
  assumes "same_found J found q wr q' wr'"
  shows "late J found (p_catch (p_rows sys q wr) f g) (\<lambda>w. p_catch (p_rows sys (q' w) (wr' w)) f g)"
  unfolding p_rows_def p_catch.simps prod.case first_step
  by (rule late_query) (use assms in \<open>auto simp: same_found_def split: reply.split option.split\<close>)

end
