(* ===== verification/Tx_Serial.thy ===== *)
theory Tx_Serial
  imports Tx_Late "HOL-Library.Sublist"
begin

text \<open>
  Row locks make the calls serializable: whatever the interleaving, the committed database is what the
  calls that committed leave one after the other. Only a call with a query that others add to may miss
  what is added while it runs. The interfaces are the locales \<open>row_locks\<close> (the tables), \<open>late_calls\<close>
  (programs with such a query) and \<open>concurrent_calls\<close> (programs without); the services interpret them.
\<close>

section \<open>Row locks\<close>

text \<open>
  Tables whose rows have keys: \<open>agree K v v'\<close> says that \<open>v\<close> and \<open>v'\<close> have the same rows under the
  keys of \<open>K\<close> (and agree on whatever no operation changes). An operation changes rows of its own key
  only, and what it makes of a row depends on that row. \<open>ok\<close> are the operations that are ever made,
  and \<open>J\<close> is an invariant of theirs.
\<close>

locale row_locks =
  fixes A :: "'op \<Rightarrow> 'db \<Rightarrow> 'db"
    and key :: "'op \<Rightarrow> 'k"
    and agree :: "'k set \<Rightarrow> 'db \<Rightarrow> 'db \<Rightarrow> bool"
    and J :: "'db \<Rightarrow> bool" and ok :: "'op \<Rightarrow> bool"
  assumes agree_refl: "agree K v v"
    and agree_trans: "agree K v v' \<Longrightarrow> agree K v' v'' \<Longrightarrow> agree K v v''"
    and agree_mono: "agree K v v' \<Longrightarrow> K' \<subseteq> K \<Longrightarrow> agree K' v v'"
    and agree_same: "agree K v v' \<Longrightarrow> agree K (A op v) (A op v')"
    and agree_other: "ok op \<Longrightarrow> key op \<notin> K \<Longrightarrow> agree K v (A op v)"
    and kept: "ok op \<Longrightarrow> J v \<Longrightarrow> J (A op v)"
begin

lemma agree_sees: "agree K db db' \<Longrightarrow> agree K (sees A db x) (sees A db' x)"
proof -
  have "agree K (fold A ops db) (fold A ops db')" if "agree K db db'" for ops
    using that by (induction ops arbitrary: db db') (auto intro: agree_same)
  then show "agree K db db' \<Longrightarrow> agree K (sees A db x) (sees A db' x)" by (simp add: sees_def)
qed

lemma agree_committed:
  "list_all ok (rows y) \<Longrightarrow> key ` set (rows y) \<inter> K = {} \<Longrightarrow> agree K db (sees A db y)"
proof -
  have "agree K db (fold A ops db)" if "list_all ok ops" "key ` set ops \<inter> K = {}" for ops
    using that
    by (induction ops arbitrary: db) (auto intro: agree_refl agree_trans agree_other)
  then show "list_all ok (rows y) \<Longrightarrow> key ` set (rows y) \<inter> K = {} \<Longrightarrow> agree K db (sees A db y)" by (simp add: sees_def)
qed

lemma kept_sees: "list_all ok (rows x) \<Longrightarrow> J db \<Longrightarrow> J (sees A db x)"
proof -
  have "J (fold A ops db)" if "list_all ok ops" "J db" for ops
    using that by (induction ops arbitrary: db) (auto intro: kept)
  then show "list_all ok (rows x) \<Longrightarrow> J db \<Longrightarrow> J (sees A db x)" by (simp add: sees_def)
qed

definition phase :: "('op, 'db, 'a) session \<Rightarrow> bool" where
  "phase x \<longleftrightarrow> framed_call agree key J (rest x) \<and> rows x = [] \<or> framed agree key J (key ` set (rows x)) (rest x)"

text \<open>An exchange of a framed program that may still commit, and the same exchange on other tables.\<close>

lemma framed_exchange:
  assumes "phase y" and "list_all ok (rows y)" and "J db" and "\<not> quiet (rest (advance sys A t db y))"
  shows "phase (advance sys A t db y)"
    and "set (rows y) \<subseteq> set (rows (advance sys A t db y))"
    and "agree (key ` set (rows (advance sys A t db y))) db db' \<Longrightarrow> advance sys A t db' y = advance sys A t db y"
proof -
  let ?x = "advance sys A t db y"
  have live: "\<not> quiet (rest y)" by (rule live_advance [OF assms(4)])
  have "phase ?x \<and> set (rows y) \<subseteq> set (rows ?x) \<and>
     (agree (key ` set (rows ?x)) db db' \<longrightarrow> advance sys A t db' y = ?x)"
  proof (cases "rest y")
    case (Stmt h q)
    let ?q = "\<lambda>db. q (t, opened y, sees A db y)" and ?H = "key ` set (rows y)"
    have J: "J (sees A db y)" by (rule kept_sees [OF assms(2,3)])
    have "framed agree key J ?H (rest y)"
      using assms(1) live Stmt by (auto simp: phase_def framed_call_simps)
    then have "(\<forall>e. framed agree key J ?H (h e)) \<and>
        (\<forall>t now v. J v \<longrightarrow> framed agree key J (?H \<union> key ` set (served_rows (q (t, now, v)))) (follow h (q (t, now, v)))) \<and>
        (\<forall>t now v. J v \<longrightarrow> quiet (follow h (q (t, now, v))) \<or> repeatable agree key ?H q t now v)"
      using live unfolding Stmt framed_simps quiet_Stmt by blast
    then have h: "\<And>e. framed agree key J ?H (h e)"
      and f: "framed agree key J (?H \<union> key ` set (served_rows (?q db))) (follow h (?q db))"
      and r: "quiet (follow h (?q db)) \<or> repeatable agree key ?H q t (opened y) (sees A db y)"
      using J by blast+
    have "?q db' = ?q db"
      if "\<not> quiet (follow h (?q db))" "agree (key ` set (rows y @ served_rows (?q db))) db db'"
    proof -
      have "agree (?H \<union> key ` set (served_rows (?q db))) (sees A db y) (sees A db' y)"
        by (rule agree_sees, rule agree_mono [OF that(2)]) auto
      then show ?thesis using r that(1) unfolding repeatable_def by blast
    qed
    moreover have "framed agree key J (key ` set (rows y @ served_rows (?q db))) (follow h (?q db))"
      using f by (simp add: image_Un)
    ultimately show ?thesis
      using assms(4) h Stmt
      by (auto simp: advance_def phase_def Let_def split: option.split if_splits)
  qed (use assms live in \<open>auto simp: advance_def phase_def framed_simps framed_call_simps
         split: option.splits if_splits commit_reply.splits\<close>)
  then show "phase ?x" "set (rows y) \<subseteq> set (rows ?x)"
    "agree (key ` set (rows ?x)) db db' \<Longrightarrow> advance sys A t db' y = ?x" by auto
qed

definition after :: "sys \<Rightarrow> 'db \<Rightarrow> nat list \<Rightarrow> ('op, 'db, 'a) prog \<Rightarrow> ('op, 'db, 'a) session" where
  "after sys db ts p = fold (\<lambda>t. advance sys A t db) ts (new_session p)"

lemma after_snoc [simp]: "after sys db (ts @ [t]) p = advance sys A t db (after sys db ts p)"
  by (simp add: after_def)

lemma after_Nil [simp]: "after sys db [] p = new_session p"
  by (simp add: after_def)

lemma after_ok: "only ok p \<Longrightarrow> only ok (rest (after sys db ts p)) \<and> list_all ok (rows (after sys db ts p))"
  by (induction ts rule: rev_induct) (auto dest: only_advance)

lemma after_phase:
  assumes "framed_call agree key J p" and "only ok p" and "J db"
  shows "\<not> quiet (rest (after sys db ts p)) \<Longrightarrow> phase (after sys db ts p)"
proof (induction ts rule: rev_induct)
  case Nil
  then show ?case using assms(1) by (simp add: phase_def new_session_def)
next
  case (snoc t ts)
  then show ?case using framed_exchange(1) [OF _ _ assms(3)] after_ok [OF assms(2)] quiet_advance by (metis after_snoc)
qed

text \<open>
  The exchanges a call has made can be repeated, with the same answers, on any tables in which the rows
  it holds are the same.
\<close>

lemma after_repeats:
  assumes "framed_call agree key J p" and "only ok p" and "J db" and "\<not> quiet (rest (after sys db ts p))"
    and "agree (key ` set (rows (after sys db ts p))) db db'"
  shows "after sys db' ts p = after sys db ts p"
  using assms(4,5)
proof (induction ts rule: rev_induct)
  case Nil
  show ?case by simp
next
  case (snoc t ts)
  let ?y = "after sys db ts p"
  have live: "\<not> quiet (rest ?y)" using snoc.prems(1) quiet_advance by (metis after_snoc)
  have y: "phase ?y" by (rule after_phase [OF assms(1-3) live])
  have good: "list_all ok (rows ?y)" using after_ok [OF assms(2)] by blast
  note step = framed_exchange [OF y good assms(3) snoc.prems(1) [unfolded after_snoc]]
  have "agree (key ` set (rows ?y)) db db'"
    by (rule agree_mono [OF snoc.prems(2)]) (use step(2) in auto)
  then have "after sys db' ts p = ?y" by (rule snoc.IH [OF live])
  then show ?case using step(3) [OF snoc.prems(2) [unfolded after_snoc]] by simp
qed

text \<open>And they are the exchanges of the program on its own.\<close>

definition mirrors :: "'db \<Rightarrow> ('op, 'db, 'a) session \<Rightarrow> 'db pg \<Rightarrow> bool" where
  "mirrors db x s \<longleftrightarrow>
     durable s = db \<and> view s = sees A db x \<and> failed s = broken x \<and> started s = opened x"

lemma exchange_alone:
  assumes "phase x" and "\<not> quiet (rest (advance sys A t db x))" and "mirrors db x s" and "f (tick s) = t"
  shows "\<exists>s'. mirrors db (advance sys A t db x) s' \<and> tick s' = Suc (tick s) \<and>
    alone f sys A (rest x) s = alone f sys A (rest (advance sys A t db x)) s'"
proof -
  have live: "\<not> quiet (rest x)" by (rule live_advance [OF assms(2)])
  show ?thesis
  proof (cases "rest x")
    case (Draw k)
    with assms show ?thesis
      by (intro exI [of _ "s\<lparr>tick := Suc (tick s)\<rparr>"]) (auto simp: advance_def mirrors_def sees_def)
  next
    case (Begin h p)
    with assms live show ?thesis
      by (intro exI [of _ "s\<lparr>view := durable s, started := server_time sys t, failed := False, tick := Suc (tick s)\<rparr>"])
        (auto simp: advance_def mirrors_def sees_def phase_def framed_simps framed_call_simps go_eval tx_Begin_def
           split: option.splits)
  next
    case (Stmt h q)
    let ?s = "s\<lparr>tick := Suc (tick s)\<rparr>" and ?a = "q (t, opened x, sees A db x)"
    consider "broken x" | "\<not> broken x" "stmt_err sys t \<noteq> None" | "\<not> broken x" "stmt_err sys t = None" by blast
    then show ?thesis
    proof cases
      case 1
      with assms Stmt show ?thesis
        by (intro exI [of _ ?s]) (auto simp: advance_def mirrors_def sees_def Let_def)
    next
      case 2
      with assms Stmt show ?thesis
        by (intro exI [of _ "?s\<lparr>failed := True\<rparr>"]) (auto simp: advance_def mirrors_def sees_def Let_def)
    next
      case 3
      with assms Stmt show ?thesis
        by (intro exI [of _ "case ?a of Served p ops \<Rightarrow> ?s\<lparr>view := fold A ops (view s)\<rparr>
              | Cut p ops \<Rightarrow> ?s\<lparr>view := fold A ops (view s), failed := True\<rparr>
              | Unsent e \<Rightarrow> ?s | Rejected e \<Rightarrow> ?s\<lparr>failed := True\<rparr>"])
          (cases ?a; auto simp: advance_def mirrors_def sees_def Let_def)
    qed
  next
    case (Hand m h p)
    with assms show ?thesis
      by (intro exI [of _ "s\<lparr>tick := Suc (tick s), published := published s @ handed_now sys t x\<rparr>"])
        (auto simp: advance_def mirrors_def sees_def handed_now_def Let_def split: option.split)
  qed (use assms live in \<open>auto simp: phase_def framed_simps framed_call_simps advance_def
         split: commit_reply.splits if_splits\<close>)
qed

lemma after_alone:
  assumes "framed_call agree key J p" and "only ok p" and "J db" and "\<not> quiet (rest (after sys db ts p))"
    and "\<forall>n < length ts. f n = ts ! n"
  shows "\<exists>s. mirrors db (after sys db ts p) s \<and> tick s = length ts \<and>
    alone f sys A p (process_on db) = alone f sys A (rest (after sys db ts p)) s"
  using assms(4,5)
proof (induction ts rule: rev_induct)
  case Nil
  show ?case by (intro exI [of _ "process_on db"]) (simp add: mirrors_def process_on_def new_session_def sees_def)
next
  case (snoc t ts)
  let ?y = "after sys db ts p"
  have live: "\<not> quiet (rest ?y)" using snoc.prems(1) quiet_advance by (metis after_snoc)
  have "\<forall>n < length ts. f n = ts ! n"
    using snoc.prems(2) by (metis length_append_singleton less_SucI nth_append)
  then obtain s where s: "mirrors db ?y s" "tick s = length ts"
      "alone f sys A p (process_on db) = alone f sys A (rest ?y) s"
    using snoc.IH [OF live] by blast
  have "f (tick s) = t" using snoc.prems(2) s(2) by simp
  then show ?case
    using exchange_alone [OF after_phase [OF assms(1-3) live] snoc.prems(1) [unfolded after_snoc] s(1)] s(2,3)
    by fastforce
qed

text \<open>A call that commits leaves what it would have left with the database to itself.\<close>

lemma commit_alone:
  assumes "framed_call agree key J p" and "only ok p" and "J db" and "commits_now sys t (after sys db ts p)"
  shows "\<exists>f. sees A db (after sys db ts p) = durable (snd (alone f sys A p (process_on db)))"
proof -
  let ?x = "after sys db ts p" and ?f = "\<lambda>n. (ts @ [t]) ! n"
  have live: "\<not> quiet (rest ?x)" using assms(4) quiet_commits by blast
  obtain h q where x: "rest ?x = Commit h q" "\<not> broken ?x" "\<And>msg. commit_reply sys t \<noteq> Refused msg"
    using assms(4) by (auto simp: commits_now_def split: prog.splits commit_reply.splits)
  have "framed agree key J (key ` set (rows ?x)) (rest ?x)"
    using after_phase [OF assms(1-3) live] x(1) live by (auto simp: phase_def framed_call_simps framed_simps)
  then have quiet: "\<And>e. quiet (h e)" "quiet q" using x(1) by (auto simp: framed_simps)
  have "\<forall>n < length ts. ?f n = ts ! n" by (simp add: nth_append)
  then obtain s where s: "mirrors db ?x s" "tick s = length ts"
      "alone ?f sys A p (process_on db) = alone ?f sys A (rest ?x) s"
    using after_alone [OF assms(1-3) live] by blast
  have "durable (snd (alone ?f sys A (rest ?x) s)) = sees A db ?x"
    using s x quiet
    by (auto simp: go_eval tx_Commit_def mirrors_def quiet_alone split: commit_reply.split)
  then show ?thesis using s(3) by metis
qed

end


section \<open>Calls running at the same time\<close>

text \<open>
  What a call may leave when it commits, given the database as it is then: what it leaves with the
  database to itself, for some numbering of its exchanges; or, for calls whose row operations are all of
  a kind \<open>D\<close>, whatever such operations leave.
\<close>

definition serial ::
  "sys \<Rightarrow> ('op \<Rightarrow> 'db \<Rightarrow> 'db) \<Rightarrow> ('call \<Rightarrow> ('op, 'db, 'a) prog) \<Rightarrow> ('call \<Rightarrow> bool) \<Rightarrow> ('op \<Rightarrow> bool)
   \<Rightarrow> 'call \<Rightarrow> 'db \<Rightarrow> 'db \<Rightarrow> bool"
  where
  "serial sys A P loose D c d d' \<longleftrightarrow>
     (\<exists>f. d' = durable (snd (alone f sys A (P c) (process_on d)))) \<or>
     loose c \<and> (\<exists>ops. list_all D ops \<and> d' = fold A ops d)"

text \<open>One call after the other, each with the effect \<open>step\<close> gives it.\<close>

fun in_turn :: "('call \<Rightarrow> 'db \<Rightarrow> 'db \<Rightarrow> bool) \<Rightarrow> 'call list \<Rightarrow> 'db \<Rightarrow> 'db \<Rightarrow> bool" where
  "in_turn step [] d d' \<longleftrightarrow> d' = d"
| "in_turn step (c # cs) d d' \<longleftrightarrow> (\<exists>d1. step c d d1 \<and> in_turn step cs d1 d')"

lemma in_turn_snoc: "in_turn step cs d d' \<Longrightarrow> step c d' d'' \<Longrightarrow> in_turn step (cs @ [c]) d d''"
  by (induction cs arbitrary: d) auto

lemma in_turn_mono:
  "in_turn step cs d d' \<Longrightarrow> (\<And>c d d'. step c d d' \<Longrightarrow> step' c d d') \<Longrightarrow> in_turn step' cs d d'"
  by (induction cs arbitrary: d) (simp, metis in_turn.simps(2))

lemma in_turn_explained:
  assumes "in_turn effect cs d d'" and "I d"
    and "\<And>c d d'. effect c d d' \<Longrightarrow> I d \<Longrightarrow> d' = d \<or> step c d d'"
    and "\<And>c d d'. step c d d' \<Longrightarrow> I d \<Longrightarrow> I d'"
  shows "explained step cs d d' \<and> I d'"
  using assms(1,2)
proof (induction cs arbitrary: d)
  case (Cons c cs)
  then obtain d1 where d1: "effect c d d1" "in_turn effect cs d1 d'" by auto
  have step: "d1 = d \<or> step c d d1" by (rule assms(3) [OF d1(1) Cons.prems(2)])
  then have "I d1" using assms(4) Cons.prems(2) by blast
  then show ?case using Cons.IH [OF d1(2)] step by auto
qed simp

lemma rows_advance: "set (rows (advance sys A t db x)) \<subseteq> set (rows x) \<union> set (wanted sys A t db x)"
  by (cases "rest x")
    (auto simp: advance_def wanted_def Let_def split: option.split sum.split commit_reply.split)

text \<open>No two sessions hold the same row.\<close>

context row_locks
begin

definition exclusive :: "('call \<times> ('op, 'db, 'a) session) list \<Rightarrow> bool" where
  "exclusive xs \<longleftrightarrow> (\<forall>i < length xs. \<forall>j < length xs. i \<noteq> j \<longrightarrow>
     key ` set (rows (snd (xs ! i))) \<inter> key ` set (rows (snd (xs ! j))) = {})"

lemma exclusiveD:
  "exclusive xs \<Longrightarrow> i < length xs \<Longrightarrow> j < length xs \<Longrightarrow> i \<noteq> j \<Longrightarrow>
   key ` set (rows (snd (xs ! i))) \<inter> key ` set (rows (snd (xs ! j))) = {}"
  by (simp add: exclusive_def)

lemma exclusive_update:
  assumes "exclusive xs"
    and "\<And>j. j < length xs \<Longrightarrow> j \<noteq> i \<Longrightarrow> key ` set (rows x) \<inter> key ` set (rows (snd (xs ! j))) = {}"
  shows "exclusive (xs[i := (c, x)])"
proof -
  have "key ` set (rows (snd (xs[i := (c, x)] ! j))) \<inter> key ` set (rows (snd (xs[i := (c, x)] ! k))) = {}"
    if "j < length xs" "k < length xs" "j \<noteq> k" for j k
    using assms(1) assms(2) [of j] assms(2) [of k] that
    unfolding exclusive_def by (cases "j = i"; cases "k = i") (simp_all add: Int_commute)
  then show ?thesis by (simp add: exclusive_def)
qed

lemma exclusive_go:
  assumes "exclusive (sessions g)" and "may_go sys A key i g" and "sessions g ! i = (c, x)"
  shows "exclusive ((sessions g)[i := (c, advance sys A (clock g) (committed g) x)])"
proof (rule exclusive_update [OF assms(1)])
  fix j
  assume j: "j < length (sessions g)" "j \<noteq> i"
  have "key ` set (wanted sys A (clock g) (committed g) x) \<inter> key ` set (rows (snd (sessions g ! j))) = {}"
    using assms(2,3) j by (auto simp: may_go_def locked_by_others_def)
  moreover have "key ` set (rows x) \<inter> key ` set (rows (snd (sessions g ! j))) = {}"
    using exclusiveD [OF assms(1), of i j] assms(2,3) j by (simp add: may_go_def)
  ultimately show "key ` set (rows (advance sys A (clock g) (committed g) x)) \<inter> key ` set (rows (snd (sessions g ! j))) = {}"
    using rows_advance [of sys A "clock g" "committed g" x] by blast
qed

lemma exclusive_removed:
  assumes "exclusive xs"
  shows "exclusive (take i xs @ drop (Suc i) xs)"
proof (cases "i < length xs")
  case True
  have at: "(take i xs @ drop (Suc i) xs) ! n = xs ! (if n < i then n else Suc n)"
    if "Suc n < length xs" for n
    using that True by (auto simp: nth_append)
  have "length (take i xs @ drop (Suc i) xs) = length xs - 1" using True by simp
  moreover have "key ` set (rows (snd ((take i xs @ drop (Suc i) xs) ! m))) \<inter>
      key ` set (rows (snd ((take i xs @ drop (Suc i) xs) ! n))) = {}"
    if "m < length xs - 1" "n < length xs - 1" "m \<noteq> n" for m n
  proof -
    have m: "Suc m < length xs" "Suc n < length xs" using that by auto
    have "(if m < i then m else Suc m) \<noteq> (if n < i then n else Suc n)" using that(3) by auto
    then show ?thesis
      unfolding at [OF m(1)] at [OF m(2)] by (intro exclusiveD [OF assms]) (use m in auto)
  qed
  ultimately show ?thesis unfolding exclusive_def by presburger
next
  case False
  then show ?thesis using assms by simp
qed

lemma exclusive_new: "exclusive xs \<Longrightarrow> rows x = [] \<Longrightarrow> exclusive (xs @ [(c, x)])"
  unfolding exclusive_def by (auto simp: nth_append less_Suc_eq)

end

text \<open>
  What a call may leave if others can add to what it looks up: what it leaves on its own, or, when \<open>V\<close>
  holds of it, what its variant for some of what is there leaves on its own.
\<close>

definition serial_late ::
  "sys \<Rightarrow> ('op \<Rightarrow> 'db \<Rightarrow> 'db) \<Rightarrow> ('call \<Rightarrow> ('op, 'db, 'a) prog) \<Rightarrow> ('call \<Rightarrow> bool) \<Rightarrow> ('op \<Rightarrow> bool)
   \<Rightarrow> ('call \<Rightarrow> 'i list \<Rightarrow> ('op, 'db, 'a) prog) \<Rightarrow> ('call \<Rightarrow> 'db \<Rightarrow> 'i list) \<Rightarrow> ('call \<Rightarrow> bool)
   \<Rightarrow> 'call \<Rightarrow> 'db \<Rightarrow> 'db \<Rightarrow> bool"
  where
  "serial_late sys A P loose D W found V c d d' \<longleftrightarrow>
     serial sys A P loose D c d d' \<or>
     V c \<and> (\<exists>w f. prefix w (found c d) \<and> d' = durable (snd (alone f sys A (W c w) (process_on d))))"

text \<open>
  A call is overtaken in a schedule if at some moment it is unfinished together with one that may add to
  what it looks up.
\<close>

definition meets :: "('call \<Rightarrow> 'call \<Rightarrow> bool) \<Rightarrow> ('call \<times> ('op, 'db, 'a) session) list \<Rightarrow> 'call \<Rightarrow> bool" where
  "meets adds xs c \<longleftrightarrow>
     (\<exists>x y d. (c, x) \<in> set xs \<and> (d, y) \<in> set xs \<and> adds d c \<and> \<not> quiet (rest x) \<and> \<not> quiet (rest y))"

definition overtaken ::
  "sys \<Rightarrow> ('op \<Rightarrow> 'db \<Rightarrow> 'db) \<Rightarrow> ('op \<Rightarrow> 'k) \<Rightarrow> ('call \<Rightarrow> ('op, 'db, 'a) prog) \<Rightarrow> ('call \<Rightarrow> 'call \<Rightarrow> bool)
   \<Rightarrow> 'call choice list \<Rightarrow> 'db \<Rightarrow> 'call \<Rightarrow> bool" where
  "overtaken sys A key P adds chs db c \<longleftrightarrow>
     (\<exists>n. meets adds (sessions (interleaved sys A key P (take n chs) db)) c)"

text \<open>
  \<open>known c\<close>: the calls the interface speaks of; \<open>loose c\<close>: those whose operations are all of kind \<open>D\<close>.
  \<open>found c v\<close> is what call \<open>c\<close> finds in the tables \<open>v\<close>, \<open>W c w\<close> its variant for having found \<open>w\<close>, and
  \<open>adds d c\<close> says that call \<open>d\<close> may add to what \<open>c\<close> finds; nothing is ever taken from it.
\<close>

locale late_calls = row_locks A key agree J ok
  for A :: "'op \<Rightarrow> 'db \<Rightarrow> 'db" and key :: "'op \<Rightarrow> 'k" and agree :: "'k set \<Rightarrow> 'db \<Rightarrow> 'db \<Rightarrow> bool"
    and J :: "'db \<Rightarrow> bool" and ok :: "'op \<Rightarrow> bool" +
  fixes sys :: sys
    and P :: "'call \<Rightarrow> ('op, 'db, 'a) prog"
    and known :: "'call \<Rightarrow> bool"
    and loose :: "'call \<Rightarrow> bool" and D :: "'op \<Rightarrow> bool"
    and W :: "'call \<Rightarrow> 'i list \<Rightarrow> ('op, 'db, 'a) prog"
    and found :: "'call \<Rightarrow> 'db \<Rightarrow> 'i list"
    and adds :: "'call \<Rightarrow> 'call \<Rightarrow> bool"
  assumes variants: "known c \<Longrightarrow> \<not> loose c \<Longrightarrow> framed_call agree key J (W c w)"
    and variants_ok: "known c \<Longrightarrow> only ok (W c w)"
    and variants_late: "known c \<Longrightarrow> \<not> loose c \<Longrightarrow> late J (found c) (P c) (W c)"
    and calls_ok: "known d \<Longrightarrow>
      only (\<lambda>op. ok op \<and> (\<forall>c. \<not> adds d c \<longrightarrow> (\<forall>v. found c (A op v) = found c v))) (P d)"
    and found_grows: "ok op \<Longrightarrow> prefix (found c v) (found c (A op v))"
    and adds_other: "\<not> adds c c"
    and loose_calls: "loose c \<Longrightarrow> only D (P c)"
    and calls_once: "once (P c)"
begin

definition good :: "'call \<Rightarrow> 'op \<Rightarrow> bool" where
  "good d op \<longleftrightarrow> ok op \<and> (\<forall>c. \<not> adds d c \<longrightarrow> (\<forall>v. found c (A op v) = found c v))"

lemma good_ok: "list_all (good d) ops \<Longrightarrow> list_all ok ops"
  by (auto simp: good_def list_all_iff)

lemma found_sees:
  assumes "list_all (good d) (rows y)"
  shows "\<not> adds d c \<Longrightarrow> found c (sees A db y) = found c db" and "prefix (found c db) (found c (sees A db y))"
proof -
  have "(\<not> adds d c \<longrightarrow> found c (fold A ops v) = found c v) \<and> prefix (found c v) (found c (fold A ops v))"
    if "list_all (good d) ops" for ops v
    using that
  proof (induction ops arbitrary: v)
    case (Cons op ops)
    then have "good d op" and IH: "(\<not> adds d c \<longrightarrow> found c (fold A ops (A op v)) = found c (A op v)) \<and>
        prefix (found c (A op v)) (found c (fold A ops (A op v)))" by simp_all
    then have "(\<not> adds d c \<longrightarrow> found c (A op v) = found c v) \<and> prefix (found c v) (found c (A op v))"
      using found_grows [of op c v] by (auto simp: good_def)
    with IH show ?case by (auto intro: prefix_order.trans)
  qed simp
  then show "\<not> adds d c \<Longrightarrow> found c (sees A db y) = found c db" "prefix (found c db) (found c (sees A db y))"
    using assms by (simp_all add: sees_def)
qed

text \<open>
  A session before its query: what it has done, every variant would have done. After it: what it has
  done is what the variant for what it found would have done.
\<close>

definition undecided :: "'db \<Rightarrow> 'call \<Rightarrow> nat list \<Rightarrow> ('op, 'db, 'a) session \<Rightarrow> bool" where
  "undecided db c ts x \<longleftrightarrow>
     (\<exists>Q. late J (found c) (rest x) Q \<and> (\<forall>w. quiet (Q w) \<or> after sys db ts (W c w) = x\<lparr>rest := Q w\<rparr>))"

definition decided :: "('call \<Rightarrow> bool) \<Rightarrow> 'db \<Rightarrow> 'call \<Rightarrow> nat list \<Rightarrow> ('op, 'db, 'a) session \<Rightarrow> bool" where
  "decided V db c ts x \<longleftrightarrow>
     (\<exists>w. prefix w (found c db) \<and> (w = found c db \<or> V c) \<and> x = after sys db ts (W c w))"

definition isolated :: "('call \<Rightarrow> bool) \<Rightarrow> 'db \<Rightarrow> 'call \<Rightarrow> ('op, 'db, 'a) session \<Rightarrow> bool" where
  "isolated V db c x \<longleftrightarrow> known c \<and> only (good c) (rest x) \<and> list_all (good c) (rows x) \<and>
     (quiet (rest x) \<or> \<not> loose c \<and> (\<exists>ts. undecided db c ts x \<or> decided V db c ts x) \<or>
      loose c \<and> only D (rest x) \<and> list_all D (rows x))"

definition serialized :: "('call \<Rightarrow> bool) \<Rightarrow> 'db \<Rightarrow> ('call, 'op, 'db, 'a) server \<Rightarrow> bool" where
  "serialized V db0 g \<longleftrightarrow> J (committed g) \<and> (\<forall>(c, x) \<in> set (sessions g). isolated V (committed g) c x) \<and>
     exclusive (sessions g) \<and>
     in_turn (serial_late sys A P loose D W found V) (commits g) db0 (committed g)"

lemma isolated_new: "known c \<Longrightarrow> isolated V db c (new_session (P c))"
proof -
  assume "known c"
  have "only (good c) (P c)" using calls_ok [OF \<open>known c\<close>] unfolding good_def [abs_def] .
  moreover have "undecided db c [] (new_session (P c))" if "\<not> loose c"
    unfolding undecided_def using variants_late [OF \<open>known c\<close> that]
    by (intro exI [of _ "W c"]) (simp add: new_session_def)
  ultimately show ?thesis using \<open>known c\<close> loose_calls [of c] by (auto simp: isolated_def)
qed

text \<open>Another call commits.\<close>

lemma decided_kept:
  assumes "known c" and "\<not> loose c" and "J db" and "\<not> quiet (rest (after sys db ts (W c w)))"
    and "list_all ok (rows y)" and "key ` set (rows y) \<inter> key ` set (rows (after sys db ts (W c w))) = {}"
  shows "after sys (sees A db y) ts (W c w) = after sys db ts (W c w)"
  by (rule after_repeats [OF variants [OF assms(1,2)] variants_ok [OF assms(1)] assms(3,4)])
    (rule agree_committed [OF assms(5,6)])

lemma isolated_after_commit:
  assumes "isolated V db c x" and "J db" and y: "list_all (good d) (rows y)"
    and "key ` set (rows y) \<inter> key ` set (rows x) = {}"
    and V: "\<not> quiet (rest x) \<Longrightarrow> adds d c \<Longrightarrow> V c"
  shows "isolated V (sees A db y) c x"
proof -
  have "\<exists>ts. undecided (sees A db y) c ts x \<or> decided V (sees A db y) c ts x"
    if live: "\<not> quiet (rest x)" and c: "known c" "\<not> loose c" and x: "undecided db c ts x \<or> decided V db c ts x" for ts
  proof -
    note same = decided_kept [OF c assms(2) _ good_ok [OF y]]
    consider Q where "late J (found c) (rest x) Q" "\<And>w. quiet (Q w) \<or> after sys db ts (W c w) = x\<lparr>rest := Q w\<rparr>"
      | w where "prefix w (found c db)" "w = found c db \<or> V c" "x = after sys db ts (W c w)"
      using x unfolding undecided_def decided_def by blast
    then show ?thesis
    proof cases
      case 1
      have "quiet (Q w) \<or> after sys (sees A db y) ts (W c w) = x\<lparr>rest := Q w\<rparr>" for w
      proof (cases "quiet (Q w)")
        case False
        then have "after sys db ts (W c w) = x\<lparr>rest := Q w\<rparr>" using 1(2) by blast
        with False show ?thesis using same [of ts w] assms(4) by simp
      qed simp
      with 1(1) show ?thesis unfolding undecided_def by blast
    next
      case 2
      then have "x = after sys (sees A db y) ts (W c w)" using same [of ts w] live assms(4) by simp
      moreover have "prefix w (found c (sees A db y))"
        using 2(1) found_sees(2) [OF y] by (rule prefix_order.trans)
      moreover have "w = found c (sees A db y) \<or> V c"
        using 2(2) V [OF live] found_sees(1) [OF y, of c db] by (cases "adds d c") auto
      ultimately show ?thesis unfolding decided_def by blast
    qed
  qed
  then show ?thesis using assms(1) unfolding isolated_def by blast
qed

text \<open>The session itself makes an exchange.\<close>

lemma undecided_advance:
  assumes "undecided db c ts x" and "known c" and "J db" and "list_all (good c) (rows x)"
    and "\<not> quiet (rest (advance sys A t db x))"
  shows "undecided db c (ts @ [t]) (advance sys A t db x) \<or> decided V db c (ts @ [t]) (advance sys A t db x)"
proof -
  obtain Q where Q: "late J (found c) (rest x) Q" "\<And>w. quiet (Q w) \<or> after sys db ts (W c w) = x\<lparr>rest := Q w\<rparr>"
    using assms(1) by (auto simp: undecided_def)
  have J: "J (sees A db x)" by (rule kept_sees [OF good_ok [OF assms(4)] assms(3)])
  have found: "found c (sees A db x) = found c db" by (rule found_sees(1) [OF assms(4) adds_other])
  from late_advance [where A = A and db = db, OF Q(1) J, of sys t] show ?thesis
  proof
    assume "\<exists>Q'. late J (found c) (rest (advance sys A t db x)) Q' \<and>
      (\<forall>w. advance sys A t db (x\<lparr>rest := Q w\<rparr>) = (advance sys A t db x)\<lparr>rest := Q' w\<rparr>)"
    then obtain Q' where Q': "late J (found c) (rest (advance sys A t db x)) Q'"
      "\<And>w. advance sys A t db (x\<lparr>rest := Q w\<rparr>) = (advance sys A t db x)\<lparr>rest := Q' w\<rparr>" by blast
    have "quiet (Q' w) \<or> after sys db (ts @ [t]) (W c w) = (advance sys A t db x)\<lparr>rest := Q' w\<rparr>" for w
      using Q(2) [of w] quiet_advance [of "x\<lparr>rest := Q w\<rparr>" sys A t db] Q'(2) [of w] by auto
    then show ?thesis using Q'(1) unfolding undecided_def by blast
  next
    assume decides: "advance sys A t db (x\<lparr>rest := Q (found c (sees A db x))\<rparr>) = advance sys A t db x"
    then have "\<not> quiet (Q (found c db))"
      using assms(5) quiet_advance [of "x\<lparr>rest := Q (found c db)\<rparr>" sys A t db] by (auto simp: found)
    then have "after sys db (ts @ [t]) (W c (found c db)) = advance sys A t db x"
      using Q(2) [of "found c db"] decides by (simp add: found)
    then show ?thesis unfolding decided_def by (metis prefix_order.refl)
  qed
qed

lemma isolated_advance:
  assumes "isolated V db c x" and "J db"
  shows "isolated V db c (advance sys A t db x)"
proof -
  let ?x = "advance sys A t db x"
  have c: "known c" "list_all (good c) (rows x)" "only (good c) (rest ?x) \<and> list_all (good c) (rows ?x)"
    using assms(1) only_advance [of "good c" x] by (simp_all add: isolated_def)
  have "\<exists>ts. undecided db c ts ?x \<or> decided V db c ts ?x"
    if "undecided db c ts x \<or> decided V db c ts x" "\<not> quiet (rest ?x)" for ts
    using that(1)
  proof
    assume "undecided db c ts x"
    then show ?thesis using undecided_advance [OF _ c(1) assms(2) c(2) that(2)] by blast
  next
    assume "decided V db c ts x"
    then have "decided V db c (ts @ [t]) ?x" by (auto simp: decided_def)
    then show ?thesis by blast
  qed
  moreover have "only D (rest ?x) \<and> list_all D (rows ?x)" if "only D (rest x)" "list_all D (rows x)"
    by (rule only_advance [OF that])
  ultimately show ?thesis
    using assms(1) c quiet_advance [of x sys A t db] unfolding isolated_def by blast
qed

lemma commit_serial:
  assumes "known c" and "\<not> loose c" and "J db" and "prefix w (found c db)" and "w = found c db \<or> V c"
    and "commits_now sys t (after sys db ts (W c w))"
  shows "serial_late sys A P loose D W found V c db (sees A db (after sys db ts (W c w)))"
proof -
  obtain f where f: "sees A db (after sys db ts (W c w)) = durable (snd (alone f sys A (W c w) (process_on db)))"
    using commit_alone [OF variants [OF assms(1,2)] variants_ok [OF assms(1)] assms(3,6)] by blast
  show ?thesis
  proof (cases "w = found c db")
    case True
    have "alone f sys A (W c w) (process_on db) = alone f sys A (P c) (process_on db)"
      by (rule late_alone [OF variants_late [OF assms(1,2)] calls_ok [OF assms(1)]])
        (use adds_other kept assms(3) True in \<open>auto simp: process_on_def\<close>)
    then show ?thesis using f unfolding serial_late_def serial_def by metis
  next
    case False
    then show ?thesis using assms(4,5) f unfolding serial_late_def by blast
  qed
qed

lemma isolated_commit:
  assumes "isolated V db c x" and "J db" and "commits_now sys t x"
  shows "serial_late sys A P loose D W found V c db (sees A db x)" and "isolated V db' c (advance sys A t db x)"
proof -
  have live: "\<not> quiet (rest x)" using assms(3) quiet_commits by blast
  have ok: "known c" "only (good c) (rest (advance sys A t db x))" "list_all (good c) (rows (advance sys A t db x))"
    using isolated_advance [OF assms(1,2)] by (simp_all add: isolated_def)
  obtain h q where x: "rest x = Commit h q" using assms(3) by (auto simp: commits_now_def split: prog.splits)
  consider w ts where "\<not> loose c" "prefix w (found c db)" "w = found c db \<or> V c" "x = after sys db ts (W c w)"
    | "loose c" "only D (rest x)" "list_all D (rows x)"
  proof -
    have "\<exists>w. prefix w (found c db) \<and> (w = found c db \<or> V c) \<and> x = after sys db ts (W c w)"
      if "undecided db c ts x \<or> decided V db c ts x" for ts
      using that
    proof
      assume "undecided db c ts x"
      then obtain Q where Q: "late J (found c) (rest x) Q" "\<And>w. quiet (Q w) \<or> after sys db ts (W c w) = x\<lparr>rest := Q w\<rparr>"
        by (auto simp: undecided_def)
      from Q(1) have "Q = (\<lambda>_. rest x)" by cases (simp_all add: x)
      then have "after sys db ts (W c (found c db)) = x" using Q(2) [of "found c db"] live by (cases x) auto
      then show ?thesis by (metis prefix_order.refl)
    qed (simp add: decided_def)
    then show ?thesis using assms(1) live that unfolding isolated_def by blast
  qed
  then have "serial_late sys A P loose D W found V c db (sees A db x) \<and> isolated V db' c (advance sys A t db x)"
  proof cases
    case 1
    note here = variants [OF ok(1) 1(1)] variants_ok [OF ok(1)] assms(2)
    have "phase x" using after_phase [OF here] live 1(4) by metis
    then have "quiet (rest (advance sys A t db x))"
      using live assms(3)
      by (auto simp: commits_now_def phase_def framed_simps framed_call_simps advance_def
           split: prog.splits commit_reply.splits)
    moreover have "serial_late sys A P loose D W found V c db (sees A db x)"
      using commit_serial [where V = V, OF ok(1) 1(1) assms(2) 1(2,3)] assms(3) 1(4) by metis
    ultimately show ?thesis using ok by (simp add: isolated_def)
  next
    case 2
    then show ?thesis using only_advance [OF 2(2,3)] ok by (auto simp: serial_late_def serial_def isolated_def sees_def)
  qed
  then show "serial_late sys A P loose D W found V c db (sees A db x)" "isolated V db' c (advance sys A t db x)" by auto
qed

lemma serialized_go:
  assumes "serialized V db0 g" and "may_go sys A key i g" and V: "\<And>c. meets adds (sessions g) c \<Longrightarrow> V c"
  shows "serialized V db0 (go_session sys A i g)"
proof -
  let ?t = "clock g" and ?db = "committed g"
  obtain c x where i: "sessions g ! i = (c, x)" "i < length (sessions g)"
    using assms(2) by (cases "sessions g ! i") (auto simp: may_go_def)
  let ?x = "advance sys A ?t ?db x" and ?now = "commits_now sys ?t x"
  let ?db' = "if ?now then sees A ?db x else ?db"
  have mem: "(c, x) \<in> set (sessions g)" using i nth_mem by metis
  have iso: "isolated V ?db c x" using assms(1) mem by (auto simp: serialized_def)
  then have good: "list_all (good c) (rows x)" by (simp add: isolated_def)
  have J: "J ?db" using assms(1) by (simp add: serialized_def)
  have disjoint: "key ` set (rows x) \<inter> key ` set (rows (snd (sessions g ! j))) = {}"
    if "j < length (sessions g)" "j \<noteq> i" for j
    using exclusiveD [of "sessions g" i j] assms(1) i that by (simp add: serialized_def)
  have here: "isolated V ?db' c ?x"
    using isolated_commit(2) [OF iso J] isolated_advance [OF iso J] by simp
  have others: "case sessions g ! j of (d, y) \<Rightarrow> isolated V ?db' d y" if "j < length (sessions g)" "j \<noteq> i" for j
  proof -
    obtain d y where j: "sessions g ! j = (d, y)" by fastforce
    then have y: "(d, y) \<in> set (sessions g)" using that(1) nth_mem by metis
    then have "isolated V ?db d y" using assms(1) by (auto simp: serialized_def)
    moreover have "V d" if "?now" "\<not> quiet (rest y)" "adds c d"
      using that y mem quiet_commits by (intro V) (unfold meets_def, blast)
    ultimately show ?thesis
      using isolated_after_commit [of V ?db d y c x, OF _ J good] disjoint [OF that] j by simp
  qed
  have "\<forall>(d, y) \<in> set ((sessions g)[i := (c, ?x)]). isolated V ?db' d y"
  proof
    fix dy
    assume "dy \<in> set ((sessions g)[i := (c, ?x)])"
    then obtain j where j: "j < length (sessions g)" "dy = (sessions g)[i := (c, ?x)] ! j"
      by (auto simp: in_set_conv_nth)
    show "case dy of (d, y) \<Rightarrow> isolated V ?db' d y"
    proof (cases "j = i")
      case True
      then show ?thesis using here j by simp
    next
      case False
      then show ?thesis using others [OF j(1) False] j by simp
    qed
  qed
  moreover have "exclusive ((sessions g)[i := (c, ?x)])"
    using exclusive_go [OF _ assms(2) i(1)] assms(1) by (simp add: serialized_def)
  moreover have "in_turn (serial_late sys A P loose D W found V) (commits g @ (if ?now then [c] else [])) db0 ?db'"
    using assms(1) isolated_commit(1) [OF iso J] by (auto simp: serialized_def intro: in_turn_snoc)
  moreover have "J ?db'" using J kept_sees [OF good_ok [OF good]] by simp
  ultimately show ?thesis
    by (simp add: serialized_def go_session_def i Let_def)
qed

lemma serialized_move:
  "serialized V db0 g \<Longrightarrow> (\<And>c. ch = Arrive c \<Longrightarrow> known c) \<Longrightarrow> (\<And>c. meets adds (sessions g) c \<Longrightarrow> V c) \<Longrightarrow>
   serialized V db0 (move sys A key P ch g)"
proof (cases ch)
  case (Arrive c)
  then show "serialized V db0 g \<Longrightarrow> (\<And>c. ch = Arrive c \<Longrightarrow> known c) \<Longrightarrow> ?thesis"
    using isolated_new exclusive_new [of "sessions g" "new_session (P c)" c]
    by (auto simp: serialized_def new_session_def)
next
  case (Go i)
  then show "serialized V db0 g \<Longrightarrow> (\<And>c. meets adds (sessions g) c \<Longrightarrow> V c) \<Longrightarrow> ?thesis" using serialized_go by simp
next
  case (Gone i)
  then show "serialized V db0 g \<Longrightarrow> ?thesis"
    using exclusive_removed [of "sessions g" i]
    by (auto simp: serialized_def dest!: in_set_takeD in_set_dropD)
qed

lemma interleaved_Suc:
  "n < length chs \<Longrightarrow> interleaved sys A key P (take (Suc n) chs) db =
     move sys A key P (chs ! n) (interleaved sys A key P (take n chs) db)"
  by (simp add: interleaved_def take_Suc_conv_app_nth)

lemma arrived: "n < length chs \<Longrightarrow> chs ! n = Arrive c \<Longrightarrow> c \<in> set (arrivals chs)"
proof (induction chs arbitrary: n)
  case (Cons ch chs)
  then show ?case by (cases n; cases ch) auto
qed simp

text \<open>
  Whatever the interleaving: the committed database is what the calls that committed leave, one after
  the other in the order of their commits; one that was overtaken may have missed what was added to what
  it looks up.
\<close>

theorem late_serializable:
  assumes "J db" and "\<forall>c \<in> set (arrivals chs). known c"
  shows "in_turn (serial_late sys A P loose D W found (overtaken sys A key P adds chs db))
     (commits (interleaved sys A key P chs db)) db (committed (interleaved sys A key P chs db))"
proof -
  let ?V = "overtaken sys A key P adds chs db"
  have "n \<le> length chs \<Longrightarrow> serialized ?V db (interleaved sys A key P (take n chs) db)" for n
  proof (induction n)
    case 0
    then show ?case using assms(1) by (simp add: interleaved_def serialized_def server_on_def exclusive_def)
  next
    case (Suc n)
    then have n: "n < length chs" by simp
    show ?case
      unfolding interleaved_Suc [OF n]
      by (rule serialized_move) (use Suc n assms(2) arrived [OF n] in \<open>auto simp: overtaken_def\<close>)
  qed
  from this [of "length chs"] show ?thesis by (simp add: serialized_def)
qed

text \<open>A call commits at most once.\<close>

definition unfinished :: "('call, 'op, 'db, 'a) server \<Rightarrow> 'call multiset" where
  "unfinished g = image_mset fst (filter_mset (\<lambda>(c, x). \<not> quiet (rest x)) (mset (sessions g)))"

definition counted :: "'call multiset \<Rightarrow> ('call, 'op, 'db, 'a) server \<Rightarrow> bool" where
  "counted M g \<longleftrightarrow> (\<forall>(c, x) \<in> set (sessions g). once (rest x)) \<and> mset (commits g) + unfinished g \<subseteq># M"

lemma counted_go:
  assumes "counted M g" and "i < length (sessions g)"
  shows "counted M (go_session sys A i g)"
proof -
  obtain c x where i: "sessions g ! i = (c, x)" by fastforce
  let ?x = "advance sys A (clock g) (committed g) x" and ?now = "commits_now sys (clock g) x"
  define R where "R = mset (sessions g) - {#(c, x)#}"
  have mem: "(c, x) \<in># mset (sessions g)" using assms(2) i nth_mem by fastforce
  then have old: "mset (sessions g) = add_mset (c, x) R" by (simp add: R_def)
  have new: "mset (sessions (go_session sys A i g)) = add_mset (c, ?x) R"
    using assms(2) i by (simp add: go_session_def mset_update R_def Let_def)
  have once: "once (rest x)" using assms(1) mem by (auto simp: counted_def)
  have "unfinished (go_session sys A i g) + (if ?now then {#c#} else {#}) \<subseteq># unfinished g"
    using once_commit [OF once] quiet_advance [of x] quiet_commits [of x]
    unfolding unfinished_def old new by auto
  moreover have "mset (commits (go_session sys A i g)) = mset (commits g) + (if ?now then {#c#} else {#})"
    by (simp add: go_session_def i Let_def)
  ultimately have "mset (commits (go_session sys A i g)) + unfinished (go_session sys A i g) \<subseteq># mset (commits g) + unfinished g"
    by (cases ?now) simp_all
  moreover have "\<forall>(d, y) \<in> set (sessions (go_session sys A i g)). once (rest y)"
  proof -
    have "set (sessions (go_session sys A i g)) = set_mset (add_mset (c, ?x) R)"
      using new by (metis set_mset_mset)
    moreover have "set_mset R \<subseteq> set (sessions g)" using old by (metis set_mset_mset set_mset_add_mset_insert subset_insertI)
    ultimately show ?thesis using assms(1) once_advance [OF once] by (auto simp: counted_def)
  qed
  ultimately show ?thesis using assms(1) by (auto simp: counted_def intro: subset_mset.trans)
qed

lemma counted_move:
  assumes "counted M g"
  shows "counted (M + mset (arrivals [ch])) (move sys A key P ch g)"
proof (cases ch)
  case (Arrive c)
  have "X \<subseteq># add_mset c M" if "X \<subseteq># M" for X
    using subset_mset.trans [OF that mset_subset_eq_add_right [of M "{#c#}"]] by simp
  then show ?thesis
    using assms calls_once [of c] Arrive by (auto simp: counted_def unfinished_def)
next
  case (Go i)
  then show ?thesis using assms counted_go by (simp add: may_go_def)
next
  case (Gone i)
  have "mset (take i (sessions g) @ drop (Suc i) (sessions g)) \<subseteq># mset (sessions g)"
  proof (cases "i < length (sessions g)")
    case True
    have "mset (sessions g) = mset (take i (sessions g) @ sessions g ! i # drop (Suc i) (sessions g))"
      using id_take_nth_drop [OF True] by simp
    then show ?thesis by simp
  qed simp
  then have "unfinished (move sys A key P ch g) \<subseteq># unfinished g"
    unfolding Gone unfinished_def by (intro image_mset_subseteq_mono multiset_filter_mono) simp
  then show ?thesis
    using assms Gone
    by (auto simp: counted_def dest!: in_set_takeD in_set_dropD elim: subset_mset.trans [rotated])
qed

theorem commits_at_most_once:
  "mset (commits (interleaved sys A key P chs db)) \<subseteq># mset (arrivals chs)"
proof -
  have "counted (M + mset (arrivals chs)) (fold (move sys A key P) chs g)" if "counted M g" for M g
    using that
  proof (induction chs arbitrary: M g)
    case Nil
    then show ?case by simp
  next
    case (Cons ch chs)
    have "arrivals (ch # chs) = arrivals [ch] @ arrivals chs" by (cases ch) simp_all
    then show ?case using Cons.IH [OF counted_move [OF Cons.prems, of ch]] by (simp add: add.assoc)
  qed
  from this [of "{#}" "server_on db"] have "counted (mset (arrivals chs)) (interleaved sys A key P chs db)"
    by (simp add: interleaved_def counted_def server_on_def unfinished_def)
  then show ?thesis by (auto simp: counted_def elim: subset_mset.trans [rotated])
qed

end


section \<open>Calls that look up nothing that others add to\<close>

locale concurrent_calls = row_locks A key agree J ok
  for A :: "'op \<Rightarrow> 'db \<Rightarrow> 'db" and key :: "'op \<Rightarrow> 'k" and agree :: "'k set \<Rightarrow> 'db \<Rightarrow> 'db \<Rightarrow> bool"
    and J :: "'db \<Rightarrow> bool" and ok :: "'op \<Rightarrow> bool" +
  fixes sys :: sys
    and P :: "'call \<Rightarrow> ('op, 'db, 'a) prog"
    and known :: "'call \<Rightarrow> bool"
    and loose :: "'call \<Rightarrow> bool" and D :: "'op \<Rightarrow> bool"
  assumes calls: "known c \<Longrightarrow> \<not> loose c \<Longrightarrow> framed_call agree key J (P c)"
    and calls_ok: "known c \<Longrightarrow> only ok (P c)"
    and loose_calls: "loose c \<Longrightarrow> only D (P c)"
    and calls_once: "once (P c)"

sublocale concurrent_calls \<subseteq> plain: late_calls A key agree J ok sys P known loose D
    "\<lambda>c _. P c" "\<lambda>_ _. [] :: unit list" "\<lambda>_ _. False"
  by unfold_locales (auto intro: calls calls_ok loose_calls calls_once late_same)

context concurrent_calls
begin

theorem serializable:
  assumes "J db" and "\<forall>c \<in> set (arrivals chs). known c"
  shows "in_turn (serial sys A P loose D) (commits (interleaved sys A key P chs db)) db (committed (interleaved sys A key P chs db))"
  by (rule in_turn_mono [OF plain.late_serializable [OF assms]]) (auto simp: serial_late_def serial_def)

lemmas commits_at_most_once = plain.commits_at_most_once

end

end
