(* ===== verification/Tx_Outbox.thy ===== *)
theory Tx_Outbox
  imports Tx_Serial
begin

text \<open>
  The parts of a call that every service has, as programs: the idempotency check, the publication of an
  event to the outbox and the relay; the operations they do on the rows of \<open>processed_events\<close> and
  \<open>outbox\<close>, and the locks that go with them.
\<close>

section \<open>Row operations\<close>

text \<open>\<open>Own\<close> is an operation on a table of the service itself. A \<open>FOR UPDATE\<close> only locks its row.\<close>

datatype 'r row_op =
    MarkEvent string string int
  | AddMessage Message
  | LockMessage string
  | CountRetry string
  | MarkSent string int
  | Own 'r

datatype 'k lock_key = EventKey string | MessageKey string | OwnKey 'k

fun row_key :: "('r \<Rightarrow> 'k) \<Rightarrow> 'r row_op \<Rightarrow> 'k lock_key" where
  "row_key own (MarkEvent u ety now) = EventKey u"
| "row_key own (AddMessage m) = MessageKey (msg_ID m)"
| "row_key own (LockMessage u) = MessageKey u"
| "row_key own (CountRetry u) = MessageKey u"
| "row_key own (MarkSent u t) = MessageKey u"
| "row_key own (Own r) = OwnKey (own r)"

fun apply_op ::
  "('r \<Rightarrow> 'z core_db_scheme \<Rightarrow> 'z core_db_scheme) \<Rightarrow> 'r row_op \<Rightarrow> 'z core_db_scheme \<Rightarrow> 'z core_db_scheme" where
  "apply_op B (MarkEvent u ety now) db = mark_processed u ety now db"
| "apply_op B (AddMessage m) db = add_message m db"
| "apply_op B (LockMessage u) db = db"
| "apply_op B (CountRetry u) db = db\<lparr>outbox := upd_where (\<lambda>m. msg_ID m = u) count_retry (outbox db)\<rparr>"
| "apply_op B (MarkSent u t) db = db\<lparr>outbox := upd_where (\<lambda>m. msg_ID m = u) (mark_sent t) (outbox db)\<rparr>"
| "apply_op B (Own r) db = B r db"

text \<open>What the relay does to its rows.\<close>

fun delivery_op :: "'r row_op \<Rightarrow> bool" where
  "delivery_op (LockMessage u) = True"
| "delivery_op (CountRetry u) = True"
| "delivery_op (MarkSent u t) = True"
| "delivery_op _ = False"

fun own_op :: "('r \<Rightarrow> bool) \<Rightarrow> 'r row_op \<Rightarrow> bool" where
  "own_op good (Own r) = good r"
| "own_op good _ = True"

definition rows_of :: "('r \<Rightarrow> string) \<Rightarrow> string \<Rightarrow> 'r list \<Rightarrow> 'r list" where
  "rows_of f u rs = filter (\<lambda>r. f r = u) rs"

lemma rows_of_simps [simp]:
  "rows_of f u [] = []"
  "rows_of f u (rs @ rs') = rows_of f u rs @ rows_of f u rs'"
  "rows_of f u [r] = (if f r = u then [r] else [])"
  by (simp_all add: rows_of_def)

lemma rows_of_upd [simp]:
  "(\<And>r. f (g r) = f r) \<Longrightarrow>
   rows_of f u (upd_where (\<lambda>r. f r = w) g rs) = (if u = w then map g (rows_of f u rs) else rows_of f u rs)"
  by (induction rs) (auto simp: rows_of_def upd_where_def)

lemma rows_of_find: "find (\<lambda>r. f r = u) rs = (case rows_of f u rs of [] \<Rightarrow> None | r # _ \<Rightarrow> Some r)"
  by (induction rs) (auto simp: rows_of_def)

lemma rows_of_mem: "u \<in> f ` set rs \<longleftrightarrow> rows_of f u rs \<noteq> []"
  by (auto simp: rows_of_def filter_empty_conv)

lemma upd_where_absent: "rows_of f u rs = [] \<Longrightarrow> upd_where (\<lambda>r. f r = u) g rs = rs"
  by (intro upd_where_none) (auto simp: rows_of_def filter_empty_conv)

lemma rows_of_filter: "rows_of f u (filter Q rs) = filter Q (rows_of f u rs)"
  by (simp add: rows_of_def conj_commute)

text \<open>Two lists with the same keys at the same places, and the same rows under some of the keys.\<close>

lemma same_keys_same_rows:
  "map f rs = map f rs' \<Longrightarrow> (\<And>r. r \<in> set rs \<Longrightarrow> rows_of f (f r) rs = rows_of f (f r) rs') \<Longrightarrow> rs = rs'"
proof (induction rs arbitrary: rs')
  case (Cons r rs)
  then obtain r' ts where rs': "rs' = r' # ts" "f r = f r'" "map f rs = map f ts" by (cases rs') auto
  have "r = r'" using Cons.prems(2) [of r] rs' by (simp add: rows_of_def)
  moreover have "rows_of f (f x) rs = rows_of f (f x) ts" if "x \<in> set rs" for x
    using Cons.prems(2) [of x] that rs' \<open>r = r'\<close> by (auto simp: rows_of_def split: if_splits)
  ultimately show ?case using Cons.IH [OF rs'(3)] rs' by simp
qed simp

lemma same_keys_find:
  "map (\<lambda>r. (f r, g r)) rs = map (\<lambda>r. (f r, g r)) rs' \<Longrightarrow> find (\<lambda>r. g r = p) rs = Some r \<Longrightarrow>
   rows_of f (f r) rs = rows_of f (f r) rs' \<Longrightarrow> find (\<lambda>r. g r = p) rs' = Some r"
proof (induction rs arbitrary: rs')
  case (Cons x rs)
  then obtain y ts where rs': "rs' = y # ts" "f x = f y" "g x = g y" "map (\<lambda>r. (f r, g r)) rs = map (\<lambda>r. (f r, g r)) ts"
    by (cases rs') auto
  show ?case
  proof (cases "g x = p")
    case True
    then show ?thesis using Cons.prems rs' by (simp add: rows_of_def)
  next
    case False
    have "rows_of f (f r) rs = rows_of f (f r) ts"
      using Cons.prems(3) rs'(1,2) by (simp add: rows_of_def split: if_splits)
    then show ?thesis using Cons.IH [OF rs'(4)] Cons.prems(2) False rs'(1,3) by simp
  qed
qed simp

lemma same_keys_none:
  "map (\<lambda>r. (f r, g r)) rs = map (\<lambda>r. (f r, g r)) rs' \<Longrightarrow> find (\<lambda>r. g r = p) rs = None \<Longrightarrow> find (\<lambda>r. g r = p) rs' = None"
proof -
  assume same: "map (\<lambda>r. (f r, g r)) rs = map (\<lambda>r. (f r, g r)) rs'" and none: "find (\<lambda>r. g r = p) rs = None"
  have "g ` set rs = g ` set rs'"
    using arg_cong [OF same, of "\<lambda>xs. snd ` set xs"] by (simp add: image_image)
  moreover have "p \<notin> g ` set rs" using none by (auto simp: find_None_iff)
  ultimately show "find (\<lambda>r. g r = p) rs' = None" unfolding find_None_iff by blast
qed

lemma same_keys_filter:
  assumes "map (\<lambda>r. (f r, g r)) (filter (\<lambda>r. g r \<in> S) rs) = map (\<lambda>r. (f r, g r)) (filter (\<lambda>r. g r \<in> S) rs')"
    and "u \<in> S" and "\<And>r. r \<in> set rs \<Longrightarrow> g r = u \<Longrightarrow> rows_of f (f r) rs = rows_of f (f r) rs'"
  shows "filter (\<lambda>r. g r = u) rs = filter (\<lambda>r. g r = u) rs'"
proof (rule same_keys_same_rows [of f])
  have keys: "map f (filter (\<lambda>r. g r = u) rs) = map fst (filter (\<lambda>(k, o1). o1 = u) (map (\<lambda>r. (f r, g r)) (filter (\<lambda>r. g r \<in> S) rs)))" for rs
    using assms(2) by (induction rs) auto
  show "map f (filter (\<lambda>r. g r = u) rs) = map f (filter (\<lambda>r. g r = u) rs')"
    unfolding keys assms(1) ..
  show "rows_of f (f r) (filter (\<lambda>r. g r = u) rs) = rows_of f (f r) (filter (\<lambda>r. g r = u) rs')"
    if "r \<in> set (filter (\<lambda>r. g r = u) rs)" for r
    using assms(3) [of r] that unfolding rows_of_filter by simp
qed

definition agree_on ::
  "('k set \<Rightarrow> 'z core_db_scheme \<Rightarrow> 'z core_db_scheme \<Rightarrow> bool) \<Rightarrow> 'k lock_key set
   \<Rightarrow> 'z core_db_scheme \<Rightarrow> 'z core_db_scheme \<Rightarrow> bool" where
  "agree_on own K v v' \<longleftrightarrow>
     (\<forall>u. EventKey u \<in> K \<longrightarrow> processed_events v u = processed_events v' u) \<and>
     (\<forall>u. MessageKey u \<in> K \<longrightarrow> rows_of msg_ID u (outbox v) = rows_of msg_ID u (outbox v')) \<and>
     own {k. OwnKey k \<in> K} v v'"

text \<open>What the tables of a service provide.\<close>

locale own_rows = row_locks B own_key own_agree own_J own_ok
  for B :: "'r \<Rightarrow> 'z core_db_scheme \<Rightarrow> 'z core_db_scheme" and own_key :: "'r \<Rightarrow> 'k"
    and own_agree :: "'k set \<Rightarrow> 'z core_db_scheme \<Rightarrow> 'z core_db_scheme \<Rightarrow> bool"
    and own_J :: "'z core_db_scheme \<Rightarrow> bool" and own_ok :: "'r \<Rightarrow> bool" +
  assumes own_core: "processed_events (B r v) = processed_events v" "outbox (B r v) = outbox v"
    and core_own: "own_agree K (v\<lparr>processed_events := e, outbox := o1\<rparr>) (v'\<lparr>processed_events := e', outbox := o2\<rparr>)
      \<longleftrightarrow> own_agree K v v'"
    and core_kept: "own_J (v\<lparr>processed_events := e, outbox := o1\<rparr>) = own_J v"

lemma core_scheme_update:
  "v\<lparr>processed_events := e\<rparr> = v\<lparr>processed_events := e, outbox := outbox v\<rparr>"
  "v\<lparr>outbox := o1\<rparr> = v\<lparr>processed_events := processed_events v, outbox := o1\<rparr>"
  by simp_all

sublocale own_rows \<subseteq> all_rows: row_locks "apply_op B" "row_key own_key" "agree_on own_agree" own_J "own_op own_ok"
proof
  have core: "own_agree K v v' \<longleftrightarrow> own_agree K (v\<lparr>processed_events := e\<rparr>) (v'\<lparr>processed_events := e'\<rparr>)"
      "own_agree K v v' \<longleftrightarrow> own_agree K (v\<lparr>outbox := o1\<rparr>) (v'\<lparr>outbox := o2\<rparr>)"
      "own_J (v\<lparr>processed_events := e\<rparr>) = own_J v" "own_J (v\<lparr>outbox := o1\<rparr>) = own_J v" for K v v' e e' o1 o2
    by (metis core_own core_scheme_update(1), metis core_own core_scheme_update(2),
        metis core_kept core_scheme_update(1), metis core_kept core_scheme_update(2))
  have self: "own_agree K v (v\<lparr>processed_events := e\<rparr>)" "own_agree K v (v\<lparr>outbox := o1\<rparr>)" for K v e o1
    using core(1) [of K v v "processed_events v" e] core(2) [of K v v "outbox v" o1] agree_refl by simp_all
  fix K K' v v' v'' op
  show "agree_on own_agree K v v" by (simp add: agree_on_def agree_refl)
  show "agree_on own_agree K v v' \<Longrightarrow> agree_on own_agree K v' v'' \<Longrightarrow> agree_on own_agree K v v''"
    by (auto simp: agree_on_def intro: agree_trans)
  show "agree_on own_agree K v v' \<Longrightarrow> K' \<subseteq> K \<Longrightarrow> agree_on own_agree K' v v'"
    by (auto simp: agree_on_def intro: agree_mono)
  show "agree_on own_agree K v v' \<Longrightarrow> agree_on own_agree K (apply_op B op v) (apply_op B op v')"
    using core(1,2) by (cases op) (auto simp: agree_on_def mark_processed_def add_message_def own_core intro: agree_same)
  show "own_op own_ok op \<Longrightarrow> row_key own_key op \<notin> K \<Longrightarrow> agree_on own_agree K v (apply_op B op v)"
    using self by (cases op) (auto simp: agree_on_def mark_processed_def add_message_def own_core agree_refl intro: agree_other)
  show "own_op own_ok op \<Longrightarrow> own_J v \<Longrightarrow> own_J (apply_op B op v)"
    using core(3,4) by (cases op) (auto simp: mark_processed_def add_message_def intro: kept)
qed


section \<open>The shared parts of a call\<close>

definition p_CheckAndMark ::
  "sys \<Rightarrow> string \<Rightarrow> string \<Rightarrow> ('r row_op, 'z core_db_scheme, unit) prog" where
  "p_CheckAndMark sys eventID eventType =
     p_try (p_stmt (insert_processed_event sys eventID eventType)
              (\<lambda>now n v. if n = 0 then [] else [MarkEvent (the (uuid_in sys eventID)) eventType now]))
       ''insert processed event''
       (\<lambda>n. if n = 0 then p_fail ErrEventAlreadyProcessed else p_return ())"

definition p_idempotency_gate ::
  "('op, 'db, unit) prog \<Rightarrow> ('op, 'db, unit) prog \<Rightarrow> ('op, 'db, unit) prog" where
  "p_idempotency_gate check body =
     p_catch check
       (\<lambda>e. if errors_Is e ErrEventAlreadyProcessed then p_return ()
            else p_fail (Errorf ''check idempotency'' e))
       (\<lambda>_. body)"

definition p_PublishInTx ::
  "sys \<Rightarrow> string \<Rightarrow> string \<Rightarrow> string \<Rightarrow> event \<Rightarrow> ('r row_op, 'z core_db_scheme, unit) prog" where
  "p_PublishInTx sys aggregateType aggregateID eventType payload =
     p_try (Finish (ToJSON sys payload)) ''marshal payload'' (\<lambda>payloadBytes.
     p_bind (p_uuid sys) (\<lambda>id.
     p_try (p_stmt (insert_outbox sys id aggregateType aggregateID eventType payloadBytes StatusPending)
              (\<lambda>now _ v. [AddMessage (last (outbox v))])) ''insert outbox'' (\<lambda>_.
     p_return ())))"

definition p_NewBaseEvent :: "sys \<Rightarrow> string \<Rightarrow> ('op, 'db, BaseEvent) prog" where
  "p_NewBaseEvent sys eventType =
     p_bind (p_uuid sys) (\<lambda>id.
     p_bind (p_now sys) (\<lambda>now.
     p_return \<lparr>EventID = id, EventType = eventType, Timestamp = now\<rparr>))"

text \<open>The relay; the query locks the rows it returns and passes over rows that are locked.\<close>

definition p_update_message ::
  "sys \<Rightarrow> (string \<Rightarrow> 'r row_op) \<Rightarrow> (Message \<Rightarrow> Message) \<Rightarrow> string \<Rightarrow> ('r row_op, 'z core_db_scheme, unit) prog" where
  "p_update_message sys op f messageID =
     p_stmt (update_outbox sys f messageID)
       (\<lambda>now _ v. case uuid_in sys messageID of
          None \<Rightarrow> []
        | Some u \<Rightarrow> if u \<in> msg_ID ` set (outbox v) then [op u] else [])"

definition p_relay_message :: "sys \<Rightarrow> Message \<Rightarrow> ('r row_op, 'z core_db_scheme, unit) prog" where
  "p_relay_message sys m =
     p_catch (p_publish (msg_EventType m) (msg_Payload m))
       (\<lambda>_. p_catch (p_update_message sys CountRetry count_retry (msg_ID m)) (\<lambda>_. p_return ()) p_return)
       (\<lambda>_. p_bind (p_now sys) (\<lambda>now.
            p_try (p_update_message sys (\<lambda>u. MarkSent u (timestamptz sys now)) (mark_sent (timestamptz sys now)) (msg_ID m))
              ''mark message as sent'' p_return))"

fun p_relay_messages :: "sys \<Rightarrow> Message list \<Rightarrow> ('r row_op, 'z core_db_scheme, unit) prog" where
  "p_relay_messages sys [] = p_return ()"
| "p_relay_messages sys (m # ms) = p_bind (p_relay_message sys m) (\<lambda>_. p_relay_messages sys ms)"

definition p_processPendingMessages :: "sys \<Rightarrow> ('r row_op, 'z core_db_scheme, unit) prog" where
  "p_processPendingMessages sys =
     p_with_tx
       (p_try (p_rows sys (\<lambda>t now db. Done (select_pending sys t db) db)
                 (\<lambda>now ms v. map (LockMessage \<circ> msg_ID) ms)) ''query pending messages''
        (\<lambda>(messages, rows_err).
          case rows_err of
            Some e \<Rightarrow> p_fail (Errorf ''rows error'' e)
          | None \<Rightarrow>
              p_bind (p_relay_messages sys messages) (\<lambda>_.
              p_try p_commit ''commit transaction'' p_return)))"


subsection \<open>On their own they are the functions of the service\<close>

lemma event_members_retimed [simp]: "event_members (retime f sys) = event_members sys"
proof
  fix ev
  show "event_members (retime f sys) ev = event_members sys ev"
    by (cases ev) (simp_all add: event_members.simps marshal_base_def marshal_float_def)
qed

lemma statements_retimed [simp]:
  "insert_processed_event (retime f sys) = insert_processed_event sys"
  "insert_outbox (retime f sys) = insert_outbox sys"
  "update_outbox (retime f sys) = update_outbox sys"
  "ToJSON (retime f sys) = ToJSON sys"
  "select_pending (retime f sys) t = select_pending sys (f t)"
  by (simp_all add: insert_processed_event_def insert_outbox_def update_outbox_def ToJSON_def select_pending_def
        scan_def fun_eq_iff cong: option.case_cong if_cong)

lemma alone_CheckAndMark [solo]:
  "alone f sys (apply_op B) (p_CheckAndMark sys eid ety) = CheckAndMark (retime f sys) eid ety"
proof -
  have "alone f sys (apply_op B) (p_stmt (insert_processed_event sys eid ety)
      (\<lambda>now n v. if n = 0 then [] else [MarkEvent (the (uuid_in sys eid)) ety now])) =
    tx_stmt (retime f sys) (insert_processed_event sys eid ety)"
    by (rule alone_stmt) (auto simp: insert_processed_event_Done split: if_splits)
  then show ?thesis
    by (simp add: p_CheckAndMark_def CheckAndMark_def solo if_distrib [of "alone f sys (apply_op B)"] cong: if_cong)
qed

lemma alone_gate [solo]:
  "alone f sys A (p_idempotency_gate check body) = idempotency_gate (alone f sys A check) (alone f sys A body)"
  by (simp add: p_idempotency_gate_def idempotency_gate_def solo if_distrib [of "alone f sys A"] cong: if_cong)

lemma alone_PublishInTx [solo]:
  "alone f sys (apply_op B) (p_PublishInTx sys agg aid ety ev) = PublishInTx (retime f sys) agg aid ety ev"
proof -
  have "alone f sys (apply_op B) (p_stmt (insert_outbox sys id agg aid ety doc st) (\<lambda>now _ v. [AddMessage (last (outbox v))]))
    = tx_stmt (retime f sys) (insert_outbox sys id agg aid ety doc st)" for id doc st
    by (rule alone_stmt) (auto simp: insert_outbox_def split: option.splits if_splits)
  then show ?thesis by (simp add: p_PublishInTx_def PublishInTx_def solo go_lift_def)
qed

lemma alone_NewBaseEvent [solo]:
  "alone f sys A (p_NewBaseEvent sys ety) = NewBaseEvent (retime f sys) ety"
  by (simp add: p_NewBaseEvent_def NewBaseEvent_def solo)

lemma alone_update_message:
  fixes B :: "'r \<Rightarrow> 'z core_db_scheme \<Rightarrow> 'z core_db_scheme"
  assumes "\<And>u v. apply_op B (op u) v = v\<lparr>outbox := upd_where (\<lambda>m. msg_ID m = u) g (outbox v)\<rparr>" and "\<And>m. msg_ID (g m) = msg_ID m"
  shows "alone f sys (apply_op B) (p_update_message sys op g mid) = tx_stmt (retime f sys) (update_outbox sys g mid)"
  unfolding p_update_message_def
proof (rule alone_stmt)
  fix now a and v v' :: "'z core_db_scheme"
  assume "update_outbox sys g mid now v = Done a v'"
  then obtain u where u: "uuid_in sys mid = Some u"
      "v' = v\<lparr>outbox := upd_where (\<lambda>m. msg_ID m = u) g (outbox v)\<rparr>"
    by (auto simp: update_outbox_def split: option.splits)
  have "upd_where (\<lambda>m. msg_ID m = u) g (outbox v) = outbox v" if "u \<notin> msg_ID ` set (outbox v)"
    using that by (intro upd_where_none) auto
  moreover have "msg_ID ` set (outbox v') = msg_ID ` set (outbox v)"
    using assms(2) u(2) by (metis (no_types, lifting) core_db.select_convs(2) core_db.surjective core_db.update_convs(2) list.set_map map_upd_where_id)
  ultimately show "fold (apply_op B) (case uuid_in sys mid of None \<Rightarrow> []
      | Some u \<Rightarrow> if u \<in> msg_ID ` set (outbox v') then [op u] else []) v = v'"
    using u assms(1) by auto
qed

lemma fold_locks: "fold (apply_op B) (map (LockMessage \<circ> msg_ID) ms) v = v"
  by (induction ms) simp_all

lemma alone_query_pending:
  "alone f sys (apply_op B) (p_rows sys (\<lambda>t now db. Done (select_pending sys t db) db)
     (\<lambda>now ms v. map (LockMessage \<circ> msg_ID) ms)) = query_pending (retime f sys)"
proof
  fix s
  show "alone f sys (apply_op B) (p_rows sys (\<lambda>t now db. Done (select_pending sys t db) db)
     (\<lambda>now ms v. map (LockMessage \<circ> msg_ID) ms)) s = query_pending (retime f sys) s"
    by (subst alone_rows) (simp_all add: fold_locks query_pending_def)
qed

lemma alone_relay_message [solo]:
  "alone f sys (apply_op B) (p_relay_message sys m) =
     relay_message (retime f sys) (nats_Publish (retime f sys)) m"
  by (simp add: p_relay_message_def relay_message_def publishMessage_def solo alone_update_message)

lemma alone_relay_messages [solo]:
  "alone f sys (apply_op B) (p_relay_messages sys ms) =
     relay_messages (retime f sys) (nats_Publish (retime f sys)) ms"
  by (induction ms) (simp_all add: solo)

lemma alone_processPendingMessages [solo]:
  "alone f sys (apply_op B) (p_processPendingMessages sys) =
     processPendingMessages (retime f sys) (nats_Publish (retime f sys))"
  unfolding p_processPendingMessages_def processPendingMessages_def solo alone_query_pending
  by (rule arg_cong [of _ _ "with_tx (retime f sys)"], rule arg_cong [of _ _ "go_try (query_pending (retime f sys)) ''query pending messages''"])
    (auto simp: fun_eq_iff solo split: option.split)

subsection \<open>Their locks\<close>

lemma relay_delivers: "only delivery_op (p_processPendingMessages sys)"
proof -
  have update: "only delivery_op (p_update_message sys op g mid)" if "\<And>u. delivery_op (op u)" for op g mid
    unfolding p_update_message_def using that by (intro only_stmt) (simp split: option.split)
  have message: "only delivery_op (p_relay_message sys m)" for m
    by (auto simp: p_relay_message_def p_bind_def p_try_def intro!: only_catch update)
  have "only delivery_op (p_relay_messages sys ms)" for ms
    by (induction ms) (auto simp: p_bind_def intro!: only_catch message)
  then show ?thesis
    unfolding p_processPendingMessages_def
    by (auto simp: p_bind_def p_try_def list.pred_map comp_def list_all_iff
         intro!: only_with_tx only_catch only_rows split: option.split)
qed

lemma delivery_leaves:
  "list_all delivery_op ops \<Longrightarrow> \<exists>ms. same_events (outbox d) ms \<and> fold (apply_op B) ops d = d\<lparr>outbox := ms\<rparr>"
proof (induction ops arbitrary: d)
  case Nil
  show ?case by (intro exI [of _ "outbox d"]) simp
next
  case (Cons op ops)
  have events: "same_events ms (upd_where P count_retry ms)" "same_events ms (upd_where P (mark_sent t) ms)" for ms P t
    by (auto simp: same_events_def upd_where_def count_retry_def mark_sent_def)
  have "\<exists>ms. same_events (outbox d) ms \<and> apply_op B op d = d\<lparr>outbox := ms\<rparr>"
    using Cons.prems events by (intro exI [of _ "outbox (apply_op B op d)"]) (cases op; simp)
  then obtain ms where ms: "same_events (outbox d) ms" "apply_op B op d = d\<lparr>outbox := ms\<rparr>" by blast
  obtain ms' where "same_events ms ms'" "fold (apply_op B) ops (d\<lparr>outbox := ms\<rparr>) = d\<lparr>outbox := ms'\<rparr>"
    using Cons.IH [of "d\<lparr>outbox := ms\<rparr>"] Cons.prems by auto
  then show ?case using ms same_events_trans by (intro exI [of _ ms']) auto
qed

text \<open>
  What a call of a service may leave when it commits: what it leaves with the database to itself, for
  some numbering of its exchanges; the relay, any change of the delivery state.
\<close>

definition leaves ::
  "(sys \<Rightarrow> 'call \<Rightarrow> 'z core_db_scheme pg \<Rightarrow> 'z core_db_scheme pg) \<Rightarrow> 'call \<Rightarrow> sys \<Rightarrow> 'call
   \<Rightarrow> 'z core_db_scheme \<Rightarrow> 'z core_db_scheme \<Rightarrow> bool"
  where
  "leaves exec relay sys c d d' \<longleftrightarrow>
     (\<exists>f. d' = durable (exec (retime f sys) c (process_on d))) \<or>
     c = relay \<and> (\<exists>ms. same_events (outbox d) ms \<and> d' = d\<lparr>outbox := ms\<rparr>)"

lemma serial_leaves:
  "(\<And>f s. snd (alone f sys (apply_op B) (P c) s) = exec (retime f sys) c s) \<Longrightarrow>
   serial sys (apply_op B) P (\<lambda>c. c = relay) delivery_op c d d' \<Longrightarrow> leaves exec relay sys c d d'"
  unfolding serial_def leaves_def using delivery_leaves [of _ d B] by metis

lemma quiet_shared [simp]:
  "quiet (p_CheckAndMark sys eid ety)" "quiet (p_PublishInTx sys agg aid ety ev)" "quiet (p_NewBaseEvent sys ety)"
  by (auto simp: p_CheckAndMark_def p_PublishInTx_def p_NewBaseEvent_def ToJSON_def intro!: quiet_bind quiet_try)

lemma quiet_relay_messages [simp]: "quiet (p_relay_messages sys ms)"
  by (induction ms) (auto simp: p_relay_message_def p_update_message_def intro!: quiet_catch quiet_bind quiet_try)

lemma once_relay: "(\<And>e. quiet (f e)) \<Longrightarrow> (\<And>a. quiet (g a)) \<Longrightarrow> once (p_catch (p_processPendingMessages sys) f g)"
proof -
  assume q: "\<And>e. quiet (f e)" "\<And>a. quiet (g a)"
  have "once (p_catch (p_relay_messages sys ms) (\<lambda>e. Rollback (f e)) (\<lambda>_.
      p_catch p_commit (\<lambda>e. Rollback (f (Errorf ''commit transaction'' e))) (\<lambda>a. Rollback (g a))))" for ms
    by (rule once_quiet_first) (use q in \<open>auto simp: quiet_once intro!: once_rules(1)\<close>)
  then have body: "once (p_catch (case ms of (messages, rows_err) \<Rightarrow>
      (case rows_err of Some e \<Rightarrow> p_fail (Errorf ''rows error'' e)
       | None \<Rightarrow> p_bind (p_relay_messages sys messages) (\<lambda>_. p_try p_commit ''commit transaction'' p_return)))
      (\<lambda>e. Rollback (f e)) (\<lambda>a. Rollback (g ())))" for ms
    using q by (auto simp: first_step quiet_once split: prod.split option.split)
  show ?thesis
    unfolding p_processPendingMessages_def p_try_def [of "p_rows _ _ _"]
    by (rule once_rules(2), simp add: q quiet_once, unfold p_catch_catch, rule once_quiet_first)
      (simp_all add: first_steps(5) q quiet_once body)
qed

lemma retime_ok [simp]:
  "uuids_ok sys \<Longrightarrow> uuids_ok (retime f sys)" "scans_ok sys \<Longrightarrow> scans_ok (retime f sys)"
  by (simp_all add: uuids_ok_def scans_ok_def)

lemma canonical_ids_retimed [simp]: "canonical_ids (retime f sys) = canonical_ids sys"
  by (simp add: canonical_ids_def fun_eq_iff)

lemma outbox_wf_retimed [simp]: "outbox_wf (retime f sys) = outbox_wf sys"
  by (simp add: outbox_wf_def fun_eq_iff)

lemma announcements_retimed [simp]: "announcements (retime f sys) = announcements sys"
  by (simp add: announcements_def fun_eq_iff)

lemma outbox_entry_retimed: "outbox_entry (retime f sys) agg ai ety ev db m \<Longrightarrow> outbox_entry sys agg ai ety ev db m"
  by (auto simp: outbox_entry_def)

lemma steady_CheckAndMark:
  assumes "insert_processed_event sys eid ety now v = Done n v'" and "n \<noteq> 0"
  shows "steady (agree_on own) (row_key own_key) H (insert_processed_event sys eid ety)
     (\<lambda>now n v. if n = 0 then [] else [MarkEvent (the (uuid_in sys eid)) ety now]) now v"
  by (rule steady_Done, rule assms(1))
    (use assms in \<open>auto simp: insert_processed_event_def agree_on_def domIff split: option.splits if_splits\<close>)

lemma steady_PublishInTx:
  assumes "insert_outbox sys mid agg aid ety doc st now v = Done r v'"
  shows "steady (agree_on own) (row_key own_key) H (insert_outbox sys mid agg aid ety doc st)
     (\<lambda>now _ v. [AddMessage (last (outbox v))]) now v"
  by (rule steady_Done, rule assms)
    (use assms in \<open>auto simp: insert_outbox_def agree_on_def rows_of_mem split: option.splits if_splits\<close>)

lemma framed_CheckAndMark:
  assumes "\<And>e. quiet (f e)" and "\<And>u. framed (agree_on own) (row_key own_key) J (insert (EventKey u) H) (g ())"
  shows "framed (agree_on own) (row_key own_key) J H (p_catch (p_CheckAndMark sys eid ety) f g)"
  unfolding p_CheckAndMark_def first_step
proof (rule framed_stmt_at)
  fix now v
  show "quiet (outcome (\<lambda>e. f (Errorf ''insert processed event'' e))
          (\<lambda>n. if n = 0 then f ErrEventAlreadyProcessed else g ())
          (insert_processed_event sys eid ety now v)) \<or>
        steady (agree_on own) (row_key own_key) H (insert_processed_event sys eid ety)
          (\<lambda>now n v. if n = 0 then [] else [MarkEvent (the (uuid_in sys eid)) ety now]) now v"
    using assms(1)
    by (cases "insert_processed_event sys eid ety now v") (auto simp: first_step intro: steady_CheckAndMark)
qed (use assms in \<open>auto simp: first_step intro: framed_quiet\<close>)

lemma framed_PublishInTx:
  assumes "\<And>e. quiet (f e)" and "\<And>u. framed (agree_on own) (row_key own_key) J (insert (MessageKey u) H) (g ())"
  shows "framed (agree_on own) (row_key own_key) J H (p_catch (p_PublishInTx sys agg aid ety ev) f g)"
  unfolding p_PublishInTx_def ToJSON_def first_step sum.case
proof (intro framed_draws framed_stmt_at)
  fix t now v
  show "quiet (outcome (\<lambda>e. f (Errorf ''insert outbox'' e)) (\<lambda>_. g ())
          (insert_outbox sys (uuid_New sys t) agg aid ety (JObj (event_members sys ev)) StatusPending now v)) \<or>
        steady (agree_on own) (row_key own_key) H
          (insert_outbox sys (uuid_New sys t) agg aid ety (JObj (event_members sys ev)) StatusPending)
          (\<lambda>now _ v. [AddMessage (last (outbox v))]) now v"
    using assms(1)
    by (cases "insert_outbox sys (uuid_New sys t) agg aid ety (JObj (event_members sys ev)) StatusPending now v")
      (auto simp: first_step intro: steady_PublishInTx)
qed (use assms in \<open>auto simp: first_step intro: framed_quiet\<close>)

lemma framed_gate:
  assumes "\<And>e. quiet (f e)" and "quiet (g ())"
    and "\<And>u. framed (agree_on own) (row_key own_key) J (insert (EventKey u) H) (p_catch body f g)"
  shows "framed (agree_on own) (row_key own_key) J H
    (p_catch (p_idempotency_gate (p_CheckAndMark sys eid ety) body) f g)"
  unfolding p_idempotency_gate_def first_step
  by (rule framed_CheckAndMark) (use assms in \<open>auto simp: first_step\<close>)

lemma late_gate:
  assumes "late J found (p_catch body f g) (\<lambda>w. p_catch (body' w) f g)"
  shows "late J found (p_catch (p_idempotency_gate (p_CheckAndMark sys eid ety) body) f g)
    (\<lambda>w. p_catch (p_idempotency_gate (p_CheckAndMark sys eid ety) (body' w)) f g)"
  unfolding p_idempotency_gate_def p_CheckAndMark_def first_step
  by (rule late_stmt_at) (use assms in \<open>auto intro: late_same\<close>)

lemma framed_NewBaseEvent:
  "(\<And>b. framed agree key J H (g b)) \<Longrightarrow> framed agree key J H (p_catch (p_NewBaseEvent sys ety) f g)"
  unfolding p_NewBaseEvent_def first_step by (intro framed_draws) simp

end
