(* ===== verification/Tx_Progress.thy ===== *)
theory Tx_Progress
  imports Tx_Outbox
begin

text \<open>
  No deadlock: calls that take their locks in one order of the tables never wait for each other in a
  circle, so as long as a call is in progress some call can go on.
\<close>

section \<open>Programs that take their locks in order\<close>

text \<open>
  \<open>climbs J key rank p H\<close>: a transaction that holds the locks \<open>H\<close> and goes on with \<open>p\<close> asks only for
  locks it holds already or that rank above all it holds, whatever rows that satisfy \<open>J\<close> it sees.
\<close>

primrec climbs ::
  "('db \<Rightarrow> bool) \<Rightarrow> ('op \<Rightarrow> 'k) \<Rightarrow> ('k \<Rightarrow> nat) \<Rightarrow> ('op, 'db, 'a) prog \<Rightarrow> 'k set \<Rightarrow> bool" where
  "climbs J key rank (Finish r) = (\<lambda>H. True)"
| "climbs J key rank (Draw k) = (\<lambda>H. \<forall>t. climbs J key rank (k t) H)"
| "climbs J key rank (Begin h p) = (\<lambda>H. (\<forall>e. climbs J key rank (h e) H) \<and> climbs J key rank p {})"
| "climbs J key rank (Stmt h q) = (\<lambda>H. (\<forall>e. climbs J key rank (h e) H) \<and>
     (\<forall>x. J (snd (snd x)) \<longrightarrow>
        (\<forall>k \<in> key ` set (served_rows (q x)) - H. \<forall>k' \<in> H. rank k' < rank k) \<and>
        (case map_answer (climbs J key rank) id (q x) of
           Served b ops \<Rightarrow> b (H \<union> key ` set ops)
         | Cut b ops \<Rightarrow> b (H \<union> key ` set ops) | _ \<Rightarrow> True)))"
| "climbs J key rank (Read h q) = (\<lambda>H. (\<forall>e. climbs J key rank (h e) H) \<and>
     (\<forall>x. case map_sum id (climbs J key rank) (q x) of Inl _ \<Rightarrow> True | Inr b \<Rightarrow> b H))"
| "climbs J key rank (Hand m h p) = (\<lambda>H. (\<forall>e. climbs J key rank (h e) H) \<and> climbs J key rank p H)"
| "climbs J key rank (Commit h p) = (\<lambda>H. (\<forall>e. climbs J key rank (h e) H \<and> climbs J key rank (h e) {}) \<and>
     climbs J key rank p {})"
| "climbs J key rank (Rollback p) = (\<lambda>H. climbs J key rank p {})"

lemma climbs_Stmt [simp]:
  "climbs J key rank (Stmt h q) H \<longleftrightarrow> (\<forall>e. climbs J key rank (h e) H) \<and>
     (\<forall>t now v. J v \<longrightarrow> (let K = key ` set (served_rows (q (t, now, v))) in
        (\<forall>k \<in> K - H. \<forall>k' \<in> H. rank k' < rank k) \<and> climbs J key rank (follow h (q (t, now, v))) (H \<union> K)))"
proof -
  have "(case map_answer (climbs J key rank) id a of Served b ops \<Rightarrow> b (H \<union> key ` set ops)
         | Cut b ops \<Rightarrow> b (H \<union> key ` set ops) | _ \<Rightarrow> True)
      \<longleftrightarrow> climbs J key rank (follow h a) (H \<union> key ` set (served_rows a))"
    if "\<forall>e. climbs J key rank (h e) H" for a
    using that by (cases a) simp_all
  then show ?thesis unfolding climbs.simps Let_def by (metis surj_pair snd_conv)
qed

lemma climbs_Read [simp]:
  "climbs J key rank (Read h q) H \<longleftrightarrow> (\<forall>e. climbs J key rank (h e) H) \<and>
     (\<forall>t now v p. q (t, now, v) = Inr p \<longrightarrow> climbs J key rank p H)"
  unfolding climbs.simps by (auto split: sum.split)

declare climbs.simps(4,5) [simp del]

lemma climbs_advance:
  assumes "climbs J key rank (rest x) (key ` set (rows x))" and "J (sees A db x)"
  shows "climbs J key rank (rest (advance sys A t db x)) (key ` set (rows (advance sys A t db x)))"
proof (cases "rest x")
  case (Stmt h q)
  let ?a = "q (t, opened x, sees A db x)"
  have "climbs J key rank (follow h ?a) (key ` set (rows x @ served_rows ?a))" "\<And>e. climbs J key rank (h e) (key ` set (rows x))"
    using assms Stmt by (auto simp: Let_def image_Un)
  then show ?thesis using Stmt by (auto simp: advance_def Let_def split: option.split)
qed (use assms in \<open>auto simp: advance_def split: option.split sum.split commit_reply.split\<close>)

lemma climbs_wanted:
  assumes "climbs J key rank (rest x) (key ` set (rows x))" and "J (sees A db x)"
    and "k \<in> key ` set (wanted sys A t db x)" and "k \<notin> key ` set (rows x)" and "k' \<in> key ` set (rows x)"
  shows "rank k' < rank k"
proof (cases "rest x")
  case (Stmt h q)
  let ?K = "key ` set (served_rows (q (t, opened x, sees A db x)))"
  have "\<forall>k \<in> ?K - key ` set (rows x). \<forall>k' \<in> key ` set (rows x). rank k' < rank k"
    using assms(1,2) unfolding Stmt climbs_Stmt Let_def by blast
  moreover have "k \<in> ?K" using assms(3) Stmt by (auto simp: wanted_def split: if_splits)
  ultimately show ?thesis using assms(4,5) by blast
qed (use assms in \<open>auto simp: wanted_def\<close>)


section \<open>No deadlock\<close>

locale climbing_calls = concurrent_calls A key agree J0 ok sys P known loose D
  for A :: "'op \<Rightarrow> 'db \<Rightarrow> 'db" and key :: "'op \<Rightarrow> 'k" and agree :: "'k set \<Rightarrow> 'db \<Rightarrow> 'db \<Rightarrow> bool"
    and J0 :: "'db \<Rightarrow> bool" and ok :: "'op \<Rightarrow> bool" and sys :: sys and P :: "'call \<Rightarrow> ('op, 'db, 'a) prog"
    and known :: "'call \<Rightarrow> bool" and loose :: "'call \<Rightarrow> bool" and D :: "'op \<Rightarrow> bool" +
  fixes J :: "'db \<Rightarrow> bool" and G :: "'op \<Rightarrow> bool" and rank :: "'k \<Rightarrow> nat"
  assumes calls_good: "only G (P c)"
    and good_op: "G op \<Longrightarrow> J v \<Longrightarrow> J (A op v)"
    and calls_climb: "climbs J key rank (P c) {}"
begin

lemma good_sees: "list_all G (rows x) \<Longrightarrow> J db \<Longrightarrow> J (sees A db x)"
proof -
  have "J (fold A ops db)" if "list_all G ops" "J db" for ops
    using that by (induction ops arbitrary: db) (auto intro: good_op)
  then show "list_all G (rows x) \<Longrightarrow> J db \<Longrightarrow> J (sees A db x)" by (simp add: sees_def)
qed

definition in_order :: "('call, 'op, 'db, 'a) server \<Rightarrow> bool" where
  "in_order g \<longleftrightarrow> J (committed g) \<and> exclusive (sessions g) \<and>
     (\<forall>(c, x) \<in> set (sessions g). only G (rest x) \<and> list_all G (rows x) \<and>
        climbs J key rank (rest x) (key ` set (rows x)))"

lemma in_order_move:
  assumes "in_order g"
  shows "in_order (move sys A key P ch g)"
proof (cases ch)
  case (Arrive c)
  then show ?thesis
    using assms calls_good calls_climb exclusive_new [of "sessions g" "new_session (P c)" c]
    by (auto simp: in_order_def)
next
  case (Go i)
  show ?thesis
  proof (cases "may_go sys A key i g")
    case True
    obtain c x where i: "sessions g ! i = (c, x)" "i < length (sessions g)"
      using True by (cases "sessions g ! i") (auto simp: may_go_def)
    let ?x = "advance sys A (clock g) (committed g) x"
    have x: "only G (rest x)" "list_all G (rows x)" "climbs J key rank (rest x) (key ` set (rows x))"
      using assms i nth_mem [OF i(2)] by (auto simp: in_order_def)
    have J: "J (sees A (committed g) x)" using good_sees [OF x(2)] assms by (simp add: in_order_def)
    have "exclusive ((sessions g)[i := (c, ?x)])"
      using exclusive_go [OF _ True] assms i by (simp add: in_order_def)
    moreover have "only G (rest ?x) \<and> list_all G (rows ?x) \<and> climbs J key rank (rest ?x) (key ` set (rows ?x))"
      using only_advance [OF x(1,2)] climbs_advance [OF x(3) J] by simp
    ultimately show ?thesis
      using assms i J Go True set_update_subset_insert [of "sessions g" i "(c, ?x)"]
      by (auto simp: in_order_def go_session_def Let_def)
  next
    case False
    then show ?thesis using assms Go by simp
  qed
next
  case (Gone i)
  then show ?thesis
    using assms exclusive_removed [of "sessions g" i]
    by (auto simp: in_order_def dest!: in_set_takeD in_set_dropD)
qed

lemma in_order_interleaved: "J db \<Longrightarrow> in_order (interleaved sys A key P chs db)"
proof -
  assume J: "J db"
  have "in_order (fold (move sys A key P) chs g)" if "in_order g" for g
    using that by (induction chs arbitrary: g) (auto intro: in_order_move)
  moreover have "in_order (server_on db)" using J by (simp add: in_order_def server_on_def exclusive_def)
  ultimately show ?thesis by (simp add: interleaved_def)
qed

theorem no_deadlock:
  assumes "J db" and "sessions (interleaved sys A key P chs db) \<noteq> []"
  shows "\<exists>i. may_go sys A key i (interleaved sys A key P chs db)"
proof (rule ccontr)
  define g where "g = interleaved sys A key P chs db"
  let ?n = "length (sessions g)" and ?x = "\<lambda>i. snd (sessions g ! i)"
  let ?held = "\<lambda>i. key ` set (rows (?x i))" and ?want = "\<lambda>i. key ` set (wanted sys A (clock g) (committed g) (?x i))"
  assume stuck: "\<nexists>i. may_go sys A key i (interleaved sys A key P chs db)"
  have blocked: "\<exists>k \<in> ?want i. \<exists>j < ?n. j \<noteq> i \<and> k \<in> ?held j" if "i < ?n" for i
  proof -
    have "?want i \<inter> locked_by_others key i g \<noteq> {}"
      using stuck that by (auto simp: g_def [symmetric] may_go_def)
    then show ?thesis unfolding locked_by_others_def by blast
  qed
  then obtain w where w: "\<And>i. i < ?n \<Longrightarrow> w i \<in> ?want i \<and> (\<exists>j < ?n. j \<noteq> i \<and> w i \<in> ?held j)" by metis
  have order: "in_order g" unfolding g_def by (rule in_order_interleaved [OF assms(1)])
  have higher: "\<exists>j < ?n. rank (w i) < rank (w j)" if "i < ?n" for i
  proof -
    from w [OF that] obtain j where j: "j < ?n" "j \<noteq> i" "w i \<in> ?held j" by blast
    from w [OF j(1)] obtain l where l: "l < ?n" "l \<noteq> j" "w j \<in> ?held l" by blast
    have new: "w j \<notin> ?held j" using exclusiveD [of "sessions g" j l] order j l by (auto simp: in_order_def)
    have x: "climbs J key rank (rest (?x j)) (?held j)" "list_all G (rows (?x j))"
      using order nth_mem [OF j(1)] by (auto simp: in_order_def split_beta)
    have "J (committed g)" using order by (simp add: in_order_def)
    then have J: "J (sees A (committed g) (?x j))" by (rule good_sees [OF x(2)])
    have "w j \<in> ?want j" using w [OF j(1)] by simp
    then have "rank (w i) < rank (w j)" by (rule climbs_wanted [OF x(1) J _ new j(3)])
    with j(1) show ?thesis by blast
  qed
  let ?R = "(\<lambda>i. rank (w i)) ` {..<?n}"
  have "0 < ?n" using assms(2) by (simp add: g_def)
  then have "finite ?R" "?R \<noteq> {}" by auto
  then have "Max ?R \<in> ?R" by (rule Max_in)
  then obtain i where i: "i < ?n" "Max ?R = rank (w i)" by blast
  obtain j where j: "j < ?n" "rank (w i) < rank (w j)" using higher [OF i(1)] by blast
  have "rank (w j) \<le> Max ?R" using j(1) by (intro Max_ge) auto
  then show False using i(2) j(2) by simp
qed

end


section \<open>Rules for programs\<close>

lemma climbs_stmt:
  assumes "\<And>e. climbs J key rank (f e) H"
    and "\<And>now v a v'. J v \<Longrightarrow> q now v = Done a v' \<Longrightarrow>
      (\<forall>k \<in> key ` set (w now a v') - H. \<forall>k' \<in> H. rank k' < rank k) \<and> climbs J key rank (g a) (H \<union> key ` set (w now a v'))"
  shows "climbs J key rank (p_catch (p_stmt q w) f g) H"
proof -
  let ?a = "\<lambda>x. map_answer (\<lambda>p. p_catch p f g) id (case x of (t, now, v) \<Rightarrow>
    case q now v of Done a v' \<Rightarrow> Served (p_return a) (w now a v') | ClientReject e \<Rightarrow> Unsent e | ServerReject e \<Rightarrow> Rejected e)"
  have prog: "p_catch (p_stmt q w) f g = Stmt f ?a"
    by (simp add: p_stmt_at_def first_step)
  have "let K = key ` set (served_rows (?a (t, now, v))) in
      (\<forall>k \<in> K - H. \<forall>k' \<in> H. rank k' < rank k) \<and> climbs J key rank (follow f (?a (t, now, v))) (H \<union> K)"
    if "J v" for t now v
    using assms(1) assms(2) [OF that, of now] by (cases "q now v") (simp_all add: first_step Let_def)
  then show ?thesis unfolding prog climbs_Stmt by (intro conjI allI impI assms(1))
qed

lemma climbs_rows:
  assumes "\<And>e. climbs J key rank (f e) {}"
    and "\<And>t now v rs v' k. J v \<Longrightarrow> q t now v = Done rs v' \<Longrightarrow>
      climbs J key rank (g (rs, None)) (key ` set (w now rs v')) \<and>
      (\<forall>e. climbs J key rank (g (take k rs, Some e)) (key ` set (w now rs v')))"
  shows "climbs J key rank (p_catch (p_rows sys q w) f g) {}"
proof -
  let ?b = "\<lambda>t now v. case q t now v of
       Done rs v' \<Rightarrow>
         (case rows_cut sys t of
            None \<Rightarrow> Served (p_return (rs, None)) (w now rs v')
          | Some (k, msg) \<Rightarrow> Cut (p_return (take k rs, Some (Driver msg))) (w now rs v'))
     | ClientReject e \<Rightarrow> Unsent e
     | ServerReject e \<Rightarrow> Rejected e"
  let ?a = "\<lambda>x. map_answer (\<lambda>p. p_catch p f g) id (case x of (t, now, v) \<Rightarrow> ?b t now v)"
  have prog: "p_catch (p_rows sys q w) f g = Stmt f ?a"
    by (simp add: p_rows_def first_step)
  have "climbs J key rank (follow f (?a (t, now, v))) (key ` set (served_rows (?a (t, now, v))))"
    if "J v" for t now v
    using assms(1) assms(2) [OF that, of t now]
    by (cases "q t now v") (auto simp: first_step split: option.split)
  then show ?thesis unfolding prog climbs_Stmt Let_def using assms(1) by simp
qed

lemma climbs_draws:
  "(\<And>t. climbs J key rank (g (uuid_New sys t)) H) \<Longrightarrow> climbs J key rank (p_catch (p_uuid sys) f g) H"
  "(\<And>t. climbs J key rank (h (time_Now sys t)) H) \<Longrightarrow> climbs J key rank (p_catch (p_now sys) f h) H"
  by (auto simp: p_uuid_def p_now_def first_step)

lemma climbs_publish:
  "(\<And>e. climbs J key rank (f e) H) \<Longrightarrow> climbs J key rank (g ()) H \<Longrightarrow>
   climbs J key rank (p_catch (p_publish subject data) f g) H"
  by (simp add: p_publish_def first_step)

lemma climbs_commit:
  "(\<And>e. climbs J key rank (f e) H \<and> climbs J key rank (f e) {}) \<Longrightarrow> climbs J key rank (g ()) {} \<Longrightarrow>
   climbs J key rank (p_catch p_commit f g) H"
  by (simp add: p_commit_def first_step)

lemma climbs_with_tx:
  "(\<And>e. climbs J key rank (f e) H) \<Longrightarrow>
   climbs J key rank (p_catch body (\<lambda>e. Rollback (f e)) (\<lambda>a. Rollback (g a))) {} \<Longrightarrow>
   climbs J key rank (p_catch (p_with_tx body) f g) H"
  by (simp add: p_with_tx_def first_step)

lemma climbs_cases:
  "(\<And>e. r = Inl e \<Longrightarrow> climbs J key rank (m1 e) H) \<Longrightarrow> (\<And>a. r = Inr a \<Longrightarrow> climbs J key rank (m2 a) H) \<Longrightarrow>
   climbs J key rank (case r of Inl e \<Rightarrow> m1 e | Inr a \<Rightarrow> m2 a) H"
  by (simp split: sum.split)

lemma climbs_ends [simp]:
  "climbs J key rank (Rollback (p_return a)) H" "climbs J key rank (Rollback (p_fail e)) H"
  "climbs J key rank (p_return a) H" "climbs J key rank (p_fail e) H"
  by (simp_all add: p_return_def p_fail_def)

text \<open>Tables in the order in which a call locks their rows: processed events, the service's own, the outbox.\<close>

fun table_rank :: "'k lock_key \<Rightarrow> nat" where
  "table_rank (EventKey u) = 0"
| "table_rank (OwnKey k) = 1"
| "table_rank (MessageKey u) = 2"

text \<open>The IDs that are stored are canonical, and so are those of the rows an operation adds.\<close>

definition messages_canonical :: "sys \<Rightarrow> 'z core_db_scheme \<Rightarrow> bool" where
  "messages_canonical sys v \<longleftrightarrow> canonical_ids sys (msg_ID ` set (outbox v))"

fun canonical_op :: "sys \<Rightarrow> ('r \<Rightarrow> bool) \<Rightarrow> 'r row_op \<Rightarrow> bool" where
  "canonical_op sys own (AddMessage m) = (uuid_in sys (msg_ID m) = Some (msg_ID m))"
| "canonical_op sys own (Own r) = own r"
| "canonical_op sys own _ = True"

lemma climbs_CheckAndMark:
  "(\<And>e. climbs J (row_key own) table_rank (f e) {}) \<Longrightarrow> (\<And>u. climbs J (row_key own) table_rank (g ()) {EventKey u}) \<Longrightarrow>
   climbs J (row_key own) table_rank (p_catch (p_CheckAndMark sys eid ety) f g) {}"
  unfolding p_CheckAndMark_def first_step by (rule climbs_stmt) auto

lemma climbs_PublishInTx:
  assumes "\<And>e. climbs J (row_key own) table_rank (f e) H"
    and "\<And>u. climbs J (row_key own) table_rank (g ()) (insert (MessageKey u) H)"
    and "\<And>k. k \<in> H \<Longrightarrow> table_rank k < 2"
  shows "climbs J (row_key own) table_rank (p_catch (p_PublishInTx sys agg aid ety ev) f g) H"
  unfolding p_PublishInTx_def ToJSON_def first_step sum.case
  by (rule climbs_draws, rule climbs_stmt) (use assms in auto)

lemma climbs_gate:
  assumes "\<And>e H. climbs J (row_key own) table_rank (f e) H" and "\<And>H. climbs J (row_key own) table_rank (g ()) H"
    and "\<And>u. climbs J (row_key own) table_rank (p_catch body f g) {EventKey u}"
  shows "climbs J (row_key own) table_rank (p_catch (p_idempotency_gate (p_CheckAndMark sys eid ety) body) f g) {}"
  unfolding p_idempotency_gate_def first_step
  by (rule climbs_CheckAndMark) (use assms in \<open>auto simp: first_step\<close>)

lemma climbs_NewBaseEvent:
  "(\<And>b. climbs J key rank (g b) H) \<Longrightarrow> climbs J key rank (p_catch (p_NewBaseEvent sys ety) f g) H"
  unfolding p_NewBaseEvent_def first_step by (intro climbs_draws) simp

text \<open>The relay updates only rows it has locked.\<close>

lemma climbs_update_message:
  assumes "uuid_in sys mid = Some mid" and "MessageKey mid \<in> H" and "\<And>u. row_key own (op u) = MessageKey u"
    and "\<And>e. climbs J (row_key own) table_rank (f e) H" and "climbs J (row_key own) table_rank (g ()) H"
  shows "climbs J (row_key own) table_rank (p_catch (p_update_message sys op h mid) f g) H"
  unfolding p_update_message_def
proof (rule climbs_stmt)
  fix now v a v'
  have "row_key own ` set (case uuid_in sys mid of None \<Rightarrow> []
      | Some u \<Rightarrow> if u \<in> msg_ID ` set (outbox v') then [op u] else []) \<subseteq> H"
    using assms(1-3) by auto
  then show "(\<forall>k \<in> row_key own ` set (case uuid_in sys mid of None \<Rightarrow> []
      | Some u \<Rightarrow> if u \<in> msg_ID ` set (outbox v') then [op u] else []) - H. \<forall>k' \<in> H. table_rank k' < table_rank k) \<and>
    climbs J (row_key own) table_rank (g a) (H \<union> row_key own ` set (case uuid_in sys mid of None \<Rightarrow> []
      | Some u \<Rightarrow> if u \<in> msg_ID ` set (outbox v') then [op u] else []))"
    using assms(5) by (auto simp: Un_absorb2)
qed (rule assms(4))

lemma climbs_relay_messages:
  assumes "\<forall>m \<in> set ms. uuid_in sys (msg_ID m) = Some (msg_ID m) \<and> MessageKey (msg_ID m) \<in> H"
    and "\<And>e. climbs J (row_key own) table_rank (f e) H" and "climbs J (row_key own) table_rank (g ()) H"
  shows "climbs J (row_key own) table_rank (p_catch (p_relay_messages sys ms) f g) H"
  using assms(1)
proof (induction ms)
  case Nil
  then show ?case using assms(3) by (simp add: first_step)
next
  case (Cons m ms)
  then have rest: "climbs J (row_key own) table_rank (p_catch (p_relay_messages sys ms) f g) H" by simp
  show ?case
    unfolding p_relay_messages.simps p_relay_message_def first_step
    using Cons.prems rest assms(2)
    by (intro climbs_publish climbs_update_message climbs_draws) simp_all
qed

lemma climbs_relay:
  fixes J :: "'z core_db_scheme \<Rightarrow> bool"
  assumes "\<And>v. J v \<Longrightarrow> messages_canonical sys v \<and> scans_ok sys"
    and "\<And>e H. climbs J (row_key own) table_rank (f e) H" and "\<And>H. climbs J (row_key own) table_rank (g ()) H"
  shows "climbs J (row_key own) table_rank (p_catch (p_processPendingMessages sys) f g) H"
  unfolding p_processPendingMessages_def
proof (rule climbs_with_tx [OF assms(2)], unfold first_step, rule climbs_rows, goal_cases)
  case (2 t now v rs v' k)
  have sel: "set (select_pending sys t v) \<subseteq> set (outbox v)"
    using assms(1) [OF 2(1)] by (auto simp: select_pending_def dest!: in_set_takeD)
  have ids: "\<forall>m \<in> set rs. uuid_in sys (msg_ID m) = Some (msg_ID m) \<and>
      MessageKey (msg_ID m) \<in> row_key own ` set (map (LockMessage \<circ> msg_ID) rs)"
    using 2 sel assms(1) [of v] by (auto simp: messages_canonical_def canonical_ids_def image_image)
  show ?case
    using ids assms(2,3)
    by (auto simp: first_step intro!: climbs_relay_messages climbs_commit)
qed (use assms(2) in simp_all)

end
