(* ===== verification/Order_Concurrent.thy ===== *)
theory Order_Concurrent
  imports Tx_Progress Order_Service
begin

text \<open>
  The order service with its requests, its event handlers and its relay running at the same time:
  the repository's statements with the rows they lock, the use cases as programs, and what any
  interleaving of them leaves.
\<close>

section \<open>The repository's statements\<close>

datatype order_row_op = InsertOrder order_row | SetOrderStatus string string int | LockOrder string

fun order_own_key :: "order_row_op \<Rightarrow> string" where
  "order_own_key (InsertOrder r) = o_id r"
| "order_own_key (SetOrderStatus u st now) = u"
| "order_own_key (LockOrder u) = u"

fun order_own_apply :: "order_row_op \<Rightarrow> order_db \<Rightarrow> order_db" where
  "order_own_apply (InsertOrder r) db = db\<lparr>orders := orders db @ [r]\<rparr>"
| "order_own_apply (SetOrderStatus u st now) db = set_order_status u st now db"
| "order_own_apply (LockOrder u) db = db"

abbreviation order_apply :: "order_row_op row_op \<Rightarrow> order_db \<Rightarrow> order_db" where
  "order_apply \<equiv> apply_op order_own_apply"

abbreviation order_key :: "order_row_op row_op \<Rightarrow> string lock_key" where
  "order_key \<equiv> row_key order_own_key"

definition order_agree :: "string set \<Rightarrow> order_db \<Rightarrow> order_db \<Rightarrow> bool" where
  "order_agree K v v' \<longleftrightarrow> (\<forall>u \<in> K. rows_of o_id u (orders v) = rows_of o_id u (orders v'))"

interpretation order_rows: own_rows order_own_apply order_own_key order_agree "\<lambda>_. True" "\<lambda>_. True"
proof
  fix K K' v v' v'' op
  show "order_agree K v v' \<Longrightarrow> order_agree K (order_own_apply op v) (order_own_apply op v')"
    by (cases op) (auto simp: order_agree_def set_order_status_def)
  show "order_own_key op \<notin> K \<Longrightarrow> order_agree K v (order_own_apply op v)"
    by (cases op) (auto simp: order_agree_def set_order_status_def)
  show "processed_events (order_own_apply op v) = processed_events v" "outbox (order_own_apply op v) = outbox v"
    by (cases op; simp)+
qed (auto simp: order_agree_def)

type_synonym 'a order_prog = "(order_row_op row_op, order_db, 'a) prog"

definition p_order_Save :: "sys \<Rightarrow> Order \<Rightarrow> unit order_prog" where
  "p_order_Save sys ord =
     p_try (p_stmt (insert_order sys ord) (\<lambda>now _ v. [Own (InsertOrder (last (orders v)))]))
       ''insert order'' p_return"

definition p_order_Update :: "sys \<Rightarrow> Order \<Rightarrow> unit order_prog" where
  "p_order_Update sys ord =
     p_try (p_stmt (update_order sys ord)
              (\<lambda>now n v. if n = 0 then [] else [Own (SetOrderStatus (the (uuid_in sys (order_ID ord))) (order_Status ord) now)]))
       ''update order'' (\<lambda>n. if n = 0 then p_fail order_ErrOrderNotFound else p_return ())"

definition p_order_FindByID :: "sys \<Rightarrow> string \<Rightarrow> Order order_prog" where
  "p_order_FindByID sys orderID =
     p_catch (p_read (\<lambda>_. select_order sys orderID))
       (\<lambda>e. if e = ErrNoRows then p_fail order_ErrOrderNotFound else p_fail (Errorf ''query order'' e))
       (\<lambda>r. p_return (order_of_row sys r))"

definition p_order_FindByIDForUpdate :: "sys \<Rightarrow> string \<Rightarrow> Order order_prog" where
  "p_order_FindByIDForUpdate sys orderID =
     p_catch (p_stmt (select_order sys orderID) (\<lambda>now r v. [Own (LockOrder (o_id r))]))
       (\<lambda>e. if e = ErrNoRows then p_fail order_ErrOrderNotFound
            else p_fail (Errorf ''query order for update'' e))
       (\<lambda>r. p_return (order_of_row sys r))"


section \<open>The use cases\<close>

definition p_NewOrderCreatedEvent ::
  "sys \<Rightarrow> string \<Rightarrow> string \<Rightarrow> string \<Rightarrow> go_int \<Rightarrow> float64 \<Rightarrow> OrderCreatedEvent order_prog" where
  "p_NewOrderCreatedEvent sys orderID customerID productID quantity totalAmount =
     p_bind (p_NewBaseEvent sys EventTypeOrderCreated) (\<lambda>b.
     p_return \<lparr>EventID = EventID b, EventType = EventType b, Timestamp = Timestamp b,
       oc_OrderID = orderID, oc_CustomerID = customerID, oc_ProductID = productID, oc_Quantity = quantity,
       oc_TotalAmount = totalAmount\<rparr>)"

definition p_NewOrderCompletedEvent :: "sys \<Rightarrow> string \<Rightarrow> OrderCompletedEvent order_prog" where
  "p_NewOrderCompletedEvent sys orderID =
     p_bind (p_NewBaseEvent sys EventTypeOrderCompleted) (\<lambda>b.
     p_return \<lparr>EventID = EventID b, EventType = EventType b, Timestamp = Timestamp b, od_OrderID = orderID\<rparr>)"

definition p_NewOrderCancelledEvent :: "sys \<Rightarrow> string \<Rightarrow> string \<Rightarrow> OrderCancelledEvent order_prog" where
  "p_NewOrderCancelledEvent sys orderID reason =
     p_bind (p_NewBaseEvent sys EventTypeOrderCancelled) (\<lambda>b.
     p_return \<lparr>EventID = EventID b, EventType = EventType b, Timestamp = Timestamp b, ox_OrderID = orderID,
       ox_Reason = reason\<rparr>)"

definition p_CreateOrder :: "sys \<Rightarrow> CreateOrderInput \<Rightarrow> CreateOrderOutput order_prog" where
  "p_CreateOrder sys input =
     p_bind (p_now sys) (\<lambda>now.
     p_bind (p_uuid sys) (\<lambda>uuid.
     p_try (Finish (NewOrder uuid now (in_CustomerID input) (in_ProductID input)
                      (in_Quantity input) (in_TotalAmount input))) ''create order'' (\<lambda>ord.
     p_with_tx
       (p_try (p_order_Save sys ord) ''save order'' (\<lambda>_.
        p_bind (p_NewOrderCreatedEvent sys (order_ID ord) (order_CustomerID ord) (order_ProductID ord)
                  (order_Quantity ord) (order_TotalAmount ord)) (\<lambda>event.
        p_try (p_PublishInTx sys ''Order'' (order_ID ord) EventTypeOrderCreated (EvOrderCreated event))
          ''publish event'' (\<lambda>_.
        p_try p_commit ''commit transaction'' (\<lambda>_.
        p_return \<lparr>out_OrderID = order_ID ord, out_Status = order_Status ord\<rparr>))))))))"

definition p_GetOrder :: "sys \<Rightarrow> string \<Rightarrow> Order order_prog" where
  "p_GetOrder sys orderID = p_try (p_order_FindByID sys orderID) ''find order'' p_return"

definition p_order_HandleStockReserved :: "sys \<Rightarrow> string \<Rightarrow> string \<Rightarrow> unit order_prog" where
  "p_order_HandleStockReserved sys eventID orderID =
     p_with_tx
       (p_idempotency_gate (p_CheckAndMark sys eventID EventTypeStockReserved)
         (p_try (p_order_FindByIDForUpdate sys orderID) ''find order'' (\<lambda>ord.
          p_bind (p_now sys) (\<lambda>now.
          case order_Confirm now ord of
            Inl _ \<Rightarrow> p_return ()
          | Inr ord \<Rightarrow>
              p_try (p_order_Update sys ord) ''update order'' (\<lambda>_.
              p_try p_commit ''commit transaction'' p_return)))))"

definition p_order_HandlePaymentCompleted :: "sys \<Rightarrow> string \<Rightarrow> string \<Rightarrow> unit order_prog" where
  "p_order_HandlePaymentCompleted sys eventID orderID =
     p_with_tx
       (p_idempotency_gate (p_CheckAndMark sys eventID EventTypePaymentCompleted)
         (p_try (p_order_FindByIDForUpdate sys orderID) ''find order'' (\<lambda>ord.
          p_bind (p_now sys) (\<lambda>now.
          case order_Complete now ord of
            Inl _ \<Rightarrow> p_return ()
          | Inr ord \<Rightarrow>
              p_try (p_order_Update sys ord) ''update order'' (\<lambda>_.
              p_bind (p_NewOrderCompletedEvent sys orderID) (\<lambda>event.
              p_try (p_PublishInTx sys ''Order'' orderID EventTypeOrderCompleted (EvOrderCompleted event))
                ''publish event'' (\<lambda>_.
              p_try p_commit ''commit transaction'' p_return)))))))"

definition p_order_HandlePaymentFailed :: "sys \<Rightarrow> string \<Rightarrow> string \<Rightarrow> string \<Rightarrow> unit order_prog" where
  "p_order_HandlePaymentFailed sys eventID orderID reason =
     p_with_tx
       (p_idempotency_gate (p_CheckAndMark sys eventID EventTypePaymentFailed)
         (p_try (p_order_FindByIDForUpdate sys orderID) ''find order'' (\<lambda>ord.
          p_bind (p_now sys) (\<lambda>now.
          case order_Cancel now ord of
            Inl _ \<Rightarrow> p_return ()
          | Inr ord \<Rightarrow>
              p_try (p_order_Update sys ord) ''update order'' (\<lambda>_.
              p_bind (p_NewOrderCancelledEvent sys orderID reason) (\<lambda>event.
              p_try (p_PublishInTx sys ''Order'' orderID EventTypeOrderCancelled (EvOrderCancelled event))
                ''publish event'' (\<lambda>_.
              p_try p_commit ''commit transaction'' p_return)))))))"

definition p_order_HandleStockReserveFailed :: "sys \<Rightarrow> string \<Rightarrow> string \<Rightarrow> string \<Rightarrow> unit order_prog" where
  "p_order_HandleStockReserveFailed sys eventID orderID reason =
     p_with_tx
       (p_idempotency_gate (p_CheckAndMark sys eventID EventTypeStockReserveFailed)
         (p_try (p_order_FindByIDForUpdate sys orderID) ''find order'' (\<lambda>ord.
          p_bind (p_now sys) (\<lambda>now.
          case order_Cancel now ord of
            Inl _ \<Rightarrow> p_return ()
          | Inr ord \<Rightarrow>
              p_try (p_order_Update sys ord) ''update order'' (\<lambda>_.
              p_try p_commit ''commit transaction'' p_return)))))"

text \<open>What a call answers.\<close>

datatype order_answer = AnsCreated CreateOrderOutput | AnsOrder Order | AnsDone

fun order_program :: "sys \<Rightarrow> order_call \<Rightarrow> order_answer order_prog" where
  "order_program sys (CallCreateOrder input) = p_bind (p_CreateOrder sys input) (\<lambda>out. p_return (AnsCreated out))"
| "order_program sys (CallGetOrder oid) = p_bind (p_GetOrder sys oid) (\<lambda>ord. p_return (AnsOrder ord))"
| "order_program sys (CallStockReserved eid oid) =
     p_bind (p_order_HandleStockReserved sys eid oid) (\<lambda>_. p_return AnsDone)"
| "order_program sys (CallStockReserveFailed eid oid reason) =
     p_bind (p_order_HandleStockReserveFailed sys eid oid reason) (\<lambda>_. p_return AnsDone)"
| "order_program sys (CallPaymentCompleted eid oid) =
     p_bind (p_order_HandlePaymentCompleted sys eid oid) (\<lambda>_. p_return AnsDone)"
| "order_program sys (CallPaymentFailed eid oid reason) =
     p_bind (p_order_HandlePaymentFailed sys eid oid reason) (\<lambda>_. p_return AnsDone)"
| "order_program sys CallOrderRelay = p_bind (p_processPendingMessages sys) (\<lambda>_. p_return AnsDone)"


section \<open>On their own they are the use cases\<close>

lemma order_statements_retimed [simp]:
  "insert_order (retime f sys) = insert_order sys" "update_order (retime f sys) = update_order sys"
  "select_order (retime f sys) = select_order sys" "order_of_row (retime f sys) = order_of_row sys"
  by (simp_all add: insert_order_def update_order_def select_order_def order_of_row_def fun_eq_iff
        cong: option.case_cong if_cong prod.case_cong)

lemma alone_order_Save [solo]:
  "alone f sys order_apply (p_order_Save sys ord) = order_Save (retime f sys) ord"
proof -
  have "alone f sys order_apply (p_stmt (insert_order sys ord) (\<lambda>now _ v. [Own (InsertOrder (last (orders v)))]))
      = tx_stmt (retime f sys) (insert_order sys ord)"
    by (rule alone_stmt) (auto simp: insert_order_Done)
  then show ?thesis by (simp add: p_order_Save_def order_Save_def solo)
qed

lemma update_order_Done:
  "update_order sys ord now v = Done n v' \<longleftrightarrow>
     (\<exists>u. uuid_in sys (order_ID ord) = Some u \<and> text_ok sys 50 (order_Status ord) \<and>
        n = length (rows_of o_id u (orders v)) \<and> v' = set_order_status u (order_Status ord) now v)"
  by (auto simp: update_order_def rows_of_def split: option.splits)

lemma alone_order_Update [solo]:
  "alone f sys order_apply (p_order_Update sys ord) = order_Update (retime f sys) ord"
proof -
  have "alone f sys order_apply (p_stmt (update_order sys ord)
        (\<lambda>now n v. if n = 0 then [] else [Own (SetOrderStatus (the (uuid_in sys (order_ID ord))) (order_Status ord) now)]))
      = tx_stmt (retime f sys) (update_order sys ord)"
    by (rule alone_stmt) (auto simp: update_order_Done set_order_status_def upd_where_absent)
  then show ?thesis
    by (simp add: p_order_Update_def order_Update_def solo if_distrib [of "alone f sys order_apply"] cong: if_cong)
qed

lemma alone_order_FindByID [solo]:
  "alone f sys order_apply (p_order_FindByID sys oid) = order_FindByID (retime f sys) oid"
proof -
  have "alone f sys order_apply (p_read (\<lambda>_. select_order sys oid)) = pool_stmt (retime f sys) (select_order sys oid)"
    by (rule alone_read) (simp add: select_order_Done)
  then show ?thesis
    by (simp add: p_order_FindByID_def order_FindByID_def solo if_distrib [of "alone f sys order_apply"] cong: if_cong)
qed

lemma alone_order_FindByIDForUpdate [solo]:
  "alone f sys order_apply (p_order_FindByIDForUpdate sys oid) = order_FindByIDForUpdate (retime f sys) oid"
proof -
  have "alone f sys order_apply (p_stmt (select_order sys oid) (\<lambda>now r v. [Own (LockOrder (o_id r))]))
      = tx_stmt (retime f sys) (select_order sys oid)"
    by (rule alone_stmt) (auto simp: select_order_Done)
  then show ?thesis
    by (simp add: p_order_FindByIDForUpdate_def order_FindByIDForUpdate_def solo
        if_distrib [of "alone f sys order_apply"] cong: if_cong)
qed

lemma alone_order_events [solo]:
  "alone f sys A (p_NewOrderCreatedEvent sys oid cid pid n amount) = NewOrderCreatedEvent (retime f sys) oid cid pid n amount"
  "alone f sys A (p_NewOrderCompletedEvent sys oid) = NewOrderCompletedEvent (retime f sys) oid"
  "alone f sys A (p_NewOrderCancelledEvent sys oid reason) = NewOrderCancelledEvent (retime f sys) oid reason"
  by (simp_all add: p_NewOrderCreatedEvent_def p_NewOrderCompletedEvent_def p_NewOrderCancelledEvent_def NewEvent_defs solo)

theorem order_use_cases_alone:
  "alone f sys order_apply (p_CreateOrder sys input) = CreateOrder (retime f sys) input"
  "alone f sys order_apply (p_GetOrder sys oid) = GetOrder (retime f sys) oid"
  "alone f sys order_apply (p_order_HandleStockReserved sys eid oid) = order_HandleStockReserved (retime f sys) eid oid"
  "alone f sys order_apply (p_order_HandleStockReserveFailed sys eid oid reason) =
     order_HandleStockReserveFailed (retime f sys) eid oid reason"
  "alone f sys order_apply (p_order_HandlePaymentCompleted sys eid oid) =
     order_HandlePaymentCompleted (retime f sys) eid oid"
  "alone f sys order_apply (p_order_HandlePaymentFailed sys eid oid reason) =
     order_HandlePaymentFailed (retime f sys) eid oid reason"
  by (simp_all only: p_CreateOrder_def p_GetOrder_def p_order_HandleStockReserved_def p_order_HandleStockReserveFailed_def
        p_order_HandlePaymentCompleted_def p_order_HandlePaymentFailed_def CreateOrder_def GetOrder_def
        order_HandleStockReserved_def order_HandleStockReserveFailed_def
        order_HandlePaymentCompleted_def order_HandlePaymentFailed_def solo)

lemma order_program_alone:
  "snd (alone f sys order_apply (order_program sys c) s) = order_exec (retime f sys) c s"
  by (cases c) (simp_all add: solo order_use_cases_alone snd_bind_returns)


section \<open>Their locks\<close>

abbreviation order_framed :: "string lock_key set \<Rightarrow> 'a order_prog \<Rightarrow> bool" where
  "order_framed \<equiv> framed (agree_on order_agree) order_key (\<lambda>_. True)"

lemma framed_order_Save:
  assumes "\<And>e. quiet (f e)" and "\<And>H. order_framed H (g ())"
  shows "order_framed H (p_catch (p_order_Save sys ord) f g)"
  unfolding p_order_Save_def first_step
proof (rule framed_stmt_at)
  fix now v
  have "steady (agree_on order_agree) order_key H (insert_order sys ord)
      (\<lambda>now _ v. [Own (InsertOrder (last (orders v)))]) now v" if "insert_order sys ord now v = Done x v'" for x v'
    by (rule steady_Done, rule that)
      (use that in \<open>auto simp: insert_order_Done agree_on_def order_agree_def rows_of_mem\<close>)
  then show "quiet (outcome (\<lambda>e. f (Errorf ''insert order'' e)) g (insert_order sys ord now v)) \<or>
      steady (agree_on order_agree) order_key H (insert_order sys ord) (\<lambda>now _ v. [Own (InsertOrder (last (orders v)))]) now v"
    using assms(1) by (cases "insert_order sys ord now v") auto
qed (use assms in \<open>auto intro: framed_quiet\<close>)

lemma framed_order_Update:
  assumes "\<And>e. quiet (f e)" and "\<And>H. order_framed H (g ())"
  shows "order_framed H (p_catch (p_order_Update sys ord) f g)"
  unfolding p_order_Update_def first_step
proof (rule framed_stmt_at)
  let ?w = "\<lambda>now n v. if n = 0 then [] else [Own (SetOrderStatus (the (uuid_in sys (order_ID ord))) (order_Status ord) now)]"
  fix now v
  have "steady (agree_on order_agree) order_key H (update_order sys ord) ?w now v"
    if "update_order sys ord now v = Done n v'" "n \<noteq> 0" for n v'
    by (rule steady_Done, rule that(1)) (use that in \<open>auto simp: update_order_Done agree_on_def order_agree_def\<close>)
  then show "quiet (outcome (\<lambda>e. f (Errorf ''update order'' e))
        (\<lambda>n. if n = 0 then f order_ErrOrderNotFound else g ()) (update_order sys ord now v)) \<or>
      steady (agree_on order_agree) order_key H (update_order sys ord) ?w now v"
    using assms(1) by (cases "update_order sys ord now v") auto
qed (use assms in \<open>auto intro: framed_quiet\<close>)

lemma framed_order_FindByIDForUpdate:
  assumes "\<And>e. quiet (f e)" and "\<And>ord H. order_framed H (g ord)"
  shows "order_framed H (p_catch (p_order_FindByIDForUpdate sys oid) f g)"
  unfolding p_order_FindByIDForUpdate_def first_step
proof (rule framed_stmt_at)
  let ?w = "\<lambda>now r v. [Own (LockOrder (o_id r))]"
  fix now v
  have "steady (agree_on order_agree) order_key H (select_order sys oid) ?w now v"
    if found: "select_order sys oid now v = Done r v'" for r v'
  proof (rule steady_Done, rule found)
    fix u
    assume same: "agree_on order_agree (H \<union> order_key ` set (?w now r v')) v u"
    obtain w where w: "uuid_in sys oid = Some w" "find (\<lambda>r. o_id r = w) (orders v) = Some r"
      using found by (auto simp: select_order_Done)
    then have "o_id r = w" using find_by_key [of o_id w "orders v" r] by simp
    then have "find (\<lambda>r. o_id r = w) (orders u) = Some r"
      using same w(2) by (auto simp: agree_on_def order_agree_def rows_of_find)
    then show "\<exists>u'. select_order sys oid now u = Done r u' \<and> ?w now r u' = ?w now r v'"
      using w(1) by (simp add: select_order_def)
  qed
  then show "quiet (outcome (\<lambda>e. if e = ErrNoRows then f order_ErrOrderNotFound else f (Errorf ''query order for update'' e))
        (\<lambda>r. g (order_of_row sys r)) (select_order sys oid now v)) \<or>
      steady (agree_on order_agree) order_key H (select_order sys oid) ?w now v"
    using assms(1) by (cases "select_order sys oid now v") auto
qed (use assms in \<open>auto intro: framed_quiet\<close>)

lemmas framed_order_rules = framed_with_tx framed_call_draws framed_cases framed_gate framed_order_Save
  framed_order_Update framed_order_FindByIDForUpdate framed_PublishInTx framed_NewBaseEvent framed_draws framed_commit

lemmas order_prog_defs = p_CreateOrder_def p_order_HandleStockReserved_def p_order_HandleStockReserveFailed_def
  p_order_HandlePaymentCompleted_def p_order_HandlePaymentFailed_def p_NewOrderCreatedEvent_def
  p_NewOrderCompletedEvent_def p_NewOrderCancelledEvent_def

lemma order_program_framed:
  "c \<noteq> CallOrderRelay \<Longrightarrow> framed_call (agree_on order_agree) order_key (\<lambda>_. True) (order_program sys c)"
proof (cases c)
  case (CallGetOrder oid)
  then show ?thesis by (auto simp: p_GetOrder_def p_order_FindByID_def first_step intro!: call_quiet quiet_catch)
qed (simp only: order_program.simps order_prog_defs first_step,
    (intro framed_order_rules | simp only: first_step | simp add: framed_quiet call_quiet)+)+

lemma quiet_order_parts [simp]:
  "quiet (p_order_Save sys ord)" "quiet (p_order_Update sys ord)" "quiet (p_order_FindByIDForUpdate sys oid)"
  "quiet (p_order_FindByID sys oid)"
  by (auto simp: p_order_Save_def p_order_Update_def p_order_FindByIDForUpdate_def p_order_FindByID_def intro!: quiet_catch quiet_try)

lemma order_program_once: "once (order_program sys c)"
proof (cases c)
  case (CallGetOrder oid)
  then show ?thesis by (auto simp: p_GetOrder_def intro!: quiet_once quiet_bind quiet_try)
next
  case CallOrderRelay
  then show ?thesis by (simp add: p_bind_def once_relay)
qed (simp_all only: order_program.simps order_prog_defs p_idempotency_gate_def first_step,
    (simp only: first_step | rule once_rules | rule once_quiet_first | simp add: quiet_once)+)+

lemma order_program_any: "only (own_op (\<lambda>_. True)) (order_program sys c)"
proof -
  have "own_op (\<lambda>_. True) = (\<lambda>op :: order_row_op row_op. True)"
    by (rule ext, rename_tac op, case_tac op) simp_all
  then show ?thesis by (simp add: only_True)
qed

interpretation order_calls: concurrent_calls order_apply order_key "agree_on order_agree" "\<lambda>_. True" "own_op (\<lambda>_. True)"
    sys "order_program sys" "\<lambda>_. True" "\<lambda>c. c = CallOrderRelay" delivery_op
  for sys
  by unfold_locales
    (auto simp: order_program_framed order_program_any order_program_once p_bind_def intro!: only_catch relay_delivers)


section \<open>Whatever the interleaving\<close>

abbreviation order_interleaved ::
  "sys \<Rightarrow> order_call choice list \<Rightarrow> order_db \<Rightarrow> (order_call, order_row_op row_op, order_db, order_answer) server" where
  "order_interleaved sys \<equiv> interleaved sys order_apply order_key (order_program sys)"

lemma order_serializes:
  "in_turn (leaves order_exec CallOrderRelay sys) (commits (order_interleaved sys chs db)) db
     (committed (order_interleaved sys chs db))"
  by (rule in_turn_mono [OF order_calls.serializable]) (auto intro: serial_leaves order_program_alone)

lemma order_step_retimed: "order_step (retime f sys) c d d' \<Longrightarrow> order_step sys c d d'"
proof (induction rule: order_step.induct)
  case (relayed db ms)
  then show ?case by (rule order_step.relayed)
qed (auto intro: order_step.intros outbox_entry_retimed)

lemma order_ready_retimed: "order_ready sys d \<Longrightarrow> order_ready (retime f sys) d"
  by (simp add: order_ready_def order_inv_def order_keys_ok_def order_announced_def order_told_def)

lemma order_boot_process: "process_on d = order_boot d"
  by (simp add: process_on_def order_boot_def)

lemma order_leaves_step:
  assumes "leaves order_exec CallOrderRelay sys c d d'" and "order_ready sys d"
  shows "d' = d \<or> order_step sys c d d'"
proof -
  have "durable (order_exec (retime f sys) c (order_boot d)) = d \<or>
      order_step sys c d (durable (order_exec (retime f sys) c (order_boot d)))" for f
    using order_service.exec_refines [of "retime f sys" "order_boot d" c] order_ready_retimed [OF assms(2)]
      order_step_retimed by auto
  then show ?thesis using assms(1) order_step.relayed by (auto simp: leaves_def order_boot_process)
qed


lemma order_interleaved_ready:
  "order_ready sys db \<Longrightarrow>
   explained (order_step sys) (commits (order_interleaved sys chs db)) db (committed (order_interleaved sys chs db)) \<and>
   order_ready sys (committed (order_interleaved sys chs db))"
  by (rule in_turn_explained [OF order_serializes]) (use order_leaves_step order_service.step_inv in blast)+


section \<open>No deadlock\<close>

definition order_ids_canonical :: "sys \<Rightarrow> order_db \<Rightarrow> bool" where
  "order_ids_canonical sys v \<longleftrightarrow> uuids_ok sys \<and> scans_ok sys \<and> canonical_ids sys (o_id ` set (orders v)) \<and> messages_canonical sys v"

fun order_own_canonical :: "sys \<Rightarrow> order_row_op \<Rightarrow> bool" where
  "order_own_canonical sys (InsertOrder r) = (uuid_in sys (o_id r) = Some (o_id r))"
| "order_own_canonical sys _ = True"

definition order_op_ok :: "sys \<Rightarrow> order_row_op row_op \<Rightarrow> bool" where
  "order_op_ok sys op \<longleftrightarrow> (uuids_ok sys \<longrightarrow> canonical_op sys (order_own_canonical sys) op)"

abbreviation order_climbs :: "sys \<Rightarrow> 'a order_prog \<Rightarrow> string lock_key set \<Rightarrow> bool" where
  "order_climbs sys \<equiv> climbs (order_ids_canonical sys) order_key table_rank"

lemma climbs_order_Save:
  assumes "\<And>e. order_climbs sys (f e) {}" and "\<And>u. order_climbs sys (g ()) {OwnKey u}"
  shows "order_climbs sys (p_catch (p_order_Save sys ord) f g) {}"
  unfolding p_order_Save_def first_step by (rule climbs_stmt) (use assms in auto)

lemma climbs_order_FindByIDForUpdate:
  assumes "\<And>e H. order_climbs sys (f e) H"
    and "\<And>r. uuid_in sys (o_id r) = Some (o_id r) \<Longrightarrow> order_climbs sys (g (order_of_row sys r)) {EventKey u, OwnKey (o_id r)}"
  shows "order_climbs sys (p_catch (p_order_FindByIDForUpdate sys oid) f g) {EventKey u}"
  unfolding p_order_FindByIDForUpdate_def first_step
proof (rule climbs_stmt)
  fix now v r v'
  assume "order_ids_canonical sys v" "select_order sys oid now v = Done r v'"
  then have "uuid_in sys (o_id r) = Some (o_id r)"
    using find_by_key [of o_id _ "orders v" r]
    by (fastforce simp: select_order_Done order_ids_canonical_def canonical_ids_def)
  then show "(\<forall>k \<in> order_key ` set [Own (LockOrder (o_id r))] - {EventKey u}. \<forall>k' \<in> {EventKey u}. table_rank k' < table_rank k) \<and>
      order_climbs sys (g (order_of_row sys r)) ({EventKey u} \<union> order_key ` set [Own (LockOrder (o_id r))])"
    using assms(2) by (simp add: insert_commute)
qed (use assms(1) in auto)

lemma climbs_order_Update:
  assumes "order_ID ord = u" and "uuid_in sys u = Some u"
    and "\<And>e H. order_climbs sys (f e) H" and "order_climbs sys (g ()) {EventKey v, OwnKey u}"
  shows "order_climbs sys (p_catch (p_order_Update sys ord) f g) {EventKey v, OwnKey u}"
  unfolding p_order_Update_def first_step
  by (rule climbs_stmt) (use assms in \<open>auto simp: insert_absorb insert_commute\<close>)

lemma order_method_ID:
  "order_Confirm now ord = Inr ord' \<Longrightarrow> order_ID ord' = order_ID ord"
  "order_Complete now ord = Inr ord' \<Longrightarrow> order_ID ord' = order_ID ord"
  "order_Cancel now ord = Inr ord' \<Longrightarrow> order_ID ord' = order_ID ord"
  by (auto simp: order_method_defs split: if_splits)

lemmas order_climb_rules = climbs_with_tx climbs_draws climbs_cases climbs_gate climbs_order_Save
  climbs_order_FindByIDForUpdate climbs_order_Update climbs_PublishInTx climbs_NewBaseEvent climbs_commit

lemma order_program_climbs: "order_climbs sys (order_program sys c) {}"
proof (cases c)
  case (CallGetOrder oid)
  then show ?thesis
    by (auto simp: p_GetOrder_def p_order_FindByID_def p_read_def first_step split: reply.split)
next
  case CallOrderRelay
  have "order_climbs sys (p_catch (p_processPendingMessages sys) p_fail (\<lambda>_. p_return AnsDone)) {}"
    by (rule climbs_relay) (simp_all add: order_ids_canonical_def)
  with CallOrderRelay show ?thesis by (simp add: p_bind_def)
qed (simp_all only: order_program.simps order_prog_defs first_step,
    (simp only: first_step | rule order_climb_rules | simp; fail | fastforce dest: order_method_ID)+)

lemma only_order_parts:
  "only (order_op_ok sys) (p_CheckAndMark sys eid ety)" "only (order_op_ok sys) (p_PublishInTx sys agg aid ety ev)"
  "only (order_op_ok sys) (p_NewBaseEvent sys ety)" "only (order_op_ok sys) (p_processPendingMessages sys)"
  "only (order_op_ok sys) (p_order_Save sys ord)" "only (order_op_ok sys) (p_order_Update sys ord)"
  "only (order_op_ok sys) (p_order_FindByIDForUpdate sys oid)" "only (order_op_ok sys) (p_order_FindByID sys oid)"
proof -
  have "order_op_ok sys op" if "delivery_op op" for op
    using that by (cases op) (simp_all add: order_op_ok_def)
  then show "only (order_op_ok sys) (p_processPendingMessages sys)" by (rule only_mono [OF relay_delivers])
qed (auto simp: p_CheckAndMark_def p_PublishInTx_def p_NewBaseEvent_def ToJSON_def p_order_Save_def p_order_Update_def
    p_order_FindByIDForUpdate_def p_order_FindByID_def p_bind_def p_try_def order_op_ok_def insert_outbox_def insert_order_Done uuids_ok_def
    intro!: only_catch only_stmt split: option.splits if_splits)

lemma order_program_canonical: "only (order_op_ok sys) (order_program sys c)"
  by (cases c)
    (auto simp: order_prog_defs p_GetOrder_def p_idempotency_gate_def p_bind_def p_try_def
       intro!: only_catch only_with_tx only_order_parts split: sum.split)

interpretation order_climbing: climbing_calls order_apply order_key "agree_on order_agree" "\<lambda>_. True" "own_op (\<lambda>_. True)"
  sys "order_program sys" "\<lambda>_. True" "\<lambda>c. c = CallOrderRelay" delivery_op "order_ids_canonical sys" "order_op_ok sys" table_rank
  for sys
proof
  fix op v
  assume op: "order_op_ok sys op" and v: "order_ids_canonical sys v"
  show "order_ids_canonical sys (order_apply op v)"
  proof (cases op)
    case (Own r)
    then show ?thesis
      using op v by (cases r) (auto simp: order_op_ok_def order_ids_canonical_def canonical_ids_def messages_canonical_def)
  qed (use op v in \<open>auto simp: order_op_ok_def order_ids_canonical_def canonical_ids_def messages_canonical_def in_set_upd_where\<close>)
qed (rule order_program_canonical order_program_climbs)+


section \<open>Properties over every interleaving\<close>

text \<open>
  Two events about one order that arrive together: the second handler reaches the order's row while the
  first has it locked, and goes on after the first has committed.
\<close>

definition race :: "order_call choice list" where
  "race = [Arrive (CallStockReserved ''e1'' ''o''), Arrive (CallStockReserveFailed ''e2'' ''o'' ''x'')] @
     map Go [0, 1, 0, 1, 0, 1, 0, 0, 1, 0, 0, 1, 1, 1, 1, 1]"

definition raced :: "order_db" where
  "raced = committed (order_interleaved sample_sys race (sample_order_db OrderStatusPending))"

lemma race_runs:
  "commits (order_interleaved sample_sys race (sample_order_db OrderStatusPending)) =
     [CallStockReserved ''e1'' ''o'', CallStockReserveFailed ''e2'' ''o'' ''x'']"
  "map o_status (orders raced) = [OrderStatusCancelled]"
  "\<not> may_go sample_sys order_apply order_key 1
     (order_interleaved sample_sys (take 9 race) (sample_order_db OrderStatusPending))"
  by code_simp+

text \<open>
  C7: Requests, event handlers and relay rounds of the order service that run at the same time, in any
  interleaving of their exchanges with the database and with any failures, are serializable: the
  committed database is what the calls that committed leave when they run one after the other, each with
  the database to itself, in the order of their commits; the relay changes only the delivery state of
  the outbox. No call commits twice. The unique keys and \<open>FOR UPDATE\<close> of the repository are what
  makes it hold.
\<close>
theorem order_calls_serialize:
  "let g = order_interleaved sys chs db in
     in_turn (\<lambda>c d d'. (\<exists>f. d' = durable (order_exec (retime f sys) c (order_boot d))) \<or>
         c = CallOrderRelay \<and> (\<exists>ms. same_events (outbox d) ms \<and> d' = d\<lparr>outbox := ms\<rparr>))
       (commits g) db (committed g) \<and>
     mset (commits g) \<subseteq># mset (arrivals chs)"
  using order_serializes [of sys chs db] order_calls.commits_at_most_once [of sys chs db]
  by (simp add: Let_def leaves_def [abs_def] order_boot_process)

text \<open>
  C8: So whatever the interleaving, the order database makes only the atomic steps of the specification,
  one for each commit and for the call that committed, and keeps its invariant: one OrderCreated event
  for every order, one OrderCompleted event exactly for the completed ones.
\<close>
theorem order_interleavings_refine:
  assumes "uuids_ok sys" and "scans_ok sys" and "order_inv sys db"
  shows "let g = order_interleaved sys chs db in
     explained (order_step sys) (commits g) db (committed g) \<and> order_inv sys (committed g)"
  using order_interleaved_ready assms by (simp add: Let_def order_ready_def)

lemma order_interleavings_refine_witness:
  "(let g = order_interleaved sample_sys race (sample_order_db OrderStatusPending) in
     explained (order_step sample_sys) (commits g) (sample_order_db OrderStatusPending) (committed g) \<and>
     order_inv sample_sys (committed g)) \<and> map o_status (orders raced) = [OrderStatusCancelled]"
  using order_interleavings_refine [of sample_sys "sample_order_db OrderStatusPending" race] race_runs(2) by simp

text \<open>
  C9: The calls never wait for each other in a circle: processed events are locked before orders, and
  orders before messages. As long as a call of the order service is in progress, some call can make its
  next exchange.
\<close>
theorem order_never_deadlocks:
  assumes "uuids_ok sys" and "scans_ok sys" and "order_inv sys db"
    and "sessions (order_interleaved sys chs db) \<noteq> []"
  shows "\<exists>i. may_go sys order_apply order_key i (order_interleaved sys chs db)"
proof -
  have "order_ids_canonical sys db"
    using assms(1-3) by (simp add: order_inv_def order_keys_ok_def outbox_wf_def
        order_ids_canonical_def messages_canonical_def)
  then show ?thesis by (rule order_climbing.no_deadlock [OF _ assms(4)])
qed

lemma order_never_deadlocks_witness:
  "\<not> may_go sample_sys order_apply order_key 1
      (order_interleaved sample_sys (take 9 race) (sample_order_db OrderStatusPending)) \<and>
   (\<exists>i. may_go sample_sys order_apply order_key i
      (order_interleaved sample_sys (take 9 race) (sample_order_db OrderStatusPending)))"
proof -
  have "sessions (order_interleaved sample_sys (take 9 race) (sample_order_db OrderStatusPending)) \<noteq> []"
    by code_simp
  then show ?thesis
    using order_never_deadlocks [of sample_sys "sample_order_db OrderStatusPending" "take 9 race"] race_runs(3) by simp
qed

end
