(* ===== verification/Inventory_Concurrent.thy ===== *)
theory Inventory_Concurrent
  imports Tx_Outbox Inventory_Service
begin

text \<open>
  The inventory service with its event handlers, queries and relay running at the same time: the
  statements of the two repositories with the rows they lock, the use cases as programs, and what any
  interleaving of them leaves. The reservations of an order are found with \<open>FOR UPDATE\<close>, which locks
  the rows there are and does not keep others from adding more; so a handler that settles an order
  while another call reserves for it may miss that reservation, and comes with a variant for every
  list of reservations it may find.
\<close>

section \<open>The repositories' statements\<close>

datatype inventory_row_op =
    LockStock string
  | SetStock string int int int
  | InsertReservation res_row
  | LockReservation string
  | SetReservation string string int

datatype inventory_row_key = StockKey string | ReservationKey string

fun inventory_own_key :: "inventory_row_op \<Rightarrow> inventory_row_key" where
  "inventory_own_key (LockStock u) = StockKey u"
| "inventory_own_key (SetStock u quantity reserved now) = StockKey u"
| "inventory_own_key (InsertReservation r) = ReservationKey (rv_id r)"
| "inventory_own_key (LockReservation u) = ReservationKey u"
| "inventory_own_key (SetReservation u st now) = ReservationKey u"

fun inventory_own_apply :: "inventory_row_op \<Rightarrow> inventory_db \<Rightarrow> inventory_db" where
  "inventory_own_apply (LockStock u) db = db"
| "inventory_own_apply (SetStock u quantity reserved now) db = set_stock u quantity reserved now db"
| "inventory_own_apply (InsertReservation r) db = db\<lparr>reservations := reservations db @ [r]\<rparr>"
| "inventory_own_apply (LockReservation u) db = db"
| "inventory_own_apply (SetReservation u st now) db = set_reservation u st now db"

abbreviation inventory_apply :: "inventory_row_op row_op \<Rightarrow> inventory_db \<Rightarrow> inventory_db" where
  "inventory_apply \<equiv> apply_op inventory_own_apply"

abbreviation inventory_key :: "inventory_row_op row_op \<Rightarrow> inventory_row_key lock_key" where
  "inventory_key \<equiv> row_key inventory_own_key"

text \<open>No operation adds a stock row. \<open>T\<close>: the orders to which reservations are added.\<close>

definition inventory_agree :: "inventory_row_key set \<Rightarrow> inventory_db \<Rightarrow> inventory_db \<Rightarrow> bool" where
  "inventory_agree K v v' \<longleftrightarrow>
     (\<forall>u. StockKey u \<in> K \<longrightarrow> rows_of i_id u (inventory v) = rows_of i_id u (inventory v')) \<and>
     map (\<lambda>r. (i_id r, i_product_id r)) (inventory v) = map (\<lambda>r. (i_id r, i_product_id r)) (inventory v') \<and>
     filter (\<lambda>r. ReservationKey (rv_id r) \<in> K) (reservations v) =
       filter (\<lambda>r. ReservationKey (rv_id r) \<in> K) (reservations v')"

lemma inventory_agree_rows:
  assumes "inventory_agree K v v'" and "\<And>r. f r \<Longrightarrow> ReservationKey (rv_id r) \<in> K"
  shows "filter f (reservations v) = filter f (reservations v')"
proof -
  have "filter f rs = filter f (filter (\<lambda>r. ReservationKey (rv_id r) \<in> K) rs)" for rs
    using assms(2) by (simp add: conj_absorb cong: conj_cong) (metis (mono_tags, lifting))
  then show ?thesis using assms(1) by (metis inventory_agree_def)
qed

definition reservation_ids_ok :: "sys \<Rightarrow> inventory_db \<Rightarrow> bool" where
  "reservation_ids_ok sys v \<longleftrightarrow> uuids_ok sys \<and> scans_ok sys \<and> canonical_ids sys (rv_id ` set (reservations v))"

fun inventory_own_ok :: "sys \<Rightarrow> string set \<Rightarrow> inventory_row_op \<Rightarrow> bool" where
  "inventory_own_ok sys T (InsertReservation r) \<longleftrightarrow>
     rv_order_id r \<in> T \<and> (uuids_ok sys \<longrightarrow> uuid_in sys (rv_id r) = Some (rv_id r))"
| "inventory_own_ok sys T _ = True"

lemma filter_upd_where:
  "(\<And>r. f (g r) = f r) \<Longrightarrow> filter f (upd_where P g rs) = upd_where P g (filter f rs)"
  by (induction rs) (auto simp: upd_where_def)

lemma stock_keys_upd [simp]:
  "map (\<lambda>r. (i_id r, i_product_id r)) (upd_where P
     (\<lambda>r. r\<lparr>i_quantity := q, i_reserved_quantity := h, i_updated_at := now\<rparr>) is) =
   map (\<lambda>r. (i_id r, i_product_id r)) is"
  by (induction "is") (auto simp: upd_where_def)

interpretation inventory_rows: own_rows inventory_own_apply inventory_own_key inventory_agree
    "reservation_ids_ok sys" "inventory_own_ok sys UNIV"
  for sys
proof
  fix K K' v v' v'' op
  show "inventory_agree K v v' \<Longrightarrow> inventory_agree K (inventory_own_apply op v) (inventory_own_apply op v')"
    by (cases op) (auto simp: inventory_agree_def set_stock_def set_reservation_def filter_upd_where)
  show "inventory_own_ok sys UNIV op \<Longrightarrow> inventory_own_key op \<notin> K \<Longrightarrow> inventory_agree K v (inventory_own_apply op v)"
    by (cases op) (auto simp: inventory_agree_def set_stock_def set_reservation_def filter_upd_where intro!: upd_where_none [symmetric])
  show "inventory_agree K v v' \<Longrightarrow> K' \<subseteq> K \<Longrightarrow> inventory_agree K' v v'"
    using inventory_agree_rows [of K v v' "\<lambda>r. ReservationKey (rv_id r) \<in> K'"] by (auto simp: inventory_agree_def)
  show "inventory_own_ok sys UNIV op \<Longrightarrow> reservation_ids_ok sys v \<Longrightarrow> reservation_ids_ok sys (inventory_own_apply op v)"
    by (cases op) (auto simp: reservation_ids_ok_def canonical_ids_def set_stock_def set_reservation_def in_set_upd_where)
  show "processed_events (inventory_own_apply op v) = processed_events v"
    "outbox (inventory_own_apply op v) = outbox v"
    by (cases op; simp)+
qed (auto simp: inventory_agree_def reservation_ids_ok_def)

type_synonym 'a inventory_prog = "(inventory_row_op row_op, inventory_db, 'a) prog"

definition p_inventory_FindByProductID :: "sys \<Rightarrow> string \<Rightarrow> Inventory inventory_prog" where
  "p_inventory_FindByProductID sys productID =
     p_catch (p_read (\<lambda>_. select_inventory sys productID))
       (\<lambda>e. if e = ErrNoRows then p_fail ErrProductNotFound else p_fail (Errorf ''query inventory'' e))
       (\<lambda>r. p_return (inventory_of_row r))"

definition p_inventory_FindByProductIDForUpdate :: "sys \<Rightarrow> string \<Rightarrow> Inventory inventory_prog" where
  "p_inventory_FindByProductIDForUpdate sys productID =
     p_catch (p_stmt (select_inventory sys productID) (\<lambda>now r v. [Own (LockStock (i_id r))]))
       (\<lambda>e. if e = ErrNoRows then p_fail ErrProductNotFound
            else p_fail (Errorf ''query inventory for update'' e))
       (\<lambda>r. p_return (inventory_of_row r))"

definition p_inventory_Update :: "sys \<Rightarrow> Inventory \<Rightarrow> unit inventory_prog" where
  "p_inventory_Update sys stock =
     p_try (p_stmt (update_inventory sys stock)
              (\<lambda>now n v. if n = 0 then []
                 else [Own (SetStock (the (uuid_in sys (inv_ID stock))) (sint (inv_Quantity stock))
                              (sint (inv_ReservedQuantity stock)) now)]))
       ''update inventory'' (\<lambda>n. if n = 0 then p_fail ErrProductNotFound else p_return ())"

definition p_reservation_Save :: "sys \<Rightarrow> Reservation \<Rightarrow> unit inventory_prog" where
  "p_reservation_Save sys res =
     p_try (p_stmt (insert_reservation sys res) (\<lambda>now _ v. [Own (InsertReservation (last (reservations v)))]))
       ''insert reservation'' p_return"

definition p_reservation_Update :: "sys \<Rightarrow> Reservation \<Rightarrow> unit inventory_prog" where
  "p_reservation_Update sys res =
     p_try (p_stmt (update_reservation sys res)
              (\<lambda>now n v. if n = 0 then []
                 else [Own (SetReservation (the (uuid_in sys (res_ID res))) (res_Status res) now)]))
       ''update reservation'' (\<lambda>n. if n = 0 then p_fail ErrReservationNotFound else p_return ())"

definition p_reservation_FindByOrderIDForUpdate :: "sys \<Rightarrow> string \<Rightarrow> Reservation list inventory_prog" where
  "p_reservation_FindByOrderIDForUpdate sys orderID =
     p_try (p_rows sys (\<lambda>t. select_reservations sys t orderID)
              (\<lambda>now rs v. map (\<lambda>r. Own (LockReservation (rv_id r))) rs))
       ''query reservations for update'' (\<lambda>(rs, rows_err). p_return (map reservation_of_row rs))"


section \<open>The use cases\<close>

definition p_GetInventory :: "sys \<Rightarrow> string \<Rightarrow> Inventory inventory_prog" where
  "p_GetInventory sys productID = p_inventory_FindByProductID sys productID"

definition p_NewStockReservedEvent ::
  "sys \<Rightarrow> string \<Rightarrow> string \<Rightarrow> go_int \<Rightarrow> string \<Rightarrow> string \<Rightarrow> float64 \<Rightarrow> StockReservedEvent inventory_prog" where
  "p_NewStockReservedEvent sys orderID productID quantity reservationID customerID totalAmount =
     p_bind (p_NewBaseEvent sys EventTypeStockReserved) (\<lambda>b.
     p_return
       \<lparr>EventID = EventID b, EventType = EventType b, Timestamp = Timestamp b,
        sr_OrderID = orderID, sr_ProductID = productID, sr_Quantity = quantity, sr_ReservationID = reservationID,
        sr_CustomerID = customerID, sr_TotalAmount = totalAmount\<rparr>)"

definition p_NewStockReserveFailedEvent ::
  "sys \<Rightarrow> string \<Rightarrow> string \<Rightarrow> go_int \<Rightarrow> string \<Rightarrow> StockReserveFailedEvent inventory_prog" where
  "p_NewStockReserveFailedEvent sys orderID productID quantity reason =
     p_bind (p_NewBaseEvent sys EventTypeStockReserveFailed) (\<lambda>b.
     p_return
       \<lparr>EventID = EventID b, EventType = EventType b, Timestamp = Timestamp b,
        sf_OrderID = orderID, sf_ProductID = productID, sf_Quantity = quantity, sf_Reason = reason\<rparr>)"

definition p_publish_reserve_failed ::
  "sys \<Rightarrow> string \<Rightarrow> string \<Rightarrow> go_int \<Rightarrow> string \<Rightarrow> unit inventory_prog" where
  "p_publish_reserve_failed sys orderID productID quantity reason =
     p_bind (p_NewStockReserveFailedEvent sys orderID productID quantity reason) (\<lambda>failEvent.
     p_try (p_PublishInTx sys ''Inventory'' orderID EventTypeStockReserveFailed
              (EvStockReserveFailed failEvent)) ''publish failure event'' (\<lambda>_.
     p_try p_commit ''commit transaction'' p_return))"

definition p_reserve_stock ::
  "sys \<Rightarrow> string \<Rightarrow> string \<Rightarrow> string \<Rightarrow> go_int \<Rightarrow> float64 \<Rightarrow> Inventory \<Rightarrow> unit inventory_prog" where
  "p_reserve_stock sys orderID productID customerID quantity totalAmount stock =
     p_try (p_inventory_Update sys stock) ''update inventory'' (\<lambda>_.
     p_bind (p_now sys) (\<lambda>now.
     p_bind (p_uuid sys) (\<lambda>uuid.
     p_try (Finish (NewReservation uuid now orderID productID quantity)) ''create reservation'' (\<lambda>reservation.
     p_try (p_reservation_Save sys reservation) ''save reservation'' (\<lambda>_.
     p_bind (p_NewStockReservedEvent sys orderID productID quantity (res_ID reservation) customerID totalAmount)
       (\<lambda>successEvent.
     p_try (p_PublishInTx sys ''Inventory'' orderID EventTypeStockReserved (EvStockReserved successEvent))
       ''publish success event'' (\<lambda>_.
     p_try p_commit ''commit transaction'' p_return)))))))"

definition p_handle_created ::
  "sys \<Rightarrow> string \<Rightarrow> string \<Rightarrow> string \<Rightarrow> go_int \<Rightarrow> float64 \<Rightarrow> unit inventory_prog" where
  "p_handle_created sys orderID productID customerID quantity totalAmount =
     p_catch (p_inventory_FindByProductIDForUpdate sys productID)
       (\<lambda>e. if errors_Is e ErrProductNotFound
            then p_publish_reserve_failed sys orderID productID quantity ''product not found''
            else p_fail (Errorf ''find inventory'' e))
       (\<lambda>inventory.
        p_bind (p_now sys) (\<lambda>now.
        case inventory_Reserve now quantity inventory of
          Inl e \<Rightarrow> p_publish_reserve_failed sys orderID productID quantity (err_Error e)
        | Inr inventory \<Rightarrow> p_reserve_stock sys orderID productID customerID quantity totalAmount inventory))"

definition p_inventory_HandleOrderCreated ::
  "sys \<Rightarrow> string \<Rightarrow> string \<Rightarrow> string \<Rightarrow> string \<Rightarrow> go_int \<Rightarrow> float64 \<Rightarrow> unit inventory_prog" where
  "p_inventory_HandleOrderCreated sys eventID orderID productID customerID quantity totalAmount =
     p_with_tx
       (p_idempotency_gate (p_CheckAndMark sys eventID EventTypeOrderCreated)
         (p_handle_created sys orderID productID customerID quantity totalAmount))"

definition p_release_reservation :: "sys \<Rightarrow> Reservation \<Rightarrow> unit inventory_prog" where
  "p_release_reservation sys reservation =
     (if \<not> IsReserved reservation then p_return ()
      else p_catch (p_inventory_FindByProductIDForUpdate sys (res_ProductID reservation))
        (\<lambda>_. p_return ()) (\<lambda>inventory.
        p_bind (p_now sys) (\<lambda>now.
        case inventory_Release now (res_Quantity reservation) inventory of
          Inl _ \<Rightarrow> p_return ()
        | Inr inventory \<Rightarrow>
            p_catch (p_inventory_Update sys inventory) (\<lambda>_. p_return ()) (\<lambda>_.
            p_bind (p_now sys) (\<lambda>now.
            p_catch (p_reservation_Update sys (reservation_Release now reservation))
              (\<lambda>_. p_return ()) p_return)))))"

definition p_commit_reservation :: "sys \<Rightarrow> Reservation \<Rightarrow> unit inventory_prog" where
  "p_commit_reservation sys reservation =
     (if \<not> IsReserved reservation then p_return ()
      else p_catch (p_inventory_FindByProductIDForUpdate sys (res_ProductID reservation))
        (\<lambda>_. p_return ()) (\<lambda>inventory.
        p_bind (p_now sys) (\<lambda>now.
        case inventory_Commit now (res_Quantity reservation) inventory of
          Inl _ \<Rightarrow> p_return ()
        | Inr inventory \<Rightarrow>
            p_catch (p_inventory_Update sys inventory) (\<lambda>_. p_return ()) (\<lambda>_.
            p_bind (p_now sys) (\<lambda>now.
            p_catch (p_reservation_Update sys (reservation_Commit now reservation))
              (\<lambda>_. p_return ()) p_return)))))"

fun p_for_each :: "('r \<Rightarrow> ('op, 'db, unit) prog) \<Rightarrow> 'r list \<Rightarrow> ('op, 'db, unit) prog" where
  "p_for_each f [] = p_return ()"
| "p_for_each f (r # rs) = p_bind (f r) (\<lambda>_. p_for_each f rs)"

definition p_inventory_HandleOrderCancelled :: "sys \<Rightarrow> string \<Rightarrow> string \<Rightarrow> unit inventory_prog" where
  "p_inventory_HandleOrderCancelled sys eventID orderID =
     p_with_tx
       (p_idempotency_gate (p_CheckAndMark sys eventID EventTypeOrderCancelled)
         (p_try (p_reservation_FindByOrderIDForUpdate sys orderID) ''find reservations'' (\<lambda>reservations.
          p_bind (p_for_each (p_release_reservation sys) reservations) (\<lambda>_.
          p_try p_commit ''commit transaction'' p_return))))"

definition p_inventory_HandleOrderCompleted :: "sys \<Rightarrow> string \<Rightarrow> string \<Rightarrow> unit inventory_prog" where
  "p_inventory_HandleOrderCompleted sys eventID orderID =
     p_with_tx
       (p_idempotency_gate (p_CheckAndMark sys eventID EventTypeOrderCompleted)
         (p_try (p_reservation_FindByOrderIDForUpdate sys orderID) ''find reservations'' (\<lambda>reservations.
          p_bind (p_for_each (p_commit_reservation sys) reservations) (\<lambda>_.
          p_try p_commit ''commit transaction'' p_return))))"

datatype inventory_reply = InventoryFound Inventory | InventoryDone

fun inventory_program :: "sys \<Rightarrow> inventory_call \<Rightarrow> inventory_reply inventory_prog" where
  "inventory_program sys (CallOrderCreated eid oid p cid q amount) =
     p_bind (p_inventory_HandleOrderCreated sys eid oid p cid q amount) (\<lambda>_. p_return InventoryDone)"
| "inventory_program sys (CallOrderCancelled eid oid) =
     p_bind (p_inventory_HandleOrderCancelled sys eid oid) (\<lambda>_. p_return InventoryDone)"
| "inventory_program sys (CallOrderCompleted eid oid) =
     p_bind (p_inventory_HandleOrderCompleted sys eid oid) (\<lambda>_. p_return InventoryDone)"
| "inventory_program sys (CallGetInventory p) =
     p_bind (p_GetInventory sys p) (\<lambda>stock. p_return (InventoryFound stock))"
| "inventory_program sys CallInventoryRelay =
     p_bind (p_processPendingMessages sys) (\<lambda>_. p_return InventoryDone)"


section \<open>On their own they are the use cases\<close>

lemma inventory_statements_retimed [simp]:
  "select_inventory (retime f sys) = select_inventory sys" "update_inventory (retime f sys) = update_inventory sys"
  "insert_reservation (retime f sys) = insert_reservation sys" "update_reservation (retime f sys) = update_reservation sys"
  "select_reservations (retime f sys) t = select_reservations sys (f t)"
  by (simp_all add: select_inventory_def update_inventory_def insert_reservation_def update_reservation_def
        select_reservations_def scan_def fun_eq_iff cong: option.case_cong if_cong prod.case_cong)

lemma update_inventory_Done:
  "update_inventory sys stock now v = Done n v' \<longleftrightarrow>
     (\<exists>u. uuid_in sys (inv_ID stock) = Some u \<and> int4_ok (sint (inv_Quantity stock)) \<and>
        int4_ok (sint (inv_ReservedQuantity stock)) \<and> n = length (rows_of i_id u (inventory v)) \<and>
        (n = 0 \<or> 0 \<le> sint (inv_Quantity stock) \<and> 0 \<le> sint (inv_ReservedQuantity stock)) \<and>
        v' = set_stock u (sint (inv_Quantity stock)) (sint (inv_ReservedQuantity stock)) now v)"
  by (auto simp: update_inventory_def rows_of_def Let_def split: option.splits if_splits)

lemma update_reservation_Done:
  "update_reservation sys res now v = Done n v' \<longleftrightarrow>
     (\<exists>u. uuid_in sys (res_ID res) = Some u \<and> text_ok sys 50 (res_Status res) \<and>
        n = length (rows_of rv_id u (reservations v)) \<and> v' = set_reservation u (res_Status res) now v)"
  by (auto simp: update_reservation_def rows_of_def split: option.splits)

lemma alone_inventory_Find [solo]:
  "alone f sys inventory_apply (p_inventory_FindByProductID sys p) = inventory_FindByProductID (retime f sys) p"
proof -
  have "alone f sys inventory_apply (p_read (\<lambda>_. select_inventory sys p)) = pool_stmt (retime f sys) (select_inventory sys p)"
    by (rule alone_read) (simp add: select_inventory_Done)
  then show ?thesis
    by (simp add: p_inventory_FindByProductID_def inventory_FindByProductID_def solo
        if_distrib [of "alone f sys inventory_apply"] cong: if_cong)
qed

lemma alone_inventory_FindForUpdate [solo]:
  "alone f sys inventory_apply (p_inventory_FindByProductIDForUpdate sys p) = inventory_FindByProductIDForUpdate (retime f sys) p"
proof -
  have "alone f sys inventory_apply (p_stmt (select_inventory sys p) (\<lambda>now r v. [Own (LockStock (i_id r))]))
      = tx_stmt (retime f sys) (select_inventory sys p)"
    by (rule alone_stmt) (auto simp: select_inventory_Done)
  then show ?thesis
    by (simp add: p_inventory_FindByProductIDForUpdate_def inventory_FindByProductIDForUpdate_def solo
        if_distrib [of "alone f sys inventory_apply"] cong: if_cong)
qed

lemma alone_inventory_Update [solo]:
  "alone f sys inventory_apply (p_inventory_Update sys stock) = inventory_Update (retime f sys) stock"
proof -
  have "alone f sys inventory_apply (p_stmt (update_inventory sys stock)
          (\<lambda>now n v. if n = 0 then []
             else [Own (SetStock (the (uuid_in sys (inv_ID stock))) (sint (inv_Quantity stock))
                          (sint (inv_ReservedQuantity stock)) now)]))
      = tx_stmt (retime f sys) (update_inventory sys stock)"
    by (rule alone_stmt) (auto simp: update_inventory_Done set_stock_def upd_where_absent)
  then show ?thesis
    by (simp add: p_inventory_Update_def inventory_Update_def solo if_distrib [of "alone f sys inventory_apply"] cong: if_cong)
qed

lemma insert_reservation_adds:
  "insert_reservation sys res now v = Done x v' \<Longrightarrow>
     \<exists>r. v' = v\<lparr>reservations := reservations v @ [r]\<rparr> \<and> uuid_in sys (res_ID res) = Some (rv_id r) \<and>
       uuid_in sys (res_OrderID res) = Some (rv_order_id r) \<and> rows_of rv_id (rv_id r) (reservations v) = [] \<and>
       (\<forall>u. rows_of rv_id (rv_id r) (reservations u) = [] \<longrightarrow>
          insert_reservation sys res now u = Done x (u\<lparr>reservations := reservations u @ [r]\<rparr>))"
  by (rule exI [of _ "last (reservations v')"])
    (auto simp: insert_reservation_def rows_of_def filter_empty_conv split: option.splits if_splits)

lemma alone_reservation_Save [solo]:
  "alone f sys inventory_apply (p_reservation_Save sys res) = reservation_Save (retime f sys) res"
proof -
  have "alone f sys inventory_apply
        (p_stmt (insert_reservation sys res) (\<lambda>now _ v. [Own (InsertReservation (last (reservations v)))]))
      = tx_stmt (retime f sys) (insert_reservation sys res)"
    by (rule alone_stmt) (auto dest!: insert_reservation_adds)
  then show ?thesis by (simp add: p_reservation_Save_def reservation_Save_def solo)
qed

lemma alone_reservation_Update [solo]:
  "alone f sys inventory_apply (p_reservation_Update sys res) = reservation_Update (retime f sys) res"
proof -
  have "alone f sys inventory_apply (p_stmt (update_reservation sys res)
          (\<lambda>now n v. if n = 0 then []
             else [Own (SetReservation (the (uuid_in sys (res_ID res))) (res_Status res) now)]))
      = tx_stmt (retime f sys) (update_reservation sys res)"
    by (rule alone_stmt) (auto simp: update_reservation_Done set_reservation_def upd_where_absent)
  then show ?thesis
    by (simp add: p_reservation_Update_def reservation_Update_def solo if_distrib [of "alone f sys inventory_apply"] cong: if_cong)
qed

lemma alone_reservation_FindForUpdate [solo]:
  "alone f sys inventory_apply (p_reservation_FindByOrderIDForUpdate sys oid) =
     reservation_FindByOrderIDForUpdate (retime f sys) oid"
proof
  fix s
  have locks: "fold inventory_apply (map (\<lambda>r. Own (LockReservation (rv_id r))) rs) v = v" for rs v
    by (induction rs) simp_all
  have "alone f sys inventory_apply (p_rows sys (\<lambda>t. select_reservations sys t oid)
          (\<lambda>now rs v. map (\<lambda>r. Own (LockReservation (rv_id r))) rs)) s
      = tx_rows (retime f sys) (select_reservations sys (f (tick s)) oid) s"
    by (rule alone_rows) (auto simp: locks select_reservations_def split: option.splits)
  then show "alone f sys inventory_apply (p_reservation_FindByOrderIDForUpdate sys oid) s =
      reservation_FindByOrderIDForUpdate (retime f sys) oid s"
    by (simp add: p_reservation_FindByOrderIDForUpdate_def reservation_FindByOrderIDForUpdate_def solo go_eval
        split_beta split: prod.split sum.split)
qed

lemma alone_inventory_events [solo]:
  "alone f sys A (p_NewStockReservedEvent sys oid p q rid cid amount) = NewStockReservedEvent (retime f sys) oid p q rid cid amount"
  "alone f sys A (p_NewStockReserveFailedEvent sys oid p q reason) = NewStockReserveFailedEvent (retime f sys) oid p q reason"
  by (simp_all add: p_NewStockReservedEvent_def p_NewStockReserveFailedEvent_def NewEvent_defs solo)

lemma alone_for_each [solo]:
  "alone f sys A (p_for_each g rs) = for_each (\<lambda>r. alone f sys A (g r)) rs"
  by (induction rs) (simp_all add: solo)

lemma alone_inventory_parts [solo]:
  "alone f sys inventory_apply (p_publish_reserve_failed sys oid p q reason) = publish_reserve_failed (retime f sys) oid p q reason"
  "alone f sys inventory_apply (p_reserve_stock sys oid p cid q amount stock) = reserve_stock (retime f sys) oid p cid q amount stock"
  "alone f sys inventory_apply (p_release_reservation sys res) = release_reservation (retime f sys) res"
  "alone f sys inventory_apply (p_commit_reservation sys res) = commit_reservation (retime f sys) res"
  by (simp_all only: p_publish_reserve_failed_def p_reserve_stock_def p_release_reservation_def p_commit_reservation_def
        publish_reserve_failed_def reserve_stock_def release_reservation_def commit_reservation_def solo alone_if)

lemma alone_handle_created [solo]:
  "alone f sys inventory_apply (p_handle_created sys oid p cid q amount) = handle_created (retime f sys) oid p cid q amount"
  by (simp only: p_handle_created_def handle_created_def solo alone_if)

theorem inventory_use_cases_alone:
  "alone f sys inventory_apply (p_GetInventory sys p) = GetInventory (retime f sys) p"
  "alone f sys inventory_apply (p_inventory_HandleOrderCreated sys eid oid p cid q amount) =
     inventory_HandleOrderCreated (retime f sys) eid oid p cid q amount"
  "alone f sys inventory_apply (p_inventory_HandleOrderCancelled sys eid oid) =
     inventory_HandleOrderCancelled (retime f sys) eid oid"
  "alone f sys inventory_apply (p_inventory_HandleOrderCompleted sys eid oid) =
     inventory_HandleOrderCompleted (retime f sys) eid oid"
  by (simp_all only: p_GetInventory_def p_inventory_HandleOrderCreated_def p_inventory_HandleOrderCancelled_def
        p_inventory_HandleOrderCompleted_def GetInventory_def inventory_HandleOrderCreated_def
        inventory_HandleOrderCancelled_def inventory_HandleOrderCompleted_def solo)

lemma inventory_program_alone:
  "snd (alone f sys inventory_apply (inventory_program sys c) s) = inventory_exec (retime f sys) c s"
  by (cases c) (simp_all add: solo inventory_use_cases_alone snd_bind_returns)


section \<open>The calls that settle an order, for the reservations they find\<close>

text \<open>
  \<open>FOR UPDATE\<close> locks the reservations that the order has. It does not keep a call that runs at the same
  time from adding one; that one the settling call does not see. \<open>w\<close>: the reservations it finds.
\<close>

definition found_locks :: "string list \<Rightarrow> res_row list \<Rightarrow> inventory_row_op row_op list" where
  "found_locks w rs = map (\<lambda>r. Own (LockReservation (rv_id r))) rs @
     map (\<lambda>u. Own (LockReservation u)) (filter (\<lambda>u. u \<notin> rv_id ` set rs) w)"

lemma found_locks_keys:
  "inventory_key ` set (found_locks w rs) = (\<lambda>u. OwnKey (ReservationKey u)) ` (rv_id ` set rs \<union> set w)"
proof -
  have "inventory_key ` set (found_locks w rs) = (\<lambda>u. OwnKey (ReservationKey u)) ` (rv_id ` set rs \<union> (set w - rv_id ` set rs))"
    by (simp add: found_locks_def image_Un image_image set_diff_eq)
  then show ?thesis by simp
qed

definition p_reservation_FindAmong :: "sys \<Rightarrow> string list \<Rightarrow> string \<Rightarrow> Reservation list inventory_prog" where
  "p_reservation_FindAmong sys w orderID =
     p_try (p_rows sys (\<lambda>t. select_reservations_where sys (\<lambda>u. u \<in> set w) t orderID)
              (\<lambda>now rs v. found_locks w rs))
       ''query reservations for update'' (\<lambda>(rs, rows_err). p_return (map reservation_of_row rs))"

definition p_settle_found ::
  "sys \<Rightarrow> string \<Rightarrow> string \<Rightarrow> string \<Rightarrow> (Reservation \<Rightarrow> unit inventory_prog) \<Rightarrow> string list \<Rightarrow> unit inventory_prog" where
  "p_settle_found sys eventID eventType orderID body w =
     p_with_tx
       (p_idempotency_gate (p_CheckAndMark sys eventID eventType)
         (p_try (p_reservation_FindAmong sys w orderID) ''find reservations'' (\<lambda>reservations.
          p_bind (p_for_each body reservations) (\<lambda>_.
          p_try p_commit ''commit transaction'' p_return))))"

fun inventory_variant :: "sys \<Rightarrow> inventory_call \<Rightarrow> string list \<Rightarrow> inventory_reply inventory_prog" where
  "inventory_variant sys (CallOrderCancelled eid oid) w =
     p_bind (p_settle_found sys eid EventTypeOrderCancelled oid (p_release_reservation sys) w) (\<lambda>_. p_return InventoryDone)"
| "inventory_variant sys (CallOrderCompleted eid oid) w =
     p_bind (p_settle_found sys eid EventTypeOrderCompleted oid (p_commit_reservation sys) w) (\<lambda>_. p_return InventoryDone)"
| "inventory_variant sys c w = inventory_program sys c"

text \<open>The order a call may add a reservation to, and the order whose reservations it settles.\<close>

fun reserves :: "sys \<Rightarrow> inventory_call \<Rightarrow> string option" where
  "reserves sys (CallOrderCreated eid oid p cid q amount) = uuid_in sys oid"
| "reserves sys _ = None"

fun settles :: "sys \<Rightarrow> inventory_call \<Rightarrow> string option" where
  "settles sys (CallOrderCancelled eid oid) = uuid_in sys oid"
| "settles sys (CallOrderCompleted eid oid) = uuid_in sys oid"
| "settles sys _ = None"

definition reservation_ids :: "string \<Rightarrow> inventory_db \<Rightarrow> string list" where
  "reservation_ids ord v = map rv_id (filter (\<lambda>r. rv_order_id r = ord) (reservations v))"

definition settles_found :: "sys \<Rightarrow> inventory_call \<Rightarrow> inventory_db \<Rightarrow> string list" where
  "settles_found sys c v = (case settles sys c of None \<Rightarrow> [] | Some ord \<Rightarrow> reservation_ids ord v)"

text \<open>Call \<open>d\<close> may add to the reservations that call \<open>c\<close> settles.\<close>

definition joins :: "sys \<Rightarrow> inventory_call \<Rightarrow> inventory_call \<Rightarrow> bool" where
  "joins sys d c \<longleftrightarrow> reserves sys d \<noteq> None \<and> reserves sys d = settles sys c"

lemma same_found_reservations:
  "settles sys c = uuid_in sys oid \<Longrightarrow>
   same_found (reservation_ids_ok sys) (settles_found sys c)
     (\<lambda>t. select_reservations sys t oid) (\<lambda>now rs v. map (\<lambda>r. Own (LockReservation (rv_id r))) rs)
     (\<lambda>w t. select_reservations_where sys (\<lambda>u. u \<in> set w) t oid)
     (\<lambda>w now rs v. found_locks w rs)"
proof -
  have same: "filter (\<lambda>r. rv_order_id r = u \<and> rv_id r \<in> set (reservation_ids u v)) (reservations v) =
      filter (\<lambda>r. rv_order_id r = u) (reservations v)" for u v
    by (rule filter_cong) (auto simp: reservation_ids_def)
  have "filter (\<lambda>i. i \<notin> rv_id ` set (scan sys t (filter (\<lambda>r. rv_order_id r = u) (reservations v)))) (reservation_ids u v) = []"
    if "scans_ok sys" for t u v
    using that by (auto simp: filter_empty_conv reservation_ids_def)
  then show "settles sys c = uuid_in sys oid \<Longrightarrow> ?thesis"
    by (auto simp: same_found_def settles_found_def select_reservations_def [abs_def] select_reservations_where_def [abs_def]
        same reservation_ids_ok_def found_locks_def split: option.splits)
qed

lemma inventory_program_late:
  "late (reservation_ids_ok sys) (settles_found sys c) (inventory_program sys c) (inventory_variant sys c)"
proof (cases c)
  case (CallOrderCancelled eid oid)
  then show ?thesis
    unfolding CallOrderCancelled inventory_program.simps inventory_variant.simps p_inventory_HandleOrderCancelled_def
      p_settle_found_def p_reservation_FindByOrderIDForUpdate_def p_reservation_FindAmong_def p_bind_def [of "p_with_tx _"]
    by (intro late_with_tx late_gate) (simp only: first_step, rule late_rows, rule same_found_reservations, simp)
next
  case (CallOrderCompleted eid oid)
  then show ?thesis
    unfolding CallOrderCompleted inventory_program.simps inventory_variant.simps p_inventory_HandleOrderCompleted_def
      p_settle_found_def p_reservation_FindByOrderIDForUpdate_def p_reservation_FindAmong_def p_bind_def [of "p_with_tx _"]
    by (intro late_with_tx late_gate) (simp only: first_step, rule late_rows, rule same_found_reservations, simp)
qed (auto intro!: late_plain)


section \<open>Their locks\<close>

abbreviation inventory_framed :: "sys \<Rightarrow> inventory_row_key lock_key set \<Rightarrow> 'a inventory_prog \<Rightarrow> bool" where
  "inventory_framed sys \<equiv> framed (agree_on inventory_agree) inventory_key (reservation_ids_ok sys)"

abbreviation inventory_steady where
  "inventory_steady H q w now v \<equiv> steady (agree_on inventory_agree) inventory_key H q w now v"

lemma stock_agreed:
  assumes "agree_on inventory_agree H v v'"
  shows "map (\<lambda>r. (i_id r, i_product_id r)) (inventory v) = map (\<lambda>r. (i_id r, i_product_id r)) (inventory v')"
    and "length (rows_of i_id u (inventory v)) = length (rows_of i_id u (inventory v'))"
proof -
  show same: "map (\<lambda>r. (i_id r, i_product_id r)) (inventory v) = map (\<lambda>r. (i_id r, i_product_id r)) (inventory v')"
    using assms by (simp add: agree_on_def inventory_agree_def)
  have "map i_id (inventory v) = map i_id (inventory v')"
    using arg_cong [OF same, of "map fst"] by (simp add: comp_def)
  then have "length (filter (\<lambda>i. i = u) (map i_id (inventory v))) = length (filter (\<lambda>i. i = u) (map i_id (inventory v')))"
    by simp
  then show "length (rows_of i_id u (inventory v)) = length (rows_of i_id u (inventory v'))"
    by (simp add: rows_of_def filter_map comp_def)
qed

lemma steady_select_inventory:
  "inventory_steady H (select_inventory sys p) (\<lambda>now r v. [Own (LockStock (i_id r))]) now v"
proof (cases "text_in sys p")
  case True
  show ?thesis
  proof (cases "find (\<lambda>r. i_product_id r = p) (inventory v)")
    case None
    then show ?thesis
      using True same_keys_none [OF stock_agreed(1) None]
      by (auto simp: steady_def select_inventory_def)
  next
    case (Some r)
    have "find (\<lambda>r. i_product_id r = p) (inventory u) = Some r"
      if "agree_on inventory_agree (insert (OwnKey (StockKey (i_id r))) H) v u" for u
      by (rule same_keys_find [OF stock_agreed(1) [OF that] Some])
        (use that in \<open>simp add: agree_on_def inventory_agree_def\<close>)
    then show ?thesis using True Some by (simp add: steady_def select_inventory_def)
  qed
qed (simp add: steady_def select_inventory_def)

lemma steady_update_inventory:
  "inventory_steady H (update_inventory sys stock)
     (\<lambda>now n v. if n = 0 then []
        else [Own (SetStock (the (uuid_in sys (inv_ID stock))) (sint (inv_Quantity stock))
                     (sint (inv_ReservedQuantity stock)) now)]) now v"
proof -
  have n: "length (filter (\<lambda>r. i_id r = u) (inventory w)) = length (filter (\<lambda>r. i_id r = u) (inventory v))"
    if "agree_on inventory_agree H' v w" for H' w u
    using stock_agreed(2) [OF that, of u] by (simp add: rows_of_def)
  show ?thesis by (simp add: steady_def update_inventory_def Let_def n split: option.split)
qed

lemma steady_update_reservation:
  assumes "uuid_in sys (res_ID res) = Some (res_ID res)" and "OwnKey (ReservationKey (res_ID res)) \<in> H"
  shows "inventory_steady H (update_reservation sys res)
     (\<lambda>now n v. if n = 0 then [] else [Own (SetReservation (the (uuid_in sys (res_ID res))) (res_Status res) now)]) now v"
proof -
  have n: "filter (\<lambda>r. rv_id r = res_ID res) (reservations w) = filter (\<lambda>r. rv_id r = res_ID res) (reservations v)"
    if "agree_on inventory_agree (H \<union> K) v w" for K w
    using that assms(2) inventory_agree_rows [of _ v w "\<lambda>r. rv_id r = res_ID res"] by (auto simp: agree_on_def)
  show ?thesis
    using assms(1) n [of "{}"] n by (auto simp: steady_def update_reservation_def)
qed

lemma steady_select_among:
  assumes "reservation_ids_ok sys v" and "select_reservations_where sys (\<lambda>u. u \<in> set w) t oid now v = Done rs v'"
  shows "inventory_steady H (select_reservations_where sys (\<lambda>u. u \<in> set w) t oid)
     (\<lambda>now rs v. found_locks w rs) now v"
proof (rule steady_Done, rule assms(2))
  obtain u where u: "uuid_in sys oid = Some u"
      "rs = scan sys t (filter (\<lambda>r. rv_order_id r = u \<and> rv_id r \<in> set w) (reservations v))"
    using assms(2) by (auto simp: select_reservations_where_def split: option.splits)
  fix v2
  assume same: "agree_on inventory_agree (H \<union> inventory_key ` set (found_locks w rs)) v v2"
  have "filter (\<lambda>r. rv_order_id r = u \<and> rv_id r \<in> set w) (reservations v) =
      filter (\<lambda>r. rv_order_id r = u \<and> rv_id r \<in> set w) (reservations v2)"
    by (rule inventory_agree_rows) (use same in \<open>auto simp: agree_on_def found_locks_keys\<close>)
  then show "\<exists>v2'. select_reservations_where sys (\<lambda>u. u \<in> set w) t oid now v2 = Done rs v2' \<and> found_locks w rs = found_locks w rs"
    using u by (simp add: select_reservations_where_def)
qed

lemma framed_inventory_FindForUpdate:
  assumes "\<And>H' e. H \<subseteq> H' \<Longrightarrow> inventory_framed sys H' (f e)" and "\<And>H' a. H \<subseteq> H' \<Longrightarrow> inventory_framed sys H' (g a)"
  shows "inventory_framed sys H (p_catch (p_inventory_FindByProductIDForUpdate sys p) f g)"
  unfolding p_inventory_FindByProductIDForUpdate_def first_step
  by (rule framed_stmt_at) (auto intro!: assms steady_select_inventory)

lemma framed_inventory_Update:
  assumes "\<And>H' e. H \<subseteq> H' \<Longrightarrow> inventory_framed sys H' (f e)" and "\<And>H' a. H \<subseteq> H' \<Longrightarrow> inventory_framed sys H' (g a)"
  shows "inventory_framed sys H (p_catch (p_inventory_Update sys stock) f g)"
  unfolding p_inventory_Update_def first_step
  by (rule framed_stmt_at) (auto intro!: assms steady_update_inventory)

lemma framed_reservation_Update:
  assumes "uuid_in sys (res_ID res) = Some (res_ID res)" and "OwnKey (ReservationKey (res_ID res)) \<in> H"
    and "\<And>H' e. H \<subseteq> H' \<Longrightarrow> inventory_framed sys H' (f e)" and "\<And>H' a. H \<subseteq> H' \<Longrightarrow> inventory_framed sys H' (g a)"
  shows "inventory_framed sys H (p_catch (p_reservation_Update sys res) f g)"
  unfolding p_reservation_Update_def first_step
  by (rule framed_stmt_at) (auto intro!: assms(3,4) steady_update_reservation [OF assms(1,2)])

lemma framed_reservation_Save:
  assumes "\<And>e. quiet (f e)" and "\<And>H' a. H \<subseteq> H' \<Longrightarrow> inventory_framed sys H' (g a)"
  shows "inventory_framed sys H (p_catch (p_reservation_Save sys res) f g)"
  unfolding p_reservation_Save_def first_step
proof (rule framed_stmt_at)
  fix now v
  have "inventory_steady H (insert_reservation sys res) (\<lambda>now _ v. [Own (InsertReservation (last (reservations v)))]) now v"
    if saved: "insert_reservation sys res now v = Done x v'" for x v'
  proof (rule steady_Done, rule saved)
    obtain r where r: "v' = v\<lparr>reservations := reservations v @ [r]\<rparr>" "rows_of rv_id (rv_id r) (reservations v) = []"
        "\<And>u. rows_of rv_id (rv_id r) (reservations u) = [] \<Longrightarrow>
           insert_reservation sys res now u = Done x (u\<lparr>reservations := reservations u @ [r]\<rparr>)"
      using insert_reservation_adds [OF saved] by blast
    fix u
    assume "agree_on inventory_agree (H \<union> inventory_key ` set [Own (InsertReservation (last (reservations v')))]) v u"
    then have "rows_of rv_id (rv_id r) (reservations u) = []"
      using inventory_agree_rows [of _ v u "\<lambda>a. rv_id a = rv_id r"] r(1,2) by (auto simp: agree_on_def rows_of_def)
    then show "\<exists>u'. insert_reservation sys res now u = Done x u' \<and>
        [Own (InsertReservation (last (reservations u')))] = [Own (InsertReservation (last (reservations v')))]"
      using r(1,3) by simp
  qed
  then show "quiet (outcome (\<lambda>e. f (Errorf ''insert reservation'' e)) g (insert_reservation sys res now v)) \<or>
      inventory_steady H (insert_reservation sys res) (\<lambda>now _ v. [Own (InsertReservation (last (reservations v)))]) now v"
    using assms(1) by (cases "insert_reservation sys res now v") auto
qed (auto intro: framed_quiet [OF assms(1)] intro!: assms(2))

lemma framed_reservation_FindAmong:
  assumes "\<And>e. quiet (f e)"
    and "\<And>rs H'. H \<subseteq> H' \<Longrightarrow> \<forall>r \<in> set rs. uuid_in sys (res_ID r) = Some (res_ID r) \<and> OwnKey (ReservationKey (res_ID r)) \<in> H' \<Longrightarrow>
      inventory_framed sys H' (g rs)"
  shows "inventory_framed sys H (p_catch (p_reservation_FindAmong sys w oid) f g)"
  unfolding p_reservation_FindAmong_def first_step case_prod_beta
proof (rule framed_rows, goal_cases)
  case (2 t now v rs v' k)
  let ?K = "inventory_key ` set (found_locks w rs)"
  have K: "(\<lambda>r. OwnKey (ReservationKey (rv_id r))) ` set rs \<subseteq> ?K" by (auto simp: found_locks_keys)
  have "set rs \<subseteq> set (reservations v)"
    using 2 by (auto simp: select_reservations_where_def reservation_ids_ok_def split: option.splits)
  then have "\<forall>r \<in> set rs. uuid_in sys (rv_id r) = Some (rv_id r)"
    using 2(1) by (auto simp: reservation_ids_ok_def canonical_ids_def)
  then have "inventory_framed sys (H \<union> ?K) (g (map reservation_of_row (take n rs)))" for n
    using K by (intro assms(2)) (auto dest!: in_set_takeD)
  from this [of k] this [of "length rs"] show ?case by (simp add: first_step)
next
  case (3 t now v rs v')
  then show ?case by (rule steady_select_among)
qed (rule assms(1))

text \<open>The loop bodies: whatever comes of it, the loop goes on.\<close>

lemma framed_settle:
  assumes "uuid_in sys (res_ID res) = Some (res_ID res)" and "OwnKey (ReservationKey (res_ID res)) \<in> H"
    and g: "\<And>H'. H \<subseteq> H' \<Longrightarrow> inventory_framed sys H' (g ())"
  shows "inventory_framed sys H (p_catch (p_release_reservation sys res) f g)"
    and "inventory_framed sys H (p_catch (p_commit_reservation sys res) f g)"
proof -
  have update: "inventory_framed sys H' (p_catch (p_reservation_Update sys res') (\<lambda>_. g ()) g)"
    if "H \<subseteq> H'" "res_ID res' = res_ID res" for H' res'
    by (rule framed_reservation_Update) (use assms that in auto)
  have "res_ID (reservation_Release now res) = res_ID res" "res_ID (reservation_Commit now res) = res_ID res" for now
    by (simp_all add: reservation_Release_def reservation_Commit_def)
  then show "inventory_framed sys H (p_catch (p_release_reservation sys res) f g)"
      "inventory_framed sys H (p_catch (p_commit_reservation sys res) f g)"
    unfolding p_release_reservation_def p_commit_reservation_def first_step
    by (auto simp: first_step intro!: framed_inventory_FindForUpdate framed_inventory_Update framed_draws
        framed_cases update g)
qed

lemma framed_for_each:
  fixes f :: "err \<Rightarrow> 'a inventory_prog"
  assumes "\<And>res H' (f' :: err \<Rightarrow> 'a inventory_prog) g'. res \<in> set rs \<Longrightarrow> H \<subseteq> H' \<Longrightarrow> (\<And>H''. H' \<subseteq> H'' \<Longrightarrow> inventory_framed sys H'' (g' ())) \<Longrightarrow>
      inventory_framed sys H' (p_catch (body res) f' g')"
    and "\<And>H'. H \<subseteq> H' \<Longrightarrow> inventory_framed sys H' (g ())"
  shows "inventory_framed sys H (p_catch (p_for_each body rs) f g)"
  using assms
proof (induction rs arbitrary: H)
  case (Cons res rs)
  have "inventory_framed sys H (p_catch (body res) f (\<lambda>_. p_catch (p_for_each body rs) f g))"
  proof (rule Cons.prems(1))
    show "inventory_framed sys H' (p_catch (p_for_each body rs) f g)" if "H \<subseteq> H'" for H'
      by (rule Cons.IH) (use Cons.prems that in \<open>auto intro: order_trans\<close>)
  qed simp_all
  then show ?case by (simp add: first_step)
qed (simp add: first_step)

lemma framed_refused:
  assumes "\<And>e. quiet (f e)" and "quiet (g ())"
  shows "inventory_framed sys H (p_catch (p_publish_reserve_failed sys oid p q reason) f g)"
  unfolding p_publish_reserve_failed_def p_NewStockReserveFailedEvent_def first_step
  by (intro framed_NewBaseEvent framed_PublishInTx framed_commit) (use assms in \<open>simp_all add: first_step\<close>)

lemma framed_reserve_stock:
  assumes "\<And>e. quiet (f e)" and "quiet (g ())"
  shows "inventory_framed sys H (p_catch (p_reserve_stock sys oid p cid q amount stock) f g)"
  unfolding p_reserve_stock_def p_NewStockReservedEvent_def first_step
  by (intro framed_inventory_Update framed_draws framed_cases framed_reservation_Save framed_NewBaseEvent
        framed_PublishInTx framed_commit) (use assms in \<open>simp_all add: first_step framed_quiet\<close>)

lemma framed_handle_created:
  assumes "\<And>e. quiet (f e)" and "quiet (g ())"
  shows "inventory_framed sys H (p_catch (p_handle_created sys oid p cid q amount) f g)"
  unfolding p_handle_created_def first_step
  using assms
  by (auto simp: first_step framed_quiet intro!: framed_inventory_FindForUpdate framed_draws framed_cases
      framed_refused framed_reserve_stock)

lemma framed_settles:
  fixes f :: "err \<Rightarrow> 'a inventory_prog"
  assumes "\<And>e. quiet (f0 e)" and "\<And>e. quiet (f1 e)" and "quiet (g1 ())"
    and body: "body = p_release_reservation sys \<or> body = p_commit_reservation sys"
  shows "inventory_framed sys H (p_catch (p_reservation_FindAmong sys w oid) f0
      (\<lambda>rs. p_catch (p_for_each body rs) f (\<lambda>_. p_catch p_commit f1 g1)))"
proof (rule framed_reservation_FindAmong [OF assms(1)])
  fix rs :: "Reservation list" and H'
  assume rs: "\<forall>r \<in> set rs. uuid_in sys (res_ID r) = Some (res_ID r) \<and> OwnKey (ReservationKey (res_ID r)) \<in> H'"
  show "inventory_framed sys H' (p_catch (p_for_each body rs) f (\<lambda>_. p_catch p_commit f1 g1))"
  proof (rule framed_for_each)
    fix res H'' and f' :: "err \<Rightarrow> 'a inventory_prog" and g' :: "unit \<Rightarrow> 'a inventory_prog"
    assume res: "res \<in> set rs" "H' \<subseteq> H''" and g': "\<And>H3. H'' \<subseteq> H3 \<Longrightarrow> inventory_framed sys H3 (g' ())"
    have "uuid_in sys (res_ID res) = Some (res_ID res)" "OwnKey (ReservationKey (res_ID res)) \<in> H''"
      using rs res by auto
    then have "inventory_framed sys H'' (p_catch (p_release_reservation sys res) f' g')"
        "inventory_framed sys H'' (p_catch (p_commit_reservation sys res) f' g')"
      by (rule framed_settle; use g' in blast)+
    then show "inventory_framed sys H'' (p_catch (body res) f' g')" using body by auto
  qed (simp_all add: framed_commit assms)
qed

lemma inventory_variant_framed:
  assumes "c \<noteq> CallInventoryRelay"
  shows "framed_call (agree_on inventory_agree) inventory_key (reservation_ids_ok sys) (inventory_variant sys c w)"
proof (cases c)
  case (CallOrderCreated eid oid p cid q amount)
  then show ?thesis
    by (simp only: inventory_variant.simps inventory_program.simps p_inventory_HandleOrderCreated_def first_step)
      (intro framed_with_tx framed_gate framed_handle_created; simp add: first_step)
next
  case (CallOrderCancelled eid oid)
  then show ?thesis
    by (simp only: inventory_variant.simps p_settle_found_def first_step)
      (intro framed_with_tx framed_gate; simp add: first_step framed_settles)
next
  case (CallOrderCompleted eid oid)
  then show ?thesis
    by (simp only: inventory_variant.simps p_settle_found_def first_step)
      (intro framed_with_tx framed_gate; simp add: first_step framed_settles)
next
  case (CallGetInventory p)
  then show ?thesis
    by (auto simp: p_GetInventory_def p_inventory_FindByProductID_def first_step intro!: call_quiet quiet_catch)
qed (use assms in simp)

lemma quiet_inventory_parts [simp]:
  "quiet (p_inventory_FindByProductID sys p)" "quiet (p_inventory_FindByProductIDForUpdate sys p)"
  "quiet (p_inventory_Update sys stock)" "quiet (p_reservation_Save sys res)" "quiet (p_reservation_Update sys res)"
  "quiet (p_reservation_FindByOrderIDForUpdate sys oid)"
  by (auto simp: p_inventory_FindByProductID_def p_inventory_FindByProductIDForUpdate_def p_inventory_Update_def
      p_reservation_Save_def p_reservation_Update_def p_reservation_FindByOrderIDForUpdate_def intro!: quiet_catch quiet_try)

lemma quiet_settle [simp]: "quiet (p_release_reservation sys res)" "quiet (p_commit_reservation sys res)"
  by (auto simp: p_release_reservation_def p_commit_reservation_def split: sum.split intro!: quiet_catch quiet_bind)

lemma quiet_for_each [simp]: "(\<And>r. quiet (body r)) \<Longrightarrow> quiet (p_for_each body rs)"
  by (induction rs) auto

lemma inventory_program_once: "once (inventory_program sys c)"
proof (cases c)
  case (CallGetInventory p)
  then show ?thesis by (auto simp: p_GetInventory_def intro!: quiet_once quiet_bind)
next
  case CallInventoryRelay
  then show ?thesis by (simp add: p_bind_def once_relay)
qed (simp_all only: inventory_program.simps p_inventory_HandleOrderCreated_def p_inventory_HandleOrderCancelled_def
    p_inventory_HandleOrderCompleted_def p_handle_created_def p_reserve_stock_def p_publish_reserve_failed_def
    p_NewStockReservedEvent_def p_NewStockReserveFailedEvent_def p_idempotency_gate_def first_step,
  (simp only: first_step | rule once_rules once_if once_quiet_first | simp add: quiet_once)+)

abbreviation inventory_ok :: "sys \<Rightarrow> string set \<Rightarrow> inventory_row_op row_op \<Rightarrow> bool" where
  "inventory_ok sys T \<equiv> own_op (inventory_own_ok sys T)"

lemma only_inventory_parts:
  "only (inventory_ok sys T) (p_CheckAndMark sys eid ety)" "only (inventory_ok sys T) (p_PublishInTx sys agg aid ety ev)"
  "only (inventory_ok sys T) (p_NewBaseEvent sys ety)" "only (inventory_ok sys T) (p_processPendingMessages sys)"
  "only (inventory_ok sys T) (p_inventory_FindByProductID sys p)"
  "only (inventory_ok sys T) (p_inventory_FindByProductIDForUpdate sys p)"
  "only (inventory_ok sys T) (p_inventory_Update sys stock)" "only (inventory_ok sys T) (p_reservation_Update sys res)"
  "only (inventory_ok sys T) (p_reservation_FindByOrderIDForUpdate sys oid)"
  "only (inventory_ok sys T) (p_reservation_FindAmong sys w oid)"
proof -
  have "own_op (inventory_own_ok sys T) op" if "delivery_op op" for op
    using that by (cases op) simp_all
  then show "only (inventory_ok sys T) (p_processPendingMessages sys)" by (rule only_mono [OF relay_delivers])
qed (auto simp: p_CheckAndMark_def p_PublishInTx_def p_NewBaseEvent_def ToJSON_def p_inventory_FindByProductID_def
    p_inventory_FindByProductIDForUpdate_def p_inventory_Update_def p_reservation_Update_def
    p_reservation_FindByOrderIDForUpdate_def p_reservation_FindAmong_def found_locks_def p_bind_def p_try_def list_all_iff
    intro!: only_catch only_stmt only_rows split: option.splits if_splits)

lemma only_reservation_Save:
  assumes "\<And>u. uuid_in sys (res_OrderID res) = Some u \<Longrightarrow> u \<in> T"
  shows "only (inventory_ok sys T) (p_reservation_Save sys res)"
proof -
  have "list_all (inventory_ok sys T) [Own (InsertReservation (last (reservations v')))]"
    if "insert_reservation sys res now v = Done x v'" for now v x v'
    using insert_reservation_adds [OF that] assms by (auto simp: uuids_ok_def)
  then show ?thesis unfolding p_reservation_Save_def p_try_def by (intro only_catch only_stmt) simp_all
qed

lemma only_for_each: "(\<And>r. only D (body r)) \<Longrightarrow> only D (p_for_each body rs)"
  by (induction rs) (auto simp: p_bind_def intro!: only_catch)

lemma only_settle:
  "only (inventory_ok sys T) (p_release_reservation sys res)" "only (inventory_ok sys T) (p_commit_reservation sys res)"
  by (auto simp: p_release_reservation_def p_commit_reservation_def p_bind_def split: sum.split
      intro!: only_catch only_inventory_parts)

lemma only_handle_created:
  assumes "\<And>u. uuid_in sys oid = Some u \<Longrightarrow> u \<in> T"
  shows "only (inventory_ok sys T) (p_handle_created sys oid p cid q amount)"
proof -
  have [simp]: "NewReservation uuid now oid p q = Inr res \<Longrightarrow> res_OrderID res = oid" for uuid now res
    by (auto simp: NewReservation_def split: if_splits)
  show ?thesis
    using assms
    by (auto simp: p_handle_created_def p_reserve_stock_def p_publish_reserve_failed_def p_bind_def p_try_def
        p_NewStockReservedEvent_def p_NewStockReserveFailedEvent_def split: sum.split
        intro!: only_catch only_inventory_parts only_reservation_Save)
qed

lemma only_created:
  "(\<And>u. uuid_in sys oid = Some u \<Longrightarrow> u \<in> T) \<Longrightarrow>
   only (inventory_ok sys T) (inventory_program sys (CallOrderCreated eid oid p cid q amount))"
  by (auto simp: p_inventory_HandleOrderCreated_def p_idempotency_gate_def p_bind_def
      intro!: only_catch only_with_tx only_inventory_parts only_handle_created)

lemma only_program_parts:
  assumes "\<forall>eid oid p cid q amount. c \<noteq> CallOrderCreated eid oid p cid q amount"
  shows "only (inventory_ok sys T) (inventory_program sys c)" "only (inventory_ok sys T) (inventory_variant sys c w)"
  by (cases c; use assms in \<open>auto simp: p_inventory_HandleOrderCancelled_def p_inventory_HandleOrderCompleted_def
        p_settle_found_def p_GetInventory_def p_idempotency_gate_def p_bind_def p_try_def
        intro!: only_catch only_with_tx only_inventory_parts only_for_each only_settle\<close>)+

lemma inventory_program_ok: "only (inventory_ok sys (set_option (reserves sys c))) (inventory_program sys c)"
  using only_created [where T = "set_option (reserves sys c)"] only_program_parts(1) [of c sys] by (cases c) auto

lemma inventory_variant_ok: "only (inventory_ok sys UNIV) (inventory_variant sys c w)"
  using only_created [where T = UNIV] only_program_parts(2) [of c sys UNIV w] by (cases c) auto

lemma settles_found_apply:
  assumes "inventory_ok sys T op"
  shows "prefix (settles_found sys c v) (settles_found sys c (inventory_apply op v))"
    and "settles sys c \<notin> Some ` T \<Longrightarrow> settles_found sys c (inventory_apply op v) = settles_found sys c v"
proof -
  have "prefix (settles_found sys c v) (settles_found sys c (inventory_apply op v)) \<and>
      (settles sys c \<notin> Some ` T \<longrightarrow> settles_found sys c (inventory_apply op v) = settles_found sys c v)"
  proof (cases op)
    case (Own own)
    then show ?thesis
      using assms
      by (cases own) (auto simp: settles_found_def reservation_ids_def set_stock_def set_reservation_def filter_upd_where
          mark_processed_def split: option.split)
  qed (auto simp: settles_found_def reservation_ids_def mark_processed_def add_message_def split: option.split)
  then show "prefix (settles_found sys c v) (settles_found sys c (inventory_apply op v))"
    "settles sys c \<notin> Some ` T \<Longrightarrow> settles_found sys c (inventory_apply op v) = settles_found sys c v" by blast+
qed

lemma inventory_ok_any: "inventory_ok sys T op \<Longrightarrow> inventory_ok sys UNIV op"
proof (cases op)
  case (Own own)
  then show "inventory_ok sys T op \<Longrightarrow> ?thesis" by (cases own) simp_all
qed simp_all

interpretation inventory_calls: late_calls inventory_apply inventory_key "agree_on inventory_agree"
    "reservation_ids_ok sys" "inventory_ok sys UNIV" sys "inventory_program sys" "\<lambda>_. True"
    "\<lambda>c. c = CallInventoryRelay" delivery_op "inventory_variant sys" "settles_found sys" "joins sys"
  for sys
proof
  fix c d and op :: "inventory_row_op row_op" and v w
  show "c \<noteq> CallInventoryRelay \<Longrightarrow> framed_call (agree_on inventory_agree) inventory_key (reservation_ids_ok sys) (inventory_variant sys c w)"
    by (rule inventory_variant_framed)
  show "only (inventory_ok sys UNIV) (inventory_variant sys c w)" by (rule inventory_variant_ok)
  show "late (reservation_ids_ok sys) (settles_found sys c) (inventory_program sys c) (inventory_variant sys c)"
    by (rule inventory_program_late)
  show "only (\<lambda>op. inventory_ok sys UNIV op \<and>
      (\<forall>c. \<not> joins sys d c \<longrightarrow> (\<forall>v. settles_found sys c (inventory_apply op v) = settles_found sys c v))) (inventory_program sys d)"
    by (rule only_mono [OF inventory_program_ok])
      (auto simp: joins_def intro: inventory_ok_any elim!: settles_found_apply(2))
  show "inventory_ok sys UNIV op \<Longrightarrow> prefix (settles_found sys c v) (settles_found sys c (inventory_apply op v))"
    by (rule settles_found_apply)
  show "\<not> joins sys c c" by (cases c) (auto simp: joins_def)
  show "c = CallInventoryRelay \<Longrightarrow> only delivery_op (inventory_program sys c)"
    by (auto simp: p_bind_def intro!: only_catch relay_delivers)
  show "once (inventory_program sys c)" by (rule inventory_program_once)
qed


section \<open>Whatever the interleaving\<close>

abbreviation inventory_interleaved ::
  "sys \<Rightarrow> inventory_call choice list \<Rightarrow> inventory_db
   \<Rightarrow> (inventory_call, inventory_row_op row_op, inventory_db, inventory_reply) server" where
  "inventory_interleaved sys \<equiv> interleaved sys inventory_apply inventory_key (inventory_program sys)"

text \<open>
  The settling call is overtaken if at some moment of the schedule it is unfinished together with a call
  that may reserve for the order it settles.
\<close>

abbreviation inventory_overtaken :: "sys \<Rightarrow> inventory_call choice list \<Rightarrow> inventory_db \<Rightarrow> inventory_call \<Rightarrow> bool" where
  "inventory_overtaken sys \<equiv> overtaken sys inventory_apply inventory_key (inventory_program sys) (joins sys)"

text \<open>
  The use case on its own, in a database where its query of the order's reservations answers with those
  of \<open>w\<close>; and what it may do there: it settles those of \<open>w\<close> and records the event.
\<close>

definition settle_found ::
  "sys \<Rightarrow> string \<Rightarrow> string \<Rightarrow> string \<Rightarrow> (Reservation \<Rightarrow> (inventory_db pg, unit) go) \<Rightarrow> string list
   \<Rightarrow> (inventory_db pg, unit) go" where
  "settle_found sys eventID eventType orderID body w =
     with_tx sys
       (idempotency_gate (CheckAndMark sys eventID eventType)
         (go_try (reservation_FindWhere sys (\<lambda>u. u \<in> set w) orderID) ''find reservations'' (\<lambda>reservations.
          go_bind (for_each body reservations) (\<lambda>_.
          go_try (tx_Commit sys) ''commit transaction'' go_return))))"

fun inventory_exec_found :: "sys \<Rightarrow> string list \<Rightarrow> inventory_call \<Rightarrow> inventory_db pg \<Rightarrow> inventory_db pg" where
  "inventory_exec_found sys w (CallOrderCancelled eid oid) s =
     snd (settle_found sys eid EventTypeOrderCancelled oid (release_reservation sys) w s)"
| "inventory_exec_found sys w (CallOrderCompleted eid oid) s =
     snd (settle_found sys eid EventTypeOrderCompleted oid (commit_reservation sys) w s)"
| "inventory_exec_found sys w c s = inventory_exec sys c s"

definition settles_among ::
  "sys \<Rightarrow> string list \<Rightarrow> string \<Rightarrow> string \<Rightarrow> string \<Rightarrow> string \<Rightarrow> int \<Rightarrow> inventory_db \<Rightarrow> inventory_db \<Rightarrow> bool" where
  "settles_among sys w eid ety oid st dq d d' \<longleftrightarrow>
     (\<exists>u ord now. uuid_in sys eid = Some u \<and> processed_events d u = None \<and> uuid_in sys oid = Some ord \<and>
        d' = settled st dq (\<lambda>r. rv_order_id r = ord \<and> rv_id r \<in> set w) now (mark_processed u ety now d))"

fun inventory_step_found :: "sys \<Rightarrow> string list \<Rightarrow> inventory_call \<Rightarrow> inventory_db \<Rightarrow> inventory_db \<Rightarrow> bool" where
  "inventory_step_found sys w (CallOrderCancelled eid oid) d d' \<longleftrightarrow>
     settles_among sys w eid EventTypeOrderCancelled oid ReservationStatusReleased 0 d d'"
| "inventory_step_found sys w (CallOrderCompleted eid oid) d d' \<longleftrightarrow>
     settles_among sys w eid EventTypeOrderCompleted oid ReservationStatusCommitted 1 d d'"
| "inventory_step_found sys w c d d' \<longleftrightarrow> inventory_step sys c d d'"

lemma select_where_retimed [simp]:
  "select_reservations_where (retime f sys) g t = select_reservations_where sys g (f t)"
  by (simp add: select_reservations_where_def scan_def fun_eq_iff cong: option.case_cong)

lemma alone_reservation_FindAmong [solo]:
  "alone f sys inventory_apply (p_reservation_FindAmong sys w oid) = reservation_FindWhere (retime f sys) (\<lambda>u. u \<in> set w) oid"
proof
  fix s
  have locks: "fold inventory_apply (found_locks w rs) v = v" for rs v
  proof -
    have "fold inventory_apply ops v = v" if "set ops \<subseteq> range (\<lambda>u. Own (LockReservation u))" for ops
      using that by (induction ops) auto
    then show ?thesis by (simp add: found_locks_def image_subset_iff)
  qed
  have "alone f sys inventory_apply (p_rows sys (\<lambda>t. select_reservations_where sys (\<lambda>u. u \<in> set w) t oid) (\<lambda>now rs v. found_locks w rs)) s
      = tx_rows (retime f sys) (select_reservations_where sys (\<lambda>u. u \<in> set w) (f (tick s)) oid) s"
    by (rule alone_rows) (auto simp: locks select_reservations_where_def split: option.splits)
  then show "alone f sys inventory_apply (p_reservation_FindAmong sys w oid) s =
      reservation_FindWhere (retime f sys) (\<lambda>u. u \<in> set w) oid s"
    by (simp add: p_reservation_FindAmong_def reservation_FindWhere_def solo go_eval split_beta split: prod.split sum.split)
qed

lemma alone_settle_found [solo]:
  "(\<And>r. alone f sys inventory_apply (body r) = body' r) \<Longrightarrow>
   alone f sys inventory_apply (p_settle_found sys eid ety oid body w) = settle_found (retime f sys) eid ety oid body' w"
  by (simp only: p_settle_found_def settle_found_def solo)

lemma inventory_variant_alone:
  "snd (alone f sys inventory_apply (inventory_variant sys c w) s) = inventory_exec_found (retime f sys) w c s"
  using inventory_program_alone [of f sys c s]
  by (cases c) (simp_all add: solo snd_bind_returns)

lemma inventory_answer_retimed: "inventory_answer (retime f sys) u oid p q cid amount d d' \<Longrightarrow> inventory_answer sys u oid p q cid amount d d'"
  by (induction rule: inventory_answer.induct) (auto intro: inventory_answer.intros outbox_entry_retimed)

lemma inventory_step_retimed: "inventory_step (retime f sys) c d d' \<Longrightarrow> inventory_step sys c d d'"
proof (induction rule: inventory_step.induct)
  case (relayed db ms)
  then show ?case by (rule inventory_step.relayed)
qed (auto intro: inventory_step.intros inventory_answer_retimed)

lemma inventory_ready_retimed: "inventory_ready sys d \<Longrightarrow> inventory_ready (retime f sys) d"
  by (simp add: inventory_ready_def inventory_inv_def stock_ok_def stock_keys_ok_def res_row_ok_def inventory_announced_def)

lemma inventory_boot_process: "process_on d = inventory_boot d"
  by (simp add: process_on_def inventory_boot_def)

lemma inventory_exec_step:
  assumes "inventory_ready sys d" and "d' = durable (inventory_exec (retime f sys) c (inventory_boot d))"
  shows "d' = d \<or> inventory_step sys c d d'"
  using inventory_service.exec_refines [of "retime f sys" "inventory_boot d" c] inventory_ready_retimed [OF assms(1)]
    inventory_step_retimed assms(2) by auto

lemma settle_found_step:
  assumes "reservation_settler body sys st dq" and "stock_ok sys (durable s)" and "scans_ok sys"
  shows "let s' = snd (settle_found sys eid ety oid body w s)
    in durable s' = durable s \<or> settles_among sys w eid ety oid st dq (durable s) (durable s')"
  unfolding settle_found_def
proof (rule settle_handler_step [where st = st and dq = dq and oid = oid and P = "\<lambda>ord r. rv_order_id r = ord \<and> rv_id r \<in> set w"])
  show "wpc (go_try (reservation_FindWhere sys (\<lambda>u. u \<in> set w) oid) ''find reservations'' k)
      (\<lambda>_ s'. durable s' = durable s1) (\<lambda>_ s'. durable s' = durable s1) s1"
    if "uuid_in sys oid = None" for k and s1 :: "inventory_db pg"
    using that by (simp add: wp select_reservations_where_def split: option.split)
qed (use assms in \<open>auto simp: settles_among_def intro: reservation_settler.settle_order_where\<close>)

lemma inventory_exec_found_step:
  assumes "inventory_ready sys d"
  shows "durable (inventory_exec_found sys w c (inventory_boot d)) = d \<or>
    inventory_step_found sys w c d (durable (inventory_exec_found sys w c (inventory_boot d)))"
proof -
  have ok: "stock_ok sys (durable (inventory_boot d))" "scans_ok sys"
    using assms by (simp_all add: inventory_ready_def inventory_inv_def)
  show ?thesis
    using settle_found_step [OF releaser.reservation_settler_axioms ok] settle_found_step [OF committer.reservation_settler_axioms ok]
      inventory_service.exec_refines [of sys "inventory_boot d" c] assms
    by (cases c) (simp_all add: Let_def)
qed

lemma inventory_step_found_retimed: "inventory_step_found (retime f sys) w c d d' \<Longrightarrow> inventory_step_found sys w c d d'"
  using inventory_step_retimed by (cases c) (simp_all add: settles_among_def)

lemma inventory_step_found_ready:
  assumes "inventory_ready sys d" and "inventory_step_found sys w c d d'"
  shows "inventory_ready sys d'"
proof -
  have "inventory_ready sys (settled st dq P now (mark_processed u ety now d))"
    if "st = ReservationStatusReleased \<and> dq = 0 \<or> st = ReservationStatusCommitted \<and> dq = 1"
      "ety = EventTypeOrderCancelled \<or> ety = EventTypeOrderCompleted" "processed_events d u = None" for st dq P now u ety
    using assms(1) that
    by (auto simp: inventory_ready_def inventory_inv_def stock_ok_settled inventory_announced_def
        card_processed_of_mark EventType_defs filter_map comp_def)
  then show ?thesis
    using assms inventory_service.step_inv [of sys c d d'] by (cases c) (auto simp: settles_among_def)
qed

text \<open>
  What a call of the service leaves when it commits, given the database as it is then: exactly what the
  use case leaves on its own, for some numbering of its exchanges; the relay, a change of the delivery
  state; and a settling call that was overtaken, what it leaves on its own if its query answers with the
  reservations the order had at an earlier moment.
\<close>

definition inventory_leaves ::
  "sys \<Rightarrow> inventory_call choice list \<Rightarrow> inventory_db \<Rightarrow> inventory_call \<Rightarrow> inventory_db \<Rightarrow> inventory_db \<Rightarrow> bool" where
  "inventory_leaves sys chs db c d d' \<longleftrightarrow>
     (\<exists>f. d' = durable (inventory_exec (retime f sys) c (inventory_boot d))) \<or>
     c = CallInventoryRelay \<and> (\<exists>ms. same_events (outbox d) ms \<and> d' = d\<lparr>outbox := ms\<rparr>) \<or>
     inventory_overtaken sys chs db c \<and>
       (\<exists>w f. prefix w (settles_found sys c d) \<and> d' = durable (inventory_exec_found (retime f sys) w c (inventory_boot d)))"

definition inventory_step_late ::
  "sys \<Rightarrow> inventory_call choice list \<Rightarrow> inventory_db \<Rightarrow> inventory_call \<Rightarrow> inventory_db \<Rightarrow> inventory_db \<Rightarrow> bool" where
  "inventory_step_late sys chs db c d d' \<longleftrightarrow> inventory_step sys c d d' \<or>
     inventory_overtaken sys chs db c \<and> (\<exists>w. prefix w (settles_found sys c d) \<and> inventory_step_found sys w c d d')"

lemma inventory_serializes:
  assumes "reservation_ids_ok sys db"
  shows "in_turn (inventory_leaves sys chs db) (commits (inventory_interleaved sys chs db)) db
     (committed (inventory_interleaved sys chs db))"
proof (rule in_turn_mono [OF inventory_calls.late_serializable [OF assms]])
  show "inventory_leaves sys chs db c d d'"
    if "serial_late sys inventory_apply (inventory_program sys) (\<lambda>c. c = CallInventoryRelay) delivery_op
      (inventory_variant sys) (settles_found sys) (inventory_overtaken sys chs db) c d d'" for c d d'
    using that
      serial_leaves [where B = inventory_own_apply and P = "inventory_program sys" and exec = inventory_exec
        and relay = CallInventoryRelay, OF inventory_program_alone]
    by (auto simp: serial_late_def inventory_leaves_def leaves_def inventory_boot_process inventory_variant_alone)
qed simp

lemma inventory_leaves_step:
  assumes "inventory_leaves sys chs db c d d'" and "inventory_ready sys d"
  shows "d' = d \<or> inventory_step_late sys chs db c d d'"
proof -
  have found: "d' = d \<or> inventory_step_found sys w c d d'"
    if "d' = durable (inventory_exec_found (retime f sys) w c (inventory_boot d))" for w f
    using inventory_exec_found_step [OF inventory_ready_retimed [OF assms(2)], of f w c] inventory_step_found_retimed that by auto
  from assms(1) consider f where "d' = durable (inventory_exec (retime f sys) c (inventory_boot d))"
    | ms where "c = CallInventoryRelay" "same_events (outbox d) ms" "d' = d\<lparr>outbox := ms\<rparr>"
    | w f where "inventory_overtaken sys chs db c" "prefix w (settles_found sys c d)"
        "d' = durable (inventory_exec_found (retime f sys) w c (inventory_boot d))"
    unfolding inventory_leaves_def by blast
  then show ?thesis
  proof cases
    case 1
    then show ?thesis using inventory_exec_step [OF assms(2)] unfolding inventory_step_late_def by blast
  next
    case 2
    then show ?thesis using inventory_step.relayed unfolding inventory_step_late_def by blast
  next
    case 3
    then show ?thesis using found unfolding inventory_step_late_def by blast
  qed
qed

lemma inventory_interleaved_ready:
  assumes "inventory_ready sys db"
  shows "explained (inventory_step_late sys chs db) (commits (inventory_interleaved sys chs db)) db
      (committed (inventory_interleaved sys chs db)) \<and>
    inventory_ready sys (committed (inventory_interleaved sys chs db))"
proof (rule in_turn_explained [OF inventory_serializes])
  show "reservation_ids_ok sys db"
    using assms by (simp add: inventory_ready_def inventory_inv_def stock_ok_def stock_keys_ok_def reservation_ids_ok_def)
  show "inventory_ready sys d'" if "inventory_step_late sys chs db c d d'" "inventory_ready sys d" for c d d'
    using that inventory_service.step_inv inventory_step_found_ready unfolding inventory_step_late_def by blast
qed (rule assms, rule inventory_leaves_step)


section \<open>Properties over every interleaving\<close>

text \<open>Two orders for 60 of 100 laptops that arrive together.\<close>

definition rush :: "inventory_call choice list" where
  "rush = [Arrive (CallOrderCreated ''e1'' ''o1'' ''PROD-001'' ''c'' 60 600),
           Arrive (CallOrderCreated ''e2'' ''o2'' ''PROD-001'' ''d'' 60 600)] @
     map Go ([0, 1, 0, 1, 0, 1] @ replicate 12 0 @ replicate 12 1)"

definition rush_sys :: sys where
  "rush_sys = sample_sys\<lparr>time_text := \<lambda>_. ''noon''\<rparr>"

definition rushed :: "(inventory_call, inventory_row_op row_op, inventory_db, inventory_reply) server" where
  "rushed = inventory_interleaved rush_sys rush initial_inventory_db"

definition ledger :: "inventory_db \<Rightarrow> (int \<times> int) list \<times> string list \<times> string list" where
  "ledger db = (map (\<lambda>i. (i_quantity i, i_reserved_quantity i)) (inventory db), map rv_order_id (reservations db),
     map msg_EventType (outbox db))"

lemma rush_runs:
  "ledger (committed rushed) =
     ([(100, 60), (200, 0), (500, 0)], [''o1''], [EventTypeStockReserved, EventTypeStockReserveFailed])"
  "\<not> may_go rush_sys inventory_apply inventory_key 1
     (inventory_interleaved rush_sys (take 7 rush) initial_inventory_db)"
  by code_simp+

lemma rush_sys_ok [simp]: "uuids_ok rush_sys" "scans_ok rush_sys"
  by (simp_all add: rush_sys_def sample_sys_def uuids_ok_def scans_ok_def)

lemma initial_inventory_inv_rush [simp]: "inventory_inv rush_sys initial_inventory_db"
proof -
  have "inventory_inv rush_sys = inventory_inv sample_sys"
    by (simp add: rush_sys_def fun_eq_iff inventory_inv_def stock_ok_def stock_keys_ok_def res_row_ok_def
        canonical_ids_def outbox_wf_def inventory_announced_def announcements_def)
  then show ?thesis by simp
qed

text \<open>
  A cancellation that looks for the reservations of an order just before the call that reserves for it
  commits: it finds none, and the reservation stays open.
\<close>

definition crossing :: "inventory_call choice list" where
  "crossing = [Arrive (CallOrderCreated ''e1'' ''o1'' ''PROD-001'' ''c'' 60 600), Arrive (CallOrderCancelled ''e2'' ''o1'')] @
     map Go (replicate 11 0 @ replicate 3 1 @ replicate 4 0 @ replicate 4 1)"

definition crossed :: "(inventory_call, inventory_row_op row_op, inventory_db, inventory_reply) server" where
  "crossed = inventory_interleaved rush_sys crossing initial_inventory_db"

lemma crossing_runs:
  "ledger (committed crossed) = ([(100, 60), (200, 0), (500, 0)], [''o1''], [EventTypeStockReserved])"
  "commits crossed = [CallOrderCreated ''e1'' ''o1'' ''PROD-001'' ''c'' 60 600, CallOrderCancelled ''e2'' ''o1'']"
  "map rv_status (reservations (committed crossed)) = [ReservationStatusReserved]"
  by code_simp+

text \<open>
  C10: Event handlers, queries and relay rounds of the inventory service that run at the same time, in any
  interleaving of their exchanges with the database and with any failures. The committed database is what
  the calls that committed leave one after the other in the order of their commits, and no call commits
  twice: a call leaves exactly what its use case leaves on its own, up to the delivery state for the
  relay. There is one exception, as \<open>FOR UPDATE\<close> locks the reservations an order has and not those that
  another call is adding: a handler that settles an order and was, at some moment, unfinished at the same
  time as a call that may reserve for that order may settle only the reservations \<open>w\<close> that the order had
  when it looked, the first ones of those it has now; it leaves exactly what it leaves on its own if its
  query answers \<open>w\<close>, which is to settle them and to record the event. Even so no product is ever
  oversold: in every committed state what is reserved of a product is exactly the sum of its open
  reservations and at most the quantity.
\<close>
theorem inventory_calls_serialize:
  assumes "uuids_ok sys" and "scans_ok sys" and "inventory_inv sys db"
  shows "let g = inventory_interleaved sys chs db in
     in_turn (\<lambda>c d d'. (\<exists>f. d' = durable (inventory_exec (retime f sys) c (inventory_boot d))) \<or>
         c = CallInventoryRelay \<and> (\<exists>ms. same_events (outbox d) ms \<and> d' = d\<lparr>outbox := ms\<rparr>) \<or>
         inventory_overtaken sys chs db c \<and>
           (\<exists>w f. prefix w (settles_found sys c d) \<and>
              d' = durable (inventory_exec_found (retime f sys) w c (inventory_boot d))))
       (commits g) db (committed g) \<and>
     mset (commits g) \<subseteq># mset (arrivals chs) \<and>
     explained (\<lambda>c d d'. inventory_step sys c d d' \<or>
         inventory_overtaken sys chs db c \<and>
           (\<exists>w. prefix w (settles_found sys c d) \<and> inventory_step_found sys w c d d'))
       (commits g) db (committed g) \<and>
     inventory_inv sys (committed g) \<and>
     (\<forall>i \<in> set (inventory (committed g)).
        i_reserved_quantity i =
          (\<Sum>r\<leftarrow>filter (\<lambda>r. rv_status r = ReservationStatusReserved \<and> rv_product_id r = i_product_id i)
             (reservations (committed g)). rv_quantity r) \<and>
        i_reserved_quantity i \<le> i_quantity i)"
proof -
  let ?g = "inventory_interleaved sys chs db"
  have ready: "inventory_ready sys db" using assms by (simp add: inventory_ready_def)
  then have "reservation_ids_ok sys db"
    by (simp add: inventory_ready_def inventory_inv_def stock_ok_def stock_keys_ok_def reservation_ids_ok_def)
  note serial = inventory_serializes [OF this, of chs]
  have steps: "explained (inventory_step_late sys chs db) (commits ?g) db (committed ?g)" "inventory_inv sys (committed ?g)"
    using inventory_interleaved_ready [OF ready] by (simp_all add: inventory_ready_def)
  have "i_reserved_quantity i =
        (\<Sum>r\<leftarrow>filter (\<lambda>r. rv_status r = ReservationStatusReserved \<and> rv_product_id r = i_product_id i)
           (reservations (committed ?g)). rv_quantity r) \<and> i_reserved_quantity i \<le> i_quantity i"
    if "i \<in> set (inventory (committed ?g))" for i
  proof -
    have "stock_row_ok (reservations (committed ?g)) i" using steps(2) that by (simp add: inventory_inv_def stock_ok_def)
    then show ?thesis by (simp add: stock_row_ok_def held_def open_res_def [abs_def])
  qed
  with serial steps show ?thesis
    using inventory_calls.commits_at_most_once [of sys chs db]
    unfolding Let_def by (simp only: inventory_leaves_def [abs_def] inventory_step_late_def [abs_def]) blast
qed

lemma inventory_calls_serialize_witness:
  "inventory_inv rush_sys (committed rushed) \<and> inventory_inv rush_sys (committed crossed) \<and>
   ledger (committed rushed) =
     ([(100, 60), (200, 0), (500, 0)], [''o1''], [EventTypeStockReserved, EventTypeStockReserveFailed]) \<and>
   map rv_status (reservations (committed crossed)) = [ReservationStatusReserved]"
proof -
  have "inventory_inv rush_sys (committed rushed)" "inventory_inv rush_sys (committed crossed)"
    using inventory_calls_serialize [of rush_sys initial_inventory_db, OF rush_sys_ok initial_inventory_inv_rush]
    unfolding Let_def rushed_def crossed_def by blast+
  then show ?thesis using rush_runs(1) crossing_runs(3) by simp
qed

end
