(* ===== verification/Payment_Concurrent.thy ===== *)
theory Payment_Concurrent
  imports Tx_Outbox Payment_Service
begin

text \<open>
  The payment service with its event handlers, queries and relay running at the same time: the
  statements of the repository with the rows they lock, the use cases as programs, and what any
  interleaving of them leaves. As in the inventory service, \<open>FOR UPDATE\<close> locks the payments an order
  has and not those that are being added; so a cancellation that runs at the same time as the charge of
  its order may miss it, and comes with a variant for every list of payments it may find.
\<close>

section \<open>The repository's statements\<close>

datatype payment_row_op = InsertPayment pay_row | LockPayment string | SetPayment string string string int

fun payment_own_key :: "payment_row_op \<Rightarrow> string" where
  "payment_own_key (InsertPayment r) = p_id r"
| "payment_own_key (LockPayment u) = u"
| "payment_own_key (SetPayment u st reason now) = u"

fun payment_own_apply :: "payment_row_op \<Rightarrow> payment_db \<Rightarrow> payment_db" where
  "payment_own_apply (InsertPayment r) db = db\<lparr>payments := payments db @ [r]\<rparr>"
| "payment_own_apply (LockPayment u) db = db"
| "payment_own_apply (SetPayment u st reason now) db = set_payment u st reason now db"

abbreviation payment_apply :: "payment_row_op row_op \<Rightarrow> payment_db \<Rightarrow> payment_db" where
  "payment_apply \<equiv> apply_op payment_own_apply"

abbreviation payment_key :: "payment_row_op row_op \<Rightarrow> string lock_key" where
  "payment_key \<equiv> row_key payment_own_key"

text \<open>\<open>T\<close>: the orders to which payments are added.\<close>

definition payment_agree :: "string set \<Rightarrow> payment_db \<Rightarrow> payment_db \<Rightarrow> bool" where
  "payment_agree K v v' \<longleftrightarrow> filter (\<lambda>r. p_id r \<in> K) (payments v) = filter (\<lambda>r. p_id r \<in> K) (payments v')"

lemma payment_agree_rows:
  assumes "payment_agree K v v'" and "\<And>r. f r \<Longrightarrow> p_id r \<in> K"
  shows "filter f (payments v) = filter f (payments v')"
proof -
  have "filter f rs = filter f (filter (\<lambda>r. p_id r \<in> K) rs)" for rs
    using assms(2) by (simp add: conj_absorb cong: conj_cong) (metis (mono_tags, lifting))
  then show ?thesis using assms(1) by (metis payment_agree_def)
qed

definition payments_scanned :: "sys \<Rightarrow> payment_db \<Rightarrow> bool" where
  "payments_scanned sys v \<longleftrightarrow> scans_ok sys"

fun payment_own_ok :: "string set \<Rightarrow> payment_row_op \<Rightarrow> bool" where
  "payment_own_ok T (InsertPayment r) \<longleftrightarrow> p_order_id r \<in> T"
| "payment_own_ok T _ = True"

lemma payments_upd:
  "(\<And>r. f (g r) = f r) \<Longrightarrow> filter f (upd_where P g rs) = upd_where P g (filter f rs)"
  by (induction rs) (auto simp: upd_where_def)

interpretation payment_rows: own_rows payment_own_apply payment_own_key payment_agree "payments_scanned sys" "payment_own_ok UNIV"
  for sys
proof
  fix K K' v v' v'' op
  show "payment_agree K v v' \<Longrightarrow> payment_agree K (payment_own_apply op v) (payment_own_apply op v')"
    by (cases op) (auto simp: payment_agree_def set_payment_def payments_upd)
  show "payment_own_ok UNIV op \<Longrightarrow> payment_own_key op \<notin> K \<Longrightarrow> payment_agree K v (payment_own_apply op v)"
    by (cases op) (auto simp: payment_agree_def set_payment_def payments_upd intro!: upd_where_none [symmetric])
  show "payment_agree K v v' \<Longrightarrow> K' \<subseteq> K \<Longrightarrow> payment_agree K' v v'"
    using payment_agree_rows [of K v v' "\<lambda>r. p_id r \<in> K'"] by (auto simp: payment_agree_def)
  show "processed_events (payment_own_apply op v) = processed_events v" "outbox (payment_own_apply op v) = outbox v"
    by (cases op; simp)+
qed (auto simp: payment_agree_def payments_scanned_def)

type_synonym 'a payment_prog = "(payment_row_op row_op, payment_db, 'a) prog"

definition p_payment_Save :: "sys \<Rightarrow> Payment \<Rightarrow> unit payment_prog" where
  "p_payment_Save sys pay =
     p_try (p_stmt (insert_payment sys pay) (\<lambda>now _ v. [Own (InsertPayment (last (payments v)))]))
       ''insert payment'' p_return"

definition p_payment_Update :: "sys \<Rightarrow> Payment \<Rightarrow> unit payment_prog" where
  "p_payment_Update sys pay =
     p_try (p_stmt (update_payment sys pay)
              (\<lambda>now n v. if n = 0 then []
                 else [Own (SetPayment (the (uuid_in sys (pay_ID pay))) (pay_Status pay) (pay_FailureReason pay) now)]))
       ''update payment'' (\<lambda>n. if n = 0 then p_fail ErrPaymentNotFound else p_return ())"

definition p_payment_not_found :: "string \<Rightarrow> err \<Rightarrow> Payment payment_prog" where
  "p_payment_not_found w e = (if e = ErrNoRows then p_fail ErrPaymentNotFound else p_fail (Errorf w e))"

definition p_payment_FindByOrderID :: "sys \<Rightarrow> string \<Rightarrow> Payment payment_prog" where
  "p_payment_FindByOrderID sys orderID =
     p_catch (p_read (\<lambda>t. select_payment_of_order sys t orderID))
       (p_payment_not_found ''query payment'') (\<lambda>r. p_return (payment_of_row sys r))"

text \<open>The query locks every payment of the order; \<open>QueryRow\<close> reads the first.\<close>

definition p_payment_FindByOrderIDForUpdate :: "sys \<Rightarrow> string \<Rightarrow> Payment payment_prog" where
  "p_payment_FindByOrderIDForUpdate sys orderID =
     p_catch (p_stmt_at (\<lambda>t. select_payment_of_order sys t orderID)
                (\<lambda>now r v. map (\<lambda>x. Own (LockPayment (p_id x)))
                   (filter (\<lambda>x. p_order_id x = the (uuid_in sys orderID)) (payments v))))
       (p_payment_not_found ''query payment for update'') (\<lambda>r. p_return (payment_of_row sys r))"


section \<open>The use cases\<close>

definition p_GetPayment :: "sys \<Rightarrow> string \<Rightarrow> Payment payment_prog" where
  "p_GetPayment sys orderID = p_payment_FindByOrderID sys orderID"

definition p_NewPaymentCompletedEvent :: "sys \<Rightarrow> string \<Rightarrow> string \<Rightarrow> float64 \<Rightarrow> PaymentCompletedEvent payment_prog" where
  "p_NewPaymentCompletedEvent sys orderID paymentID amount =
     p_bind (p_NewBaseEvent sys EventTypePaymentCompleted) (\<lambda>b.
     p_return
       \<lparr>EventID = EventID b, EventType = EventType b, Timestamp = Timestamp b,
        pc_OrderID = orderID, pc_PaymentID = paymentID, pc_Amount = amount\<rparr>)"

definition p_NewPaymentFailedEvent :: "sys \<Rightarrow> string \<Rightarrow> string \<Rightarrow> PaymentFailedEvent payment_prog" where
  "p_NewPaymentFailedEvent sys orderID reason =
     p_bind (p_NewBaseEvent sys EventTypePaymentFailed) (\<lambda>b.
     p_return
       \<lparr>EventID = EventID b, EventType = EventType b, Timestamp = Timestamp b,
        pf_OrderID = orderID, pf_Reason = reason\<rparr>)"

definition p_shouldFailPayment :: "sys \<Rightarrow> PaymentUseCase \<Rightarrow> float64 \<Rightarrow> bool payment_prog" where
  "p_shouldFailPayment sys uc amount =
     (if simulateFailure uc then p_return True
      else if ends_in_99 sys amount then p_return True
      else Draw (\<lambda>t. p_return (rand_Float64 sys t < tenth)))"

definition p_charge_failed :: "sys \<Rightarrow> string \<Rightarrow> Payment \<Rightarrow> unit payment_prog" where
  "p_charge_failed sys orderID pay =
     p_bind (p_now sys) (\<lambda>now.
     p_try (Finish (payment_Fail ''Payment declined by provider'' now pay)) ''fail payment'' (\<lambda>pay.
     p_try (p_payment_Save sys pay) ''save payment'' (\<lambda>_.
     p_bind (p_NewPaymentFailedEvent sys orderID (pay_FailureReason pay)) (\<lambda>failEvent.
     p_try (p_PublishInTx sys ''Payment'' orderID EventTypePaymentFailed (EvPaymentFailed failEvent))
       ''publish failure event'' (\<lambda>_.
     p_try p_commit ''commit transaction'' p_return)))))"

definition p_charge_completed :: "sys \<Rightarrow> string \<Rightarrow> float64 \<Rightarrow> Payment \<Rightarrow> unit payment_prog" where
  "p_charge_completed sys orderID amount pay =
     p_bind (p_now sys) (\<lambda>now.
     p_try (Finish (payment_Complete now pay)) ''complete payment'' (\<lambda>pay.
     p_try (p_payment_Save sys pay) ''save payment'' (\<lambda>_.
     p_bind (p_NewPaymentCompletedEvent sys orderID (pay_ID pay) amount) (\<lambda>successEvent.
     p_try (p_PublishInTx sys ''Payment'' orderID EventTypePaymentCompleted
              (EvPaymentCompleted successEvent)) ''publish success event'' (\<lambda>_.
     p_try p_commit ''commit transaction'' p_return)))))"

definition p_payment_HandleStockReserved ::
  "sys \<Rightarrow> PaymentUseCase \<Rightarrow> string \<Rightarrow> string \<Rightarrow> string \<Rightarrow> float64 \<Rightarrow> unit payment_prog" where
  "p_payment_HandleStockReserved sys uc eventID orderID customerID amount =
     p_with_tx
       (p_idempotency_gate (p_CheckAndMark sys eventID EventTypeStockReserved)
         (p_bind (p_now sys) (\<lambda>now.
          p_bind (p_uuid sys) (\<lambda>uuid.
          p_try (Finish (NewPayment uuid now orderID customerID amount)) ''create payment'' (\<lambda>pay.
          p_bind (p_shouldFailPayment sys uc amount) (\<lambda>fails.
          if fails then p_charge_failed sys orderID pay
          else p_charge_completed sys orderID amount pay))))))"

definition p_refund_if_completed :: "sys \<Rightarrow> Payment \<Rightarrow> unit payment_prog" where
  "p_refund_if_completed sys pay =
     (if payment_IsCompleted pay
      then p_bind (p_now sys) (\<lambda>now.
           case payment_Refund now pay of
             Inl _ \<Rightarrow> p_return ()
           | Inr pay \<Rightarrow> p_try (p_payment_Update sys pay) ''update payment'' p_return)
      else p_return ())"

definition p_payment_HandleOrderCancelled :: "sys \<Rightarrow> string \<Rightarrow> string \<Rightarrow> unit payment_prog" where
  "p_payment_HandleOrderCancelled sys eventID orderID =
     p_with_tx
       (p_idempotency_gate (p_CheckAndMark sys eventID EventTypeOrderCancelled)
         (p_catch (p_payment_FindByOrderIDForUpdate sys orderID)
           (\<lambda>e. if errors_Is e ErrPaymentNotFound
                then p_try p_commit ''commit transaction'' p_return
                else p_fail (Errorf ''find payment'' e))
           (\<lambda>pay. p_bind (p_refund_if_completed sys pay) (\<lambda>_.
                  p_try p_commit ''commit transaction'' p_return))))"

datatype payment_reply = PaymentFound Payment | PaymentDone

fun payment_program :: "sys \<Rightarrow> payment_call \<Rightarrow> payment_reply payment_prog" where
  "payment_program sys (CallPaymentStockReserved uc eid oid cid amount) =
     p_bind (p_payment_HandleStockReserved sys uc eid oid cid amount) (\<lambda>_. p_return PaymentDone)"
| "payment_program sys (CallPaymentOrderCancelled eid oid) =
     p_bind (p_payment_HandleOrderCancelled sys eid oid) (\<lambda>_. p_return PaymentDone)"
| "payment_program sys (CallGetPayment oid) = p_bind (p_GetPayment sys oid) (\<lambda>pay. p_return (PaymentFound pay))"
| "payment_program sys CallPaymentRelay = p_bind (p_processPendingMessages sys) (\<lambda>_. p_return PaymentDone)"


section \<open>On their own they are the use cases\<close>

lemma payment_statements_retimed [simp]:
  "insert_payment (retime f sys) = insert_payment sys" "update_payment (retime f sys) = update_payment sys"
  "select_payment_of_order (retime f sys) t = select_payment_of_order sys (f t)"
  "payment_of_row (retime f sys) = payment_of_row sys" "ends_in_99 (retime f sys) = ends_in_99 sys"
  by (simp_all add: insert_payment_def update_payment_def select_payment_of_order_def payment_of_row_def scan_def
        ends_in_99_def int_of_float_def fun_eq_iff cong: option.case_cong if_cong prod.case_cong)

lemma update_payment_Done:
  "update_payment sys pay now v = Done n v' \<longleftrightarrow>
     (\<exists>u. uuid_in sys (pay_ID pay) = Some u \<and> text_ok sys 50 (pay_Status pay) \<and> text_in sys (pay_FailureReason pay) \<and>
        n = length (rows_of p_id u (payments v)) \<and> v' = set_payment u (pay_Status pay) (pay_FailureReason pay) now v)"
  by (auto simp: update_payment_def rows_of_def split: option.splits)

lemma alone_payment_Save [solo]:
  "alone f sys payment_apply (p_payment_Save sys pay) = payment_Save (retime f sys) pay"
proof -
  have "alone f sys payment_apply (p_stmt (insert_payment sys pay) (\<lambda>now _ v. [Own (InsertPayment (last (payments v)))]))
      = tx_stmt (retime f sys) (insert_payment sys pay)"
    by (rule alone_stmt) (auto simp: insert_payment_Done)
  then show ?thesis by (simp add: p_payment_Save_def payment_Save_def solo)
qed

lemma alone_payment_Update [solo]:
  "alone f sys payment_apply (p_payment_Update sys pay) = payment_Update (retime f sys) pay"
proof -
  have "alone f sys payment_apply (p_stmt (update_payment sys pay)
          (\<lambda>now n v. if n = 0 then []
             else [Own (SetPayment (the (uuid_in sys (pay_ID pay))) (pay_Status pay) (pay_FailureReason pay) now)]))
      = tx_stmt (retime f sys) (update_payment sys pay)"
    by (rule alone_stmt) (auto simp: update_payment_Done set_payment_def upd_where_absent)
  then show ?thesis
    by (simp add: p_payment_Update_def payment_Update_def solo if_distrib [of "alone f sys payment_apply"] cong: if_cong)
qed

lemma alone_payment_not_found [solo]: "alone f sys payment_apply (p_payment_not_found w e) = payment_not_found w e"
  by (simp add: p_payment_not_found_def payment_not_found_def solo)

lemma select_payment_same: "select_payment_of_order sys t oid now v = Done r v' \<Longrightarrow> v' = v"
  by (auto simp: select_payment_of_order_def split: option.splits list.splits)

lemma alone_payment_Find [solo]:
  "alone f sys payment_apply (p_payment_FindByOrderID sys oid) = payment_FindByOrderID (retime f sys) oid"
proof
  fix s
  have "alone f sys payment_apply (p_read (\<lambda>t. select_payment_of_order sys t oid)) s =
      pool_stmt (retime f sys) (select_payment_of_order sys (f (tick s)) oid) s"
    by (rule alone_read_at) (rule select_payment_same)
  then show "alone f sys payment_apply (p_payment_FindByOrderID sys oid) s = payment_FindByOrderID (retime f sys) oid s"
    by (simp add: p_payment_FindByOrderID_def payment_FindByOrderID_def solo go_eval split: prod.split sum.split)
qed

lemma alone_payment_FindForUpdate [solo]:
  "alone f sys payment_apply (p_payment_FindByOrderIDForUpdate sys oid) = payment_FindByOrderIDForUpdate (retime f sys) oid"
proof
  fix s
  have locks: "fold payment_apply (map (\<lambda>r. Own (LockPayment (p_id r))) rs) v = v" for rs v
    by (induction rs) simp_all
  have "alone f sys payment_apply (p_stmt_at (\<lambda>t. select_payment_of_order sys t oid)
        (\<lambda>now r v. map (\<lambda>x. Own (LockPayment (p_id x)))
           (filter (\<lambda>x. p_order_id x = the (uuid_in sys oid)) (payments v)))) s =
      tx_stmt (retime f sys) (select_payment_of_order sys (f (tick s)) oid) s"
    by (rule alone_stmt_at) (auto simp: locks dest: select_payment_same)
  then show "alone f sys payment_apply (p_payment_FindByOrderIDForUpdate sys oid) s =
      payment_FindByOrderIDForUpdate (retime f sys) oid s"
    by (simp add: p_payment_FindByOrderIDForUpdate_def payment_FindByOrderIDForUpdate_def solo go_eval
        split: prod.split sum.split)
qed

lemma alone_payment_events [solo]:
  "alone f sys A (p_NewPaymentCompletedEvent sys oid pid amount) = NewPaymentCompletedEvent (retime f sys) oid pid amount"
  "alone f sys A (p_NewPaymentFailedEvent sys oid reason) = NewPaymentFailedEvent (retime f sys) oid reason"
  by (simp_all add: p_NewPaymentCompletedEvent_def p_NewPaymentFailedEvent_def NewEvent_defs solo)

lemma alone_shouldFailPayment [solo]:
  "alone f sys payment_apply (p_shouldFailPayment sys uc amount) = shouldFailPayment (retime f sys) uc amount"
  by (simp add: p_shouldFailPayment_def shouldFailPayment_def solo go_tick_def fun_eq_iff go_eval)

lemma alone_payment_parts [solo]:
  "alone f sys payment_apply (p_charge_failed sys oid pay) = charge_failed (retime f sys) oid pay"
  "alone f sys payment_apply (p_charge_completed sys oid amount pay) = charge_completed (retime f sys) oid amount pay"
  "alone f sys payment_apply (p_refund_if_completed sys pay) = refund_if_completed (retime f sys) pay"
  by (simp_all only: p_charge_failed_def p_charge_completed_def p_refund_if_completed_def charge_failed_def
        charge_completed_def refund_if_completed_def solo alone_if)

theorem payment_use_cases_alone:
  "alone f sys payment_apply (p_GetPayment sys oid) = GetPayment (retime f sys) oid"
  "alone f sys payment_apply (p_payment_HandleStockReserved sys uc eid oid cid amount) =
     payment_HandleStockReserved (retime f sys) uc eid oid cid amount"
  "alone f sys payment_apply (p_payment_HandleOrderCancelled sys eid oid) = payment_HandleOrderCancelled (retime f sys) eid oid"
  by (simp_all only: p_GetPayment_def p_payment_HandleStockReserved_def p_payment_HandleOrderCancelled_def
        GetPayment_def payment_HandleStockReserved_def payment_HandleOrderCancelled_def solo alone_if)

lemma payment_program_alone:
  "snd (alone f sys payment_apply (payment_program sys c) s) = payment_exec (retime f sys) c s"
  by (cases c) (simp_all add: solo payment_use_cases_alone snd_bind_returns)


section \<open>The cancellation, for the payments it finds\<close>

text \<open>
  \<open>FOR UPDATE\<close> locks the payments that the order has. It does not keep a call that runs at the same
  time from adding one; that one the cancellation does not see. \<open>w\<close>: the payments it finds.
\<close>

definition found_payments :: "sys \<Rightarrow> string list \<Rightarrow> string \<Rightarrow> payment_db \<Rightarrow> pay_row list" where
  "found_payments sys w orderID v =
     filter (\<lambda>r. p_order_id r = the (uuid_in sys orderID) \<and> p_id r \<in> set w) (payments v)"

definition payment_locks :: "sys \<Rightarrow> string list \<Rightarrow> string \<Rightarrow> payment_db \<Rightarrow> payment_row_op row_op list" where
  "payment_locks sys w orderID v =
     map (\<lambda>r. Own (LockPayment (p_id r))) (found_payments sys w orderID v) @
     map (\<lambda>u. Own (LockPayment u)) (filter (\<lambda>u. u \<notin> p_id ` set (found_payments sys w orderID v)) w)"

lemma payment_locks_keys: "payment_key ` set (payment_locks sys w oid v) = OwnKey ` set w"
proof -
  have "payment_key ` set (payment_locks sys w oid v) =
      OwnKey ` (p_id ` set (found_payments sys w oid v) \<union> (set w - p_id ` set (found_payments sys w oid v)))"
    by (simp add: payment_locks_def image_Un image_image set_diff_eq)
  moreover have "p_id ` set (found_payments sys w oid v) \<subseteq> set w" by (auto simp: found_payments_def)
  ultimately show ?thesis by (simp add: Un_absorb1 Un_Diff_cancel)
qed

definition payment_answer ::
  "sys \<Rightarrow> string list \<Rightarrow> string \<Rightarrow> nat \<times> int \<times> payment_db \<Rightarrow> (pay_row payment_prog, payment_row_op row_op) answer" where
  "payment_answer sys w orderID x =
     (case x of (t, now, v) \<Rightarrow>
       (case select_payment_where sys (\<lambda>u. u \<in> set w) t orderID now v of
          Done r v' \<Rightarrow> Served (p_return r) (payment_locks sys w orderID v')
        | ClientReject e \<Rightarrow> if w = [] then Unsent e else Served (p_fail e) (payment_locks sys w orderID v)
        | ServerReject e \<Rightarrow> Rejected e))"

definition p_payment_FindAmong :: "sys \<Rightarrow> string list \<Rightarrow> string \<Rightarrow> Payment payment_prog" where
  "p_payment_FindAmong sys w orderID =
     p_catch (Stmt p_fail (payment_answer sys w orderID))
       (p_payment_not_found ''query payment for update'') (\<lambda>r. p_return (payment_of_row sys r))"

definition p_cancel_found :: "sys \<Rightarrow> string \<Rightarrow> string \<Rightarrow> string list \<Rightarrow> unit payment_prog" where
  "p_cancel_found sys eventID orderID w =
     p_with_tx
       (p_idempotency_gate (p_CheckAndMark sys eventID EventTypeOrderCancelled)
         (p_catch (p_payment_FindAmong sys w orderID)
           (\<lambda>e. if errors_Is e ErrPaymentNotFound
                then p_try p_commit ''commit transaction'' p_return
                else p_fail (Errorf ''find payment'' e))
           (\<lambda>pay. p_bind (p_refund_if_completed sys pay) (\<lambda>_.
                  p_try p_commit ''commit transaction'' p_return))))"

fun payment_variant :: "sys \<Rightarrow> payment_call \<Rightarrow> string list \<Rightarrow> payment_reply payment_prog" where
  "payment_variant sys (CallPaymentOrderCancelled eid oid) w =
     p_bind (p_cancel_found sys eid oid w) (\<lambda>_. p_return PaymentDone)"
| "payment_variant sys c w = payment_program sys c"

text \<open>The order a call may charge, and the order whose payment it may refund.\<close>

fun charges :: "sys \<Rightarrow> payment_call \<Rightarrow> string option" where
  "charges sys (CallPaymentStockReserved uc eid oid cid amount) = uuid_in sys oid"
| "charges sys _ = None"

fun cancels :: "sys \<Rightarrow> payment_call \<Rightarrow> string option" where
  "cancels sys (CallPaymentOrderCancelled eid oid) = uuid_in sys oid"
| "cancels sys _ = None"

definition payment_ids :: "string \<Rightarrow> payment_db \<Rightarrow> string list" where
  "payment_ids ord v = map p_id (filter (\<lambda>r. p_order_id r = ord) (payments v))"

definition cancels_found :: "sys \<Rightarrow> payment_call \<Rightarrow> payment_db \<Rightarrow> string list" where
  "cancels_found sys c v = (case cancels sys c of None \<Rightarrow> [] | Some ord \<Rightarrow> payment_ids ord v)"

text \<open>Call \<open>d\<close> may add to the payments that call \<open>c\<close> looks up.\<close>

definition payment_joins :: "sys \<Rightarrow> payment_call \<Rightarrow> payment_call \<Rightarrow> bool" where
  "payment_joins sys d c \<longleftrightarrow> charges sys d \<noteq> None \<and> charges sys d = cancels sys c"

lemma found_payments_all:
  "uuid_in sys oid = Some u \<Longrightarrow> found_payments sys (payment_ids u v) oid v = filter (\<lambda>r. p_order_id r = u) (payments v)"
  unfolding found_payments_def by (rule filter_cong) (auto simp: payment_ids_def)

lemma payment_locks_all:
  assumes "uuid_in sys oid = Some u"
  shows "payment_locks sys (payment_ids u v) oid v = map (\<lambda>r. Own (LockPayment (p_id r))) (filter (\<lambda>r. p_order_id r = u) (payments v))"
  unfolding payment_locks_def found_payments_all [OF assms] by (auto simp: filter_empty_conv payment_ids_def)

lemma select_payment_found:
  "uuid_in sys oid = Some u \<Longrightarrow>
   select_payment_where sys (\<lambda>i. i \<in> set (payment_ids u v)) t oid now v = select_payment_of_order sys t oid now v"
  using found_payments_all [of sys oid u v] by (simp add: select_payment_where_def select_payment_of_order_def found_payments_def)

lemma payment_query_late:
  assumes "cancels sys c = uuid_in sys oid"
  shows "late (payments_scanned sys) (cancels_found sys c)
     (p_catch (p_payment_FindByOrderIDForUpdate sys oid) f g) (\<lambda>w. p_catch (p_payment_FindAmong sys w oid) f g)"
  unfolding p_payment_FindByOrderIDForUpdate_def p_payment_FindAmong_def p_stmt_at_def first_step p_catch.simps
proof (rule late_query, goal_cases)
  case (1 t now v)
  show ?case
  proof (cases "uuid_in sys oid")
    case None
    then show ?thesis
      using assms by (simp add: cancels_found_def payment_answer_def select_payment_where_def select_payment_of_order_def)
  next
    case (Some u)
    have none: "payment_ids u v = []" if "select_payment_of_order sys t oid now v = ClientReject e" for e
      using that 1 Some select_payment_where_rows(1) [of sys oid u "\<lambda>_. True" t now v e]
      by (auto simp: select_payment_where_def select_payment_of_order_def payments_scanned_def payment_ids_def filter_empty_conv
          split: list.splits)
    show ?thesis
      using assms Some none
      by (auto simp: cancels_found_def payment_answer_def select_payment_found payment_locks_all dest: select_payment_same split: reply.split)
  qed
qed

lemma payment_program_late:
  "late (payments_scanned sys) (cancels_found sys c) (payment_program sys c) (payment_variant sys c)"
proof (cases c)
  case (CallPaymentOrderCancelled eid oid)
  then show ?thesis
    unfolding CallPaymentOrderCancelled payment_program.simps payment_variant.simps p_payment_HandleOrderCancelled_def
      p_cancel_found_def p_bind_def [of "p_with_tx _"]
    by (intro late_with_tx late_gate) (simp only: first_step, rule payment_query_late, simp)
qed (auto intro!: late_plain)


section \<open>Their locks\<close>

abbreviation payment_framed :: "sys \<Rightarrow> string lock_key set \<Rightarrow> 'a payment_prog \<Rightarrow> bool" where
  "payment_framed sys \<equiv> framed (agree_on payment_agree) payment_key (payments_scanned sys)"

abbreviation payment_steady where
  "payment_steady H q w now v \<equiv> steady (agree_on payment_agree) payment_key H q w now v"

lemma framed_payment_Save:
  assumes "\<And>e. quiet (f e)" and "\<And>H. payment_framed sys H (g ())"
  shows "payment_framed sys H (p_catch (p_payment_Save sys pay) f g)"
  unfolding p_payment_Save_def first_step
proof (rule framed_stmt_at)
  fix now v
  have "payment_steady H (insert_payment sys pay) (\<lambda>now _ v. [Own (InsertPayment (last (payments v)))]) now v"
    if saved: "insert_payment sys pay now v = Done x v'" for x v'
  proof (rule steady_Done, rule saved)
    fix u
    let ?id = "p_id (last (payments v'))"
    assume "agree_on payment_agree (H \<union> payment_key ` set [Own (InsertPayment (last (payments v')))]) v u"
    then have "filter (\<lambda>r. p_id r = ?id) (payments v) = filter (\<lambda>r. p_id r = ?id) (payments u)"
      using payment_agree_rows [of _ v u "\<lambda>r. p_id r = ?id"] by (auto simp: agree_on_def)
    moreover have "filter (\<lambda>r. p_id r = ?id) (payments v) = []" using saved by (auto simp: insert_payment_Done filter_empty_conv)
    ultimately have "filter (\<lambda>r. p_id r = ?id) (payments u) = []" by simp
    then have "?id \<notin> p_id ` set (payments u)" by (auto simp: filter_empty_conv)
    then show "\<exists>u'. insert_payment sys pay now u = Done x u' \<and>
        [Own (InsertPayment (last (payments u')))] = [Own (InsertPayment (last (payments v')))]"
      using saved by (auto simp: insert_payment_Done)
  qed
  then show "quiet (outcome (\<lambda>e. f (Errorf ''insert payment'' e)) g (insert_payment sys pay now v)) \<or>
      payment_steady H (insert_payment sys pay) (\<lambda>now _ v. [Own (InsertPayment (last (payments v)))]) now v"
    using assms(1) by (cases "insert_payment sys pay now v") auto
qed (auto intro: framed_quiet [OF assms(1)] intro!: assms(2))

lemma framed_payment_Update:
  assumes "\<And>e. quiet (f e)" and "\<And>H. payment_framed sys H (g ())"
  shows "payment_framed sys H (p_catch (p_payment_Update sys pay) f g)"
  unfolding p_payment_Update_def first_step
proof (rule framed_stmt_at)
  let ?w = "\<lambda>now n v. if n = 0 then []
    else [Own (SetPayment (the (uuid_in sys (pay_ID pay))) (pay_Status pay) (pay_FailureReason pay) now)]"
  fix now v
  have "payment_steady H (update_payment sys pay) ?w now v"
    if updated: "update_payment sys pay now v = Done n v'" "n \<noteq> 0" for n v'
  proof (rule steady_Done, rule updated(1))
    obtain u where u: "uuid_in sys (pay_ID pay) = Some u" using updated by (auto simp: update_payment_Done)
    fix v2
    assume "agree_on payment_agree (H \<union> payment_key ` set (?w now n v')) v v2"
    then have "rows_of p_id u (payments v) = rows_of p_id u (payments v2)"
      using payment_agree_rows [of _ v v2 "\<lambda>r. p_id r = u"] u updated(2) by (auto simp: agree_on_def rows_of_def)
    then show "\<exists>v2'. update_payment sys pay now v2 = Done n v2' \<and> ?w now n v2' = ?w now n v'"
      using u updated by (auto simp: update_payment_Done)
  qed
  then show "quiet (outcome (\<lambda>e. f (Errorf ''update payment'' e))
        (\<lambda>n. if n = 0 then f ErrPaymentNotFound else g ()) (update_payment sys pay now v)) \<or>
      payment_steady H (update_payment sys pay) ?w now v"
    using assms(1) by (cases "update_payment sys pay now v") auto
qed (auto simp: first_step intro: framed_quiet [OF assms(1)] intro!: assms(2))

lemma payment_answer_repeatable:
  assumes "payments_scanned sys v" and "agree_on payment_agree (H \<union> payment_key ` set (served_rows (payment_answer sys w oid (t, now, v)))) v v2"
  shows "payment_answer sys w oid (t, now, v2) = payment_answer sys w oid (t, now, v)"
proof (cases "uuid_in sys oid")
  case (Some u)
  have rows: "select_payment_where sys (\<lambda>u. u \<in> set w) t oid now v' =
      (case scan sys t (found_payments sys w oid v') of [] \<Rightarrow> ClientReject ErrNoRows | r # _ \<Rightarrow> Done r v')" for v'
    using Some by (simp add: select_payment_where_def found_payments_def)
  have same: "payment_answer sys w oid (t, now, v2) = payment_answer sys w oid (t, now, v)"
    if "found_payments sys w oid v2 = found_payments sys w oid v"
    using that by (simp add: payment_answer_def rows payment_locks_def split: list.split)
  show ?thesis
  proof (cases "w = []")
    case False
    then have "payment_key ` set (served_rows (payment_answer sys w oid (t, now, v))) = OwnKey ` set w"
      by (simp add: payment_answer_def rows payment_locks_keys split: list.split)
    then have "payment_agree (set w) v v2"
      using assms(2) by (auto simp: agree_on_def intro: payment_rows.agree_mono)
    then show ?thesis
      by (intro same) (auto simp: found_payments_def intro: payment_agree_rows [symmetric])
  qed (rule same, simp add: found_payments_def)
qed (simp add: payment_answer_def select_payment_where_def)

lemma framed_payment_FindAmong:
  assumes "\<And>e H. payment_framed sys H (f e)" and "\<And>a H. payment_framed sys H (g a)"
  shows "payment_framed sys H (p_catch (p_payment_FindAmong sys w oid) f g)"
proof -
  have query: "payment_framed sys H (p_catch (Stmt p_fail (payment_answer sys w oid)) f' g')"
    if "\<And>e H. payment_framed sys H (f' e)" "\<And>a H. payment_framed sys H (g' a)" for f' and g' :: "pay_row \<Rightarrow> 'a payment_prog"
    unfolding p_catch.simps
  proof (rule framed_Stmt, goal_cases)
    case (2 t now v)
    show ?case
    proof (cases "payment_answer sys w oid (t, now, v)")
      case (Served m ops)
      then have "(\<exists>r. m = p_return r) \<or> (\<exists>e. m = p_fail e)"
        by (auto simp: payment_answer_def split: reply.splits if_splits)
      then show ?thesis using that Served by (auto simp: first_step)
    next
      case (Cut m ops)
      then have False by (auto simp: payment_answer_def split: reply.splits if_splits)
      then show ?thesis ..
    qed (simp_all add: first_step that)
  next
    case (3 t now v)
    have "served_rows (map_answer k id a) = served_rows a"
      for k :: "pay_row payment_prog \<Rightarrow> 'a payment_prog" and a :: "(pay_row payment_prog, payment_row_op row_op) answer"
      by (cases a) simp_all
    then show ?case
      unfolding repeatable_def by (intro disjI2 allI impI arg_cong [OF payment_answer_repeatable [OF 3]]) simp
  qed (simp add: first_step that)
  show ?thesis
    unfolding p_payment_FindAmong_def p_payment_not_found_def first_step
    by (rule query) (auto intro: assms)
qed

lemma framed_charge:
  assumes "\<And>e. quiet (f e)" and "quiet (g ())"
  shows "payment_framed sys H (p_catch (p_charge_failed sys oid pay) f g)"
    and "payment_framed sys H (p_catch (p_charge_completed sys oid amount pay) f g)"
  unfolding p_charge_failed_def p_charge_completed_def p_NewPaymentFailedEvent_def p_NewPaymentCompletedEvent_def first_step
  by (intro framed_draws framed_cases framed_payment_Save framed_NewBaseEvent framed_PublishInTx framed_commit;
      use assms in \<open>simp add: first_step framed_quiet\<close>)+

lemma framed_shouldFailPayment:
  "(\<And>b. framed agree key J H (g b)) \<Longrightarrow> framed agree key J H (p_catch (p_shouldFailPayment sys uc amount) f g)"
  by (auto simp: p_shouldFailPayment_def first_step intro: framed_Draw)

lemma framed_refund:
  assumes "\<And>e. quiet (f e)" and "\<And>H. payment_framed sys H (g ())"
  shows "payment_framed sys H (p_catch (p_refund_if_completed sys pay) f g)"
  unfolding p_refund_if_completed_def first_step
  using assms by (auto simp: first_step intro!: framed_draws framed_cases framed_payment_Update)

lemma payment_variant_framed:
  assumes "c \<noteq> CallPaymentRelay"
  shows "framed_call (agree_on payment_agree) payment_key (payments_scanned sys) (payment_variant sys c w)"
proof (cases c)
  case (CallPaymentStockReserved uc eid oid cid amount)
  have if_rule: "payment_framed sys H (if b then m1 else m2)"
    if "payment_framed sys H m1" "payment_framed sys H m2" for H b and m1 m2 :: "payment_reply payment_prog"
    using that by simp
  show ?thesis
    unfolding CallPaymentStockReserved payment_variant.simps payment_program.simps p_payment_HandleStockReserved_def first_step
    by (intro framed_with_tx framed_gate framed_draws framed_cases framed_shouldFailPayment if_rule framed_charge
        | simp only: first_step | simp add: framed_quiet)+
next
  case (CallPaymentOrderCancelled eid oid)
  show ?thesis
    unfolding CallPaymentOrderCancelled payment_variant.simps p_cancel_found_def first_step
    by (auto simp: first_step framed_quiet
        intro!: framed_with_tx framed_gate framed_payment_FindAmong framed_refund framed_commit)
next
  case (CallGetPayment oid)
  then show ?thesis
    by (auto simp: p_GetPayment_def p_payment_FindByOrderID_def p_payment_not_found_def first_step intro!: call_quiet quiet_catch)
qed (use assms in simp)

lemma quiet_payment_parts [simp]:
  "quiet (p_payment_Save sys pay)" "quiet (p_payment_Update sys pay)" "quiet (p_payment_not_found w e)"
  "quiet (p_payment_FindByOrderID sys oid)" "quiet (p_payment_FindByOrderIDForUpdate sys oid)"
  "quiet (p_shouldFailPayment sys uc amount)" "quiet (p_refund_if_completed sys pay)"
  by (auto simp: p_payment_Save_def p_payment_Update_def p_payment_not_found_def p_payment_FindByOrderID_def
      p_payment_FindByOrderIDForUpdate_def p_shouldFailPayment_def p_refund_if_completed_def
      split: sum.split intro!: quiet_catch quiet_try quiet_bind)

lemma payment_program_once: "once (payment_program sys c)"
proof (cases c)
  case (CallGetPayment oid)
  then show ?thesis by (auto simp: p_GetPayment_def intro!: quiet_once quiet_bind)
next
  case CallPaymentRelay
  then show ?thesis by (simp add: p_bind_def once_relay)
qed (simp_all only: payment_program.simps p_payment_HandleStockReserved_def p_payment_HandleOrderCancelled_def
    p_charge_failed_def p_charge_completed_def p_NewPaymentCompletedEvent_def p_NewPaymentFailedEvent_def
    p_idempotency_gate_def first_step,
  (simp only: first_step | rule once_rules once_if once_quiet_first | simp add: quiet_once)+)

abbreviation payment_ok :: "string set \<Rightarrow> payment_row_op row_op \<Rightarrow> bool" where
  "payment_ok T \<equiv> own_op (payment_own_ok T)"

lemma only_payment_parts:
  "only (payment_ok T) (p_CheckAndMark sys eid ety)" "only (payment_ok T) (p_PublishInTx sys agg aid ety ev)"
  "only (payment_ok T) (p_NewBaseEvent sys ety)" "only (payment_ok T) (p_processPendingMessages sys)"
  "only (payment_ok T) (p_payment_FindByOrderID sys oid)" "only (payment_ok T) (p_payment_FindByOrderIDForUpdate sys oid)"
  "only (payment_ok T) (p_payment_FindAmong sys w oid)"
  "only (payment_ok T) (p_shouldFailPayment sys uc amount)" "only (payment_ok T) (p_refund_if_completed sys pay)"
proof -
  have "own_op (payment_own_ok T) op" if "delivery_op op" for op
    using that by (cases op) simp_all
  then show "only (payment_ok T) (p_processPendingMessages sys)" by (rule only_mono [OF relay_delivers])
  have "list_all (payment_ok T) (payment_locks sys w oid v)" for v
    by (auto simp: payment_locks_def list_all_iff)
  then show "only (payment_ok T) (p_payment_FindAmong sys w oid)"
    unfolding p_payment_FindAmong_def p_payment_not_found_def
    by (auto simp: payment_answer_def intro!: only_catch split: prod.split reply.split)
qed (auto simp: p_CheckAndMark_def p_PublishInTx_def p_NewBaseEvent_def ToJSON_def p_payment_FindByOrderID_def
    p_payment_FindByOrderIDForUpdate_def p_payment_not_found_def p_shouldFailPayment_def p_refund_if_completed_def
    p_payment_Update_def p_bind_def p_try_def list_all_iff
    intro!: only_catch only_stmt split: option.splits if_splits sum.split)

lemma only_charge:
  assumes "\<And>u. uuid_in sys (pay_OrderID pay) = Some u \<Longrightarrow> u \<in> T"
  shows "only (payment_ok T) (p_charge_failed sys oid pay)" "only (payment_ok T) (p_charge_completed sys oid amount pay)"
proof -
  have save: "only (payment_ok T) (p_payment_Save sys pay')" if "pay_OrderID pay' = pay_OrderID pay" for pay'
    using assms that
    by (auto simp: p_payment_Save_def p_try_def insert_payment_Done intro!: only_catch only_stmt)
  have [simp]: "payment_Fail reason now pay = Inr pay' \<Longrightarrow> pay_OrderID pay' = pay_OrderID pay"
      "payment_Complete now pay = Inr pay' \<Longrightarrow> pay_OrderID pay' = pay_OrderID pay" for reason now pay'
    by (auto simp: payment_Fail_def payment_Complete_def split: if_splits)
  show "only (payment_ok T) (p_charge_failed sys oid pay)" "only (payment_ok T) (p_charge_completed sys oid amount pay)"
    by (auto simp: p_charge_failed_def p_charge_completed_def p_NewPaymentFailedEvent_def
        p_NewPaymentCompletedEvent_def p_bind_def p_try_def split: sum.split
        intro!: only_catch only_payment_parts save)
qed

lemma only_charged:
  assumes "\<And>u. uuid_in sys oid = Some u \<Longrightarrow> u \<in> T"
  shows "only (payment_ok T) (payment_program sys (CallPaymentStockReserved uc eid oid cid amount))"
proof -
  have [simp]: "NewPayment uuid now oid cid amount = Inr pay \<Longrightarrow> pay_OrderID pay = oid" for uuid now pay
    by (auto simp: NewPayment_def split: if_splits)
  show ?thesis
    using assms
    by (auto simp: p_payment_HandleStockReserved_def p_idempotency_gate_def p_bind_def p_try_def split: sum.split
        intro!: only_catch only_with_tx only_payment_parts only_charge)
qed

lemma only_cancel_parts:
  assumes "\<forall>uc eid oid cid amount. c \<noteq> CallPaymentStockReserved uc eid oid cid amount"
  shows "only (payment_ok T) (payment_program sys c)" "only (payment_ok T) (payment_variant sys c w)"
  by (cases c; use assms in \<open>auto simp: p_payment_HandleOrderCancelled_def p_cancel_found_def p_GetPayment_def
        p_idempotency_gate_def p_bind_def p_try_def intro!: only_catch only_with_tx only_payment_parts\<close>)+

lemma payment_program_ok: "only (payment_ok (set_option (charges sys c))) (payment_program sys c)"
  using only_charged [where T = "set_option (charges sys c)"] only_cancel_parts(1) [of c] by (cases c) auto

lemma payment_variant_ok: "only (payment_ok UNIV) (payment_variant sys c w)"
  using only_charged [where T = UNIV] only_cancel_parts(2) [of c UNIV] by (cases c) auto

lemma cancels_found_apply:
  assumes "payment_ok T op"
  shows "prefix (cancels_found sys c v) (cancels_found sys c (payment_apply op v))"
    and "cancels sys c \<notin> Some ` T \<Longrightarrow> cancels_found sys c (payment_apply op v) = cancels_found sys c v"
proof -
  have "prefix (cancels_found sys c v) (cancels_found sys c (payment_apply op v)) \<and>
      (cancels sys c \<notin> Some ` T \<longrightarrow> cancels_found sys c (payment_apply op v) = cancels_found sys c v)"
  proof (cases op)
    case (Own own)
    then show ?thesis
      using assms
      by (cases own) (auto simp: cancels_found_def payment_ids_def set_payment_def payments_upd
          mark_processed_def split: option.split)
  qed (auto simp: cancels_found_def payment_ids_def mark_processed_def add_message_def split: option.split)
  then show "prefix (cancels_found sys c v) (cancels_found sys c (payment_apply op v))"
    "cancels sys c \<notin> Some ` T \<Longrightarrow> cancels_found sys c (payment_apply op v) = cancels_found sys c v" by blast+
qed

lemma payment_ok_any: "payment_ok T op \<Longrightarrow> payment_ok UNIV op"
proof (cases op)
  case (Own own)
  then show "payment_ok T op \<Longrightarrow> ?thesis" by (cases own) simp_all
qed simp_all

interpretation payment_calls: late_calls payment_apply payment_key "agree_on payment_agree"
    "payments_scanned sys" "payment_ok UNIV" sys "payment_program sys" "\<lambda>_. True"
    "\<lambda>c. c = CallPaymentRelay" delivery_op "payment_variant sys" "cancels_found sys" "payment_joins sys"
  for sys
proof
  fix c d and op :: "payment_row_op row_op" and v w
  show "c \<noteq> CallPaymentRelay \<Longrightarrow> framed_call (agree_on payment_agree) payment_key (payments_scanned sys) (payment_variant sys c w)"
    by (rule payment_variant_framed)
  show "only (payment_ok UNIV) (payment_variant sys c w)" by (rule payment_variant_ok)
  show "late (payments_scanned sys) (cancels_found sys c) (payment_program sys c) (payment_variant sys c)"
    by (rule payment_program_late)
  show "only (\<lambda>op. payment_ok UNIV op \<and>
      (\<forall>c. \<not> payment_joins sys d c \<longrightarrow> (\<forall>v. cancels_found sys c (payment_apply op v) = cancels_found sys c v))) (payment_program sys d)"
    by (rule only_mono [OF payment_program_ok])
      (auto simp: payment_joins_def intro: payment_ok_any elim!: cancels_found_apply(2))
  show "payment_ok UNIV op \<Longrightarrow> prefix (cancels_found sys c v) (cancels_found sys c (payment_apply op v))"
    by (rule cancels_found_apply)
  show "\<not> payment_joins sys c c" by (cases c) (auto simp: payment_joins_def)
  show "c = CallPaymentRelay \<Longrightarrow> only delivery_op (payment_program sys c)"
    by (auto simp: p_bind_def intro!: only_catch relay_delivers)
  show "once (payment_program sys c)" by (rule payment_program_once)
qed


section \<open>Whatever the interleaving\<close>

abbreviation payment_interleaved ::
  "sys \<Rightarrow> payment_call choice list \<Rightarrow> payment_db \<Rightarrow> (payment_call, payment_row_op row_op, payment_db, payment_reply) server" where
  "payment_interleaved sys \<equiv> interleaved sys payment_apply payment_key (payment_program sys)"

text \<open>
  The cancellation is overtaken if at some moment of the schedule it is unfinished together with a call
  that may charge the order it cancels.
\<close>

abbreviation payment_overtaken :: "sys \<Rightarrow> payment_call choice list \<Rightarrow> payment_db \<Rightarrow> payment_call \<Rightarrow> bool" where
  "payment_overtaken sys \<equiv> overtaken sys payment_apply payment_key (payment_program sys) (payment_joins sys)"

text \<open>
  The use case on its own, in a database where its query of the order's payment sees those of \<open>w\<close> only;
  and what it may do there: it refunds one of \<open>w\<close> or none, and records the event.
\<close>

fun payment_exec_found :: "sys \<Rightarrow> string list \<Rightarrow> payment_call \<Rightarrow> payment_db pg \<Rightarrow> payment_db pg" where
  "payment_exec_found sys w (CallPaymentOrderCancelled eid oid) s = snd (cancel_found sys (\<lambda>i. i \<in> set w) eid oid s)"
| "payment_exec_found sys w c s = payment_exec sys c s"

fun payment_step_found :: "sys \<Rightarrow> string list \<Rightarrow> payment_call \<Rightarrow> payment_db \<Rightarrow> payment_db \<Rightarrow> bool" where
  "payment_step_found sys w (CallPaymentOrderCancelled eid oid) d d' \<longleftrightarrow>
     (\<exists>u ord. uuid_in sys eid = Some u \<and> processed_events d u = None \<and> uuid_in sys oid = Some ord \<and>
        payment_cancel_where (\<lambda>i. i \<in> set w) u ord d d')"
| "payment_step_found sys w c d d' \<longleftrightarrow> payment_step sys c d d'"

lemma select_payment_where_retimed [simp]:
  "select_payment_where (retime f sys) g t = select_payment_where sys g (f t)"
  by (simp add: select_payment_where_def scan_def fun_eq_iff cong: option.case_cong)

lemma alone_payment_FindAmong [solo]:
  "alone f sys payment_apply (p_payment_FindAmong sys w oid) = payment_FindWhere (retime f sys) (\<lambda>i. i \<in> set w) oid"
proof
  fix s :: "payment_db pg"
  let ?q = "select_payment_where sys (\<lambda>i. i \<in> set w) (f (tick s)) oid"
  have locks: "fold payment_apply (payment_locks sys w oid v') v = v" for v' v
  proof -
    have "fold payment_apply ops v = v" if "set ops \<subseteq> range (\<lambda>u. Own (LockPayment u))" for ops
      using that by (induction ops) auto
    then show ?thesis by (simp add: payment_locks_def image_subset_iff)
  qed
  have "v' = v" if "?q now v = Done r v'" for now v r v'
    using that by (auto simp: select_payment_where_def split: option.splits list.splits)
  from this [of "started s" "view s"]
  have "alone f sys payment_apply (Stmt p_fail (payment_answer sys w oid)) s = tx_stmt (retime f sys) ?q s"
    using locks by (auto simp: payment_answer_def tx_stmt_def Let_def solo go_eval split: option.split reply.split)
  then show "alone f sys payment_apply (p_payment_FindAmong sys w oid) s =
      payment_FindWhere (retime f sys) (\<lambda>i. i \<in> set w) oid s"
    unfolding p_payment_FindAmong_def alone_catch payment_FindWhere_def
    by (simp add: solo go_eval split: prod.split sum.split)
qed

lemma alone_cancel_found [solo]:
  "alone f sys payment_apply (p_cancel_found sys eid oid w) = cancel_found (retime f sys) (\<lambda>i. i \<in> set w) eid oid"
  by (simp only: p_cancel_found_def cancel_found_def solo alone_if)

lemma payment_variant_alone:
  "snd (alone f sys payment_apply (payment_variant sys c w) s) = payment_exec_found (retime f sys) w c s"
  using payment_program_alone [of f sys c s]
  by (cases c) (simp_all add: solo snd_bind_returns)

lemma decision_retimed: "decision (retime f sys) uc amount declined \<Longrightarrow> decision sys uc amount declined"
  by (auto simp: decision_def)

lemma payment_charge_retimed:
  "payment_charge (retime f sys) u oid cid amount declined d d' \<Longrightarrow> payment_charge sys u oid cid amount declined d d'"
  by (induction rule: payment_charge.induct) (auto intro: payment_charge.intros outbox_entry_retimed)

lemma payment_step_retimed: "payment_step (retime f sys) c d d' \<Longrightarrow> payment_step sys c d d'"
proof (induction rule: payment_step.induct)
  case (relayed db ms)
  then show ?case by (rule payment_step.relayed)
qed (auto intro: payment_step.intros payment_charge_retimed decision_retimed)

lemma payment_ready_retimed: "payment_ready sys d \<Longrightarrow> payment_ready (retime f sys) d"
  by (simp add: payment_ready_def payment_inv_def payment_keys_ok_def payment_announced_def)

lemma payment_boot_process: "process_on d = payment_boot d"
  by (simp add: process_on_def payment_boot_def)

lemma payment_exec_step:
  assumes "payment_ready sys d" and "d' = durable (payment_exec (retime f sys) c (payment_boot d))"
  shows "d' = d \<or> payment_step sys c d d'"
  using payment_service.exec_refines [of "retime f sys" "payment_boot d" c] payment_ready_retimed [OF assms(1)]
    payment_step_retimed assms(2) by auto

lemma payment_exec_found_step:
  assumes "payment_ready sys d"
  shows "durable (payment_exec_found sys w c (payment_boot d)) = d \<or>
    payment_step_found sys w c d (durable (payment_exec_found sys w c (payment_boot d)))"
proof -
  have "payment_keys_ok sys (durable (payment_boot d))" "scans_ok sys"
    using assms by (simp_all add: payment_ready_def payment_inv_def)
  from cancel_found_step [OF this] show ?thesis
    using payment_service.exec_refines [of sys "payment_boot d" c] assms
    by (cases c) (simp_all add: Let_def)
qed

lemma payment_step_found_retimed: "payment_step_found (retime f sys) w c d d' \<Longrightarrow> payment_step_found sys w c d d'"
  using payment_step_retimed by (cases c) simp_all

lemma payment_step_found_ready:
  assumes "payment_ready sys d" and "payment_step_found sys w c d d'"
  shows "payment_ready sys d'"
proof (cases "\<exists>eid oid. c = CallPaymentOrderCancelled eid oid")
  case True
  then obtain eid oid u ord where c: "c = CallPaymentOrderCancelled eid oid" "uuid_in sys eid = Some u"
      "processed_events d u = None" "uuid_in sys oid = Some ord" "payment_cancel_where (\<lambda>i. i \<in> set w) u ord d d'"
    using assms(2) by auto
  have marked: "payment_ready sys (mark_processed u EventTypeOrderCancelled now d)" for now
    using assms(1) c(3)
    by (auto simp: payment_ready_def payment_inv_def payment_keys_ok_def payment_announced_def card_processed_of_mark EventType_defs)
  from c(5) show ?thesis
  proof cases
    case (refunds r now)
    then have "payment_step sys c d d'"
      unfolding c(1) using c(2-4) by (auto intro: payment_step.cancelled payment_cancel.refunded)
    then show ?thesis by (rule payment_service.step_inv) (rule assms(1))
  qed (use marked in simp_all)
next
  case False
  then have "payment_step sys c d d'" using assms(2) by (cases c) auto
  then show ?thesis by (rule payment_service.step_inv) (rule assms(1))
qed

text \<open>
  What a call of the service leaves when it commits, given the database as it is then: exactly what the
  use case leaves on its own, for some numbering of its exchanges; the relay, a change of the delivery
  state; and a cancellation that was overtaken, what it leaves on its own if its query answers with the
  payments the order had at an earlier moment.
\<close>

definition payment_leaves ::
  "sys \<Rightarrow> payment_call choice list \<Rightarrow> payment_db \<Rightarrow> payment_call \<Rightarrow> payment_db \<Rightarrow> payment_db \<Rightarrow> bool" where
  "payment_leaves sys chs db c d d' \<longleftrightarrow>
     (\<exists>f. d' = durable (payment_exec (retime f sys) c (payment_boot d))) \<or>
     c = CallPaymentRelay \<and> (\<exists>ms. same_events (outbox d) ms \<and> d' = d\<lparr>outbox := ms\<rparr>) \<or>
     payment_overtaken sys chs db c \<and>
       (\<exists>w f. prefix w (cancels_found sys c d) \<and> d' = durable (payment_exec_found (retime f sys) w c (payment_boot d)))"

definition payment_step_late ::
  "sys \<Rightarrow> payment_call choice list \<Rightarrow> payment_db \<Rightarrow> payment_call \<Rightarrow> payment_db \<Rightarrow> payment_db \<Rightarrow> bool" where
  "payment_step_late sys chs db c d d' \<longleftrightarrow> payment_step sys c d d' \<or>
     payment_overtaken sys chs db c \<and> (\<exists>w. prefix w (cancels_found sys c d) \<and> payment_step_found sys w c d d')"

lemma payment_serializes:
  assumes "scans_ok sys"
  shows "in_turn (payment_leaves sys chs db) (commits (payment_interleaved sys chs db)) db
     (committed (payment_interleaved sys chs db))"
proof (rule in_turn_mono [OF payment_calls.late_serializable])
  show "payment_leaves sys chs db c d d'"
    if "serial_late sys payment_apply (payment_program sys) (\<lambda>c. c = CallPaymentRelay) delivery_op
      (payment_variant sys) (cancels_found sys) (payment_overtaken sys chs db) c d d'" for c d d'
    using that
      serial_leaves [where B = payment_own_apply and P = "payment_program sys" and exec = payment_exec
        and relay = CallPaymentRelay, OF payment_program_alone]
    by (auto simp: serial_late_def payment_leaves_def leaves_def payment_boot_process payment_variant_alone)
qed (use assms in \<open>simp_all add: payments_scanned_def\<close>)

lemma payment_leaves_step:
  assumes "payment_leaves sys chs db c d d'" and "payment_ready sys d"
  shows "d' = d \<or> payment_step_late sys chs db c d d'"
proof -
  have found: "d' = d \<or> payment_step_found sys w c d d'"
    if "d' = durable (payment_exec_found (retime f sys) w c (payment_boot d))" for w f
    using payment_exec_found_step [OF payment_ready_retimed [OF assms(2)], of f w c] payment_step_found_retimed that by auto
  from assms(1) consider f where "d' = durable (payment_exec (retime f sys) c (payment_boot d))"
    | ms where "c = CallPaymentRelay" "same_events (outbox d) ms" "d' = d\<lparr>outbox := ms\<rparr>"
    | w f where "payment_overtaken sys chs db c" "prefix w (cancels_found sys c d)"
        "d' = durable (payment_exec_found (retime f sys) w c (payment_boot d))"
    unfolding payment_leaves_def by blast
  then show ?thesis
  proof cases
    case 1
    then show ?thesis using payment_exec_step [OF assms(2)] unfolding payment_step_late_def by blast
  next
    case 2
    then show ?thesis using payment_step.relayed unfolding payment_step_late_def by blast
  next
    case 3
    then show ?thesis using found unfolding payment_step_late_def by blast
  qed
qed

lemma payment_interleaved_ready:
  assumes "payment_ready sys db"
  shows "explained (payment_step_late sys chs db) (commits (payment_interleaved sys chs db)) db
      (committed (payment_interleaved sys chs db)) \<and>
    payment_ready sys (committed (payment_interleaved sys chs db))"
proof (rule in_turn_explained [OF payment_serializes])
  show "scans_ok sys" using assms by (simp add: payment_ready_def)
  show "payment_ready sys d'" if "payment_step_late sys chs db c d d'" "payment_ready sys d" for c d d'
    using that payment_service.step_inv payment_step_found_ready unfolding payment_step_late_def by blast
qed (rule assms, rule payment_leaves_step)


section \<open>Properties over every interleaving\<close>

text \<open>One event that is delivered twice at the same time.\<close>

definition doubled :: "payment_call choice list" where
  "doubled = replicate 2 (Arrive (CallPaymentStockReserved \<lparr>simulateFailure = True\<rparr> ''e'' ''o'' ''c'' 10)) @
     map Go ([0, 1, 0, 1] @ replicate 13 0 @ replicate 4 1)"

definition noon_sys :: sys where
  "noon_sys = sample_sys\<lparr>time_text := \<lambda>_. ''noon''\<rparr>"

definition charged_twice :: "(payment_call, payment_row_op row_op, payment_db, payment_reply) server" where
  "charged_twice = payment_interleaved noon_sys doubled empty_payment_db"

lemma doubled_runs:
  "map (\<lambda>r. (p_order_id r, p_amount r, p_status r)) (payments (committed charged_twice)) =
     [(''o'', 1000, PaymentStatusFailed)] \<and>
   map (\<lambda>(c, x). case rest x of Finish (Inr _) \<Rightarrow> True | _ \<Rightarrow> False) (sessions charged_twice) = [True, True]"
  by code_simp

text \<open>
  C11: Event handlers, queries and relay rounds of the payment service that run at the same time, in any
  interleaving of their exchanges with the database and with any failures. The committed database is what
  the calls that committed leave one after the other in the order of their commits, and no call commits
  twice: a call leaves exactly what its use case leaves on its own, up to the delivery state for the
  relay. There is one exception, as \<open>FOR UPDATE\<close> locks the payments an order has and not those that
  another call is adding: a cancellation that was, at some moment, unfinished at the same time as a call
  that may charge its order may see only the payments \<open>w\<close> that the order had when it looked, the first
  ones of those it has now; it leaves exactly what it leaves on its own if its query sees \<open>w\<close> only, which
  is to refund a completed payment of \<open>w\<close> or none and to record the event. In every committed state there
  are exactly as many payments as StockReserved events recorded as processed, so an event that is
  delivered twice at the same time charges once.
\<close>
theorem payment_calls_serialize:
  assumes "uuids_ok sys" and "scans_ok sys" and "payment_inv sys db"
  shows "let g = payment_interleaved sys chs db in
     in_turn (\<lambda>c d d'. (\<exists>f. d' = durable (payment_exec (retime f sys) c (payment_boot d))) \<or>
         c = CallPaymentRelay \<and> (\<exists>ms. same_events (outbox d) ms \<and> d' = d\<lparr>outbox := ms\<rparr>) \<or>
         payment_overtaken sys chs db c \<and>
           (\<exists>w f. prefix w (cancels_found sys c d) \<and>
              d' = durable (payment_exec_found (retime f sys) w c (payment_boot d))))
       (commits g) db (committed g) \<and>
     mset (commits g) \<subseteq># mset (arrivals chs) \<and>
     explained (\<lambda>c d d'. payment_step sys c d d' \<or>
         payment_overtaken sys chs db c \<and>
           (\<exists>w. prefix w (cancels_found sys c d) \<and> payment_step_found sys w c d d'))
       (commits g) db (committed g) \<and>
     payment_inv sys (committed g) \<and>
     length (payments (committed g)) = card {u. \<exists>t. processed_events (committed g) u = Some (EventTypeStockReserved, t)}"
proof -
  let ?g = "payment_interleaved sys chs db"
  have ready: "payment_ready sys db" using assms by (simp add: payment_ready_def)
  note serial = payment_serializes [OF assms(2), of chs db]
  have steps: "explained (payment_step_late sys chs db) (commits ?g) db (committed ?g)" "payment_inv sys (committed ?g)"
    using payment_interleaved_ready [OF ready] by (simp_all add: payment_ready_def)
  have "length (payments (committed ?g)) = card {u. \<exists>t. processed_events (committed ?g) u = Some (EventTypeStockReserved, t)}"
    using steps(2) by (simp add: payment_inv_def payment_announced_def processed_of_def)
  with serial steps show ?thesis
    using payment_calls.commits_at_most_once [of sys chs db]
    unfolding Let_def by (simp only: payment_leaves_def [abs_def] payment_step_late_def [abs_def])
qed

lemma payment_calls_serialize_witness:
  "length (payments (committed charged_twice)) =
     card {u. \<exists>t. processed_events (committed charged_twice) u = Some (EventTypeStockReserved, t)} \<and>
   map (\<lambda>r. (p_order_id r, p_amount r, p_status r)) (payments (committed charged_twice)) =
     [(''o'', 1000, PaymentStatusFailed)]"
proof -
  have ok: "uuids_ok noon_sys" "scans_ok noon_sys"
    by (simp_all add: noon_sys_def sample_sys_def uuids_ok_def scans_ok_def)
  have "length (payments (committed charged_twice)) =
      card {u. \<exists>t. processed_events (committed charged_twice) u = Some (EventTypeStockReserved, t)}"
    using payment_calls_serialize [OF ok payment_inv_empty, of doubled] unfolding Let_def charged_twice_def by blast
  then show ?thesis using doubled_runs by simp
qed

end
