(* ===== verification/Spec2Isabelle.thy ===== *)
theory Spec2Isabelle
  imports Wire_Types Service_Main Http_Server Order_Concurrent Inventory_Concurrent Payment_Concurrent
begin

text \<open>
  A saga of three Go services: order, inventory and payment. Each has a PostgreSQL database of its
  own and a process with an HTTP server, an event consumer and an outbox relay. A request creates an
  order and, in the same transaction, an OrderCreated event in the outbox; the relay publishes it on
  NATS; the inventory service reserves stock and answers StockReserved or StockReserveFailed; the
  payment service charges and answers PaymentCompleted or PaymentFailed; the order service confirms,
  completes or cancels the order and announces it, and the inventory service commits or releases the
  stock. Consumers record the ID of every event they process (pkg/outbox/idempotency.go).

  Theories, in the order of their imports.

  Go and its environment. Go_Prelude: errors, calls that return a value or an error and change
  state, 64-bit int, tables as lists of rows. Go_Float: float64 as rationals rounded to nearest even.
  Go_Json: encoding/json on document trees. Pg_Tx: the record \<open>sys\<close> of everything that is not
  under src (fresh UUIDs, clocks, the server's conversions, the order of a scan, every failure of
  every call), and transactions on a process state \<open>pg\<close>: the durable database, the view of
  the open transaction, the number of calls made so far, and what was published. Here the calls of a
  service are carried out one after the other; what happens when they run at the same time is the
  subject of the theories Tx_* and X_Concurrent.

  Shared packages. Events: pkg/events. Event_Reading: what a parser makes of a message another
  service wrote. Outbox: pkg/outbox, publisher and idempotency checker; Outbox_Relay: the relay.
  Service: the locales \<open>status_machine\<close> and \<open>refined_service\<close>. Honesty: the locale
  \<open>truthful_service\<close>, whose messages are true of its database. Database: pkg/database.
  Messaging: pkg/messaging, and the locale \<open>event_consumer\<close>. Http: what the handlers share.

  Each service X of Order, Inventory, Payment. X_Domain: the entities. X_Repo: the tables and the
  repositories, statement by statement, with the constraints and triggers of scripts/*.sql.
  X_UseCase: the use cases and handlers. X_Spec: the atomic steps of the database, each with the
  call that causes it, and the invariant. X_Service: every handler, whatever fails in it, makes one
  of these steps or none (interpretation of \<open>refined_service\<close>), and the properties that follow.
  X_Truth: the service is truthful. X_Interfaces: consumer and HTTP handlers.

  Calls that run at the same time. Tx_Prog: a call as a program of single exchanges with the server
  (\<open>prog\<close>: begin, a statement with the rows it locks or writes, a message handed to the broker,
  commit, roll back), and what it does when it has the database to itself (\<open>alone\<close>).
  Tx_Sessions: sessions on one database at READ COMMITTED, with row locks held to the end of the
  transaction and statements that wait for them; a choice lets a call arrive, lets a session make its
  next exchange, or breaks it off. Tx_Late: programs with a query to whose answer other calls can add,
  and their variants for what the query may find. Tx_Serial: the locales \<open>row_locks\<close>; \<open>late_calls\<close>,
  in which every interleaving is serializable up to what a call that was overtaken did not find; and
  \<open>concurrent_calls\<close>, in which there is no such query and every interleaving is serializable.
  Tx_Progress: \<open>climbing_calls\<close>, in which none
  deadlocks, because locks are taken in one order. Tx_Outbox: pkg/outbox as programs, and the locale
  \<open>own_rows\<close> for the tables of a service beside the outbox and processed_events.
  X_Concurrent: the statements of the repositories with the rows they lock, the use cases of the
  service as programs, each proved to be the use case of X_UseCase when it runs alone, and the
  interpretations of these locales. Orders are found by their ID and \<open>FOR UPDATE\<close>, which makes all
  calls of the order service serializable. Reservations and payments are found by their order;
  \<open>FOR UPDATE\<close> locks the rows the order has, and another call may be adding one. A call that settles
  an order while another one adds to it (it is \<open>overtaken\<close>) may miss that row, and settles the rows
  that were there when it looked; all other calls of these two services are serializable without
  exception. A statement takes its locks at once. The relay's
  SKIP LOCKED is the parameter \<open>row_locked\<close>, which hides rows; an answer of it that contradicts the
  locks is not taken.

  The whole. Saga: the three processes and a broker that delays, loses, repeats and reorders
  messages; a process may restart at any time. Saga_Invariant: the invariant across the databases and
  its consequences. Calm_Calls: what every call does when nothing fails, up to the values it draws.
  Saga_Run: a run in which the relays poll in turn and each message is delivered once; it is a run
  of the system. Saga_Stages, Saga_Settles: the stages of an order on the way, and the abstract shop
  whose one step the whole run amounts to. Wire_Types: the types of the messages. Service_Main: the
  main functions as a machine of goroutines and signals. Http_Server: the servers and their routes.
  This theory: the properties of the three HTTP interfaces together.

  What the properties show. C1 to C4 are the promise of the saga: exactly once, for what was
  ordered; money and stock follow the status of the order; an order is settled when nothing fails;
  every message is of its type and understood. C5, C6, C12 to C14, C19, C36 and C37: each service
  refines its specification and keeps its invariant; stock is never oversold and never leaks; events
  and effects go together. C7 to C11: the same for calls that run at the same time: they are
  serializable, up to the exception of C10 and C11, and in the order service they never deadlock. C15 to C17: the relay. C18: the codecs.
  C20 to C26: each handler in every branch, errors included. C27 and C28: starting and ending a
  process, with the deadlock that two signals can cause. C29 to C33: consumers and HTTP. C34, C35:
  bounds, on 64-bit words and on floats. C38 to C40: connecting.

  Hypotheses. \<open>uuids_ok\<close>, \<open>scans_ok\<close>, \<open>codecs_ok\<close>, \<open>jsonb_ok\<close>: documented behaviour of
  the UUID library, PostgreSQL and the encodings; \<open>env_ok\<close>: the same for three services whose
  servers agree on UUIDs and amounts; \<open>run_env\<close>: the same for services in which nothing fails;
  \<open>router_ok\<close>: documented behaviour of Echo's router. \<open>sample_sys\<close>, \<open>run_sys\<close> and
  \<open>first_match\<close> satisfy them and are the environment of the witnesses. Fuel: \<open>relay_Start\<close> takes
  the number of rounds, since the relay polls until its context is cancelled; C15 gives a number of
  rounds that is enough, and in C3 two rounds are. The retry loops make the ten attempts of the
  code. No other definition is bounded.

  Not modelled. Logging. The Echo framework: binding, its router, what the middleware does, and its
  server, whose \<open>Start\<close> is a parameter. The NATS and pgx libraries beyond what is said above; that a message was handed to the broker means
  that the NATS client library took it. The sizes and lifetimes of the connection pool.
  Signals that arrive before signal.Notify is called.
  Timing: the five seconds between relay rounds, sleeping times other than those of the retry loops.
  Closing a connection. pkg/testutil and the tests. Whether calls of the inventory or payment
  service can deadlock.
\<close>

section \<open>Reading over HTTP\<close>

text \<open>
  C32: the GET handlers of the three services. A read changes nothing. It answers 400 for an empty
  name, 200 and the document of a row with that name if there is one, and 404 otherwise; 404 also
  if the query failed although the row exists, since the handlers map every error to "not found".
\<close>

theorem http_reads:
  assumes "scans_ok psys"
  shows "(let (resp, s') = http_GetOrder osys fmt key s in durable s' = durable s \<and>
      read_answer key (stmt_err osys (tick s) \<noteq> None) (filter (\<lambda>r. uuid_in osys key = Some (o_id r)) (orders (durable s)))
        (\<lambda>r. marshal_order osys (order_response fmt (order_of_row osys r))) resp) \<and>
    (let (resp, t') = http_GetInventory isys key t in durable t' = durable t \<and>
      read_answer key (stmt_err isys (tick t) \<noteq> None \<or> \<not> text_in isys key)
        (filter (\<lambda>r. i_product_id r = key) (inventory (durable t)))
        (\<lambda>r. marshal_inventory (inventory_response (inventory_of_row r))) resp) \<and>
    (let (resp, v') = http_GetPaymentByOrder psys fmt key v in durable v' = durable v \<and>
      read_answer key (stmt_err psys (tick v) \<noteq> None)
        (filter (\<lambda>r. uuid_in psys key = Some (p_order_id r)) (payments (durable v)))
        (\<lambda>r. marshal_payment psys (payment_response fmt (payment_of_row psys r))) resp)"
  using order_read inventory_read payment_read [OF _ assms] by (auto simp: Let_def split: prod.split)

theorem http_reads_witness:
  "http_status (fst (http_GetOrder (sample_sys\<lparr>stmt_err := \<lambda>t. Some ''connection reset''\<rparr>) (\<lambda>_. '''') ''o''
      (order_boot (sample_order_db OrderStatusPending)))) = 404"
  using http_reads [of sample_sys "sample_sys\<lparr>stmt_err := \<lambda>t. Some ''connection reset''\<rparr>" "\<lambda>_. ''''" "''o''"
      "order_boot (sample_order_db OrderStatusPending)"]
  by (simp add: read_answer_def split_beta Let_def)


section \<open>What can be done over HTTP\<close>

text \<open>
  C33: the HTTP servers of the three services are assembled without a panic, and their routes lead
  where they should: POST /orders, GET /orders/ID, GET /inventory/ID and GET /payments/order/ID to
  their handlers, with the ID of the path, and GET /health to an answer 200 that needs no database.
  Nothing else that a client can send changes anything: no request that is not a POST changes the
  orders, and no request at all changes the stock or the payments.
\<close>

theorem http_surface:
  fixes body' :: 'c and body'' :: 'd
  assumes "router_ok router" and "scans_ok psys"
  shows "\<exists>oe ie pe. order_http osys bind fmt = Some oe \<and> inventory_http isys = Some ie \<and> payment_http psys fmt = Some pe \<and>
    (\<forall>body s. serve router fallback oe \<lparr>rq_method = ''POST'', rq_path = ''/orders'', rq_body = body\<rparr> s =
       http_CreateOrder osys (bind body) s) \<and>
    (\<forall>v body s t u. plain_name v \<longrightarrow>
       serve router fallback oe \<lparr>rq_method = ''GET'', rq_path = ''/orders/'' @ v, rq_body = body\<rparr> s = http_GetOrder osys fmt v s \<and>
       serve router fallback' ie \<lparr>rq_method = ''GET'', rq_path = ''/inventory/'' @ v, rq_body = body'\<rparr> t = http_GetInventory isys v t \<and>
       serve router fallback'' pe \<lparr>rq_method = ''GET'', rq_path = ''/payments/order/'' @ v, rq_body = body''\<rparr> u =
         http_GetPaymentByOrder psys fmt v u) \<and>
    (\<forall>body s t u. serve router fallback oe \<lparr>rq_method = ''GET'', rq_path = ''/health'', rq_body = body\<rparr> s = (HealthCheck, s) \<and>
       serve router fallback' ie \<lparr>rq_method = ''GET'', rq_path = ''/health'', rq_body = body'\<rparr> t = (HealthCheck, t) \<and>
       serve router fallback'' pe \<lparr>rq_method = ''GET'', rq_path = ''/health'', rq_body = body''\<rparr> u = (HealthCheck, u)) \<and>
    (\<forall>rq s. rq_method rq \<noteq> ''POST'' \<longrightarrow> durable (snd (serve router fallback oe rq s)) = durable s) \<and>
    (\<forall>rq t. durable (snd (serve router fallback' ie rq t)) = durable t) \<and>
    (\<forall>rq u. durable (snd (serve router fallback'' pe rq u)) = durable u)"
proof -
  obtain oe where oe: "order_http osys bind fmt = Some oe" by (simp add: order_routes)
  obtain ie :: "('c, inventory_db pg) echo" where ie: "inventory_http isys = Some ie" by (simp add: inventory_routes)
  obtain pe :: "('d, payment_db pg) echo" where pe: "payment_http psys fmt = Some pe" by (simp add: payment_routes)
  note dispatch = order_dispatch [OF assms(1) oe] inventory_dispatch [OF assms(1) ie] payment_dispatch [OF assms(1) pe]
  note harmless = order_http_harmless [OF assms(1) oe prod.collapse [symmetric]]
    inventory_http_harmless [OF assms(1) ie prod.collapse [symmetric]]
    payment_http_harmless [OF assms(1) pe prod.collapse [symmetric] assms(2)]
  show ?thesis
    by (intro exI conjI allI impI; (rule oe ie pe | rule dispatch harmless; assumption?))
qed

theorem http_surface_witness:
  "\<exists>pe. payment_http sample_sys (\<lambda>_. '''') = Some pe \<and>
     (\<forall>s. serve first_match (\<lambda>_. c_JSON 404 JNull) pe \<lparr>rq_method = ''GET'', rq_path = ''/health'', rq_body = ()\<rparr> s = (HealthCheck, s))"
  using http_surface [OF first_match_ok, of sample_sys sample_sys "\<lambda>_. Inl ErrNoRows" "\<lambda>_. ''''" sample_sys
      "\<lambda>_. c_JSON 404 JNull" "\<lambda>_. c_JSON 404 JNull" "()" "\<lambda>_. c_JSON 404 JNull" "()"] by auto

end
